(* ===== verification/Prelude.thy ===== *)
theory Prelude
  imports Main "HOL-Library.Word" "HOL-Library.AList"
begin

text \<open>
  Shared vocabulary of the development: Go's machine integers, durations and instants, the
  bind of fallible computations, and the generic facts on lists, association lists and
  arithmetic that the component theories use.

  A \<open>time.Time\<close> is the number of nanoseconds since year 1 (so the zero time, for which
  \<open>IsZero\<close> holds, is \<open>0\<close>); a \<open>time.Duration\<close> is its number of nanoseconds. Both are
  integers; the places where Go saturates or wraps are written out.
\<close>

type_synonym duration = int
type_synonym gotime = int

named_theorems go_arith \<open>definitions of Go's integer operations\<close>
named_theorems validators \<open>definitions of configuration and input validators\<close>

subsection \<open>Machine integers\<close>

abbreviation max_int64 :: int where "max_int64 \<equiv> 9223372036854775807"
abbreviation min_int64 :: int where "min_int64 \<equiv> - 9223372036854775808"

text \<open>Two's-complement wrap-around of a 64-bit signed result.\<close>

definition wrap64 :: "int \<Rightarrow> int" where
  [go_arith]: "wrap64 x = (x + 9223372036854775808) mod 18446744073709551616 - 9223372036854775808"

text \<open>Go's integer division and remainder truncate towards zero.\<close>

definition go_div :: "int \<Rightarrow> int \<Rightarrow> int" where
  [go_arith]: "go_div a b = sgn a * sgn b * (\<bar>a\<bar> div \<bar>b\<bar>)"

definition go_mod :: "int \<Rightarrow> int \<Rightarrow> int" where
  [go_arith]: "go_mod a b = a - b * go_div a b"

lemma wrap64_id [simp]: "min_int64 \<le> x \<Longrightarrow> x \<le> max_int64 \<Longrightarrow> wrap64 x = x"
  by (simp add: wrap64_def)

lemma wrap64_range: "min_int64 \<le> wrap64 x" "wrap64 x \<le> max_int64"
proof -
  have "0 \<le> (x + 9223372036854775808) mod 18446744073709551616"
    "(x + 9223372036854775808) mod 18446744073709551616 < (18446744073709551616::int)"
    by simp_all
  then show "min_int64 \<le> wrap64 x" "wrap64 x \<le> max_int64"
    by (simp_all add: wrap64_def)
qed

lemma go_div_nonneg [simp]: "0 \<le> a \<Longrightarrow> 0 < b \<Longrightarrow> go_div a b = a div b"
  by (cases "a = 0") (simp_all add: go_div_def sgn_if)

lemma go_mod_nonneg [simp]: "0 \<le> a \<Longrightarrow> 0 < b \<Longrightarrow> go_mod a b = a mod b"
  by (simp add: go_mod_def minus_mult_div_eq_mod)

lemma int_div_less_iff: "(0::int) < n \<Longrightarrow> a div n < x \<longleftrightarrow> a < x * n"
proof
  assume n: "0 < n" and less: "a div n < x"
  have "a mod n < n" using n by simp
  then have "a < (a div n + 1) * n" using div_mult_mod_eq [of a n] unfolding distrib_right by linarith
  also have "\<dots> \<le> x * n" using less n by (intro mult_right_mono) auto
  finally show "a < x * n" .
next
  assume n: "0 < n" and less: "a < x * n"
  show "a div n < x"
  proof (rule ccontr)
    assume "\<not> a div n < x"
    then have "x * n \<le> a div n * n" using n by (intro mult_right_mono) auto
    also have "\<dots> \<le> a" using n by (simp add: minus_mod_eq_div_mult [symmetric])
    finally show False using less by simp
  qed
qed

subsection \<open>Instants\<close>

definition is_zero :: "gotime \<Rightarrow> bool" where
  [simp]: "is_zero t \<longleftrightarrow> t = 0"

text \<open>\<open>Time.Sub\<close> saturates at the range of a duration.\<close>

definition time_sub :: "gotime \<Rightarrow> gotime \<Rightarrow> duration" where
  "time_sub a b = max min_int64 (min max_int64 (a - b))"

lemma time_sub_le: "0 \<le> a - b \<Longrightarrow> time_sub a b \<le> a - b"
  by (simp add: time_sub_def)

lemma time_sub_exact: "\<bar>a - b\<bar> \<le> max_int64 \<Longrightarrow> time_sub a b = a - b"
  by (simp add: time_sub_def)

subsection \<open>Fallible computations\<close>

text \<open>An error return is the left summand; \<open>bindR\<close> is Go's \<open>if err != nil \{ return err \}\<close>.\<close>

definition bindR :: "'e + 'a \<Rightarrow> ('a \<Rightarrow> 'e + 'b) \<Rightarrow> 'e + 'b" where
  "bindR r f = (case r of Inl e \<Rightarrow> Inl e | Inr a \<Rightarrow> f a)"

lemma bindR_simps [simp]: "bindR (Inl e) f = Inl e" "bindR (Inr a) f = f a"
  by (simp_all add: bindR_def)

lemma bindR_Inr_iff: "bindR r f = Inr b \<longleftrightarrow> (\<exists>a. r = Inr a \<and> f a = Inr b)"
  by (cases r) simp_all

lemma bindR_Inl_iff: "bindR r f = Inl e \<longleftrightarrow> r = Inl e \<or> (\<exists>a. r = Inr a \<and> f a = Inl e)"
  by (cases r) auto

subsection \<open>Go maps\<close>

text \<open>
  A Go map is an association list with unique keys; \<open>m[k]\<close> for a missing key reads the zero
  value \<open>d\<close> of the element type.
\<close>

definition go_get :: "'v \<Rightarrow> ('k \<times> 'v) list \<Rightarrow> 'k \<Rightarrow> 'v" where
  "go_get d m k = (case map_of m k of None \<Rightarrow> d | Some v \<Rightarrow> v)"

lemma go_get_Nil [simp]: "go_get d [] = (\<lambda>_. d)"
  by (simp add: go_get_def fun_eq_iff)

lemma go_get_update [simp]: "go_get d (AList.update k v m) = (go_get d m)(k := v)"
  by (simp add: go_get_def fun_eq_iff AList.update_conv')

lemma go_get_delete [simp]: "go_get d (AList.delete k m) = (go_get d m)(k := d)"
  by (simp add: go_get_def fun_eq_iff AList.delete_conv')

lemma map_of_update [simp]: "map_of (AList.update k v m) = (map_of m)(k \<mapsto> v)"
  by (rule AList.update_conv')

lemma map_of_delete [simp]: "map_of (AList.delete k m) = (map_of m)(k := None)"
  by (rule AList.delete_conv')

lemma update_new: "map_of m k = None \<Longrightarrow> AList.update k v m = m @ [(k, v)]"
  by (induction m) (auto split: if_splits)

lemma delete_filter: "AList.delete k m = filter (\<lambda>p. fst p \<noteq> k) m"
  by (auto simp: AList.delete_eq intro!: filter_cong)

lemma distinct_keys_update [simp]: "distinct (map fst m) \<Longrightarrow> distinct (map fst (AList.update k v m))"
  by (rule AList.distinct_update)

lemma distinct_keys_delete [simp]: "distinct (map fst m) \<Longrightarrow> distinct (map fst (AList.delete k m))"
  by (rule AList.distinct_delete)

lemma length_delete_present:
  "distinct (map fst m) \<Longrightarrow> map_of m k = Some v \<Longrightarrow> Suc (length (AList.delete k m)) = length m"
proof (induction m)
  case (Cons p m)
  have "fst p = k \<Longrightarrow> filter (\<lambda>p. fst p \<noteq> k) m = m" using Cons.prems by (auto simp: filter_id_conv rev_image_eqI)
  with Cons show ?case by (auto simp: delete_filter split: if_splits)
qed simp

subsection \<open>Strings\<close>

text \<open>
  A Go string is its bytes. \<open>blank s\<close> says that \<open>strings.TrimSpace(s)\<close> is empty: every rune is one of
  Unicode's white space characters, whose UTF-8 encodings are listed.
\<close>

fun blank_bytes :: "int list \<Rightarrow> bool" where
  "blank_bytes [] = True"
| "blank_bytes (a # bs) =
    (if a \<in> {9, 10, 11, 12, 13, 32} then blank_bytes bs
     else if a = 194 then (case bs of b # cs \<Rightarrow> b \<in> {133, 160} \<and> blank_bytes cs | [] \<Rightarrow> False)
     else (case bs of
         b # c # ds \<Rightarrow>
           ((a = 225 \<and> b = 154 \<and> c = 128) \<or> (a = 226 \<and> b = 128 \<and> (128 \<le> c \<and> c \<le> 138 \<or> c \<in> {168, 169, 175})) \<or>
            (a = 226 \<and> b = 129 \<and> c = 159) \<or> (a = 227 \<and> b = 128 \<and> c = 128)) \<and> blank_bytes ds
       | _ \<Rightarrow> False))"

definition blank :: "string \<Rightarrow> bool" where
  "blank s = blank_bytes (map of_char s)"

end
