(* ===== verification/Resilience.thy ===== *)
theory Resilience
  imports Prelude
begin

text \<open>
  The retry policy of \<open>internal/resilience\<close>: the backoff schedule (\<open>backoff.go\<close>) and the
  decision whether a failed attempt is retried (\<open>retry.go\<close>), over the types of
  \<open>types.go\<close>. A Go string type with named constants is a datatype with one constructor per
  constant and one for every other string, so that the validity checks of the code have
  something to reject. The clock is read by the caller of each definition (argument
  \<open>now\<close>); the random source is a function from the requested limit to the drawn value,
  absent when the interface value is nil.
\<close>

subsection \<open>types.go\<close>

datatype FailureClass =
    FailureInvalidRequest | FailureAuthentication | FailurePermission | FailureQuota
  | FailureRateLimit | FailureProviderTemporary | FailureProviderPermanent | FailureTimeout
  | FailureNetwork | FailureCanceled | FailureStreamInterrupted | FailureStorage
  | FailureUncertain | FailureOther string

datatype SendBoundary =
    SendNotStarted | SendRejected | SendAccepted | SendUncertain | SendOther string

datatype ClientBoundary = ClientUncommitted | ClientCommitted | ClientOther string

record RetryAfter =
  ra_Delay :: duration
  ra_At :: gotime

record RetryInput =
  ri_Attempt :: int
  ri_RequestStartedAt :: gotime
  ri_Failure :: FailureClass
  ri_SendBoundary :: SendBoundary
  ri_ClientBoundary :: ClientBoundary
  ri_IdempotencyGuaranteed :: bool
  ri_RetryAfter :: "RetryAfter option"

datatype RetryAction = RetrySchedule | RetryStop | RetryUncertain

datatype RetryReason =
    ReasonRetryableFailure | ReasonTerminalFailure | ReasonAttemptBudget
  | ReasonElapsedBudget | ReasonSendUncertain | ReasonClientCommitted | ReasonCanceled

record RetryDecision =
  rd_Action :: RetryAction
  rd_Reason :: RetryReason
  rd_NextAttempt :: int
  rd_Delay :: duration
  rd_NextAttemptAt :: gotime

datatype ErrorKind = ErrorInvalidConfiguration | ErrorInvalidInput | ErrorRandomSource

text \<open>The errors of the package, and the panic of a call through a nil interface.\<close>

datatype rerror = RError ErrorKind string | NilInterfacePanic

type_synonym random = "(int \<Rightarrow> int) option"

subsection \<open>backoff.go\<close>

record BackoffConfig =
  bc_Initial :: duration
  bc_Maximum :: duration
  bc_MultiplierNumerator :: int
  bc_MultiplierDenominator :: int
  bc_JitterPermille :: int

definition validate_backoff :: "BackoffConfig \<Rightarrow> random \<Rightarrow> rerror option" where
  [validators]: "validate_backoff c random =
    (if bc_Initial c \<le> 0 \<or> bc_Maximum c < bc_Initial c then
       Some (RError ErrorInvalidConfiguration ''backoff durations must be positive and ordered'')
     else if bc_MultiplierDenominator c \<le> 0 \<or> bc_MultiplierDenominator c > 1000 \<or>
       bc_MultiplierNumerator c < bc_MultiplierDenominator c \<or> bc_MultiplierNumerator c > 1000 \<or>
       bc_MultiplierNumerator c > wrap64 (bc_MultiplierDenominator c * 100) then
       Some (RError ErrorInvalidConfiguration ''backoff multiplier must be between one and one hundred'')
     else if bc_JitterPermille c < 0 \<or> bc_JitterPermille c > 1000 then
       Some (RError ErrorInvalidConfiguration ''backoff jitter must be a permille value'')
     else if bc_Maximum c > go_div max_int64 2000 then
       Some (RError ErrorInvalidConfiguration ''maximum backoff exceeds the fixed-point range'')
     else if bc_JitterPermille c > 0 \<and> random = None then
       Some (RError ErrorInvalidConfiguration ''backoff jitter requires a random source'')
     else None)"

text \<open>
  The loop of \<open>backoffDelay\<close>: \<open>ordinal\<close> counts up to \<open>retryOrdinal\<close>, \<open>base\<close>
  grows by the multiplier and is clamped at the maximum. Every product and sum is a wrapping
  64-bit operation.
\<close>

function backoff_base :: "BackoffConfig \<Rightarrow> int \<Rightarrow> int \<Rightarrow> duration \<Rightarrow> duration" where
  "backoff_base c retryOrdinal ordinal base =
    (if ordinal < retryOrdinal \<and> base < bc_Maximum c then
       if base > go_div (wrap64 (bc_Maximum c * bc_MultiplierDenominator c)) (bc_MultiplierNumerator c) then
         bc_Maximum c
       else
         let next = go_div (wrap64 (wrap64 (wrap64 (base * bc_MultiplierNumerator c) + bc_MultiplierDenominator c) - 1))
                      (bc_MultiplierDenominator c);
             next = (if next > bc_Maximum c then bc_Maximum c else next)
         in backoff_base c retryOrdinal (ordinal + 1) next
     else base)"
  by pat_completeness auto
termination
  by (relation "measure (\<lambda>(c, r, ord, b). nat (r - ord))") auto

declare backoff_base.simps [simp del]

definition backoffDelay :: "BackoffConfig \<Rightarrow> int \<Rightarrow> random \<Rightarrow> rerror + duration" where
  "backoffDelay config retryOrdinal random =
    (let base = backoff_base config retryOrdinal 1 (bc_Initial config) in
     if bc_JitterPermille config = 0 then Inr base
     else
       let spread = go_div (wrap64 (base * bc_JitterPermille config)) 1000;
           lower = wrap64 (base - spread);
           upper = wrap64 (base + spread);
           upper = (if upper > bc_Maximum config then bc_Maximum config else upper);
           width = wrap64 (wrap64 (upper - lower) + 1)
       in case random of
            None \<Rightarrow> Inl NilInterfacePanic
          | Some int63n \<Rightarrow>
              let offset = int63n width in
              if offset < 0 \<or> offset \<ge> width then
                Inl (RError ErrorRandomSource ''random source returned a value outside its requested range'')
              else Inr (wrap64 (lower + offset)))"

subsection \<open>retry.go\<close>

record RetryConfig =
  rc_MaxAttempts :: int
  rc_MaxElapsed :: duration
  rc_Backoff :: BackoffConfig

record 'clock RetryPolicy =
  rp_config :: RetryConfig
  rp_clock :: 'clock
  rp_random :: random

definition NewRetryPolicy :: "RetryConfig \<Rightarrow> 'clock option \<Rightarrow> random \<Rightarrow> rerror + 'clock RetryPolicy" where
  [validators]: "NewRetryPolicy config clock random =
    (if rc_MaxAttempts config \<le> 0 \<or> rc_MaxAttempts config > 1000 then
       Inl (RError ErrorInvalidConfiguration ''max attempts must be between one and one thousand'')
     else if rc_MaxElapsed config \<le> 0 then
       Inl (RError ErrorInvalidConfiguration ''max elapsed must be positive'')
     else case clock of
       None \<Rightarrow> Inl (RError ErrorInvalidConfiguration ''clock is required'')
     | Some clk \<Rightarrow>
         (case validate_backoff (rc_Backoff config) random of
            Some err \<Rightarrow> Inl err
          | None \<Rightarrow> Inr \<lparr>rp_config = config, rp_clock = clk, rp_random = random\<rparr>))"

fun validFailure :: "FailureClass \<Rightarrow> bool" where
  "validFailure (FailureOther _) = False"
| "validFailure _ = True"

fun validSendBoundary :: "SendBoundary \<Rightarrow> bool" where
  "validSendBoundary (SendOther _) = False"
| "validSendBoundary _ = True"

fun validClientBoundary :: "ClientBoundary \<Rightarrow> bool" where
  "validClientBoundary (ClientOther _) = False"
| "validClientBoundary _ = True"

fun retryableFailure :: "FailureClass \<Rightarrow> bool" where
  "retryableFailure FailureRateLimit = True"
| "retryableFailure FailureProviderTemporary = True"
| "retryableFailure FailureTimeout = True"
| "retryableFailure FailureNetwork = True"
| "retryableFailure FailureStreamInterrupted = True"
| "retryableFailure FailureUncertain = True"
| "retryableFailure _ = False"

definition validateRetryInput :: "RetryInput \<Rightarrow> gotime \<Rightarrow> rerror option" where
  [validators]: "validateRetryInput input now =
    (if ri_Attempt input \<le> 0 \<or> is_zero (ri_RequestStartedAt input) \<or> now < ri_RequestStartedAt input then
       Some (RError ErrorInvalidInput ''attempt and request start time are invalid'')
     else if \<not> validFailure (ri_Failure input) \<or> \<not> validSendBoundary (ri_SendBoundary input) \<or>
       \<not> validClientBoundary (ri_ClientBoundary input) then
       Some (RError ErrorInvalidInput ''retry input contains an invalid state'')
     else None)"

definition retry_after_delay :: "RetryAfter \<Rightarrow> gotime \<Rightarrow> rerror + duration" where
  "retry_after_delay ra now =
    (if ra_Delay ra < 0 \<or> (\<not> is_zero (ra_At ra) \<and> ra_Delay ra \<noteq> 0) then
       Inl (RError ErrorInvalidInput ''retry-after must contain one non-negative delay or deadline'')
     else if \<not> is_zero (ra_At ra) then
       if \<not> (ra_At ra > now) then Inr 0 else Inr (time_sub (ra_At ra) now)
     else Inr (ra_Delay ra))"

definition stopRetry :: "RetryReason \<Rightarrow> RetryDecision" where
  "stopRetry reason = \<lparr>rd_Action = RetryStop, rd_Reason = reason, rd_NextAttempt = 0,
     rd_Delay = 0, rd_NextAttemptAt = 0\<rparr>"

definition Decide :: "'clock RetryPolicy \<Rightarrow> gotime \<Rightarrow> RetryInput \<Rightarrow> rerror + RetryDecision" where
  "Decide p now input =
    (case validateRetryInput input now of
       Some err \<Rightarrow> Inl err
     | None \<Rightarrow>
         if ri_ClientBoundary input = ClientCommitted then Inr (stopRetry ReasonClientCommitted)
         else if ri_Failure input = FailureCanceled then Inr (stopRetry ReasonCanceled)
         else if (ri_Failure input = FailureUncertain \<or> ri_SendBoundary input = SendUncertain) \<and>
             \<not> ri_IdempotencyGuaranteed input then
           Inr \<lparr>rd_Action = RetryUncertain, rd_Reason = ReasonSendUncertain, rd_NextAttempt = 0,
             rd_Delay = 0, rd_NextAttemptAt = 0\<rparr>
         else if \<not> retryableFailure (ri_Failure input) then Inr (stopRetry ReasonTerminalFailure)
         else if ri_Attempt input \<ge> rc_MaxAttempts (rp_config p) then Inr (stopRetry ReasonAttemptBudget)
         else
           let deadline = ri_RequestStartedAt input + rc_MaxElapsed (rp_config p) in
           if \<not> now < deadline then Inr (stopRetry ReasonElapsedBudget)
           else
             bindR (backoffDelay (rc_Backoff (rp_config p)) (ri_Attempt input) (rp_random p)) (\<lambda>delay.
             bindR (case ri_RetryAfter input of
                      None \<Rightarrow> Inr delay
                    | Some ra \<Rightarrow> bindR (retry_after_delay ra now) (\<lambda>rad.
                        Inr (if rad > delay then rad else delay))) (\<lambda>delay.
             let nextAttemptAt = now + delay in
             if \<not> nextAttemptAt < deadline then Inr (stopRetry ReasonElapsedBudget)
             else Inr \<lparr>rd_Action = RetrySchedule, rd_Reason = ReasonRetryableFailure,
                    rd_NextAttempt = ri_Attempt input + 1, rd_Delay = delay,
                    rd_NextAttemptAt = nextAttemptAt\<rparr>)))"

subsection \<open>Arithmetic of a validated backoff\<close>

lemma validate_backoff_None:
  assumes "validate_backoff c random = None"
  shows "0 < bc_Initial c" "bc_Initial c \<le> bc_Maximum c"
    "0 < bc_MultiplierDenominator c" "bc_MultiplierDenominator c \<le> 1000"
    "bc_MultiplierDenominator c \<le> bc_MultiplierNumerator c" "bc_MultiplierNumerator c \<le> 1000"
    "0 \<le> bc_JitterPermille c" "bc_JitterPermille c \<le> 1000"
    "bc_Maximum c \<le> 4611686018427387"
    "0 < bc_MultiplierNumerator c"
    "0 < bc_JitterPermille c \<Longrightarrow> random \<noteq> None"
  using assms by (auto simp: validate_backoff_def split: if_splits)

text \<open>The growth step on unbounded integers: the ceiling of the product, clamped.\<close>

definition ideal_next :: "BackoffConfig \<Rightarrow> duration \<Rightarrow> duration" where
  "ideal_next c x =
     min (bc_Maximum c)
       ((x * bc_MultiplierNumerator c + bc_MultiplierDenominator c - 1) div bc_MultiplierDenominator c)"

definition ideal_base :: "BackoffConfig \<Rightarrow> nat \<Rightarrow> duration" where
  "ideal_base c n = (ideal_next c ^^ n) (bc_Initial c)"

lemma ceil_div_ge:
  fixes x num den :: int
  assumes "0 < den" "den \<le> num" "0 \<le> x"
  shows "x \<le> (x * num + den - 1) div den"
proof -
  have "x * den \<le> x * num" using assms by (simp add: mult_left_mono)
  then have "x * den \<le> x * num + den - 1" using assms by linarith
  then have "x * den div den \<le> (x * num + den - 1) div den"
    using assms by (intro zdiv_mono1) auto
  then show ?thesis using assms by simp
qed

lemma ideal_next_bounds:
  assumes v: "validate_backoff c random = None" and x: "0 < x" "x \<le> bc_Maximum c"
  shows "x \<le> ideal_next c x" "ideal_next c x \<le> bc_Maximum c"
  using validate_backoff_None [OF v] x
    ceil_div_ge [of "bc_MultiplierDenominator c" "bc_MultiplierNumerator c" x]
  by (simp_all add: ideal_next_def)

lemma ideal_next_Maximum:
  assumes v: "validate_backoff c random = None"
  shows "ideal_next c (bc_Maximum c) = bc_Maximum c"
  using ideal_next_bounds [OF v, of "bc_Maximum c"] validate_backoff_None(1,2) [OF v] by simp

lemma ideal_next_saturates:
  assumes v: "validate_backoff c random = None" and x: "0 < x"
    and big: "bc_Maximum c * bc_MultiplierDenominator c div bc_MultiplierNumerator c < x"
  shows "ideal_next c x = bc_Maximum c"
proof -
  note f = validate_backoff_None [OF v]
  let ?m = "bc_Maximum c" and ?d = "bc_MultiplierDenominator c" and ?n = "bc_MultiplierNumerator c"
  have "?m * ?d < x * ?n"
    using big f(10) by (simp add: int_div_less_iff)
  then have "?m * ?d \<le> x * ?n + ?d - 1" using f by linarith
  then have "?m * ?d div ?d \<le> (x * ?n + ?d - 1) div ?d" using f by (intro zdiv_mono1) auto
  then have "?m \<le> (x * ?n + ?d - 1) div ?d" using f by simp
  then show ?thesis by (simp add: ideal_next_def)
qed

lemma wrapped_growth_exact:
  assumes v: "validate_backoff c random = None" and x: "0 < x"
    and small: "x \<le> bc_Maximum c * bc_MultiplierDenominator c div bc_MultiplierNumerator c"
  shows "go_div (wrap64 (wrap64 (wrap64 (x * bc_MultiplierNumerator c) + bc_MultiplierDenominator c) - 1))
      (bc_MultiplierDenominator c)
    = (x * bc_MultiplierNumerator c + bc_MultiplierDenominator c - 1) div bc_MultiplierDenominator c"
proof -
  note f = validate_backoff_None [OF v]
  let ?m = "bc_Maximum c" and ?d = "bc_MultiplierDenominator c" and ?n = "bc_MultiplierNumerator c"
  have "x * ?n \<le> ?m * ?d"
    using small f(10) by (metis int_div_less_iff not_less)
  moreover have "?m * ?d \<le> 4611686018427387 * 1000" using f by (intro mult_mono) auto
  ultimately have "x * ?n \<le> 4611686018427387000" by linarith
  moreover have "0 < x * ?n" using x f by simp
  ultimately show ?thesis using f by simp
qed

lemma wrapped_limit_exact:
  assumes v: "validate_backoff c random = None"
  shows "go_div (wrap64 (bc_Maximum c * bc_MultiplierDenominator c)) (bc_MultiplierNumerator c)
    = bc_Maximum c * bc_MultiplierDenominator c div bc_MultiplierNumerator c"
proof -
  note f = validate_backoff_None [OF v]
  have "bc_Maximum c * bc_MultiplierDenominator c \<le> 4611686018427387 * 1000"
    using f by (intro mult_mono) auto
  moreover have pos: "0 < bc_Maximum c * bc_MultiplierDenominator c" using f by simp
  ultimately have "wrap64 (bc_Maximum c * bc_MultiplierDenominator c)
      = bc_Maximum c * bc_MultiplierDenominator c"
    by (intro wrap64_id) linarith+
  then show ?thesis using pos f(10) by (simp only: go_div_nonneg less_imp_le)
qed

lemma backoff_base_unfold:
  assumes v: "validate_backoff c random = None" and b: "0 < base" "base \<le> bc_Maximum c"
  shows "backoff_base c r ord base =
    (if ord < r \<and> base < bc_Maximum c then backoff_base c r (ord + 1) (ideal_next c base) else base)"
proof (cases "ord < r \<and> base < bc_Maximum c \<and>
    base \<le> bc_Maximum c * bc_MultiplierDenominator c div bc_MultiplierNumerator c")
  case True
  then show ?thesis
    using wrapped_growth_exact [OF v b(1)]
    by (subst backoff_base.simps) (simp add: wrapped_limit_exact [OF v] ideal_next_def Let_def min_def)
next
  case False
  then show ?thesis
    using ideal_next_saturates [OF v b(1)] backoff_base.simps [of c r "ord + 1" "bc_Maximum c"]
    by (subst backoff_base.simps) (auto simp: wrapped_limit_exact [OF v])
qed

lemma backoff_base_iterate:
  assumes v: "validate_backoff c random = None" and b: "0 < base" "base \<le> bc_Maximum c"
  shows "backoff_base c r ord base = (ideal_next c ^^ nat (r - ord)) base"
  using b
proof (induction "nat (r - ord)" arbitrary: ord base)
  case 0
  then show ?case by (simp add: backoff_base.simps)
next
  case (Suc n)
  then have n: "n = nat (r - (ord + 1))" and "ord < r" by linarith+
  have next_b: "0 < ideal_next c base" "ideal_next c base \<le> bc_Maximum c"
    using ideal_next_bounds [OF v Suc.prems] Suc.prems by linarith+
  have fixed: "(ideal_next c ^^ k) (bc_Maximum c) = bc_Maximum c" for k
    by (induction k) (simp_all add: ideal_next_Maximum [OF v])
  show ?case
    using Suc.hyps(1) [OF n next_b] Suc.prems \<open>ord < r\<close> fixed
    by (cases "base < bc_Maximum c")
      (simp_all add: backoff_base_unfold [OF v] Suc.hyps(2) [symmetric] n funpow_swap1
        ideal_next_Maximum [OF v])
qed

lemma ideal_base_bounds:
  assumes v: "validate_backoff c random = None"
  shows "bc_Initial c \<le> ideal_base c n" "ideal_base c n \<le> bc_Maximum c"
proof (induction n)
  case 0
  { case 1 show ?case by (simp add: ideal_base_def) }
  { case 2 show ?case using validate_backoff_None [OF v] by (simp add: ideal_base_def) }
next
  case (Suc n)
  then have pos: "0 < ideal_base c n" using validate_backoff_None [OF v] by linarith
  note step = ideal_next_bounds [OF v pos Suc.IH(2)]
  { case 1 show ?case using step Suc.IH by (simp add: ideal_base_def) }
  { case 2 show ?case using step by (simp add: ideal_base_def) }
qed


subsection \<open>The retry policy\<close>

lemma NewRetryPolicy_Inr:
  assumes "NewRetryPolicy config clock random = Inr p"
  shows "0 < rc_MaxAttempts config" "rc_MaxAttempts config \<le> 1000" "0 < rc_MaxElapsed config"
    "validate_backoff (rc_Backoff config) random = None" "rp_config p = config" "rp_random p = random"
  using assms by (auto simp: NewRetryPolicy_def split: if_splits option.splits)

text \<open>A random source keeps its contract when every draw lies in the requested range.\<close>

definition fair_random :: "random \<Rightarrow> bool" where
  "fair_random random \<longleftrightarrow> (\<forall>f w. random = Some f \<longrightarrow> 0 < w \<longrightarrow> 0 \<le> f w \<and> f w < w)"

lemma backoffDelay_jitter:
  assumes v: "validate_backoff c random = None" and n: "1 \<le> n"
  defines "base \<equiv> ideal_base c (nat (n - 1))"
  defines "spread \<equiv> base * bc_JitterPermille c div 1000"
  defines "lower \<equiv> base - spread" and "upper \<equiv> min (base + spread) (bc_Maximum c)"
  shows "0 \<le> lower" "lower \<le> base" "base \<le> upper" "upper \<le> bc_Maximum c"
    "backoffDelay c n random =
      (if bc_JitterPermille c = 0 then Inr base
       else case random of None \<Rightarrow> Inl NilInterfacePanic
         | Some f \<Rightarrow> (if f (upper - lower + 1) < 0 \<or> f (upper - lower + 1) \<ge> upper - lower + 1
              then Inl (RError ErrorRandomSource ''random source returned a value outside its requested range'')
              else Inr (lower + f (upper - lower + 1))))"
proof -
  note f = validate_backoff_None [OF v]
  have b: "0 < base" "base \<le> bc_Maximum c"
    using ideal_base_bounds [OF v, of "nat (n - 1)"] f unfolding base_def by linarith+
  have prod: "base * bc_JitterPermille c \<le> base * 1000" "0 \<le> base * bc_JitterPermille c"
    using f b by (auto intro: mult_left_mono)
  have spread: "0 \<le> spread" "spread \<le> base"
    using zdiv_mono1 [OF prod(1), of 1000] prod(2)
    by (simp_all add: spread_def pos_imp_zdiv_nonneg_iff del: zero_le_mult_iff)
  show low: "0 \<le> lower" "lower \<le> base" and up: "base \<le> upper" "upper \<le> bc_Maximum c"
    using spread b by (auto simp: lower_def upper_def)
  have base: "backoff_base c n 1 (bc_Initial c) = base"
    using backoff_base_iterate [OF v, of "bc_Initial c"] f n by (simp add: base_def ideal_base_def)
  have w0: "wrap64 (base * bc_JitterPermille c) = base * bc_JitterPermille c"
    using prod f(9) b by (intro wrap64_id) linarith+
  have w: "wrap64 (base - spread) = lower" "wrap64 (base + spread) = base + spread"
    "wrap64 (wrap64 (upper - lower) + 1) = upper - lower + 1"
    using f(9) b spread low up by (simp_all add: lower_def [symmetric])
  have sp: "go_div (base * bc_JitterPermille c) 1000 = spread"
    using prod(2) by (simp only: go_div_nonneg spread_def zero_less_numeral)
  have up_eq: "(if base + spread > bc_Maximum c then bc_Maximum c else base + spread) = upper"
    by (simp add: upper_def min_def)
  have sum: "wrap64 (lower + k) = lower + k" if "0 \<le> k" "k < upper - lower + 1" for k
    using that low up f by simp
  show "backoffDelay c n random =
      (if bc_JitterPermille c = 0 then Inr base
       else case random of None \<Rightarrow> Inl NilInterfacePanic
         | Some f \<Rightarrow> (if f (upper - lower + 1) < 0 \<or> f (upper - lower + 1) \<ge> upper - lower + 1
              then Inl (RError ErrorRandomSource ''random source returned a value outside its requested range'')
              else Inr (lower + f (upper - lower + 1))))"
    unfolding backoffDelay_def base Let_def w0 sp w(1,2) up_eq w(3)
    by (auto simp: sum split: option.split)
qed

lemma retry_after_delay_nonneg:
  "retry_after_delay ra now = Inr d \<Longrightarrow> 0 \<le> d"
  by (auto simp: retry_after_delay_def time_sub_def split: if_splits)


lemma backoffDelay_in_band:
  assumes v: "validate_backoff c random = None" and "fair_random random" and n: "1 \<le> n"
  defines "base \<equiv> ideal_base c (nat (n - 1))"
  shows "\<exists>d. backoffDelay c n random = Inr d \<and>
       base - base * bc_JitterPermille c div 1000 \<le> d \<and> d \<le> base + base * bc_JitterPermille c div 1000 \<and>
       0 \<le> d \<and> d \<le> bc_Maximum c"
proof -
  note f = validate_backoff_None [OF v]
  note j = backoffDelay_jitter [OF v n, folded base_def]
  let ?lower = "base - base * bc_JitterPermille c div 1000"
  let ?upper = "min (base + base * bc_JitterPermille c div 1000) (bc_Maximum c)"
  show "\<exists>d. backoffDelay c n random = Inr d \<and> ?lower \<le> d \<and>
      d \<le> base + base * bc_JitterPermille c div 1000 \<and> 0 \<le> d \<and> d \<le> bc_Maximum c"
  proof (cases "bc_JitterPermille c = 0")
    case True
    then show ?thesis using j by auto
  next
    case False
    then obtain g where g: "random = Some g" using f by fastforce
    have w: "0 < ?upper - ?lower + 1" using j by linarith
    then have r: "0 \<le> g (?upper - ?lower + 1) \<and> g (?upper - ?lower + 1) < ?upper - ?lower + 1"
      using assms(2) g unfolding fair_random_def by blast
    let ?d = "?lower + g (?upper - ?lower + 1)"
    have "backoffDelay c n random = Inr ?d" using j(5) g False r by simp
    moreover have "?lower \<le> ?d" "?d \<le> ?upper" using r by linarith+
    moreover have "?upper \<le> base + base * bc_JitterPermille c div 1000" "?upper \<le> bc_Maximum c" by simp_all
    ultimately show ?thesis using j(1) by (intro exI [of _ ?d]) linarith
  qed
qed

lemma Decide_reaches_backoff:
  assumes "validateRetryInput input now = None" "ri_ClientBoundary input \<noteq> ClientCommitted"
    "(ri_Failure input = FailureUncertain \<or> ri_SendBoundary input = SendUncertain) \<longrightarrow> ri_IdempotencyGuaranteed input"
    "retryableFailure (ri_Failure input)" "ri_Attempt input < rc_MaxAttempts (rp_config p)"
    "now < ri_RequestStartedAt input + rc_MaxElapsed (rp_config p)"
  shows "Decide p now input =
    bindR (backoffDelay (rc_Backoff (rp_config p)) (ri_Attempt input) (rp_random p)) (\<lambda>delay.
    bindR (case ri_RetryAfter input of None \<Rightarrow> Inr delay
      | Some ra \<Rightarrow> bindR (retry_after_delay ra now) (\<lambda>rad. Inr (max rad delay))) (\<lambda>delay.
    if now + delay < ri_RequestStartedAt input + rc_MaxElapsed (rp_config p)
    then Inr \<lparr>rd_Action = RetrySchedule, rd_Reason = ReasonRetryableFailure,
           rd_NextAttempt = ri_Attempt input + 1, rd_Delay = delay, rd_NextAttemptAt = now + delay\<rparr>
    else Inr (stopRetry ReasonElapsedBudget)))"
proof -
  have max: "(\<lambda>rad. Inr (if rad > delay then rad else delay)) = (\<lambda>rad. Inr (max rad delay) :: rerror + int)" for delay :: int
    by (auto simp: max_def)
  have "ri_Failure input \<noteq> FailureCanceled" using assms(4) by auto
  with assms show ?thesis
    unfolding Decide_def max by (auto simp: Let_def bindR_def intro!: arg_cong2 [where f = bindR] ext split: option.split sum.split)
qed

subsection \<open>Properties\<close>

text \<open>
  C15. For every validated configuration the wrapping fixed-point arithmetic of the backoff loop
  never overflows: its result is the Initial duration grown \<open>n - 1\<close> times by the exact
  ceiling of the multiplier, clamped at Maximum; and with a random source that keeps its
  contract \<open>backoffDelay\<close> returns a delay within the jitter band around that base, never
  negative and never above Maximum.
\<close>

theorem backoffDelay_correct:
  assumes v: "validate_backoff c random = None" and "fair_random random" and n: "1 \<le> n"
  defines "base \<equiv> ideal_base c (nat (n - 1))"
  shows "backoff_base c n 1 (bc_Initial c) = base \<and>
    (\<exists>d. backoffDelay c n random = Inr d \<and>
       base - base * bc_JitterPermille c div 1000 \<le> d \<and> d \<le> base + base * bc_JitterPermille c div 1000 \<and>
       0 \<le> d \<and> d \<le> bc_Maximum c)"
  using backoffDelay_in_band [OF assms(1-3)] backoff_base_iterate [OF v, of "bc_Initial c"]
    validate_backoff_None(1,2) [OF v]
  by (simp add: base_def ideal_base_def)

theorem backoffDelay_correct_witness:
  "backoffDelay \<lparr>bc_Initial = 100, bc_Maximum = 1000, bc_MultiplierNumerator = 3,
     bc_MultiplierDenominator = 2, bc_JitterPermille = 200\<rparr> 3 (Some (\<lambda>w. w - 1)) = Inr 270 \<and>
   backoff_base \<lparr>bc_Initial = 100, bc_Maximum = 1000, bc_MultiplierNumerator = 3,
     bc_MultiplierDenominator = 2, bc_JitterPermille = 200\<rparr> 3 1 100 = 225"
proof -
  let ?c = "\<lparr>bc_Initial = 100, bc_Maximum = 1000, bc_MultiplierNumerator = 3,
     bc_MultiplierDenominator = 2, bc_JitterPermille = 200\<rparr>"
  have v: "validate_backoff ?c (Some (\<lambda>w. w - 1)) = None" by (simp add: validate_backoff_def)
  have r: "fair_random (Some (\<lambda>w. w - 1))" by (simp add: fair_random_def)
  have base: "ideal_base ?c (nat (3 - 1)) = 225" by (simp add: ideal_base_def ideal_next_def eval_nat_numeral)
  have loop: "backoff_base ?c 3 1 100 = 225"
    using backoffDelay_correct [OF v r, of 3] base by simp
  then show ?thesis by (simp add: backoffDelay_def Let_def)
qed

text \<open>
  C16. A retry is scheduled only when it is safe and within budget: the client has seen nothing,
  the failure class is retryable, an uncertain send is replayed only under an idempotency
  guarantee, the attempt budget and the elapsed-time budget both hold at the scheduled time, and
  the delay is never shorter than the wait a valid Retry-After asked for.
\<close>

theorem Decide_schedule_safe:
  assumes "NewRetryPolicy config clock random = Inr p"
    and "Decide p now input = Inr d" and "rd_Action d = RetrySchedule"
  shows "ri_ClientBoundary input = ClientUncommitted \<and> retryableFailure (ri_Failure input) \<and>
    (ri_Failure input = FailureUncertain \<or> ri_SendBoundary input = SendUncertain \<longrightarrow> ri_IdempotencyGuaranteed input) \<and>
    ri_Attempt input < rc_MaxAttempts config \<and> rd_NextAttempt d = ri_Attempt input + 1 \<and>
    rd_NextAttemptAt d = now + rd_Delay d \<and>
    rd_NextAttemptAt d < ri_RequestStartedAt input + rc_MaxElapsed config \<and>
    0 \<le> rd_Delay d \<and>
    (\<forall>ra. ri_RetryAfter input = Some ra \<longrightarrow> (\<exists>w. retry_after_delay ra now = Inr w \<and> w \<le> rd_Delay d))"
proof -
  note p = NewRetryPolicy_Inr [OF assms(1)]
  have val: "validateRetryInput input now = None"
    using assms(2) by (auto simp: Decide_def split: option.splits)
  then have cb: "validClientBoundary (ri_ClientBoundary input)" and at: "1 \<le> ri_Attempt input"
    by (auto simp: validateRetryInput_def split: if_splits)
  have reach: "ri_ClientBoundary input \<noteq> ClientCommitted"
    "(ri_Failure input = FailureUncertain \<or> ri_SendBoundary input = SendUncertain) \<longrightarrow> ri_IdempotencyGuaranteed input"
    "retryableFailure (ri_Failure input)" "ri_Attempt input < rc_MaxAttempts (rp_config p)"
    "now < ri_RequestStartedAt input + rc_MaxElapsed (rp_config p)"
    using assms(2,3) val
    by (auto simp: Decide_def stopRetry_def Let_def not_le not_less split: if_splits)
  note eq = Decide_reaches_backoff [OF val reach]
  from assms(2,3) obtain b where b: "backoffDelay (rc_Backoff config) (ri_Attempt input) random = Inr b"
    unfolding eq by (auto simp: bindR_Inr_iff p)
  have nonneg: "0 \<le> b"
    using b backoffDelay_jitter [OF p(4) at] by (auto split: if_splits option.splits)
  have "ri_ClientBoundary input = ClientUncommitted"
    using reach(1) cb by (cases "ri_ClientBoundary input") auto
  moreover have "rd_NextAttempt d = ri_Attempt input + 1 \<and> rd_NextAttemptAt d = now + rd_Delay d \<and>
    rd_NextAttemptAt d < ri_RequestStartedAt input + rc_MaxElapsed config \<and> 0 \<le> rd_Delay d \<and>
    (\<forall>ra. ri_RetryAfter input = Some ra \<longrightarrow> (\<exists>w. retry_after_delay ra now = Inr w \<and> w \<le> rd_Delay d))"
    using assms(2,3) nonneg unfolding eq
    by (auto simp: b p bindR_Inr_iff stopRetry_def split: if_splits option.splits)
  ultimately show ?thesis using reach p by simp
qed


abbreviation sample_retry_config :: RetryConfig where
  "sample_retry_config \<equiv> \<lparr>rc_MaxAttempts = 3, rc_MaxElapsed = 10000, rc_Backoff =
     \<lparr>bc_Initial = 100, bc_Maximum = 1000, bc_MultiplierNumerator = 2,
      bc_MultiplierDenominator = 1, bc_JitterPermille = 0\<rparr>\<rparr>"

abbreviation sample_retry_input :: RetryInput where
  "sample_retry_input \<equiv> \<lparr>ri_Attempt = 2, ri_RequestStartedAt = 500, ri_Failure = FailureRateLimit,
     ri_SendBoundary = SendRejected, ri_ClientBoundary = ClientUncommitted,
     ri_IdempotencyGuaranteed = False, ri_RetryAfter = Some \<lparr>ra_Delay = 900, ra_At = 0\<rparr>\<rparr>"

lemmas retry_eval = NewRetryPolicy_def validate_backoff_def Decide_def validateRetryInput_def
  retry_after_delay_def backoffDelay_def backoff_base.simps Let_def

theorem Decide_schedule_safe_witness:
  "\<exists>p d. NewRetryPolicy sample_retry_config (Some ()) None = Inr p \<and>
     Decide p 1000 sample_retry_input = Inr d \<and> rd_NextAttemptAt d = 1900 \<and>
     rd_NextAttemptAt d < 500 + rc_MaxElapsed sample_retry_config"
proof -
  let ?p = "\<lparr>rp_config = sample_retry_config, rp_clock = (), rp_random = None\<rparr>"
  let ?d = "\<lparr>rd_Action = RetrySchedule, rd_Reason = ReasonRetryableFailure, rd_NextAttempt = 3,
     rd_Delay = 900, rd_NextAttemptAt = 1900\<rparr>"
  have p: "NewRetryPolicy sample_retry_config (Some ()) None = Inr ?p" by (simp add: retry_eval)
  have d: "Decide ?p 1000 sample_retry_input = Inr ?d" by (simp add: retry_eval)
  show ?thesis using Decide_schedule_safe [OF p d] p d by auto
qed

text \<open>
  The decision is total and live: for a policy the constructor accepted, a random source that
  keeps its contract and a well-formed input, \<open>Decide\<close> returns a decision. It reports an
  uncertain outcome exactly when the send may have been executed and no idempotency guarantee
  covers a replay, and it does schedule the retry whenever nothing forbids it and the
  elapsed-time budget has room for the maximum backoff.
\<close>

theorem Decide_total:
  assumes new: "NewRetryPolicy config clock random = Inr p" and "fair_random random"
    and val: "validateRetryInput input now = None"
    and ra: "\<And>ra. ri_RetryAfter input = Some ra \<Longrightarrow> 0 \<le> ra_Delay ra \<and> (ra_At ra = 0 \<or> ra_Delay ra = 0)"
  shows "\<exists>d. Decide p now input = Inr d \<and>
    (rd_Action d = RetryUncertain \<longleftrightarrow>
       ri_ClientBoundary input \<noteq> ClientCommitted \<and> ri_Failure input \<noteq> FailureCanceled \<and>
       (ri_Failure input = FailureUncertain \<or> ri_SendBoundary input = SendUncertain) \<and>
       \<not> ri_IdempotencyGuaranteed input) \<and>
    (ri_ClientBoundary input \<noteq> ClientCommitted \<and> retryableFailure (ri_Failure input) \<and>
     (ri_Failure input = FailureUncertain \<or> ri_SendBoundary input = SendUncertain \<longrightarrow> ri_IdempotencyGuaranteed input) \<and>
     ri_Attempt input < rc_MaxAttempts config \<and> ri_RetryAfter input = None \<and>
     now + bc_Maximum (rc_Backoff config) < ri_RequestStartedAt input + rc_MaxElapsed config
     \<longrightarrow> rd_Action d = RetrySchedule)"
proof -
  note p = NewRetryPolicy_Inr [OF new]
  have "1 \<le> ri_Attempt input" using val by (auto simp: validateRetryInput_def split: if_splits)
  from backoffDelay_in_band [OF p(4) assms(2) this] obtain b where
    b: "backoffDelay (rc_Backoff config) (ri_Attempt input) random = Inr b" "0 \<le> b"
      "b \<le> bc_Maximum (rc_Backoff config)"
    by blast
  have rad: "\<exists>w. retry_after_delay x now = Inr w" if "ri_RetryAfter input = Some x" for x
    using ra [OF that] by (auto simp: retry_after_delay_def)
  show ?thesis
  proof (cases "ri_RetryAfter input")
    case None
    then show ?thesis using val p b by (auto simp: Decide_def stopRetry_def Let_def)
  next
    case (Some x)
    with rad obtain w where "retry_after_delay x now = Inr w" by blast
    with Some show ?thesis using val p b by (auto simp: Decide_def stopRetry_def Let_def)
  qed
qed

theorem Decide_total_witness:
  "\<exists>p d. NewRetryPolicy sample_retry_config (Some ()) None = Inr p \<and>
     Decide p 1000 (sample_retry_input\<lparr>ri_RetryAfter := None\<rparr>) = Inr d \<and> rd_Action d = RetrySchedule"
proof -
  let ?p = "\<lparr>rp_config = sample_retry_config, rp_clock = (), rp_random = None\<rparr>"
  have p: "NewRetryPolicy sample_retry_config (Some ()) None = Inr ?p" by (simp add: retry_eval)
  have v: "validateRetryInput (sample_retry_input\<lparr>ri_RetryAfter := None\<rparr>) 1000 = None"
    by (simp add: validateRetryInput_def)
  show ?thesis using Decide_total [OF p _ v] p by (auto simp: fair_random_def)
qed

end
