(* ===== verification/Circuit.thy ===== *)
theory Circuit
  imports Resilience
begin

text \<open>
  The circuit breaker of \<open>internal/resilience/circuit.go\<close>. Every method that holds the
  circuit's mutex is one function on the circuit record; the clock reading is an argument.
  \<open>Permit.Complete\<close> takes two locks one after the other (the permit's, then the circuit's),
  so it is two functions, \<open>permit_mark\<close> and \<open>circuit_complete\<close>, and the concurrent system
  below interleaves them freely with other permits' completions and with acquisitions. The
  generation is the code's 64-bit counter.
\<close>

datatype CircuitState = CircuitClosed | CircuitOpen | CircuitHalfOpen

record CircuitConfig =
  cc_FailureThreshold :: int
  cc_SuccessThreshold :: int
  cc_OpenDuration :: duration
  cc_HalfOpenMaxInFlight :: int

record CircuitSnapshot =
  sn_State :: CircuitState
  sn_ConsecutiveFailures :: int
  sn_HalfOpenSuccesses :: int
  sn_HalfOpenInFlight :: int
  sn_RetryAt :: gotime

datatype PermitResult = PermitSucceeded | PermitFailed | PermitReleased | PermitOther string

record Circuit =
  ci_config :: CircuitConfig
  ci_state :: CircuitState
  ci_generation :: "64 word"
  ci_consecutiveFailures :: int
  ci_halfOpenSuccesses :: int
  ci_halfOpenInFlight :: int
  ci_retryAt :: gotime

text \<open>\<open>pm_attached\<close>: the permit's circuit pointer is not nil.\<close>

record Permit =
  pm_completed :: bool
  pm_attached :: bool
  pm_generation :: "64 word"
  pm_state :: CircuitState

record AcquireResult =
  ar_Allowed :: bool
  ar_State :: CircuitState
  ar_RetryAt :: gotime
  ar_Permit :: "Permit option"

definition NewCircuit :: "CircuitConfig \<Rightarrow> 'clock option \<Rightarrow> rerror + Circuit" where
  [validators]: "NewCircuit config clock =
    (if cc_FailureThreshold config \<le> 0 \<or> cc_SuccessThreshold config \<le> 0 \<or>
        cc_OpenDuration config \<le> 0 \<or> cc_HalfOpenMaxInFlight config \<le> 0 then
       Inl (RError ErrorInvalidConfiguration ''circuit thresholds, duration, and probe limit must be positive'')
     else if clock = None then
       Inl (RError ErrorInvalidConfiguration ''clock is required'')
     else Inr \<lparr>ci_config = config, ci_state = CircuitClosed, ci_generation = 0,
       ci_consecutiveFailures = 0, ci_halfOpenSuccesses = 0, ci_halfOpenInFlight = 0, ci_retryAt = 0\<rparr>)"

definition toOpenLocked :: "gotime \<Rightarrow> Circuit \<Rightarrow> Circuit" where
  "toOpenLocked now c = c\<lparr>ci_state := CircuitOpen, ci_generation := ci_generation c + 1,
     ci_consecutiveFailures := 0, ci_halfOpenSuccesses := 0, ci_halfOpenInFlight := 0,
     ci_retryAt := now + cc_OpenDuration (ci_config c)\<rparr>"

definition toHalfOpenLocked :: "Circuit \<Rightarrow> Circuit" where
  "toHalfOpenLocked c = c\<lparr>ci_state := CircuitHalfOpen, ci_generation := ci_generation c + 1,
     ci_halfOpenSuccesses := 0, ci_halfOpenInFlight := 0, ci_retryAt := 0\<rparr>"

definition toClosedLocked :: "Circuit \<Rightarrow> Circuit" where
  "toClosedLocked c = c\<lparr>ci_state := CircuitClosed, ci_generation := ci_generation c + 1,
     ci_consecutiveFailures := 0, ci_halfOpenSuccesses := 0, ci_halfOpenInFlight := 0, ci_retryAt := 0\<rparr>"

definition Acquire :: "gotime \<Rightarrow> Circuit \<Rightarrow> AcquireResult \<times> Circuit" where
  "Acquire now c =
    (let c = (if ci_state c = CircuitOpen \<and> \<not> now < ci_retryAt c then toHalfOpenLocked c else c) in
     if ci_state c = CircuitOpen then
       (\<lparr>ar_Allowed = False, ar_State = CircuitOpen, ar_RetryAt = ci_retryAt c, ar_Permit = None\<rparr>, c)
     else if ci_state c = CircuitHalfOpen \<and> ci_halfOpenInFlight c \<ge> cc_HalfOpenMaxInFlight (ci_config c) then
       (\<lparr>ar_Allowed = False, ar_State = CircuitHalfOpen, ar_RetryAt = 0, ar_Permit = None\<rparr>, c)
     else
       let c = (if ci_state c = CircuitHalfOpen then c\<lparr>ci_halfOpenInFlight := ci_halfOpenInFlight c + 1\<rparr> else c);
           permit = \<lparr>pm_completed = False, pm_attached = True, pm_generation = ci_generation c, pm_state = ci_state c\<rparr>
       in (\<lparr>ar_Allowed = True, ar_State = ci_state c, ar_RetryAt = 0, ar_Permit = Some permit\<rparr>, c))"

text \<open>The first critical section of \<open>Permit.Complete\<close>: whether the caller goes on.\<close>

definition permit_mark :: "Permit option \<Rightarrow> PermitResult \<Rightarrow> bool \<times> Permit option" where
  "permit_mark p result =
    (case p of
       None \<Rightarrow> (False, None)
     | Some pm \<Rightarrow>
         if \<not> pm_attached pm then (False, p)
         else if result \<noteq> PermitSucceeded \<and> result \<noteq> PermitFailed \<and> result \<noteq> PermitReleased then (False, p)
         else if pm_completed pm then (False, p)
         else (True, Some (pm\<lparr>pm_completed := True\<rparr>)))"

text \<open>The second critical section: \<open>Circuit.complete\<close>.\<close>

definition circuit_complete ::
  "gotime \<Rightarrow> 64 word \<Rightarrow> CircuitState \<Rightarrow> PermitResult \<Rightarrow> Circuit \<Rightarrow> bool \<times> Circuit" where
  "circuit_complete now generation permitState result c =
    (if generation \<noteq> ci_generation c \<or> permitState \<noteq> ci_state c then (False, c)
     else case ci_state c of
       CircuitClosed \<Rightarrow>
         (case result of
            PermitSucceeded \<Rightarrow> (True, c\<lparr>ci_consecutiveFailures := 0\<rparr>)
          | PermitFailed \<Rightarrow>
              let c = c\<lparr>ci_consecutiveFailures := ci_consecutiveFailures c + 1\<rparr> in
              if ci_consecutiveFailures c \<ge> cc_FailureThreshold (ci_config c)
              then (True, toOpenLocked now c) else (True, c)
          | _ \<Rightarrow> (True, c))
     | CircuitHalfOpen \<Rightarrow>
         let c = (if ci_halfOpenInFlight c > 0 then c\<lparr>ci_halfOpenInFlight := ci_halfOpenInFlight c - 1\<rparr> else c) in
         (case result of
            PermitSucceeded \<Rightarrow>
              let c = c\<lparr>ci_halfOpenSuccesses := ci_halfOpenSuccesses c + 1\<rparr> in
              if ci_halfOpenSuccesses c \<ge> cc_SuccessThreshold (ci_config c)
              then (True, toClosedLocked c) else (True, c)
          | PermitFailed \<Rightarrow> (True, toOpenLocked now c)
          | _ \<Rightarrow> (True, c))
     | CircuitOpen \<Rightarrow> (False, c))"

definition Complete ::
  "gotime \<Rightarrow> PermitResult \<Rightarrow> Permit option \<Rightarrow> Circuit \<Rightarrow> bool \<times> Permit option \<times> Circuit" where
  "Complete now result p c =
    (case permit_mark p result of
       (True, Some pm) \<Rightarrow>
         (case circuit_complete now (pm_generation pm) (pm_state pm) result c of (b, c') \<Rightarrow> (b, Some pm, c'))
     | (_, p') \<Rightarrow> (False, p', c))"

definition Snapshot :: "Circuit \<Rightarrow> CircuitSnapshot" where
  "Snapshot c = \<lparr>sn_State = ci_state c, sn_ConsecutiveFailures = ci_consecutiveFailures c,
     sn_HalfOpenSuccesses = ci_halfOpenSuccesses c, sn_HalfOpenInFlight = ci_halfOpenInFlight c,
     sn_RetryAt = ci_retryAt c\<rparr>"

subsection \<open>The concurrent system\<close>

text \<open>
  All permits ever handed out, and the completions whose first critical section has run but
  whose second has not.
\<close>

record csys =
  cs_circuit :: Circuit
  cs_permits :: "Permit list"
  cs_pending :: "(64 word \<times> CircuitState \<times> PermitResult) list"

inductive circuit_step :: "csys \<Rightarrow> csys \<Rightarrow> bool" where
  acquire: "Acquire now (cs_circuit s) = (r, c') \<Longrightarrow>
    circuit_step s (s\<lparr>cs_circuit := c',
      cs_permits := cs_permits s @ (case ar_Permit r of None \<Rightarrow> [] | Some p \<Rightarrow> [p])\<rparr>)"
| mark: "i < length (cs_permits s) \<Longrightarrow> permit_mark (Some (cs_permits s ! i)) res = (True, Some p') \<Longrightarrow>
    circuit_step s (s\<lparr>cs_permits := (cs_permits s)[i := p'],
      cs_pending := (pm_generation p', pm_state p', res) # cs_pending s\<rparr>)"
| apply_pending: "cs_pending s = pre @ (g, st, res) # post \<Longrightarrow>
    circuit_complete now g st res (cs_circuit s) = (b, c') \<Longrightarrow>
    circuit_step s (s\<lparr>cs_circuit := c', cs_pending := pre @ post\<rparr>)"

text \<open>\<open>circuit_run config n s\<close>: \<open>s\<close> is reached from a new circuit in \<open>n\<close> steps.\<close>

inductive circuit_run :: "CircuitConfig \<Rightarrow> nat \<Rightarrow> csys \<Rightarrow> bool" where
  start: "NewCircuit config (Some ()) = Inr c \<Longrightarrow>
    circuit_run config 0 \<lparr>cs_circuit = c, cs_permits = [], cs_pending = []\<rparr>"
| step: "circuit_run config n s \<Longrightarrow> circuit_step s t \<Longrightarrow> circuit_run config (Suc n) t"

text \<open>The probes in flight: half-open permits of the current generation not yet accounted for.\<close>

definition live_permits :: "csys \<Rightarrow> Permit list" where
  "live_permits s = filter (\<lambda>p. \<not> pm_completed p \<and> pm_generation p = ci_generation (cs_circuit s)
     \<and> pm_state p = CircuitHalfOpen) (cs_permits s)"

definition live_pending :: "csys \<Rightarrow> (64 word \<times> CircuitState \<times> PermitResult) list" where
  "live_pending s = filter (\<lambda>(g, st, r). g = ci_generation (cs_circuit s) \<and> st = CircuitHalfOpen) (cs_pending s)"

definition counters_ok :: "Circuit \<Rightarrow> int \<Rightarrow> bool" where
  "counters_ok c probes \<longleftrightarrow>
    (case ci_state c of
       CircuitClosed \<Rightarrow> 0 \<le> ci_consecutiveFailures c \<and> ci_consecutiveFailures c < cc_FailureThreshold (ci_config c) \<and>
         ci_halfOpenSuccesses c = 0 \<and> ci_halfOpenInFlight c = 0 \<and> ci_retryAt c = 0
     | CircuitOpen \<Rightarrow> ci_consecutiveFailures c = 0 \<and> ci_halfOpenSuccesses c = 0 \<and> ci_halfOpenInFlight c = 0
     | CircuitHalfOpen \<Rightarrow> ci_consecutiveFailures c = 0 \<and> 0 \<le> ci_halfOpenSuccesses c \<and>
         ci_halfOpenSuccesses c < cc_SuccessThreshold (ci_config c) \<and>
         ci_halfOpenInFlight c = probes \<and> probes \<le> cc_HalfOpenMaxInFlight (ci_config c) \<and> ci_retryAt c = 0)"

definition stamp_ok :: "Circuit \<Rightarrow> 64 word \<Rightarrow> CircuitState \<Rightarrow> bool" where
  "stamp_ok c g st \<longleftrightarrow> unat g \<le> unat (ci_generation c) \<and> (g = ci_generation c \<longrightarrow> st = ci_state c)"

definition circuit_inv :: "CircuitConfig \<Rightarrow> nat \<Rightarrow> csys \<Rightarrow> bool" where
  "circuit_inv config n s \<longleftrightarrow>
    ci_config (cs_circuit s) = config \<and>
    0 < cc_FailureThreshold config \<and> 0 < cc_SuccessThreshold config \<and>
    0 < cc_OpenDuration config \<and> 0 < cc_HalfOpenMaxInFlight config \<and>
    unat (ci_generation (cs_circuit s)) \<le> n \<and>
    (\<forall>p \<in> set (cs_permits s). stamp_ok (cs_circuit s) (pm_generation p) (pm_state p)) \<and>
    (\<forall>(g, st, r) \<in> set (cs_pending s). stamp_ok (cs_circuit s) g st) \<and>
    counters_ok (cs_circuit s) (int (length (live_permits s) + length (live_pending s)))"

subsection \<open>The invariant\<close>

lemmas transition_defs = toOpenLocked_def toHalfOpenLocked_def toClosedLocked_def
lemmas live_defs = live_permits_def live_pending_def

lemma unat_generation_Suc:
  fixes g :: "64 word"
  assumes "unat g \<le> n" and "Suc n < 2 ^ 64"
  shows "unat (g + 1) = Suc (unat g)"
proof -
  have "unat g + 1 < 2 ^ 64" using assms by linarith
  then show ?thesis by (simp add: unat_word_ariths)
qed

lemma stamp_ok_counters [simp]:
  "stamp_ok (c\<lparr>ci_halfOpenInFlight := x\<rparr>) g st = stamp_ok c g st"
  "stamp_ok (c\<lparr>ci_halfOpenSuccesses := x\<rparr>) g st = stamp_ok c g st"
  "stamp_ok (c\<lparr>ci_consecutiveFailures := x\<rparr>) g st = stamp_ok c g st"
  by (simp_all add: stamp_ok_def)

text \<open>A state change makes every permit handed out before it stale.\<close>

lemma stamp_ok_advance:
  assumes "stamp_ok c g st" "unat (ci_generation c) \<le> n" "Suc n < 2 ^ 64"
    "ci_generation c' = ci_generation c + 1"
  shows "g \<noteq> ci_generation c'" "stamp_ok c' g st'"
proof -
  have less: "unat g < unat (ci_generation c')"
    using assms unat_generation_Suc [OF assms(2,3)] by (simp add: stamp_ok_def)
  then show "g \<noteq> ci_generation c'" by auto
  with less show "stamp_ok c' g st'" by (simp add: stamp_ok_def)
qed

lemma circuit_inv_advance:
  assumes inv: "circuit_inv config n s" and n: "Suc n < 2 ^ 64"
    and gen: "ci_generation c' = ci_generation (cs_circuit s) + 1"
    and conf: "ci_config c' = config" and ok: "counters_ok c' 0"
    and sub: "set pend \<subseteq> set (cs_pending s)"
  shows "circuit_inv config (Suc n) (s\<lparr>cs_circuit := c', cs_pending := pend\<rparr>)"
proof -
  have g: "unat (ci_generation (cs_circuit s)) \<le> n" using inv by (simp add: circuit_inv_def)
  have p: "pm_generation p \<noteq> ci_generation c' \<and> stamp_ok c' (pm_generation p) (pm_state p)"
    if "p \<in> set (cs_permits s)" for p
    using inv that stamp_ok_advance [OF _ g n gen] by (auto simp: circuit_inv_def)
  have q: "gr \<noteq> ci_generation c' \<and> stamp_ok c' gr st" if "(gr, st, r) \<in> set pend" for gr st r
    using inv that sub stamp_ok_advance [OF _ g n gen, of gr st] by (fastforce simp: circuit_inv_def)
  have "live_permits (s\<lparr>cs_circuit := c', cs_pending := pend\<rparr>) = []"
    "live_pending (s\<lparr>cs_circuit := c', cs_pending := pend\<rparr>) = []"
    using p q by (auto simp: live_defs filter_empty_conv)
  then show ?thesis
    using inv ok conf p q unat_generation_Suc [OF g n] gen
    by (auto simp: circuit_inv_def)
qed

lemma circuit_inv_start:
  "NewCircuit config (Some ()) = Inr c \<Longrightarrow>
    circuit_inv config 0 \<lparr>cs_circuit = c, cs_permits = [], cs_pending = []\<rparr>"
  by (auto simp: NewCircuit_def circuit_inv_def counters_ok_def split: if_splits)

text \<open>An acquisition without a state change.\<close>

lemma circuit_inv_grant:
  assumes inv: "circuit_inv config n s" and st: "ci_state (cs_circuit s) \<noteq> CircuitOpen"
    and room: "ci_state (cs_circuit s) = CircuitHalfOpen \<Longrightarrow>
      ci_halfOpenInFlight (cs_circuit s) < cc_HalfOpenMaxInFlight config"
  defines "c' \<equiv> (if ci_state (cs_circuit s) = CircuitHalfOpen
      then (cs_circuit s)\<lparr>ci_halfOpenInFlight := ci_halfOpenInFlight (cs_circuit s) + 1\<rparr> else cs_circuit s)"
  defines "p \<equiv> \<lparr>pm_completed = False, pm_attached = True,
      pm_generation = ci_generation (cs_circuit s), pm_state = ci_state (cs_circuit s)\<rparr>"
  shows "circuit_inv config n (s\<lparr>cs_circuit := c', cs_permits := cs_permits s @ [p]\<rparr>)"
proof -
  have "stamp_ok (cs_circuit s) (pm_generation p) (pm_state p)" by (simp add: stamp_ok_def p_def)
  then show ?thesis
    using inv st room
    by (auto simp: circuit_inv_def counters_ok_def live_defs c'_def p_def split: CircuitState.splits)
qed

lemma circuit_inv_acquire:
  assumes inv: "circuit_inv config n s" and n: "Suc n < 2 ^ 64"
    and acq: "Acquire now (cs_circuit s) = (r, c')"
  shows "circuit_inv config (Suc n) (s\<lparr>cs_circuit := c',
      cs_permits := cs_permits s @ (case ar_Permit r of None \<Rightarrow> [] | Some p \<Rightarrow> [p])\<rparr>)"
proof -
  have mono: "circuit_inv config (Suc n) t" if "circuit_inv config n t" for t
    using that by (simp add: circuit_inv_def)
  have conf: "ci_config (cs_circuit s) = config" using inv by (simp add: circuit_inv_def)
  show ?thesis
  proof (cases "ci_state (cs_circuit s) = CircuitOpen \<and> \<not> now < ci_retryAt (cs_circuit s)")
    case True
    let ?s = "s\<lparr>cs_circuit := toHalfOpenLocked (cs_circuit s)\<rparr>"
    have "counters_ok (toHalfOpenLocked (cs_circuit s)) 0"
      using inv True by (simp add: circuit_inv_def counters_ok_def toHalfOpenLocked_def)
    then have half: "circuit_inv config (Suc n) ?s"
      using circuit_inv_advance [OF inv n, of "toHalfOpenLocked (cs_circuit s)" "cs_pending s"] conf
      by (simp add: toHalfOpenLocked_def)
    then have "circuit_inv config (Suc n) (?s\<lparr>cs_circuit := (toHalfOpenLocked (cs_circuit s))
        \<lparr>ci_halfOpenInFlight := 1\<rparr>, cs_permits := cs_permits ?s @ [\<lparr>pm_completed = False, pm_attached = True,
          pm_generation = ci_generation (cs_circuit s) + 1, pm_state = CircuitHalfOpen\<rparr>]\<rparr>)"
      using circuit_inv_grant [OF half] inv by (simp add: toHalfOpenLocked_def circuit_inv_def)
    then show ?thesis
      using acq True inv by (auto simp: Acquire_def toHalfOpenLocked_def circuit_inv_def split: if_splits)
  next
    case False
    then show ?thesis
      using acq mono [OF inv] circuit_inv_grant [OF inv, THEN mono] conf
      by (auto simp: Acquire_def Let_def split: if_splits)
  qed
qed


lemma length_filter_update:
  assumes "i < length xs" "P (xs ! i)" "\<not> P y"
  shows "Suc (length (filter P (xs[i := y]))) = length (filter P xs)"
  using assms by (induction xs arbitrary: i) (auto split: nat.splits simp: nth_Cons)

lemma length_filter_update_same:
  assumes "i < length xs" "P (xs ! i) = P y"
  shows "length (filter P (xs[i := y])) = length (filter P xs)"
  using assms by (induction xs arbitrary: i) (auto split: nat.splits simp: nth_Cons)

text \<open>Marking a permit moves a probe from the live permits to the pending completions.\<close>

lemma circuit_inv_mark:
  assumes inv: "circuit_inv config n s" and i: "i < length (cs_permits s)"
    and mark: "permit_mark (Some (cs_permits s ! i)) res = (True, Some p')"
  shows "circuit_inv config n (s\<lparr>cs_permits := (cs_permits s)[i := p'],
      cs_pending := (pm_generation p', pm_state p', res) # cs_pending s\<rparr>)"
proof -
  let ?p = "cs_permits s ! i"
  have p': "p' = ?p\<lparr>pm_completed := True\<rparr>" and fresh: "\<not> pm_completed ?p"
    using mark by (auto simp: permit_mark_def split: if_splits)
  have stamp: "stamp_ok (cs_circuit s) (pm_generation ?p) (pm_state ?p)"
    using inv i by (simp add: circuit_inv_def)
  let ?P = "\<lambda>p. \<not> pm_completed p \<and> pm_generation p = ci_generation (cs_circuit s) \<and> pm_state p = CircuitHalfOpen"
  have "Suc (length (filter ?P ((cs_permits s)[i := p']))) = length (filter ?P (cs_permits s))" if "?P ?p"
    by (rule length_filter_update) (use i that in \<open>auto simp: p'\<close>)
  moreover have "length (filter ?P ((cs_permits s)[i := p'])) = length (filter ?P (cs_permits s))" if "\<not> ?P ?p"
    by (rule length_filter_update_same) (use i that in \<open>auto simp: p'\<close>)
  ultimately have count: "length (live_permits (s\<lparr>cs_permits := (cs_permits s)[i := p'],
        cs_pending := (pm_generation p', pm_state p', res) # cs_pending s\<rparr>)) +
      length (live_pending (s\<lparr>cs_permits := (cs_permits s)[i := p'],
        cs_pending := (pm_generation p', pm_state p', res) # cs_pending s\<rparr>))
      = length (live_permits s) + length (live_pending s)"
    using fresh by (cases "?P ?p") (auto simp: live_defs p')
  have "\<forall>p \<in> set ((cs_permits s)[i := p']). stamp_ok (cs_circuit s) (pm_generation p) (pm_state p)"
    using inv stamp set_update_subset_insert [of "cs_permits s" i p'] by (auto simp: circuit_inv_def p')
  with inv stamp show ?thesis unfolding circuit_inv_def count by (simp add: p')
qed

text \<open>A completion that does not change the state keeps the counters in step with the probes.\<close>

lemma circuit_complete_same_generation:
  assumes "circuit_complete now g st res c = (b, c')" "ci_generation c' = ci_generation c"
    and "counters_ok c probes" "stamp_ok c g st"
    and "0 \<le> probes - (if g = ci_generation c \<and> st = CircuitHalfOpen then 1 else 0)"
  shows "counters_ok c' (probes - (if g = ci_generation c \<and> st = CircuitHalfOpen then 1 else 0)) \<and>
    ci_state c' = ci_state c \<and> ci_config c' = ci_config c"
proof (cases "g = ci_generation c")
  case False
  then show ?thesis using assms by (auto simp: circuit_complete_def)
next
  case True
  have moved: "ci_generation (toOpenLocked now d) \<noteq> ci_generation d" "ci_generation (toClosedLocked d) \<noteq> ci_generation d" for d
    by (simp_all add: transition_defs)
  have st: "st = ci_state c" using True assms(4) by (simp add: stamp_ok_def)
  show ?thesis
  proof (cases "ci_state c")
    case CircuitClosed
    then show ?thesis using assms(1-3) True st moved(1) [of "c\<lparr>ci_consecutiveFailures := ci_consecutiveFailures c + 1\<rparr>"]
      by (cases res) (auto simp: circuit_complete_def counters_ok_def Let_def split: if_splits)
  next
    case CircuitOpen
    then show ?thesis using assms(1-3) True st by (auto simp: circuit_complete_def counters_ok_def)
  next
    case CircuitHalfOpen
    then have pos: "0 < ci_halfOpenInFlight c" using assms(3,5) True st by (simp add: counters_ok_def)
    show ?thesis
      using assms(1-3) True st pos CircuitHalfOpen
        moved(1) [of "c\<lparr>ci_halfOpenInFlight := ci_halfOpenInFlight c - 1\<rparr>"]
        moved(2) [of "c\<lparr>ci_halfOpenInFlight := ci_halfOpenInFlight c - 1,
          ci_halfOpenSuccesses := ci_halfOpenSuccesses c + 1\<rparr>"]
      by (cases res) (auto simp: circuit_complete_def counters_ok_def Let_def split: if_splits)
  qed
qed

lemma circuit_inv_apply:
  assumes inv: "circuit_inv config n s" and n: "Suc n < 2 ^ 64"
    and pend: "cs_pending s = pre @ (g, st, res) # post"
    and comp: "circuit_complete now g st res (cs_circuit s) = (b, c')"
  shows "circuit_inv config (Suc n) (s\<lparr>cs_circuit := c', cs_pending := pre @ post\<rparr>)"
proof -
  let ?c = "cs_circuit s"
  have conf: "ci_config ?c = config" using inv by (simp add: circuit_inv_def)
  have sub: "set (pre @ post) \<subseteq> set (cs_pending s)" using pend by auto
  note adv = circuit_inv_advance [OF inv n _ _ _ sub]
  show ?thesis
  proof (cases "ci_generation c' = ci_generation ?c")
    case False
    then show ?thesis
      using comp inv conf
      by (intro adv) (auto simp: circuit_complete_def transition_defs Let_def counters_ok_def circuit_inv_def
          split: if_splits CircuitState.splits PermitResult.splits)
  next
    case True
    define probes where "probes = int (length (live_permits s) + length (live_pending s))"
    define left where "left = probes - (if g = ci_generation ?c \<and> st = CircuitHalfOpen then 1 else 0)"
    have left: "int (length (live_permits (s\<lparr>cs_circuit := c', cs_pending := pre @ post\<rparr>)) +
        length (live_pending (s\<lparr>cs_circuit := c', cs_pending := pre @ post\<rparr>))) = left"
      using True pend by (simp add: live_defs left_def probes_def)
    have "0 \<le> left" using left by linarith
    moreover have "stamp_ok ?c g st" using inv pend by (simp add: circuit_inv_def)
    moreover have "counters_ok ?c probes" using inv by (simp add: circuit_inv_def probes_def)
    ultimately have "counters_ok c' left \<and> ci_state c' = ci_state ?c \<and> ci_config c' = config"
      using circuit_complete_same_generation [OF comp True] conf by (simp add: left_def)
    moreover have "stamp_ok c' x y = stamp_ok ?c x y" if "ci_state c' = ci_state ?c" for x y
      using True that by (simp add: stamp_ok_def)
    ultimately show ?thesis using inv sub True unfolding circuit_inv_def left by auto
  qed
qed

lemma circuit_run_inv: "circuit_run config n s \<Longrightarrow> n < 2 ^ 64 \<Longrightarrow> circuit_inv config n s"
proof (induction rule: circuit_run.induct)
  case (start config c)
  then show ?case by (simp add: circuit_inv_start)
next
  case (step config n s t)
  then have inv: "circuit_inv config n s" and n: "Suc n < 2 ^ 64" by simp_all
  from step.hyps(2) show ?case
  proof cases
    case mark
    then show ?thesis using circuit_inv_mark [OF inv] by (fastforce simp: circuit_inv_def)
  qed (auto intro: circuit_inv_acquire [OF inv n] circuit_inv_apply [OF inv n])
qed

subsection \<open>Tripping and recovering\<close>

text \<open>\<open>k\<close> failed completions of permits of the current generation, one after the other.\<close>

definition fail_times :: "gotime \<Rightarrow> nat \<Rightarrow> Circuit \<Rightarrow> Circuit" where
  "fail_times now k c =
     ((\<lambda>d. snd (circuit_complete now (ci_generation c) CircuitClosed PermitFailed d)) ^^ k) c"

lemma fail_times_closed:
  assumes "ci_state c = CircuitClosed" and "ci_consecutiveFailures c + int k < cc_FailureThreshold (ci_config c)"
  shows "fail_times now k c = c\<lparr>ci_consecutiveFailures := ci_consecutiveFailures c + int k\<rparr>"
  using assms by (induction k) (simp_all add: fail_times_def circuit_complete_def Let_def)

lemma fail_times_trip:
  assumes "ci_state c = CircuitClosed"
    and "ci_consecutiveFailures c + int (Suc k) = cc_FailureThreshold (ci_config c)"
  shows "fail_times now (Suc k) c = toOpenLocked now (c\<lparr>ci_consecutiveFailures := ci_consecutiveFailures c + int (Suc k)\<rparr>)"
proof -
  have "fail_times now (Suc k) c =
      snd (circuit_complete now (ci_generation c) CircuitClosed PermitFailed (fail_times now k c))"
    by (simp add: fail_times_def)
  also have "\<dots> = toOpenLocked now (c\<lparr>ci_consecutiveFailures := ci_consecutiveFailures c + int (Suc k)\<rparr>)"
    using assms by (simp add: fail_times_closed circuit_complete_def Let_def algebra_simps)
  finally show ?thesis .
qed

text \<open>One probe: acquire a permit and complete it successfully.\<close>

definition probe :: "gotime \<Rightarrow> Circuit \<Rightarrow> Circuit" where
  "probe now c = (case Acquire now c of (r, c') \<Rightarrow> snd (snd (Complete now PermitSucceeded (ar_Permit r) c')))"

lemma probe_half_open:
  assumes "ci_state c = CircuitHalfOpen" "ci_halfOpenInFlight c = 0" "0 < cc_HalfOpenMaxInFlight (ci_config c)"
  shows "probe now c =
    (if ci_halfOpenSuccesses c + 1 \<ge> cc_SuccessThreshold (ci_config c)
     then toClosedLocked (c\<lparr>ci_halfOpenSuccesses := ci_halfOpenSuccesses c + 1\<rparr>)
     else c\<lparr>ci_halfOpenSuccesses := ci_halfOpenSuccesses c + 1\<rparr>)"
  using assms by (simp add: probe_def Acquire_def Complete_def permit_mark_def circuit_complete_def
      toClosedLocked_def Let_def)

lemma probes_half_open:
  assumes "ci_state c = CircuitHalfOpen" "ci_halfOpenInFlight c = 0" "0 < cc_HalfOpenMaxInFlight (ci_config c)"
    and "ci_halfOpenSuccesses c + int k < cc_SuccessThreshold (ci_config c)"
  shows "(probe now ^^ k) c = c\<lparr>ci_halfOpenSuccesses := ci_halfOpenSuccesses c + int k\<rparr>"
  using assms(4)
proof (induction k)
  case (Suc k)
  then have "(probe now ^^ Suc k) c = probe now (c\<lparr>ci_halfOpenSuccesses := ci_halfOpenSuccesses c + int k\<rparr>)"
    by simp
  also have "\<dots> = c\<lparr>ci_halfOpenSuccesses := ci_halfOpenSuccesses c + int (Suc k)\<rparr>"
    using Suc.prems assms(1-3) by (subst probe_half_open) simp_all
  finally show ?case .
qed simp

subsection \<open>Properties\<close>

text \<open>
  C17. In every state the concurrent system reaches (fewer than \<open>2^64\<close> steps, so that the
  generation counter has not wrapped), under any interleaving of acquisitions and of the two
  halves of completions: a half-open circuit counts exactly the probes in flight and never has
  more than HalfOpenMaxInFlight of them, a closed circuit is below its failure threshold, and
  an open circuit has no live probe.
\<close>

theorem circuit_reachable_invariant:
  assumes "circuit_run config n s" and "n < 2 ^ 64"
  defines "probes \<equiv> int (length (live_permits s) + length (live_pending s))"
  shows "(ci_state (cs_circuit s) = CircuitHalfOpen \<longrightarrow>
      ci_halfOpenInFlight (cs_circuit s) = probes \<and> probes \<le> cc_HalfOpenMaxInFlight config \<and>
      0 \<le> ci_halfOpenSuccesses (cs_circuit s) \<and> ci_halfOpenSuccesses (cs_circuit s) < cc_SuccessThreshold config) \<and>
    (ci_state (cs_circuit s) = CircuitClosed \<longrightarrow> probes = 0 \<and>
      0 \<le> ci_consecutiveFailures (cs_circuit s) \<and> ci_consecutiveFailures (cs_circuit s) < cc_FailureThreshold config) \<and>
    (ci_state (cs_circuit s) = CircuitOpen \<longrightarrow> probes = 0)"
proof -
  have inv: "circuit_inv config n s" by (rule circuit_run_inv [OF assms(1,2)])
  have "live_permits s = [] \<and> live_pending s = []" if "ci_state (cs_circuit s) \<noteq> CircuitHalfOpen"
    using inv that by (auto simp: circuit_inv_def stamp_ok_def live_defs filter_empty_conv)
  with inv show ?thesis
    by (auto simp: circuit_inv_def counters_ok_def probes_def split: CircuitState.splits)
qed

theorem circuit_reachable_invariant_witness:
  "\<exists>s. circuit_run \<lparr>cc_FailureThreshold = 1, cc_SuccessThreshold = 1, cc_OpenDuration = 10, cc_HalfOpenMaxInFlight = 1\<rparr> 1 s \<and>
     length (cs_permits s) = 1 \<and> ci_consecutiveFailures (cs_circuit s) < 1"
proof -
  let ?cfg = "\<lparr>cc_FailureThreshold = 1, cc_SuccessThreshold = 1, cc_OpenDuration = 10, cc_HalfOpenMaxInFlight = 1\<rparr>"
  let ?c = "\<lparr>ci_config = ?cfg, ci_state = CircuitClosed, ci_generation = 0, ci_consecutiveFailures = 0,
     ci_halfOpenSuccesses = 0, ci_halfOpenInFlight = 0, ci_retryAt = 0\<rparr>"
  let ?p = "\<lparr>pm_completed = False, pm_attached = True, pm_generation = 0, pm_state = CircuitClosed\<rparr>"
  let ?r = "\<lparr>ar_Allowed = True, ar_State = CircuitClosed, ar_RetryAt = 0, ar_Permit = Some ?p\<rparr>"
  let ?s = "\<lparr>cs_circuit = ?c, cs_permits = [], cs_pending = []\<rparr>"
  have "circuit_run ?cfg 0 ?s" by (rule circuit_run.start) (simp add: NewCircuit_def)
  moreover have "Acquire 5 (cs_circuit ?s) = (?r, ?c)" by (simp add: Acquire_def)
  ultimately have run: "circuit_run ?cfg (Suc 0) (?s\<lparr>cs_circuit := ?c,
      cs_permits := cs_permits ?s @ (case ar_Permit ?r of None \<Rightarrow> [] | Some p \<Rightarrow> [p])\<rparr>)"
    by (blast intro: circuit_run.step circuit_step.acquire)
  show ?thesis using run circuit_reachable_invariant [OF run] by auto
qed

text \<open>
  A permit counts at most once and never late: completing a permit of another generation or
  state reports False and leaves the circuit as it is, and after one completion with a valid
  result every further \<open>Complete\<close> on that permit, with any result and on any later circuit
  state, reports False and changes neither permit nor circuit.
\<close>

theorem permit_completes_once:
  assumes "Complete now res p c = (b, p', c')"
  shows "(\<forall>pm. p = Some pm \<and> (pm_generation pm \<noteq> ci_generation c \<or> pm_state pm \<noteq> ci_state c) \<longrightarrow> \<not> b \<and> c' = c) \<and>
    (res \<in> {PermitSucceeded, PermitFailed, PermitReleased} \<longrightarrow>
       (\<forall>now2 res2 c2. Complete now2 res2 p' c2 = (False, p', c2)))"
  using assms
  by (auto simp: Complete_def permit_mark_def circuit_complete_def split: option.splits if_splits prod.splits)

theorem permit_completes_once_witness:
  "\<exists>p' c'. Complete 7 PermitFailed (Some \<lparr>pm_completed = False, pm_attached = True, pm_generation = 3, pm_state = CircuitClosed\<rparr>)
      \<lparr>ci_config = \<lparr>cc_FailureThreshold = 1, cc_SuccessThreshold = 1, cc_OpenDuration = 10, cc_HalfOpenMaxInFlight = 1\<rparr>,
       ci_state = CircuitClosed, ci_generation = 4, ci_consecutiveFailures = 0, ci_halfOpenSuccesses = 0,
       ci_halfOpenInFlight = 0, ci_retryAt = 0\<rparr> = (False, p', c') \<and> Complete 8 PermitFailed p' c' = (False, p', c')"
proof -
  let ?p = "\<lparr>pm_completed = False, pm_attached = True, pm_generation = 3, pm_state = CircuitClosed\<rparr>"
  let ?c = "\<lparr>ci_config = \<lparr>cc_FailureThreshold = 1, cc_SuccessThreshold = 1, cc_OpenDuration = 10, cc_HalfOpenMaxInFlight = 1\<rparr>,
       ci_state = CircuitClosed, ci_generation = 4, ci_consecutiveFailures = 0, ci_halfOpenSuccesses = 0,
       ci_halfOpenInFlight = 0, ci_retryAt = 0\<rparr>"
  have "Complete 7 PermitFailed (Some ?p) ?c = (False, Some (?p\<lparr>pm_completed := True\<rparr>), ?c)"
    by (simp add: Complete_def permit_mark_def circuit_complete_def)
  from permit_completes_once [OF this] this show ?thesis by auto
qed

text \<open>
  A closed circuit trips at exactly its threshold of consecutive failures: one failure fewer
  leaves it closed; at the threshold it opens until \<open>now + OpenDuration\<close>, denies every
  acquisition before that instant (without changing state), and from that instant on admits a
  half-open probe.
\<close>

theorem circuit_trips_at_threshold:
  assumes closed: "ci_state c = CircuitClosed" and "0 < cc_HalfOpenMaxInFlight (ci_config c)"
    and k: "ci_consecutiveFailures c + int (Suc k) = cc_FailureThreshold (ci_config c)"
  shows "ci_state (fail_times now k c) = CircuitClosed \<and>
    (let o' = fail_times now (Suc k) c in
       ci_state o' = CircuitOpen \<and> ci_retryAt o' = now + cc_OpenDuration (ci_config c) \<and>
       (\<forall>t < ci_retryAt o'. Acquire t o' =
          (\<lparr>ar_Allowed = False, ar_State = CircuitOpen, ar_RetryAt = ci_retryAt o', ar_Permit = None\<rparr>, o')) \<and>
       (\<forall>t \<ge> ci_retryAt o'. ar_Allowed (fst (Acquire t o')) \<and> ar_State (fst (Acquire t o')) = CircuitHalfOpen \<and>
          ci_halfOpenInFlight (snd (Acquire t o')) = 1))"
  using assms fail_times_closed [OF closed, of k now] fail_times_trip [OF closed k, of now]
  by (simp add: Let_def Acquire_def transition_defs)

theorem circuit_trips_at_threshold_witness:
  "ci_state (fail_times 100 2 \<lparr>ci_config = \<lparr>cc_FailureThreshold = 2, cc_SuccessThreshold = 1, cc_OpenDuration = 10,
     cc_HalfOpenMaxInFlight = 1\<rparr>, ci_state = CircuitClosed, ci_generation = 0, ci_consecutiveFailures = 0,
     ci_halfOpenSuccesses = 0, ci_halfOpenInFlight = 0, ci_retryAt = 0\<rparr>) = CircuitOpen"
  using circuit_trips_at_threshold [of "\<lparr>ci_config = \<lparr>cc_FailureThreshold = 2, cc_SuccessThreshold = 1, cc_OpenDuration = 10,
     cc_HalfOpenMaxInFlight = 1\<rparr>, ci_state = CircuitClosed, ci_generation = 0, ci_consecutiveFailures = 0,
     ci_halfOpenSuccesses = 0, ci_halfOpenInFlight = 0, ci_retryAt = 0\<rparr>" 1 100]
  by (simp add: Let_def numeral_2_eq_2)

text \<open>
  C18. The circuit recovers: from a half-open circuit with no probe in flight and no success yet,
  SuccessThreshold sequential successful probes are all admitted and close the circuit with its
  counters reset, and fewer leave it half-open.
\<close>

theorem circuit_recovers:
  assumes "ci_state c = CircuitHalfOpen" "ci_halfOpenInFlight c = 0" "ci_halfOpenSuccesses c = 0"
    "0 < cc_HalfOpenMaxInFlight (ci_config c)" "cc_SuccessThreshold (ci_config c) = int (Suc k)"
  shows "ci_state ((probe now ^^ k) c) = CircuitHalfOpen \<and>
    (probe now ^^ Suc k) c = toClosedLocked (c\<lparr>ci_halfOpenSuccesses := int (Suc k)\<rparr>) \<and>
    Snapshot ((probe now ^^ Suc k) c) = \<lparr>sn_State = CircuitClosed, sn_ConsecutiveFailures = 0,
      sn_HalfOpenSuccesses = 0, sn_HalfOpenInFlight = 0, sn_RetryAt = 0\<rparr>"
proof -
  have "(probe now ^^ k) c = c\<lparr>ci_halfOpenSuccesses := int k\<rparr>"
    using probes_half_open [of c k now] assms by simp
  moreover have "probe now (c\<lparr>ci_halfOpenSuccesses := int k\<rparr>) = toClosedLocked (c\<lparr>ci_halfOpenSuccesses := int (Suc k)\<rparr>)"
    using assms by (subst probe_half_open) (simp_all add: toClosedLocked_def)
  ultimately show ?thesis using assms by (simp add: Snapshot_def toClosedLocked_def)
qed

theorem circuit_recovers_witness:
  "ci_state ((probe 50 ^^ 2) \<lparr>ci_config = \<lparr>cc_FailureThreshold = 2, cc_SuccessThreshold = 2, cc_OpenDuration = 10,
     cc_HalfOpenMaxInFlight = 1\<rparr>, ci_state = CircuitHalfOpen, ci_generation = 2, ci_consecutiveFailures = 0,
     ci_halfOpenSuccesses = 0, ci_halfOpenInFlight = 0, ci_retryAt = 0\<rparr>) = CircuitClosed"
  using circuit_recovers [of "\<lparr>ci_config = \<lparr>cc_FailureThreshold = 2, cc_SuccessThreshold = 2, cc_OpenDuration = 10,
     cc_HalfOpenMaxInFlight = 1\<rparr>, ci_state = CircuitHalfOpen, ci_generation = 2, ci_consecutiveFailures = 0,
     ci_halfOpenSuccesses = 0, ci_halfOpenInFlight = 0, ci_retryAt = 0\<rparr>" 1 50]
  by (simp add: numeral_2_eq_2 toClosedLocked_def)

end
