(* ===== verification/Routing.thy ===== *)
theory Routing
  imports Prelude "HOL-Library.Char_ord" "HOL-Library.List_Lexorder" "HOL-Library.Multiset"
begin

text \<open>
  Candidate selection of \<open>internal/routing\<close>: the eligibility rules and input validation
  (\<open>eligibility.go\<close>) and the priority-weighted draw of \<open>Router.Select\<close> (\<open>router.go\<close>).
  Identifiers are strings, compared bytewise by the code's sort. The random source is a
  function from the requested limit to the drawn value.
\<close>

subsection \<open>types.go\<close>

type_synonym CandidateID = string
type_synonym ModelID = string
type_synonym ResourcePoolID = string
type_synonym Capability = string

record Candidate =
  ca_ID :: CandidateID
  ca_ModelID :: ModelID
  ca_ResourcePoolID :: ResourcePoolID
  ca_ModelPublished :: bool
  ca_CredentialAuthorized :: bool
  ca_CredentialActive :: bool
  ca_Capabilities :: "Capability list"
  ca_CooldownUntil :: gotime
  ca_Priority :: int
  ca_Weight :: int

record Requirements =
  rq_ModelID :: ModelID
  rq_ResourcePoolID :: ResourcePoolID
  rq_Capabilities :: "Capability list"
  rq_ExcludedCandidates :: "CandidateID list"
  rq_At :: gotime

datatype ExclusionReason =
    ExcludeModelNotPublished | ExcludeModelMismatch | ExcludeResourcePoolMismatch
  | ExcludeMissingCapability | ExcludeCredentialUnauthorized | ExcludeCredentialInactive
  | ExcludeCredentialCooling | ExcludeAttempt

record Exclusion =
  ex_Reason :: ExclusionReason
  ex_Capability :: Capability
  ex_AvailableAt :: gotime

record Evaluation =
  ev_CandidateID :: CandidateID
  ev_Eligible :: bool
  ev_Exclusions :: "Exclusion list"

datatype SelectionMode = SelectionNone | SelectionPriorityWeighted

record Decision =
  de_SelectedCandidateID :: CandidateID
  de_Mode :: SelectionMode
  de_Eligible :: "CandidateID list"
  de_Evaluations :: "Evaluation list"
  de_NextAvailableAt :: gotime

datatype RoutingErrorKind = ErrorInvalidInput | ErrorInvalidCandidate | ErrorDuplicate | ErrorRandomSource

datatype routing_error = RoutingError RoutingErrorKind string CandidateID

subsection \<open>eligibility.go\<close>

definition excl :: "ExclusionReason \<Rightarrow> Exclusion" where
  "excl r = \<lparr>ex_Reason = r, ex_Capability = '''', ex_AvailableAt = 0\<rparr>"

definition evaluateEligibility :: "Requirements \<Rightarrow> Candidate \<Rightarrow> CandidateID set \<Rightarrow> Exclusion list" where
  "evaluateEligibility requirements candidate excluded =
    (if \<not> ca_ModelPublished candidate then [excl ExcludeModelNotPublished] else []) @
    (if ca_ModelID candidate \<noteq> rq_ModelID requirements then [excl ExcludeModelMismatch] else []) @
    (if ca_ResourcePoolID candidate \<noteq> rq_ResourcePoolID requirements then [excl ExcludeResourcePoolMismatch] else []) @
    (if \<not> ca_CredentialAuthorized candidate then [excl ExcludeCredentialUnauthorized] else []) @
    (if \<not> ca_CredentialActive candidate then [excl ExcludeCredentialInactive] else []) @
    (if \<not> is_zero (ca_CooldownUntil candidate) \<and> rq_At requirements < ca_CooldownUntil candidate
     then [(excl ExcludeCredentialCooling)\<lparr>ex_AvailableAt := ca_CooldownUntil candidate\<rparr>] else []) @
    (if ca_ID candidate \<in> excluded then [excl ExcludeAttempt] else []) @
    map (\<lambda>capability. (excl ExcludeMissingCapability)\<lparr>ex_Capability := capability\<rparr>)
      (filter (\<lambda>capability. capability \<notin> set (ca_Capabilities candidate)) (rq_Capabilities requirements))"

text \<open>The loop over capabilities with its \<open>seen\<close> set, shared by both validators.\<close>

fun scan_capabilities :: "routing_error \<Rightarrow> routing_error \<Rightarrow> Capability set \<Rightarrow> Capability list \<Rightarrow> routing_error option" where
  "scan_capabilities empty_err dup_err seen [] = None"
| "scan_capabilities empty_err dup_err seen (c # cs) =
    (if c = '''' then Some empty_err
     else if c \<in> seen then Some dup_err
     else scan_capabilities empty_err dup_err (insert c seen) cs)"

definition validateRequirements :: "Requirements \<Rightarrow> routing_error option" where
  [validators]: "validateRequirements r =
    (if rq_ModelID r = '''' \<or> rq_ResourcePoolID r = '''' \<or> is_zero (rq_At r) then
       Some (RoutingError ErrorInvalidInput ''model, resource pool, and decision time are required'' '''')
     else scan_capabilities
       (RoutingError ErrorInvalidInput ''required capability cannot be empty'' '''')
       (RoutingError ErrorInvalidInput ''required capabilities must be unique'' '''')
       {} (rq_Capabilities r))"

definition validateCandidate :: "Candidate \<Rightarrow> routing_error option" where
  [validators]: "validateCandidate c =
    (if ca_ID c = '''' \<or> ca_ModelID c = '''' \<or> ca_ResourcePoolID c = '''' then
       Some (RoutingError ErrorInvalidCandidate ''candidate ID, model, and resource pool are required'' (ca_ID c))
     else if ca_Priority c < 0 \<or> ca_Priority c > 1000 \<or> ca_Weight c < 0 \<or> ca_Weight c > 1000 then
       Some (RoutingError ErrorInvalidCandidate ''candidate priority and weight are outside supported bounds'' (ca_ID c))
     else scan_capabilities
       (RoutingError ErrorInvalidCandidate ''candidate capability cannot be empty'' (ca_ID c))
       (RoutingError ErrorInvalidCandidate ''candidate capabilities must be unique'' (ca_ID c))
       {} (ca_Capabilities c))"

subsection \<open>router.go\<close>

definition effectivePriority :: "int \<Rightarrow> int" where
  "effectivePriority priority = (if priority = 0 then 100 else priority)"

definition effectiveWeight :: "int \<Rightarrow> int" where
  "effectiveWeight weight = (if weight = 0 then 1 else weight)"

text \<open>The zero \<open>Candidate\{\}\<close> is returned for an unknown identifier.\<close>

fun candidateByID :: "CandidateID \<Rightarrow> Candidate list \<Rightarrow> Candidate" where
  "candidateByID i [] = \<lparr>ca_ID = '''', ca_ModelID = '''', ca_ResourcePoolID = '''', ca_ModelPublished = False,
     ca_CredentialAuthorized = False, ca_CredentialActive = False, ca_Capabilities = [], ca_CooldownUntil = 0,
     ca_Priority = 0, ca_Weight = 0\<rparr>"
| "candidateByID i (c # cs) = (if ca_ID c = i then c else candidateByID i cs)"

definition candidatePriority :: "CandidateID list \<Rightarrow> Candidate list \<Rightarrow> int" where
  "candidatePriority eligible candidates =
    foldl (\<lambda>lowest i. let priority = effectivePriority (ca_Priority (candidateByID i candidates))
                       in if priority < lowest then priority else lowest) 1001 eligible"

fun scan_excluded :: "CandidateID list \<Rightarrow> routing_error option" where
  "scan_excluded [] = None"
| "scan_excluded (i # is) =
    (if i = '''' then Some (RoutingError ErrorInvalidInput ''excluded candidate ID cannot be empty'' '''')
     else scan_excluded is)"

text \<open>The evaluation loop over the candidates, with its \<open>seen\<close> set and the decision so far.\<close>

fun evaluate_candidates ::
  "Requirements \<Rightarrow> CandidateID set \<Rightarrow> Decision \<Rightarrow> CandidateID set \<Rightarrow> Candidate list \<Rightarrow> routing_error + Decision" where
  "evaluate_candidates r excluded d seen [] = Inr d"
| "evaluate_candidates r excluded d seen (c # cs) =
    (case validateCandidate c of
       Some err \<Rightarrow> Inl err
     | None \<Rightarrow>
         if ca_ID c \<in> seen then Inl (RoutingError ErrorDuplicate ''candidate IDs must be unique'' (ca_ID c))
         else
           let reasons = evaluateEligibility r c excluded;
               d = d\<lparr>de_Evaluations := de_Evaluations d @
                     [\<lparr>ev_CandidateID = ca_ID c, ev_Eligible = (length reasons = 0), ev_Exclusions = reasons\<rparr>]\<rparr>;
               d = (if length reasons = 1 \<and> ex_Reason (hd reasons) = ExcludeCredentialCooling \<and>
                       (is_zero (de_NextAvailableAt d) \<or> ex_AvailableAt (hd reasons) < de_NextAvailableAt d)
                    then d\<lparr>de_NextAvailableAt := ex_AvailableAt (hd reasons)\<rparr> else d);
               d = (if length reasons = 0 then d\<lparr>de_Eligible := de_Eligible d @ [ca_ID c]\<rparr> else d)
           in evaluate_candidates r excluded d (insert (ca_ID c) seen) cs)"

text \<open>The draw: walk the weighted list, subtracting weights until the draw is negative.\<close>

fun pick_weighted :: "int \<Rightarrow> (CandidateID \<times> int) list \<Rightarrow> CandidateID" where
  "pick_weighted selected [] = ''''"
| "pick_weighted selected ((i, w) # rest) =
    (let selected = selected - w in if selected < 0 then i else pick_weighted selected rest)"

definition weighted_candidates :: "CandidateID list \<Rightarrow> Candidate list \<Rightarrow> (CandidateID \<times> int) list" where
  "weighted_candidates eligible candidates =
    (let priority = candidatePriority eligible candidates in
     map (\<lambda>i. (i, effectiveWeight (ca_Weight (candidateByID i candidates))))
       (filter (\<lambda>i. effectivePriority (ca_Priority (candidateByID i candidates)) = priority) eligible))"

definition total_weight :: "(CandidateID \<times> int) list \<Rightarrow> int" where
  "total_weight ws = foldl (\<lambda>t p. t + snd p) 0 ws"

definition Select :: "(int \<Rightarrow> int) \<Rightarrow> Requirements \<Rightarrow> Candidate list \<Rightarrow> routing_error + Decision" where
  "Select intn requirements candidates =
    (case validateRequirements requirements of
       Some err \<Rightarrow> Inl err
     | None \<Rightarrow>
         case scan_excluded (rq_ExcludedCandidates requirements) of
           Some err \<Rightarrow> Inl err
         | None \<Rightarrow>
             bindR (evaluate_candidates requirements (set (rq_ExcludedCandidates requirements))
               \<lparr>de_SelectedCandidateID = '''', de_Mode = SelectionNone, de_Eligible = [], de_Evaluations = [],
                de_NextAvailableAt = 0\<rparr> {} candidates) (\<lambda>decision.
             if length (de_Eligible decision) = 0 then Inr decision
             else
               let decision = decision\<lparr>de_Eligible := sort (de_Eligible decision)\<rparr>;
                   weighted = weighted_candidates (de_Eligible decision) candidates;
                   totalWeight = total_weight weighted;
                   selected = intn totalWeight
               in if selected < 0 \<or> selected \<ge> totalWeight then
                    Inl (RoutingError ErrorRandomSource ''random source returned a value outside its requested range'' '''')
                  else Inr (decision\<lparr>de_SelectedCandidateID := pick_weighted selected weighted,
                         de_Mode := SelectionPriorityWeighted\<rparr>)))"

definition NewRouter :: "(int \<Rightarrow> int) option \<Rightarrow> routing_error + (int \<Rightarrow> int)" where
  [validators]: "NewRouter random =
    (case random of
       None \<Rightarrow> Inl (RoutingError ErrorRandomSource ''candidate rotation requires a random source'' '''')
     | Some f \<Rightarrow> Inr f)"

subsection \<open>Eligibility\<close>

text \<open>What makes a candidate eligible, as one condition.\<close>

definition eligible :: "Requirements \<Rightarrow> Candidate \<Rightarrow> bool" where
  "eligible r c \<longleftrightarrow> ca_ModelPublished c \<and> ca_ModelID c = rq_ModelID r \<and> ca_ResourcePoolID c = rq_ResourcePoolID r \<and>
     ca_CredentialAuthorized c \<and> ca_CredentialActive c \<and>
     (ca_CooldownUntil c = 0 \<or> ca_CooldownUntil c \<le> rq_At r) \<and>
     ca_ID c \<notin> set (rq_ExcludedCandidates r) \<and> set (rq_Capabilities r) \<subseteq> set (ca_Capabilities c)"

text \<open>A candidate that only its cooldown keeps out.\<close>

definition only_cooling :: "Requirements \<Rightarrow> Candidate \<Rightarrow> bool" where
  "only_cooling r c \<longleftrightarrow> \<not> eligible r c \<and> eligible r (c\<lparr>ca_CooldownUntil := 0\<rparr>)"

lemma evaluateEligibility_Nil_iff:
  "evaluateEligibility r c (set (rq_ExcludedCandidates r)) = [] \<longleftrightarrow> eligible r c"
  by (auto simp: evaluateEligibility_def eligible_def filter_empty_conv not_less)

lemma singleton_hd_iff:
  "length xs = 1 \<and> P (hd xs) \<longleftrightarrow> length (filter P xs) = 1 \<and> filter (\<lambda>x. \<not> P x) xs = []"
proof (cases xs)
  case (Cons x ys)
  then show ?thesis by (cases "P x") (auto simp: filter_empty_conv filter_id_conv)
qed simp

lemma evaluateEligibility_cooling_iff:
  "(length (evaluateEligibility r c (set (rq_ExcludedCandidates r))) = 1 \<and>
    ex_Reason (hd (evaluateEligibility r c (set (rq_ExcludedCandidates r)))) = ExcludeCredentialCooling) \<longleftrightarrow>
   only_cooling r c"
proof -
  let ?xs = "evaluateEligibility r c (set (rq_ExcludedCandidates r))"
  let ?P = "\<lambda>e. ex_Reason e = ExcludeCredentialCooling"
  have "length (filter ?P ?xs) = 1 \<longleftrightarrow> ca_CooldownUntil c \<noteq> 0 \<and> rq_At r < ca_CooldownUntil c"
    by (simp add: evaluateEligibility_def excl_def filter_map o_def)
  moreover have "filter (\<lambda>e. \<not> ?P e) ?xs = [] \<longleftrightarrow> eligible r (c\<lparr>ca_CooldownUntil := 0\<rparr>)"
    by (auto simp: evaluateEligibility_def eligible_def excl_def filter_map o_def filter_empty_conv)
  moreover have "only_cooling r c \<longleftrightarrow> ca_CooldownUntil c \<noteq> 0 \<and> rq_At r < ca_CooldownUntil c \<and>
      eligible r (c\<lparr>ca_CooldownUntil := 0\<rparr>)"
    by (auto simp: only_cooling_def eligible_def)
  ultimately show ?thesis using singleton_hd_iff [of ?xs ?P] by simp
qed

lemma only_cooling_AvailableAt:
  assumes "only_cooling r c"
  shows "ex_AvailableAt (hd (evaluateEligibility r c (set (rq_ExcludedCandidates r)))) = ca_CooldownUntil c"
proof -
  have "filter (\<lambda>k. k \<notin> set (ca_Capabilities c)) (rq_Capabilities r) = []"
    using assms by (auto simp: only_cooling_def eligible_def filter_empty_conv)
  with assms show ?thesis
    by (auto simp: evaluateEligibility_def only_cooling_def eligible_def excl_def)
qed

subsection \<open>The evaluation loop\<close>

definition note_cooling :: "Requirements \<Rightarrow> gotime \<Rightarrow> Candidate \<Rightarrow> gotime" where
  "note_cooling r t c = (if only_cooling r c \<and> (t = 0 \<or> ca_CooldownUntil c < t) then ca_CooldownUntil c else t)"

lemma evaluate_candidates_Inr_iff:
  "(\<exists>d'. evaluate_candidates r ex d seen cs = Inr d') \<longleftrightarrow>
    (\<forall>c \<in> set cs. validateCandidate c = None) \<and> distinct (map ca_ID cs) \<and> ca_ID ` set cs \<inter> seen = {}"
  by (induction cs arbitrary: d seen) (auto simp: Let_def split: option.split)

text \<open>One iteration of the loop.\<close>

definition eval_step :: "Requirements \<Rightarrow> Decision \<Rightarrow> Candidate \<Rightarrow> Decision" where
  "eval_step r d c =
    d\<lparr>de_Evaluations := de_Evaluations d @ [\<lparr>ev_CandidateID = ca_ID c, ev_Eligible = eligible r c,
        ev_Exclusions = evaluateEligibility r c (set (rq_ExcludedCandidates r))\<rparr>],
      de_NextAvailableAt := note_cooling r (de_NextAvailableAt d) c,
      de_Eligible := de_Eligible d @ (if eligible r c then [ca_ID c] else [])\<rparr>"

lemma evaluate_candidates_Cons:
  "evaluate_candidates r (set (rq_ExcludedCandidates r)) d seen (c # cs) =
    (case validateCandidate c of
       Some err \<Rightarrow> Inl err
     | None \<Rightarrow> if ca_ID c \<in> seen then Inl (RoutingError ErrorDuplicate ''candidate IDs must be unique'' (ca_ID c))
         else evaluate_candidates r (set (rq_ExcludedCandidates r)) (eval_step r d c) (insert (ca_ID c) seen) cs)"
proof -
  let ?reasons = "evaluateEligibility r c (set (rq_ExcludedCandidates r))"
  have cool: "length ?reasons = 1 \<and> ex_Reason (hd ?reasons) = ExcludeCredentialCooling \<and>
      (t = 0 \<or> ex_AvailableAt (hd ?reasons) < t) \<longleftrightarrow> only_cooling r c \<and> (t = 0 \<or> ca_CooldownUntil c < t)" for t
    using evaluateEligibility_cooling_iff [of r c] only_cooling_AvailableAt [of r c] by auto
  have elig: "length ?reasons = 0 \<longleftrightarrow> eligible r c" by (simp add: evaluateEligibility_Nil_iff)
  show ?thesis
    unfolding evaluate_candidates.simps Let_def is_zero_def
    by (simp only: Decision.simps cool elig)
      (auto simp: eval_step_def note_cooling_def only_cooling_AvailableAt intro!: option.case_cong arg_cong3 [where f = "\<lambda>d. evaluate_candidates r (set (rq_ExcludedCandidates r)) d"] split: option.split)
qed

lemma evaluate_candidates_fields:
  "evaluate_candidates r (set (rq_ExcludedCandidates r)) d seen cs = Inr d' \<Longrightarrow>
    de_Eligible d' = de_Eligible d @ map ca_ID (filter (eligible r) cs) \<and>
    map ev_CandidateID (de_Evaluations d') = map ev_CandidateID (de_Evaluations d) @ map ca_ID cs \<and>
    de_NextAvailableAt d' = foldl (note_cooling r) (de_NextAvailableAt d) cs \<and>
    de_SelectedCandidateID d' = de_SelectedCandidateID d \<and> de_Mode d' = de_Mode d"
proof (induction cs arbitrary: d seen)
  case (Cons c cs)
  then have "evaluate_candidates r (set (rq_ExcludedCandidates r)) (eval_step r d c) (insert (ca_ID c) seen) cs = Inr d'"
    unfolding evaluate_candidates_Cons by (simp split: option.splits if_splits)
  from Cons.IH [OF this] show ?case by (simp add: eval_step_def)
qed simp

subsection \<open>Priorities and weights\<close>

lemma candidateByID_unique:
  "distinct (map ca_ID cs) \<Longrightarrow> c \<in> set cs \<Longrightarrow> candidateByID (ca_ID c) cs = c"
  by (induction cs) auto

lemma Min_insert_min:
  fixes a b :: "'a::linorder"
  shows "finite S \<Longrightarrow> Min (insert a (insert b S)) = Min (insert (min b a) S)"
  by (cases "S = {}") (simp_all add: ac_simps)

lemma foldl_lowest:
  fixes f :: "'a \<Rightarrow> int"
  shows "foldl (\<lambda>lowest i. let p = f i in if p < lowest then p else lowest) b xs = Min (insert b (f ` set xs))"
proof (induction xs arbitrary: b)
  case (Cons x xs)
  have "(let p = f x in if p < b then p else b) = min (f x) b" by (simp add: Let_def min_def)
  then show ?case using Cons.IH [of "min (f x) b"] Min_insert_min [of "f ` set xs" b "f x"] by simp
qed simp

lemma validateCandidate_bounds:
  assumes "validateCandidate c = None"
  shows "ca_ID c \<noteq> ''''" "0 \<le> ca_Priority c" "ca_Priority c \<le> 1000" "0 \<le> ca_Weight c" "ca_Weight c \<le> 1000"
    "1 \<le> effectivePriority (ca_Priority c)" "effectivePriority (ca_Priority c) \<le> 1000"
    "1 \<le> effectiveWeight (ca_Weight c)" "effectiveWeight (ca_Weight c) \<le> 1000"
  using assms by (auto simp: validateCandidate_def effectivePriority_def effectiveWeight_def split: if_splits)

lemma candidatePriority_least:
  assumes "eligible_ids \<noteq> []"
    and "\<And>i. i \<in> set eligible_ids \<Longrightarrow> effectivePriority (ca_Priority (candidateByID i cs)) \<le> 1000"
  shows "\<exists>i \<in> set eligible_ids. candidatePriority eligible_ids cs = effectivePriority (ca_Priority (candidateByID i cs))"
    "i \<in> set eligible_ids \<Longrightarrow> candidatePriority eligible_ids cs \<le> effectivePriority (ca_Priority (candidateByID i cs))"
proof -
  let ?f = "\<lambda>i. effectivePriority (ca_Priority (candidateByID i cs))"
  have eq: "candidatePriority eligible_ids cs = Min (insert 1001 (?f ` set eligible_ids))"
    unfolding candidatePriority_def by (rule foldl_lowest)
  then show least: "i \<in> set eligible_ids \<Longrightarrow> candidatePriority eligible_ids cs \<le> ?f i" for i by simp
  have "candidatePriority eligible_ids cs \<in> insert 1001 (?f ` set eligible_ids)"
    unfolding eq by (intro Min_in) auto
  moreover have "candidatePriority eligible_ids cs \<noteq> 1001"
  proof -
    obtain k where "k \<in> set eligible_ids" using assms(1) by (cases eligible_ids) auto
    then show ?thesis using least [of k] assms(2) [of k] by simp
  qed
  ultimately show "\<exists>i \<in> set eligible_ids. candidatePriority eligible_ids cs = ?f i" by auto
qed

lemma foldl_weights: "foldl (\<lambda>t p. t + snd p) a ws = a + foldl (\<lambda>t p. t + snd p) 0 (ws :: (CandidateID \<times> int) list)"
proof (induction ws arbitrary: a)
  case (Cons p ws)
  show ?case by (simp only: foldl_Cons Cons.IH [of "a + snd p"] Cons.IH [of "0 + snd p"])
qed simp

lemma total_weight_Cons [simp]: "total_weight ((i, w) # ws) = w + total_weight ws"
  unfolding total_weight_def using foldl_weights [of "0 + w" ws] by simp

lemma total_weight_Nil [simp]: "total_weight [] = 0"
  by (simp add: total_weight_def)

lemma total_weight_nonneg: "\<forall>(i, w) \<in> set ws. 0 < w \<Longrightarrow> 0 \<le> total_weight ws"
  by (induction ws) auto

lemma pick_weighted_mem:
  assumes "\<forall>(i, w) \<in> set ws. 0 < w" "0 \<le> k" "k < total_weight ws"
  shows "pick_weighted k ws \<in> fst ` set ws"
  using assms
proof (induction ws arbitrary: k)
  case (Cons p ws)
  then show ?case by (cases p) (auto simp: Let_def)
qed simp

text \<open>The draws that lead to a candidate are exactly as many as its weight.\<close>

lemma pick_weighted_share:
  assumes "\<forall>(i, w) \<in> set ws. 0 < w" "distinct (map fst ws)" "(i, w) \<in> set ws"
  shows "card {k. 0 \<le> k \<and> k < total_weight ws \<and> pick_weighted k ws = i} = nat w"
  using assms
proof (induction ws)
  case (Cons p ws)
  obtain j v where p: "p = (j, v)" by (cases p)
  have v: "0 < v" using Cons.prems(1) p by simp
  have tot: "0 \<le> total_weight ws" using Cons.prems(1) p by (intro total_weight_nonneg) auto
  show ?case
  proof (cases "i = j")
    case True
    then have w: "w = v" using Cons.prems p by force
    have other: "pick_weighted (k - v) ws \<noteq> j" if "v \<le> k" "k < total_weight (p # ws)" for k
      using pick_weighted_mem [of ws "k - v"] that Cons.prems p by auto
    have "{k. 0 \<le> k \<and> k < total_weight (p # ws) \<and> pick_weighted k (p # ws) = i} = {0..<v}"
    proof (intro equalityI subsetI)
      fix k assume "k \<in> {k. 0 \<le> k \<and> k < total_weight (p # ws) \<and> pick_weighted k (p # ws) = i}"
      then show "k \<in> {0..<v}" using other [of k] True p by (cases "v \<le> k") (auto simp: Let_def)
    qed (use v tot True p in \<open>auto simp: Let_def\<close>)
    then show ?thesis using w by simp
  next
    case False
    have "{k. 0 \<le> k \<and> k < total_weight (p # ws) \<and> pick_weighted k (p # ws) = i} =
        (\<lambda>k. k + v) ` {k. 0 \<le> k \<and> k < total_weight ws \<and> pick_weighted k ws = i}" (is "?A = (\<lambda>k. k + v) ` ?B")
    proof (intro equalityI subsetI)
      fix k assume k: "k \<in> ?A"
      then have "\<not> k - v < 0" using False p by (auto simp: Let_def)
      then have "k - v \<in> ?B" using k p by (auto simp: Let_def)
      then show "k \<in> (\<lambda>k. k + v) ` ?B" by (intro image_eqI [of _ _ "k - v"]) auto
    qed (use v p in \<open>auto simp: Let_def\<close>)
    moreover have "card ((\<lambda>k. k + v) ` ?B) = card ?B" by (intro card_image) (auto simp: inj_on_def)
    ultimately show ?thesis using Cons.IH Cons.prems False p by auto
  qed
qed simp

subsection \<open>The selection\<close>

text \<open>What a run of \<^term>\<open>Select\<close> without an error has computed.\<close>

definition valid_candidates :: "Candidate list \<Rightarrow> bool" where
  "valid_candidates cs \<longleftrightarrow> (\<forall>c \<in> set cs. validateCandidate c = None) \<and> distinct (map ca_ID cs)"

abbreviation eligible_ids :: "Requirements \<Rightarrow> Candidate list \<Rightarrow> CandidateID list" where
  "eligible_ids r cs \<equiv> sort (map ca_ID (filter (eligible r) cs))"

abbreviation draw_list :: "Requirements \<Rightarrow> Candidate list \<Rightarrow> (CandidateID \<times> int) list" where
  "draw_list r cs \<equiv> weighted_candidates (eligible_ids r cs) cs"

lemma Select_evaluated:
  assumes "validateRequirements r = None" "scan_excluded (rq_ExcludedCandidates r) = None" "valid_candidates cs"
  obtains d where
    "Select intn r cs =
      (if filter (eligible r) cs = [] then Inr d
       else if intn (total_weight (draw_list r cs)) < 0 \<or> intn (total_weight (draw_list r cs)) \<ge> total_weight (draw_list r cs)
       then Inl (RoutingError ErrorRandomSource ''random source returned a value outside its requested range'' '''')
       else Inr (d\<lparr>de_Eligible := eligible_ids r cs,
         de_SelectedCandidateID := pick_weighted (intn (total_weight (draw_list r cs))) (draw_list r cs),
         de_Mode := SelectionPriorityWeighted\<rparr>))"
    "de_SelectedCandidateID d = ''''" "de_Mode d = SelectionNone" "de_NextAvailableAt d = foldl (note_cooling r) 0 cs"
    "de_Eligible d = map ca_ID (filter (eligible r) cs)"
    "map ev_CandidateID (de_Evaluations d) = map ca_ID cs"
proof -
  let ?d0 = "\<lparr>de_SelectedCandidateID = '''', de_Mode = SelectionNone, de_Eligible = [], de_Evaluations = [], de_NextAvailableAt = 0\<rparr>"
  obtain d where d: "evaluate_candidates r (set (rq_ExcludedCandidates r)) ?d0 {} cs = Inr d"
    using evaluate_candidates_Inr_iff [of r "set (rq_ExcludedCandidates r)" ?d0 "{}" cs] assms(3)
    by (auto simp: valid_candidates_def)
  note fields = evaluate_candidates_fields [OF d]
  have "Select intn r cs =
      (if filter (eligible r) cs = [] then Inr d
       else if intn (total_weight (draw_list r cs)) < 0 \<or> intn (total_weight (draw_list r cs)) \<ge> total_weight (draw_list r cs)
       then Inl (RoutingError ErrorRandomSource ''random source returned a value outside its requested range'' '''')
       else Inr (d\<lparr>de_Eligible := eligible_ids r cs,
         de_SelectedCandidateID := pick_weighted (intn (total_weight (draw_list r cs))) (draw_list r cs),
         de_Mode := SelectionPriorityWeighted\<rparr>))"
    using assms fields d by (simp add: Select_def Let_def)
  then show thesis using that [of d] fields by simp
qed

lemma Select_Inr_valid:
  assumes "Select intn r cs = Inr d"
  shows "validateRequirements r = None" "scan_excluded (rq_ExcludedCandidates r) = None" "valid_candidates cs"
proof -
  show req: "validateRequirements r = None" "scan_excluded (rq_ExcludedCandidates r) = None"
    using assms by (auto simp: Select_def split: option.splits)
  show "valid_candidates cs"
    using assms req evaluate_candidates_Inr_iff [of r "set (rq_ExcludedCandidates r)" _ "{}" cs]
    by (auto simp: Select_def valid_candidates_def bindR_Inr_iff)
qed

lemma weighted_candidates_iff:
  assumes "valid_candidates cs"
  shows "(i, w) \<in> set (draw_list r cs) \<longleftrightarrow>
    (\<exists>c \<in> set cs. eligible r c \<and> ca_ID c = i \<and> effectiveWeight (ca_Weight c) = w \<and>
      (\<forall>c' \<in> set cs. eligible r c' \<longrightarrow> effectivePriority (ca_Priority c) \<le> effectivePriority (ca_Priority c')))"
proof (cases "filter (eligible r) cs = []")
  case True
  then show ?thesis by (auto simp: weighted_candidates_def filter_empty_conv)
next
  case False
  have by_id: "candidateByID (ca_ID c) cs = c" if "c \<in> set cs" for c
    using that assms by (auto simp: valid_candidates_def intro: candidateByID_unique)
  have bound: "effectivePriority (ca_Priority c) \<le> 1000" if "c \<in> set cs" for c
    using that assms validateCandidate_bounds(7) by (auto simp: valid_candidates_def)
  let ?p = "candidatePriority (eligible_ids r cs) cs"
  have ids: "eligible_ids r cs \<noteq> []" using False by (metis map_is_Nil_conv set_empty set_sort)
  have bnd: "effectivePriority (ca_Priority (candidateByID i cs)) \<le> 1000" if "i \<in> set (eligible_ids r cs)" for i
    using that by (auto simp: by_id bound)
  have least: "?p \<le> effectivePriority (ca_Priority c)" if "c \<in> set cs" "eligible r c" for c
  proof -
    have "ca_ID c \<in> set (eligible_ids r cs)" using that by simp
    from candidatePriority_least(2) [OF ids bnd this] show ?thesis using that by (simp add: by_id)
  qed
  obtain m where m: "m \<in> set cs" "eligible r m" "?p = effectivePriority (ca_Priority m)"
    using candidatePriority_least(1) [OF ids bnd] by (auto simp: by_id)
  have "effectivePriority (ca_Priority c) = ?p \<longleftrightarrow>
      (\<forall>c' \<in> set cs. eligible r c' \<longrightarrow> effectivePriority (ca_Priority c) \<le> effectivePriority (ca_Priority c'))"
    if "c \<in> set cs" "eligible r c" for c
    using least [of c] least that m by (metis order.antisym)
  then show ?thesis by (auto simp: weighted_candidates_def Let_def by_id image_iff)
qed

lemma weighted_candidates_props:
  assumes "valid_candidates cs"
  shows "\<forall>(i, w) \<in> set (draw_list r cs). 0 < w" "distinct (map fst (draw_list r cs))"
    "filter (eligible r) cs \<noteq> [] \<Longrightarrow> 0 < total_weight (draw_list r cs)"
proof -
  show pos: "\<forall>(i, w) \<in> set (draw_list r cs). 0 < w"
  proof (clarify)
    fix i w assume "(i, w) \<in> set (draw_list r cs)"
    then obtain c where "c \<in> set cs" "effectiveWeight (ca_Weight c) = w"
      by (auto simp: weighted_candidates_iff [OF assms])
    then show "0 < w" using validateCandidate_bounds(8) [of c] assms by (auto simp: valid_candidates_def)
  qed
  have "distinct (map ca_ID (filter (eligible r) cs))"
    using assms by (simp add: valid_candidates_def distinct_map_filter)
  then show "distinct (map fst (draw_list r cs))"
    by (simp add: weighted_candidates_def Let_def o_def)
  show "0 < total_weight (draw_list r cs)" if "filter (eligible r) cs \<noteq> []"
  proof -
    have "finite (set (filter (eligible r) cs))" "set (filter (eligible r) cs) \<noteq> {}" using that by (auto simp: filter_empty_conv)
    then obtain m where "m \<in> set (filter (eligible r) cs)"
      "\<And>c. c \<in> set (filter (eligible r) cs) \<Longrightarrow> effectivePriority (ca_Priority m) \<le> effectivePriority (ca_Priority c)"
      using that [of "arg_min_on (\<lambda>c. effectivePriority (ca_Priority c)) (set (filter (eligible r) cs))"]
        arg_min_if_finite(1) [where f = "\<lambda>c. effectivePriority (ca_Priority c)"]
        arg_min_least [where f = "\<lambda>c. effectivePriority (ca_Priority c)"] by blast
    then have "(ca_ID m, effectiveWeight (ca_Weight m)) \<in> set (draw_list r cs)"
      by (auto simp: weighted_candidates_iff [OF assms])
    then obtain p ws where ws: "draw_list r cs = p # ws" by (cases "draw_list r cs") auto
    then show ?thesis using pos total_weight_nonneg [of ws] by (cases p) auto
  qed
qed

text \<open>The candidates among which the draw is made.\<close>

definition best_candidate :: "Requirements \<Rightarrow> Candidate list \<Rightarrow> Candidate \<Rightarrow> bool" where
  "best_candidate r cs c \<longleftrightarrow> c \<in> set cs \<and> eligible r c \<and>
    (\<forall>c' \<in> set cs. eligible r c' \<longrightarrow> effectivePriority (ca_Priority c) \<le> effectivePriority (ca_Priority c'))"

definition best_weight :: "Requirements \<Rightarrow> Candidate list \<Rightarrow> int" where
  "best_weight r cs = (\<Sum>c \<in> {c. best_candidate r cs c}. effectiveWeight (ca_Weight c))"

lemma total_weight_sum: "distinct ws \<Longrightarrow> total_weight ws = (\<Sum>p \<in> set ws. snd p)"
proof (induction ws)
  case (Cons p ws)
  then show ?case by (cases p) simp
qed simp

lemma total_weight_best:
  assumes "valid_candidates cs"
  shows "total_weight (draw_list r cs) = best_weight r cs"
proof -
  have inj: "inj_on ca_ID (set cs)" using assms by (simp add: valid_candidates_def distinct_map)
  have set: "set (draw_list r cs) = (\<lambda>c. (ca_ID c, effectiveWeight (ca_Weight c))) ` {c. best_candidate r cs c}"
    using weighted_candidates_iff [OF assms, of _ _ r] by (auto simp: best_candidate_def image_iff)
  have "inj_on (\<lambda>c. (ca_ID c, effectiveWeight (ca_Weight c))) {c. best_candidate r cs c}"
    using inj by (auto simp: inj_on_def best_candidate_def)
  moreover have "distinct (draw_list r cs)" using weighted_candidates_props(2) [OF assms, of r] by (simp add: distinct_map)
  ultimately show ?thesis by (simp add: total_weight_sum set best_weight_def sum.reindex o_def)
qed

text \<open>The loop keeps the earliest cooldown end; the zero time stands for none.\<close>

abbreviation cooling_ends :: "Requirements \<Rightarrow> Candidate list \<Rightarrow> gotime list" where
  "cooling_ends r cs \<equiv> map ca_CooldownUntil (filter (only_cooling r) cs)"

lemma only_cooling_nonzero: "only_cooling r c \<Longrightarrow> ca_CooldownUntil c \<noteq> 0"
  by (auto simp: only_cooling_def eligible_def)

lemma foldl_note_cooling_from:
  "t \<noteq> 0 \<Longrightarrow> foldl (note_cooling r) t cs = Min (insert t (set (cooling_ends r cs)))"
proof (induction cs arbitrary: t)
  case (Cons c cs)
  show ?case
  proof (cases "only_cooling r c")
    case True
    have step: "note_cooling r t c = min (ca_CooldownUntil c) t" using True Cons.prems by (auto simp: note_cooling_def)
    have "min (ca_CooldownUntil c) t \<noteq> 0" using only_cooling_nonzero [OF True] Cons.prems by (simp add: min_def)
    from Cons.IH [OF this] show ?thesis
      using True Min_insert_min [of "set (cooling_ends r cs)" t "ca_CooldownUntil c"] by (simp add: step insert_commute)
  next
    case False
    then show ?thesis using Cons.IH [OF Cons.prems] by (simp add: note_cooling_def [of r t c])
  qed
qed simp

lemma foldl_note_cooling:
  "foldl (note_cooling r) 0 cs = (if cooling_ends r cs = [] then 0 else Min (set (cooling_ends r cs)))"
proof (induction cs)
  case (Cons c cs)
  show ?case
  proof (cases "only_cooling r c")
    case True
    then show ?thesis
      using foldl_note_cooling_from [OF only_cooling_nonzero [OF True], of r cs] by (simp add: note_cooling_def [of r 0 c])
  next
    case False
    then show ?thesis using Cons.IH by (simp add: note_cooling_def [of r 0 c])
  qed
qed simp

lemma candidateByID_perm:
  assumes "valid_candidates cs" "mset cs = mset cs'"
  shows "i \<in> ca_ID ` set cs \<Longrightarrow> candidateByID i cs' = candidateByID i cs"
proof -
  have "distinct (map ca_ID cs')" "set cs' = set cs"
    using assms by (metis mset_eq_imp_distinct_iff mset_map valid_candidates_def, metis mset_eq_setD)
  then show "i \<in> ca_ID ` set cs \<Longrightarrow> candidateByID i cs' = candidateByID i cs"
    using assms(1) candidateByID_unique by (auto simp: valid_candidates_def)
qed

lemma draw_list_perm:
  assumes "valid_candidates cs" "mset cs = mset cs'"
  shows "eligible_ids r cs' = eligible_ids r cs" "draw_list r cs' = draw_list r cs" "valid_candidates cs'"
proof -
  have "mset (map ca_ID (filter (eligible r) cs')) = mset (map ca_ID (filter (eligible r) cs))"
    using assms(2) by (simp add: mset_filter)
  then show ids: "eligible_ids r cs' = eligible_ids r cs" by (metis mset_sort properties_for_sort sorted_sort)
  have by_id: "candidateByID i cs' = candidateByID i cs" if "i \<in> set (eligible_ids r cs)" for i
    using candidateByID_perm [OF assms, of i] that by auto
  have "candidatePriority (eligible_ids r cs) cs' = candidatePriority (eligible_ids r cs) cs"
    unfolding candidatePriority_def using by_id by (intro foldl_cong) (auto simp: Let_def)
  moreover have "filter (\<lambda>i. effectivePriority (ca_Priority (candidateByID i cs')) = p) (eligible_ids r cs) =
      filter (\<lambda>i. effectivePriority (ca_Priority (candidateByID i cs)) = p) (eligible_ids r cs)" for p
    using by_id by (intro filter_cong) auto
  ultimately show "draw_list r cs' = draw_list r cs"
    unfolding ids weighted_candidates_def Let_def using by_id by auto
  show "valid_candidates cs'"
    using assms by (metis mset_eq_imp_distinct_iff mset_eq_setD mset_map valid_candidates_def)
qed

subsection \<open>Correctness of the router\<close>

text \<open>A pool of three candidates on which the router is exercised.\<close>

abbreviation sample_candidate :: "CandidateID \<Rightarrow> int \<Rightarrow> int \<Rightarrow> gotime \<Rightarrow> Candidate" where
  "sample_candidate i priority weight cooldown \<equiv>
    \<lparr>ca_ID = i, ca_ModelID = ''m'', ca_ResourcePoolID = ''p'', ca_ModelPublished = True, ca_CredentialAuthorized = True,
     ca_CredentialActive = True, ca_Capabilities = [''chat''], ca_CooldownUntil = cooldown, ca_Priority = priority, ca_Weight = weight\<rparr>"

abbreviation sample_requirements :: Requirements where
  "sample_requirements \<equiv> \<lparr>rq_ModelID = ''m'', rq_ResourcePoolID = ''p'', rq_Capabilities = [''chat''],
     rq_ExcludedCandidates = [''x''], rq_At = 10\<rparr>"

abbreviation sample_pool :: "Candidate list" where
  "sample_pool \<equiv> [sample_candidate ''b'' 1 3 0, sample_candidate ''a'' 1 0 5, sample_candidate ''c'' 0 7 0, sample_candidate ''d'' 1 1 20]"

lemmas routing_eval = Select_def validateRequirements_def validateCandidate_def evaluateEligibility_def excl_def
  weighted_candidates_def candidatePriority_def effectivePriority_def effectiveWeight_def eligible_def only_cooling_def
  valid_candidates_def

lemma Select_sound_facts:
  assumes "Select intn r cs = Inr d"
  shows "set (de_Eligible d) = ca_ID ` {c \<in> set cs. eligible r c}"
    and "(de_Mode d = SelectionNone) = (\<forall>c \<in> set cs. \<not> eligible r c)"
    and "de_Mode d = SelectionNone \<longrightarrow> de_SelectedCandidateID d = ''''"
    and "de_Mode d = SelectionPriorityWeighted \<longrightarrow>
      sorted (de_Eligible d) \<and> (\<exists>c. best_candidate r cs c \<and> ca_ID c = de_SelectedCandidateID d)"
proof -
  note valid = Select_Inr_valid [OF assms]
  obtain d' where d': "Select intn r cs =
      (if filter (eligible r) cs = [] then Inr d'
       else if intn (total_weight (draw_list r cs)) < 0 \<or> intn (total_weight (draw_list r cs)) \<ge> total_weight (draw_list r cs)
       then Inl (RoutingError ErrorRandomSource ''random source returned a value outside its requested range'' '''')
       else Inr (d'\<lparr>de_Eligible := eligible_ids r cs,
         de_SelectedCandidateID := pick_weighted (intn (total_weight (draw_list r cs))) (draw_list r cs),
         de_Mode := SelectionPriorityWeighted\<rparr>))"
    "de_SelectedCandidateID d' = ''''" "de_Mode d' = SelectionNone" "de_Eligible d' = map ca_ID (filter (eligible r) cs)"
    using Select_evaluated [OF valid, of intn] by metis
  show "set (de_Eligible d) = ca_ID ` {c \<in> set cs. eligible r c}"
    and "(de_Mode d = SelectionNone) = (\<forall>c \<in> set cs. \<not> eligible r c)"
    and "de_Mode d = SelectionNone \<longrightarrow> de_SelectedCandidateID d = ''''"
    using d' assms by (auto simp: filter_empty_conv split: if_splits)
  show "de_Mode d = SelectionPriorityWeighted \<longrightarrow>
      sorted (de_Eligible d) \<and> (\<exists>c. best_candidate r cs c \<and> ca_ID c = de_SelectedCandidateID d)"
  proof
    assume "de_Mode d = SelectionPriorityWeighted"
    then have d: "de_SelectedCandidateID d = pick_weighted (intn (total_weight (draw_list r cs))) (draw_list r cs)"
      "0 \<le> intn (total_weight (draw_list r cs))" "intn (total_weight (draw_list r cs)) < total_weight (draw_list r cs)"
      "de_Eligible d = eligible_ids r cs"
      using d' assms by (auto split: if_splits)
    obtain w where "(de_SelectedCandidateID d, w) \<in> set (draw_list r cs)"
      using pick_weighted_mem [OF weighted_candidates_props(1) [OF valid(3)] d(2,3)] d(1) by auto
    then show "sorted (de_Eligible d) \<and> (\<exists>c. best_candidate r cs c \<and> ca_ID c = de_SelectedCandidateID d)"
      using d(4) by (auto simp: weighted_candidates_iff [OF valid(3)] best_candidate_def)
  qed
qed

lemma sample_select: "Select (\<lambda>_. 1) sample_requirements sample_pool = Inr
   \<lparr>de_SelectedCandidateID = ''b'', de_Mode = SelectionPriorityWeighted, de_Eligible = [''a'', ''b'', ''c''],
    de_Evaluations = [\<lparr>ev_CandidateID = ''b'', ev_Eligible = True, ev_Exclusions = []\<rparr>,
      \<lparr>ev_CandidateID = ''a'', ev_Eligible = True, ev_Exclusions = []\<rparr>, \<lparr>ev_CandidateID = ''c'', ev_Eligible = True, ev_Exclusions = []\<rparr>,
      \<lparr>ev_CandidateID = ''d'', ev_Eligible = False, ev_Exclusions = [\<lparr>ex_Reason = ExcludeCredentialCooling, ex_Capability = '''', ex_AvailableAt = 20\<rparr>]\<rparr>],
    de_NextAvailableAt = 20\<rparr>"
  by code_simp

text \<open>
  C19. A successful selection is sound: the eligible identifiers are exactly those of the candidates that
  satisfy every eligibility rule, in sorted order; the selected candidate is one of them with the least
  effective priority; and nothing is selected exactly when no candidate is eligible.
\<close>

theorem Select_sound:
  assumes "Select intn r cs = Inr d"
  shows "set (de_Eligible d) = ca_ID ` {c \<in> set cs. eligible r c} \<and>
    (de_Mode d = SelectionNone) = (\<forall>c \<in> set cs. \<not> eligible r c) \<and>
    (de_Mode d = SelectionNone \<longrightarrow> de_SelectedCandidateID d = []) \<and>
    (de_Mode d = SelectionPriorityWeighted \<longrightarrow>
      sorted (de_Eligible d) \<and> (\<exists>c. best_candidate r cs c \<and> ca_ID c = de_SelectedCandidateID d))"
  using Select_sound_facts [OF assms] by simp

theorem Select_sound_witness:
  "\<exists>c. best_candidate sample_requirements sample_pool c \<and> ca_ID c = ''b''"
  using Select_sound [OF sample_select] by simp

text \<open>
  The router fails exactly on invalid input: with a random source that keeps its contract, Select
  returns a decision if and only if the requirements, the excluded identifiers and all candidates are
  valid and candidate identifiers are unique. It always returns, and never reports a random-source error.
\<close>

theorem Select_total:
  assumes "\<forall>n > 0. 0 \<le> intn n \<and> intn n < n"
  shows "(\<exists>d. Select intn r cs = Inr d) =
    (validateRequirements r = None \<and> '''' \<notin> set (rq_ExcludedCandidates r) \<and>
     (\<forall>c \<in> set cs. validateCandidate c = None) \<and> distinct (map ca_ID cs))"
proof
  have scan: "scan_excluded is = None \<longleftrightarrow> '''' \<notin> set is" for "is"
    by (induction "is") auto
  assume "\<exists>d. Select intn r cs = Inr d"
  then show "validateRequirements r = None \<and> '''' \<notin> set (rq_ExcludedCandidates r) \<and>
     (\<forall>c \<in> set cs. validateCandidate c = None) \<and> distinct (map ca_ID cs)"
    using Select_Inr_valid by (auto simp: scan valid_candidates_def)
next
  have scan: "scan_excluded is = None \<longleftrightarrow> '''' \<notin> set is" for "is"
    by (induction "is") auto
  assume "validateRequirements r = None \<and> '''' \<notin> set (rq_ExcludedCandidates r) \<and>
     (\<forall>c \<in> set cs. validateCandidate c = None) \<and> distinct (map ca_ID cs)"
  then have valid: "validateRequirements r = None" "scan_excluded (rq_ExcludedCandidates r) = None" "valid_candidates cs"
    by (auto simp: scan valid_candidates_def)
  show "\<exists>d. Select intn r cs = Inr d"
    using Select_evaluated [OF valid, of intn] weighted_candidates_props(3) [OF valid(3), of r] assms
    by (metis leD)
qed

theorem Select_total_witness:
  "\<exists>d. Select (\<lambda>n. n - 1) sample_requirements sample_pool = Inr d"
  unfolding Select_total [of "\<lambda>n. n - 1", simplified] by code_simp

text \<open>
  C20. The draw is proportional to weight: when the requirements and candidates are valid, the random source
  has as many outcomes as the candidates of least priority have weight together, and among these outcomes
  exactly the candidate's effective weight many select it.
\<close>

theorem Select_proportional:
  assumes "Select (\<lambda>_. 0) r cs = Inr d0" and "best_candidate r cs c"
  shows "card {k. 0 \<le> k \<and> k < best_weight r cs \<and> (\<exists>d. Select (\<lambda>_. k) r cs = Inr d \<and> de_SelectedCandidateID d = ca_ID c)} =
      nat (effectiveWeight (ca_Weight c)) \<and>
    (\<forall>k. 0 \<le> k \<and> k < best_weight r cs \<longrightarrow> (\<exists>d. Select (\<lambda>_. k) r cs = Inr d))"
proof -
  note valid = Select_Inr_valid [OF assms(1)]
  have ne: "filter (eligible r) cs \<noteq> []" using assms(2) by (auto simp: best_candidate_def filter_empty_conv)
  note tw = total_weight_best [OF valid(3)]
  have sel: "\<exists>d. Select (\<lambda>_. k) r cs = Inr d \<and> de_SelectedCandidateID d = pick_weighted k (draw_list r cs)"
    if k: "0 \<le> k" "k < best_weight r cs" for k
  proof -
    obtain d where "Select (\<lambda>_. k) r cs = Inr (d\<lparr>de_Eligible := eligible_ids r cs,
         de_SelectedCandidateID := pick_weighted k (draw_list r cs), de_Mode := SelectionPriorityWeighted\<rparr>)"
      by (rule Select_evaluated [OF valid, of "\<lambda>_. k"]) (use ne k that in \<open>simp add: tw not_le\<close>)
    then show ?thesis by simp
  qed
  have "(ca_ID c, effectiveWeight (ca_Weight c)) \<in> set (draw_list r cs)"
    using assms(2) by (auto simp: weighted_candidates_iff [OF valid(3)] best_candidate_def)
  note share = pick_weighted_share [OF weighted_candidates_props(1,2) [OF valid(3)] this]
  have "{k. 0 \<le> k \<and> k < best_weight r cs \<and> (\<exists>d. Select (\<lambda>_. k) r cs = Inr d \<and> de_SelectedCandidateID d = ca_ID c)} =
      {k. 0 \<le> k \<and> k < total_weight (draw_list r cs) \<and> pick_weighted k (draw_list r cs) = ca_ID c}"
    unfolding tw by (intro Collect_cong) (use sel in \<open>metis (no_types, lifting) Inr_inject\<close>)
  then show ?thesis using share sel by (intro conjI) (simp, blast)
qed

lemma sample_select0: "\<not> isl (Select (\<lambda>_. 0) sample_requirements sample_pool)"
  by code_simp

theorem Select_proportional_witness:
  "card {k. 0 \<le> k \<and> k < best_weight sample_requirements sample_pool \<and>
     (\<exists>d. Select (\<lambda>_. k) sample_requirements sample_pool = Inr d \<and> de_SelectedCandidateID d = ''b'')} = 3"
proof -
  obtain d0 where d0: "Select (\<lambda>_. 0) sample_requirements sample_pool = Inr d0" using sample_select0 by (cases "Select (\<lambda>_. 0) sample_requirements sample_pool") auto
  have "best_candidate sample_requirements sample_pool (sample_candidate ''b'' 1 3 0)"
    by (simp add: best_candidate_def eligible_def effectivePriority_def)
  from Select_proportional [OF d0 this] show ?thesis by (simp add: effectiveWeight_def)
qed

text \<open>The observable fields of a decision as a function of the draw list and the set of candidates.\<close>

definition observe :: "Decision \<Rightarrow> CandidateID \<times> SelectionMode \<times> CandidateID list \<times> gotime" where
  "observe d = (de_SelectedCandidateID d, de_Mode d, sort (de_Eligible d), de_NextAvailableAt d)"

lemma Select_observe:
  assumes "validateRequirements r = None" "scan_excluded (rq_ExcludedCandidates r) = None" "valid_candidates cs"
  shows "map_sum id observe (Select intn r cs) =
    (let k = intn (total_weight (draw_list r cs));
         t = (if {c \<in> set cs. only_cooling r c} = {} then 0 else Min (ca_CooldownUntil ` {c \<in> set cs. only_cooling r c})) in
     if eligible_ids r cs = [] then Inr ([], SelectionNone, eligible_ids r cs, t)
     else if k < 0 \<or> k \<ge> total_weight (draw_list r cs)
     then Inl (RoutingError ErrorRandomSource ''random source returned a value outside its requested range'' [])
     else Inr (pick_weighted k (draw_list r cs), SelectionPriorityWeighted, eligible_ids r cs, t))"
proof -
  have t: "foldl (note_cooling r) 0 cs = (if {c \<in> set cs. only_cooling r c} = {} then 0
      else Min (ca_CooldownUntil ` {c \<in> set cs. only_cooling r c}))"
    by (auto simp: foldl_note_cooling filter_empty_conv)
  have e: "filter (eligible r) cs = [] \<longleftrightarrow> eligible_ids r cs = []" by (metis map_is_Nil_conv set_empty set_sort)
  show ?thesis
    by (rule Select_evaluated [OF assms, of intn]) (simp add: Let_def observe_def t e sorted_sort_id)
qed

text \<open>
  The decision reports the earliest useful time to retry and does not depend on the order in which the
  candidates were listed: with the same draw, a permutation of the candidates yields the same selection and
  eligible list, and NextAvailableAt is the least cooldown end over the candidates that only their cooldown
  excludes, or the zero time if there are none.
\<close>

theorem Select_order_independent:
  assumes "Select intn r cs = Inr d" and "mset cs' = mset cs"
  shows "\<exists>d'. Select intn r cs' = Inr d' \<and> de_SelectedCandidateID d' = de_SelectedCandidateID d \<and>
    de_Mode d' = de_Mode d \<and> set (de_Eligible d') = set (de_Eligible d) \<and>
    de_NextAvailableAt d' = de_NextAvailableAt d \<and>
    de_NextAvailableAt d = (if {c \<in> set cs. only_cooling r c} = {} then 0
      else Min (ca_CooldownUntil ` {c \<in> set cs. only_cooling r c}))"
proof -
  note valid = Select_Inr_valid [OF assms(1)]
  note perm = draw_list_perm [OF valid(3) assms(2) [symmetric]]
  have sets: "set cs' = set cs" using assms(2) by (metis mset_eq_setD)
  note obs = Select_observe [OF valid, of intn]
  have "map_sum id observe (Select intn r cs') = Inr (observe d)"
    using obs [symmetric] assms(1)
    unfolding Select_observe [OF valid(1,2) perm(3), of intn] perm(2) unfolding perm(1) sets by simp
  then obtain d' where d': "Select intn r cs' = Inr d'" "observe d' = observe d" by (cases "Select intn r cs'") auto
  moreover have "set (de_Eligible d') = set (de_Eligible d)" using d'(2) by (metis observe_def prod.inject set_sort)
  moreover have "de_NextAvailableAt d = (if {c \<in> set cs. only_cooling r c} = {} then 0
      else Min (ca_CooldownUntil ` {c \<in> set cs. only_cooling r c}))"
    using obs assms(1) by (auto simp: Let_def observe_def simp del: Collect_conj_eq split: if_splits)
  ultimately show ?thesis by (auto simp: observe_def)
qed

theorem Select_order_independent_witness:
  "\<exists>d'. Select (\<lambda>_. 1) sample_requirements (rev sample_pool) = Inr d' \<and> de_SelectedCandidateID d' = ''b'' \<and> de_NextAvailableAt d' = 20"
  using Select_order_independent [OF sample_select, of "rev sample_pool"] by auto

end
