(* ===== verification/Admission.thy ===== *)
theory Admission
  imports Prelude "HOL-Library.Multiset"
begin

text \<open>
  The bounded admission queue of \<open>internal/admission/queue.go\<close> (types in \<open>types.go\<close>). Go maps are
  association lists with unique keys, read through \<^const>\<open>map_of\<close>; the slices are lists; the
  cursor is a natural number because the code only decrements it below a strictly positive bound.
  Every operation holds the queue's mutex, so an operation is one function on the state; the
  reading of the clock is the argument \<open>now\<close>.
\<close>

subsection \<open>types.go\<close>

type_synonym TicketID = string
type_synonym UserID = string

record Config =
  cf_MaxQueued :: int
  cf_MaxActive :: int
  cf_MaxQueueWait :: duration

record Request =
  re_ID :: TicketID
  re_UserID :: UserID
  re_QueueTimeout :: duration

record Ticket =
  ti_ID :: TicketID
  ti_UserID :: UserID
  ti_EnqueuedAt :: gotime
  ti_Deadline :: gotime

record Admission =
  ad_Ticket :: Ticket
  ad_AdmittedAt :: gotime

record Expiration =
  xp_Ticket :: Ticket
  xp_ExpiredAt :: gotime

record Cancellation =
  cn_Ticket :: Ticket
  cn_CanceledAt :: gotime
  cn_WasActive :: bool

record Dispatched =
  di_Expired :: "Expiration list"
  di_Admitted :: "Admission list"

record Snapshot =
  sn_Waiting :: int
  sn_Active :: int
  sn_WaitingByUser :: "(UserID \<times> int) list"
  sn_ActiveByUser :: "(UserID \<times> int) list"

datatype ErrorKind = ErrorInvalidConfiguration | ErrorInvalidRequest | ErrorQueueFull | ErrorDuplicateTicket

datatype admission_error = AdmissionError ErrorKind string TicketID

definition zero_ticket :: Ticket where
  "zero_ticket = \<lparr>ti_ID = '''', ti_UserID = '''', ti_EnqueuedAt = 0, ti_Deadline = 0\<rparr>"

definition validate_config :: "Config \<Rightarrow> admission_error option" where
  [validators]: "validate_config c =
    (if cf_MaxQueued c \<le> 0 then Some (AdmissionError ErrorInvalidConfiguration ''max queued must be positive'' '''')
     else if cf_MaxActive c \<le> 0 then Some (AdmissionError ErrorInvalidConfiguration ''max active must be positive'' '''')
     else if cf_MaxQueueWait c \<le> 0 then Some (AdmissionError ErrorInvalidConfiguration ''max queue wait must be positive'' '''')
     else None)"

subsection \<open>queue.go\<close>

record Queue =
  qu_config :: Config
  qu_waiting :: "(UserID \<times> Ticket list) list"
  qu_waitingTicket :: "(TicketID \<times> UserID) list"
  qu_userOrder :: "UserID list"
  qu_cursor :: nat
  qu_waitingCount :: int
  qu_active :: "(TicketID \<times> Ticket) list"
  qu_activeByUser :: "(UserID \<times> int) list"

abbreviation waiting_of :: "Queue \<Rightarrow> UserID \<Rightarrow> Ticket list" where
  "waiting_of q \<equiv> go_get [] (qu_waiting q)"

abbreviation active_count :: "Queue \<Rightarrow> UserID \<Rightarrow> int" where
  "active_count q \<equiv> go_get 0 (qu_activeByUser q)"

definition NewQueue :: "Config \<Rightarrow> bool \<Rightarrow> admission_error + Queue" where
  "NewQueue config has_clock =
    (case validate_config config of
       Some err \<Rightarrow> Inl err
     | None \<Rightarrow>
         if \<not> has_clock then Inl (AdmissionError ErrorInvalidConfiguration ''clock is required'' '''')
         else Inr \<lparr>qu_config = config, qu_waiting = [], qu_waitingTicket = [], qu_userOrder = [], qu_cursor = 0,
                qu_waitingCount = 0, qu_active = [], qu_activeByUser = []\<rparr>)"

definition Enqueue :: "gotime \<Rightarrow> Request \<Rightarrow> Queue \<Rightarrow> (admission_error + Ticket) \<times> Queue" where
  "Enqueue now request q =
    (if re_ID request = '''' \<or> re_UserID request = '''' then
       (Inl (AdmissionError ErrorInvalidRequest ''ticket and user IDs are required'' (re_ID request)), q)
     else if map_of (qu_waitingTicket q) (re_ID request) \<noteq> None then
       (Inl (AdmissionError ErrorDuplicateTicket ''ticket is already queued'' (re_ID request)), q)
     else if map_of (qu_active q) (re_ID request) \<noteq> None then
       (Inl (AdmissionError ErrorDuplicateTicket ''ticket is already active'' (re_ID request)), q)
     else if qu_waitingCount q \<ge> cf_MaxQueued (qu_config q) then
       (Inl (AdmissionError ErrorQueueFull ''admission queue is full'' (re_ID request)), q)
     else
       let timeout = (if re_QueueTimeout request = 0 then cf_MaxQueueWait (qu_config q) else re_QueueTimeout request) in
       if timeout < 0 \<or> timeout > cf_MaxQueueWait (qu_config q) then
         (Inl (AdmissionError ErrorInvalidRequest
            ''queue timeout must be positive and within the configured maximum'' (re_ID request)), q)
       else
         let ticket = \<lparr>ti_ID = re_ID request, ti_UserID = re_UserID request, ti_EnqueuedAt = now, ti_Deadline = now + timeout\<rparr>;
             q = (if length (waiting_of q (re_UserID request)) = 0
                  then q\<lparr>qu_userOrder := qu_userOrder q @ [re_UserID request]\<rparr> else q);
             q = q\<lparr>qu_waiting := AList.update (re_UserID request) (waiting_of q (re_UserID request) @ [ticket]) (qu_waiting q)\<rparr>;
             q = q\<lparr>qu_waitingTicket := AList.update (re_ID request) (re_UserID request) (qu_waitingTicket q)\<rparr>;
             q = q\<lparr>qu_waitingCount := qu_waitingCount q + 1\<rparr>
         in (Inr ticket, q))"

text \<open>The first index, counted from the cursor, whose user has a waiting ticket.\<close>

definition next_index :: "Queue \<Rightarrow> nat option" where
  "next_index q =
    find (\<lambda>index. length (waiting_of q (qu_userOrder q ! index)) \<noteq> 0)
      (map (\<lambda>offset. (qu_cursor q + offset) mod length (qu_userOrder q)) [0..<length (qu_userOrder q)])"

definition delete_at :: "nat \<Rightarrow> 'a list \<Rightarrow> 'a list" where
  "delete_at index xs = take index xs @ drop (index + 1) xs"

definition takeNextLocked :: "Queue \<Rightarrow> Ticket option \<times> Queue" where
  "takeNextLocked q =
    (if qu_waitingCount q = 0 \<or> length (qu_userOrder q) = 0 then (None, q)
     else case next_index q of
       None \<Rightarrow> (None, q)
     | Some index \<Rightarrow>
         let userID = qu_userOrder q ! index;
             queue = waiting_of q userID;
             ticket = hd queue;
             q = q\<lparr>qu_waiting := AList.update userID (tl queue) (qu_waiting q)\<rparr>;
             q = q\<lparr>qu_waitingTicket := AList.delete (ti_ID ticket) (qu_waitingTicket q)\<rparr>;
             q = q\<lparr>qu_waitingCount := qu_waitingCount q - 1\<rparr>;
             q = (if length (waiting_of q userID) = 0 then
                    let q = q\<lparr>qu_waiting := AList.delete userID (qu_waiting q)\<rparr>;
                        q = q\<lparr>qu_userOrder := delete_at index (qu_userOrder q)\<rparr>
                    in if length (qu_userOrder q) = 0 then q\<lparr>qu_cursor := 0\<rparr>
                       else q\<lparr>qu_cursor := index mod length (qu_userOrder q)\<rparr>
                  else q\<lparr>qu_cursor := (index + 1) mod length (qu_userOrder q)\<rparr>)
         in (Some ticket, q))"

text \<open>The inner loop of \<open>expireLocked\<close> over one user's tickets and the body of its outer loop.\<close>

fun expire_ticket :: "gotime \<Rightarrow> Queue \<times> Ticket list \<times> Expiration list \<Rightarrow> Ticket \<Rightarrow> Queue \<times> Ticket list \<times> Expiration list" where
  "expire_ticket now (q, kept, expired) ticket =
    (if \<not> now < ti_Deadline ticket then
       (q\<lparr>qu_waitingTicket := AList.delete (ti_ID ticket) (qu_waitingTicket q), qu_waitingCount := qu_waitingCount q - 1\<rparr>,
        kept, expired @ [\<lparr>xp_Ticket = ticket, xp_ExpiredAt = now\<rparr>])
     else (q, kept @ [ticket], expired))"

fun expire_user :: "gotime \<Rightarrow> Queue \<times> UserID list \<times> Expiration list \<Rightarrow> UserID \<Rightarrow> Queue \<times> UserID list \<times> Expiration list" where
  "expire_user now (q, order, expired) userID =
    (let (q, kept, expired) = foldl (expire_ticket now) (q, [], expired) (waiting_of q userID) in
     if length kept = 0 then (q\<lparr>qu_waiting := AList.delete userID (qu_waiting q)\<rparr>, order, expired)
     else (q\<lparr>qu_waiting := AList.update userID kept (qu_waiting q)\<rparr>, order @ [userID], expired))"

text \<open>The last loop of \<open>expireLocked\<close>: the index of the anchor, or 0.\<close>

fun anchor_index :: "UserID \<Rightarrow> nat \<Rightarrow> UserID list \<Rightarrow> nat" where
  "anchor_index anchor index [] = 0"
| "anchor_index anchor index (u # us) = (if u = anchor then index else anchor_index anchor (index + 1) us)"

definition expireLocked :: "gotime \<Rightarrow> Queue \<Rightarrow> Expiration list \<times> Queue" where
  "expireLocked now q =
    (if qu_waitingCount q = 0 then ([], q)
     else
       let anchor = (if length (qu_userOrder q) > 0
                     then qu_userOrder q ! (qu_cursor q mod length (qu_userOrder q)) else '''');
           (q, order, expired) = foldl (expire_user now) (q, [], []) (qu_userOrder q);
           q = q\<lparr>qu_userOrder := order\<rparr>
       in (expired, q\<lparr>qu_cursor := anchor_index anchor 0 (qu_userOrder q)\<rparr>))"

definition admit :: "gotime \<Rightarrow> Ticket \<Rightarrow> Queue \<Rightarrow> Queue" where
  "admit now ticket q =
    q\<lparr>qu_active := AList.update (ti_ID ticket) ticket (qu_active q),
      qu_activeByUser := AList.update (ti_UserID ticket) (active_count q (ti_UserID ticket) + 1) (qu_activeByUser q)\<rparr>"

text \<open>
  The dispatch loop runs until the slots are full or nothing waits. It ends because every round
  takes a ticket out of the map of waiting tickets.
\<close>

definition waiting_size :: "Queue \<Rightarrow> nat" where
  "waiting_size q = sum_list (map (\<lambda>p. length (snd p)) (qu_waiting q))"

lemma sum_list_update_tl:
  "map_of m k = Some ts \<Longrightarrow> ts \<noteq> [] \<Longrightarrow>
    sum_list (map (\<lambda>p. length (snd p)) (AList.update k (tl ts) m)) < sum_list (map (\<lambda>p. length (snd p)) m)"
  by (induction m) (auto split: if_splits)

lemma sum_list_delete_le:
  "sum_list (map (\<lambda>p. length (snd p)) (AList.delete k m)) \<le> sum_list (map (\<lambda>p. length (snd p)) m)"
  by (induction m) (auto simp: AList.delete_eq)

lemma takeNextLocked_size:
  assumes "takeNextLocked q = (Some t, q')"
  shows "waiting_size q' < waiting_size q"
proof -
  obtain index where index: "next_index q = Some index"
    using assms by (auto simp: takeNextLocked_def split: if_splits option.splits)
  let ?u = "qu_userOrder q ! index"
  have "waiting_of q ?u \<noteq> []" using index by (auto simp: next_index_def find_Some_iff)
  then obtain ts where ts: "map_of (qu_waiting q) ?u = Some ts" "ts \<noteq> []" "waiting_of q ?u = ts"
    by (auto simp: go_get_def split: option.splits)
  let ?m = "AList.update ?u (tl ts) (qu_waiting q)"
  have "qu_waiting q' = ?m \<or> qu_waiting q' = AList.delete ?u ?m"
    using assms index ts(3) by (auto simp: takeNextLocked_def Let_def split: if_splits)
  then show ?thesis
    using sum_list_update_tl [OF ts(1,2)] sum_list_delete_le [of ?u ?m] by (auto simp: waiting_size_def)
qed

function dispatch_loop :: "gotime \<Rightarrow> Admission list \<Rightarrow> Queue \<Rightarrow> Admission list \<times> Queue" where
  "dispatch_loop now admitted q =
    (if int (length (qu_active q)) < cf_MaxActive (qu_config q) then
       case takeNextLocked q of
         (None, q) \<Rightarrow> (admitted, q)
       | (Some ticket, q) \<Rightarrow>
           dispatch_loop now (admitted @ [\<lparr>ad_Ticket = ticket, ad_AdmittedAt = now\<rparr>]) (admit now ticket q)
     else (admitted, q))"
  by pat_completeness auto
termination
  by (relation "measure (\<lambda>(now, admitted, q). waiting_size q)")
    (auto dest: takeNextLocked_size [OF sym] simp: admit_def waiting_size_def)

declare dispatch_loop.simps [simp del]

definition Dispatch :: "gotime \<Rightarrow> Queue \<Rightarrow> Dispatched \<times> Queue" where
  "Dispatch now q =
    (let (expired, q) = expireLocked now q;
         (admitted, q) = dispatch_loop now [] q
     in (\<lparr>di_Expired = expired, di_Admitted = admitted\<rparr>, q))"

definition decrementActiveLocked :: "UserID \<Rightarrow> Queue \<Rightarrow> Queue" where
  "decrementActiveLocked userID q =
    (let q = q\<lparr>qu_activeByUser := AList.update userID (active_count q userID - 1) (qu_activeByUser q)\<rparr> in
     if active_count q userID = 0 then q\<lparr>qu_activeByUser := AList.delete userID (qu_activeByUser q)\<rparr> else q)"

fun find_index :: "('a \<Rightarrow> bool) \<Rightarrow> 'a list \<Rightarrow> nat option" where
  "find_index P [] = None"
| "find_index P (x # xs) = (if P x then Some 0 else map_option Suc (find_index P xs))"

definition removeUserLocked :: "UserID \<Rightarrow> Queue \<Rightarrow> Queue" where
  "removeUserLocked userID q =
    (case find_index (\<lambda>candidate. candidate = userID) (qu_userOrder q) of
       None \<Rightarrow> q
     | Some index \<Rightarrow>
         let q = q\<lparr>qu_userOrder := delete_at index (qu_userOrder q)\<rparr> in
         if length (qu_userOrder q) = 0 then q\<lparr>qu_cursor := 0\<rparr>
         else if index < qu_cursor q then q\<lparr>qu_cursor := qu_cursor q - 1\<rparr>
         else if qu_cursor q \<ge> length (qu_userOrder q) then q\<lparr>qu_cursor := 0\<rparr>
         else q)"

definition removeWaitingLocked :: "UserID \<Rightarrow> TicketID \<Rightarrow> Queue \<Rightarrow> Ticket option \<times> Queue" where
  "removeWaitingLocked userID ticketID q =
    (let queue = waiting_of q userID in
     case find_index (\<lambda>ticket. ti_ID ticket = ticketID) queue of
       None \<Rightarrow> (None, q)
     | Some index \<Rightarrow>
         let q = q\<lparr>qu_waiting := AList.update userID (delete_at index queue) (qu_waiting q)\<rparr>;
             q = q\<lparr>qu_waitingTicket := AList.delete ticketID (qu_waitingTicket q)\<rparr>;
             q = q\<lparr>qu_waitingCount := qu_waitingCount q - 1\<rparr>;
             q = (if length (waiting_of q userID) = 0
                  then removeUserLocked userID (q\<lparr>qu_waiting := AList.delete userID (qu_waiting q)\<rparr>) else q)
         in (Some (queue ! index), q))"

definition Cancel :: "gotime \<Rightarrow> TicketID \<Rightarrow> Queue \<Rightarrow> Cancellation option \<times> Queue" where
  "Cancel now ticketID q =
    (case map_of (qu_active q) ticketID of
       Some ticket \<Rightarrow>
         (Some \<lparr>cn_Ticket = ticket, cn_CanceledAt = now, cn_WasActive = True\<rparr>,
          decrementActiveLocked (ti_UserID ticket) (q\<lparr>qu_active := AList.delete ticketID (qu_active q)\<rparr>))
     | None \<Rightarrow>
         case map_of (qu_waitingTicket q) ticketID of
           None \<Rightarrow> (None, q)
         | Some userID \<Rightarrow>
             case removeWaitingLocked userID ticketID q of
               (None, q) \<Rightarrow> (None, q)
             | (Some ticket, q) \<Rightarrow> (Some \<lparr>cn_Ticket = ticket, cn_CanceledAt = now, cn_WasActive = False\<rparr>, q))"

definition Release :: "TicketID \<Rightarrow> Queue \<Rightarrow> bool \<times> Queue" where
  "Release ticketID q =
    (case map_of (qu_active q) ticketID of
       None \<Rightarrow> (False, q)
     | Some ticket \<Rightarrow>
         (True, decrementActiveLocked (ti_UserID ticket) (q\<lparr>qu_active := AList.delete ticketID (qu_active q)\<rparr>)))"

definition Snapshot_queue :: "Queue \<Rightarrow> Snapshot" where
  "Snapshot_queue q =
    \<lparr>sn_Waiting = qu_waitingCount q, sn_Active = int (length (qu_active q)),
     sn_WaitingByUser = map (\<lambda>(userID, tickets). (userID, int (length tickets))) (qu_waiting q),
     sn_ActiveByUser = qu_activeByUser q\<rparr>"

definition earlier :: "gotime \<Rightarrow> Ticket \<Rightarrow> gotime" where
  "earlier earliest ticket = (if is_zero earliest \<or> ti_Deadline ticket < earliest then ti_Deadline ticket else earliest)"

definition NextDeadline :: "Queue \<Rightarrow> gotime \<times> bool" where
  "NextDeadline q =
    (let earliest = foldl (foldl earlier) 0 (map snd (qu_waiting q)) in (earliest, \<not> is_zero earliest))"

subsection \<open>The invariant of the queue\<close>

text \<open>
  The waiting side, over the map \<open>W\<close> from users to their tickets, the ticket index \<open>wt\<close>, the
  rotation order and the counter.
\<close>

definition waiting_ok :: "(UserID \<Rightarrow> Ticket list) \<Rightarrow> (TicketID \<rightharpoonup> UserID) \<Rightarrow> UserID list \<Rightarrow> int \<Rightarrow> bool" where
  "waiting_ok W wt order n \<longleftrightarrow> distinct order \<and> (\<forall>u. u \<in> set order \<longleftrightarrow> W u \<noteq> []) \<and>
     (\<forall>u. \<forall>t \<in> set (W u). ti_UserID t = u) \<and> (\<forall>u. distinct (map ti_ID (W u))) \<and>
     (\<forall>i u. wt i = Some u \<longleftrightarrow> i \<in> ti_ID ` set (W u)) \<and> n = (\<Sum>u \<in> set order. int (length (W u)))"

text \<open>The active side: the per-user counters count the active tickets.\<close>

definition active_ok :: "(TicketID \<times> Ticket) list \<Rightarrow> (UserID \<times> int) list \<Rightarrow> bool" where
  "active_ok A B \<longleftrightarrow> distinct (map fst A) \<and> (\<forall>(i, t) \<in> set A. ti_ID t = i) \<and> distinct (map fst B) \<and>
     (\<forall>u. map_of B u = (let n = length (filter (\<lambda>p. ti_UserID (snd p) = u) A) in if n = 0 then None else Some (int n)))"

definition cursor_ok :: "Queue \<Rightarrow> bool" where
  "cursor_ok q \<longleftrightarrow> (if qu_userOrder q = [] then qu_cursor q = 0 else qu_cursor q < length (qu_userOrder q))"

definition queue_inv :: "Queue \<Rightarrow> bool" where
  "queue_inv q \<longleftrightarrow> validate_config (qu_config q) = None \<and>
     distinct (map fst (qu_waiting q)) \<and> distinct (map fst (qu_waitingTicket q)) \<and>
     (\<forall>u. map_of (qu_waiting q) u \<noteq> Some []) \<and>
     waiting_ok (waiting_of q) (map_of (qu_waitingTicket q)) (qu_userOrder q) (qu_waitingCount q) \<and>
     active_ok (qu_active q) (qu_activeByUser q) \<and>
     (\<forall>i. map_of (qu_active q) i = None \<or> map_of (qu_waitingTicket q) i = None) \<and> cursor_ok q \<and>
     qu_waitingCount q \<le> cf_MaxQueued (qu_config q) \<and> int (length (qu_active q)) \<le> cf_MaxActive (qu_config q)"

lemma queue_inv_waiting: "queue_inv q \<Longrightarrow> waiting_ok (waiting_of q) (map_of (qu_waitingTicket q)) (qu_userOrder q) (qu_waitingCount q)"
  by (simp add: queue_inv_def)

lemma queue_inv_nonempty: "queue_inv q \<Longrightarrow> map_of (qu_waiting q) u \<noteq> Some []"
  unfolding queue_inv_def by blast

lemma waiting_okD:
  assumes "waiting_ok W wt order n"
  shows "distinct order" "u \<in> set order \<longleftrightarrow> W u \<noteq> []" "t \<in> set (W u) \<Longrightarrow> ti_UserID t = u"
    "distinct (map ti_ID (W u))" "wt i = Some u \<longleftrightarrow> i \<in> ti_ID ` set (W u)" "n = (\<Sum>u \<in> set order. int (length (W u)))"
  using assms by (simp_all add: waiting_ok_def)

text \<open>Ticket identifiers are unique across users.\<close>

lemma waiting_ids_unique:
  assumes "waiting_ok W wt order n" "t \<in> set (W u)" "t' \<in> set (W u')" "ti_ID t = ti_ID t'"
  shows "t = t'"
proof -
  have "wt (ti_ID t) = Some u" "wt (ti_ID t) = Some u'"
    using waiting_okD(5) [OF assms(1)] assms(2-4) by (metis image_eqI)+
  then have "u = u'" by simp
  then show ?thesis
    using waiting_okD(4) [OF assms(1), of u] assms(2-4) by (auto simp: distinct_map dest: inj_onD)
qed

text \<open>Every removal from the waiting side keeps the tickets that satisfy some predicate.\<close>

lemma waiting_ok_filter:
  assumes ok: "waiting_ok W wt order n"
    and wt': "\<And>i u. wt' i = Some u \<longleftrightarrow> (\<exists>t \<in> set (W u). ti_ID t = i \<and> P t)"
    and n': "n' = n - (\<Sum>u \<in> set order. int (length (filter (\<lambda>t. \<not> P t) (W u))))"
  shows "waiting_ok (\<lambda>u. filter P (W u)) wt' (filter (\<lambda>u. filter P (W u) \<noteq> []) order) n'"
proof -
  note d = waiting_okD [OF ok]
  have len: "int (length (W u)) - int (length (filter (\<lambda>t. \<not> P t) (W u))) = int (length (filter P (W u)))" for u
    using sum_length_filter_compl [of P "W u"] by linarith
  have "n' = (\<Sum>u \<in> set order. int (length (filter P (W u))))"
    by (simp add: n' d(6) sum_subtractf [symmetric] len)
  also have "\<dots> = (\<Sum>u \<in> set (filter (\<lambda>u. filter P (W u) \<noteq> []) order). int (length (filter P (W u))))"
    by (intro sum.mono_neutral_right) auto
  finally have sum: "n' = (\<Sum>u \<in> set (filter (\<lambda>u. filter P (W u) \<noteq> []) order). int (length (filter P (W u))))" .
  have "u \<in> set order" if "filter P (W u) \<noteq> []" for u using d(2) [of u] that by auto
  moreover have "distinct (map ti_ID (filter P (W u)))" for u using d(4) [of u] by (simp add: distinct_map_filter)
  moreover have "wt' i = Some u \<longleftrightarrow> i \<in> ti_ID ` set (filter P (W u))" for i u by (auto simp: wt')
  moreover have "\<forall>u. \<forall>t \<in> set (filter P (W u)). ti_UserID t = u" using d(3) by simp
  ultimately show ?thesis using d(1) sum unfolding waiting_ok_def by (intro conjI) (auto simp: filter_empty_conv)
qed

text \<open>The special case of one ticket.\<close>

lemma waiting_ok_remove:
  assumes ok: "waiting_ok W wt order n" and t: "t \<in> set (W u)"
  shows "waiting_ok (W(u := filter (\<lambda>t'. ti_ID t' \<noteq> ti_ID t) (W u))) (wt(ti_ID t := None))
    (filter (\<lambda>v. v \<noteq> u \<or> filter (\<lambda>t'. ti_ID t' \<noteq> ti_ID t) (W u) \<noteq> []) order) (n - 1)"
proof -
  note d = waiting_okD [OF ok]
  let ?P = "\<lambda>t'. ti_ID t' \<noteq> ti_ID t"
  have other: "ti_ID t \<notin> ti_ID ` set (W v)" if "v \<noteq> u" for v
    using waiting_ids_unique [OF ok t] d(3) t that by (metis imageE)
  have W: "(\<lambda>v. filter ?P (W v)) = W(u := filter ?P (W u))"
    using other by (auto simp: fun_eq_iff filter_id_conv) (metis image_eqI)
  have ord: "filter (\<lambda>v. filter ?P (W v) \<noteq> []) order = filter (\<lambda>v. v \<noteq> u \<or> filter ?P (W u) \<noteq> []) order"
  proof (intro filter_cong refl)
    fix v assume "v \<in> set order"
    then have "W v \<noteq> []" using d(2) by simp
    then show "(filter ?P (W v) \<noteq> []) = (v \<noteq> u \<or> filter ?P (W u) \<noteq> [])"
      using fun_cong [OF W, of v] by (cases "v = u") simp_all
  qed
  have one: "length (filter (\<lambda>t'. \<not> ?P t') (W u)) = 1"
  proof -
    have "length (filter (\<lambda>x. x = ti_ID t) (map ti_ID (W u))) = 1"
      using d(4) [of u] t by (subst distinct_length_filter) (auto simp: Collect_conv_if)
    then show ?thesis by (simp add: filter_map o_def)
  qed
  have "int (length (filter (\<lambda>t'. \<not> ?P t') (W v))) = (if v = u then 1 else 0)" for v
    using one other [of v] by (auto simp: filter_empty_conv) (metis image_eqI)
  moreover have "u \<in> set order" using d(2) [of u] t by auto
  ultimately have n: "n - 1 = n - (\<Sum>v \<in> set order. int (length (filter (\<lambda>t'. \<not> ?P t') (W v))))"
    by simp
  have wt: "(wt(ti_ID t := None)) i = Some v \<longleftrightarrow> (\<exists>t' \<in> set (W v). ti_ID t' = i \<and> ?P t')" for i v
    using d(5) [of i v] by auto
  from waiting_ok_filter [where wt' = "wt(ti_ID t := None)" and P = ?P, OF ok wt n]
  show ?thesis unfolding ord W .
qed

subsection \<open>The rotation\<close>

text \<open>
  The abstract scheduler: a ring of users with their waiting tickets, oldest first; the user at the
  head is served next and moves to the back while more of its tickets wait.
\<close>

type_synonym ring = "(UserID \<times> Ticket list) list"

definition ring_of :: "Queue \<Rightarrow> ring" where
  "ring_of q = map (\<lambda>u. (u, waiting_of q u)) (drop (qu_cursor q) (qu_userOrder q) @ take (qu_cursor q) (qu_userOrder q))"

fun ring_next :: "ring \<Rightarrow> (Ticket \<times> ring) option" where
  "ring_next ((u, t # ts) # rest) = Some (t, rest @ (if ts = [] then [] else [(u, ts)]))"
| "ring_next _ = None"

lemma delete_at_filter: "distinct xs \<Longrightarrow> i < length xs \<Longrightarrow> delete_at i xs = filter (\<lambda>x. x \<noteq> xs ! i) xs"
proof (induction xs arbitrary: i)
  case (Cons x xs)
  have "filter (\<lambda>y. y \<noteq> x) xs = xs" using Cons.prems by (auto simp: filter_id_conv)
  moreover have "x \<noteq> xs ! j" if "j < length xs" for j using that Cons.prems by auto
  ultimately show ?case using Cons.IH [of "i - 1"] Cons.prems by (cases i) (auto simp: delete_at_def)
qed (simp add: delete_at_def)

lemma next_index_cursor:
  assumes "waiting_ok (waiting_of q) wt (qu_userOrder q) n" "cursor_ok q" "qu_userOrder q \<noteq> []"
  shows "next_index q = Some (qu_cursor q)"
proof -
  have "qu_cursor q < length (qu_userOrder q)" using assms by (simp add: cursor_ok_def)
  moreover from this have "waiting_of q (qu_userOrder q ! qu_cursor q) \<noteq> []"
    using waiting_okD(2) [OF assms(1), of "qu_userOrder q ! qu_cursor q"] by simp
  ultimately show ?thesis using assms(3) by (simp add: next_index_def upt_conv_Cons)
qed

lemma waiting_count_pos:
  assumes "waiting_ok W wt order n"
  shows "0 \<le> n" "n = 0 \<longleftrightarrow> order = []"
proof -
  show "0 \<le> n" using waiting_okD(6) [OF assms] by (simp add: sum_nonneg)
  show "n = 0 \<longleftrightarrow> order = []"
    using waiting_okD(2) [OF assms] waiting_okD(6) [OF assms] by (cases order) (auto simp: sum_nonneg_eq_0_iff)
qed

text \<open>What the take does to a queue whose invariant holds, in one step.\<close>

definition take_result :: "Queue \<Rightarrow> UserID \<Rightarrow> Ticket \<Rightarrow> Ticket list \<Rightarrow> Queue" where
  "take_result q u t ts =
    q\<lparr>qu_waiting := (if ts = [] then AList.delete u (AList.update u ts (qu_waiting q)) else AList.update u ts (qu_waiting q)),
      qu_waitingTicket := AList.delete (ti_ID t) (qu_waitingTicket q),
      qu_waitingCount := qu_waitingCount q - 1,
      qu_userOrder := (if ts = [] then delete_at (qu_cursor q) (qu_userOrder q) else qu_userOrder q),
      qu_cursor := (if ts = [] then (if length (qu_userOrder q) = 1 then 0 else qu_cursor q mod (length (qu_userOrder q) - 1))
                    else (qu_cursor q + 1) mod length (qu_userOrder q))\<rparr>"

lemma takeNextLocked_empty:
  assumes "queue_inv q" "qu_userOrder q = []"
  shows "takeNextLocked q = (None, q)"
  using assms by (simp add: takeNextLocked_def)

lemma takeNextLocked_result:
  assumes inv: "queue_inv q" and ne: "qu_userOrder q \<noteq> []"
  obtains u t ts where "u = qu_userOrder q ! qu_cursor q" "waiting_of q u = t # ts" "qu_cursor q < length (qu_userOrder q)"
    "takeNextLocked q = (Some t, take_result q u t ts)"
proof -
  note w = queue_inv_waiting [OF inv]
  have cur: "cursor_ok q" using inv by (simp add: queue_inv_def)
  then have c: "qu_cursor q < length (qu_userOrder q)" using ne by (simp add: cursor_ok_def)
  define u where "u = qu_userOrder q ! qu_cursor q"
  have "waiting_of q u \<noteq> []" using waiting_okD(2) [OF w, of u] c by (simp add: u_def)
  then obtain t ts where ts: "waiting_of q u = t # ts" by (cases "waiting_of q u") auto
  have "qu_waitingCount q \<noteq> 0" using waiting_count_pos(2) [OF w] ne by simp
  moreover have "length (delete_at (qu_cursor q) (qu_userOrder q)) = length (qu_userOrder q) - 1"
    using c by (auto simp: delete_at_def)
  ultimately have "takeNextLocked q = (Some t, take_result q u t ts)"
    using ne c ts u_def next_index_cursor [OF w cur ne]
    by (auto simp: takeNextLocked_def take_result_def Let_def le_Suc_eq length_Suc_conv)
  then show thesis using that u_def ts c by blast
qed

lemma take_result_inv:
  assumes inv: "queue_inv q" and u: "u = qu_userOrder q ! qu_cursor q" "qu_cursor q < length (qu_userOrder q)"
    and ts: "waiting_of q u = t # ts"
  shows "queue_inv (take_result q u t ts)"
proof -
  note w = queue_inv_waiting [OF inv]
  have keep: "filter (\<lambda>t'. ti_ID t' \<noteq> ti_ID t) (waiting_of q u) = ts"
    using waiting_okD(4) [OF w, of u] ts by (auto simp: filter_id_conv) (metis image_eqI)
  have ord: "filter (\<lambda>v. v \<noteq> u \<or> ts \<noteq> []) (qu_userOrder q) = (if ts = [] then delete_at (qu_cursor q) (qu_userOrder q) else qu_userOrder q)"
    using delete_at_filter [OF waiting_okD(1) [OF w] u(2)] u(1) by simp
  have W: "waiting_of (take_result q u t ts) = (waiting_of q)(u := ts)" by (auto simp: take_result_def)
  have wok: "waiting_ok (waiting_of (take_result q u t ts)) (map_of (qu_waitingTicket (take_result q u t ts)))
      (qu_userOrder (take_result q u t ts)) (qu_waitingCount (take_result q u t ts))"
    using waiting_ok_remove [OF w, of t u] ts unfolding keep ord W by (simp add: take_result_def)
  have "cursor_ok (take_result q u t ts)"
    using u(2) by (auto simp: cursor_ok_def take_result_def delete_at_def)
  moreover have "\<forall>v. map_of (qu_waiting (take_result q u t ts)) v \<noteq> Some []"
    using queue_inv_nonempty [OF inv] by (simp add: take_result_def)
  moreover have "qu_waitingCount q - 1 \<le> cf_MaxQueued (qu_config q)" using inv by (simp add: queue_inv_def)
  ultimately show ?thesis using inv wok by (auto simp: queue_inv_def take_result_def)
qed

text \<open>The take implements the abstract scheduler.\<close>

lemma ring_take_result:
  assumes inv: "queue_inv q" and u: "u = qu_userOrder q ! qu_cursor q" "qu_cursor q < length (qu_userOrder q)"
    and ts: "waiting_of q u = t # ts"
  shows "ring_next (ring_of q) = Some (t, ring_of (take_result q u t ts))"
proof -
  define c xs where "c = qu_cursor q" and "xs = qu_userOrder q"
  have d: "distinct xs" using waiting_okD(1) [OF queue_inv_waiting [OF inv]] by (simp add: xs_def)
  have c: "c < length xs" "xs ! c = u" using u by (simp_all add: c_def xs_def)
  have drop: "drop c xs = u # drop (Suc c) xs" using c Cons_nth_drop_Suc [of c xs] by simp
  have notin: "u \<notin> set (drop (Suc c) xs)" "u \<notin> set (take c xs)"
    using d c drop by (metis distinct.simps(2) distinct_drop, metis append_take_drop_id distinct_append Int_iff empty_iff list.set_intros(1))
  let ?W = "waiting_of q" and ?W' = "(waiting_of q)(u := ts)"
  have same: "map (\<lambda>v. (v, ?W' v)) (drop (Suc c) xs @ take c xs) = map (\<lambda>v. (v, ?W v)) (drop (Suc c) xs @ take c xs)"
    using notin by auto
  have W: "waiting_of (take_result q u t ts) = ?W'" by (auto simp: take_result_def)
  have lhs: "ring_of q = (u, t # ts) # map (\<lambda>v. (v, ?W v)) (drop (Suc c) xs @ take c xs)"
    using ts drop by (simp add: ring_of_def c_def xs_def)
  have rhs: "ring_of (take_result q u t ts) =
      map (\<lambda>v. (v, ?W' v)) (drop (Suc c) xs @ take c xs @ (if ts = [] then [] else [u]))"
  proof (cases "ts = []")
    case True
    have "length xs - 1 = c \<and> drop (Suc c) xs = [] \<or> Suc c < length xs" using c by auto
    then show ?thesis
      using True c(1) unfolding ring_of_def W by (auto simp: take_result_def delete_at_def c_def [symmetric] xs_def [symmetric])
  next
    case False
    have suc: "take (Suc c) xs = take c xs @ [u]" using c by (metis take_Suc_conv_app_nth)
    have "drop (Suc c mod length xs) xs @ take (Suc c mod length xs) xs = drop (Suc c) xs @ take c xs @ [u]"
    proof (cases "Suc c = length xs")
      case True
      then have "take (Suc c) xs = xs" by simp
      then show ?thesis using True suc by simp
    next
      case False
      then show ?thesis using c suc by simp
    qed
    then show ?thesis
      using False unfolding ring_of_def W by (simp add: take_result_def c_def [symmetric] xs_def [symmetric] del: map_append)
  qed
  show ?thesis using same unfolding lhs rhs by simp
qed

subsection \<open>The active side\<close>

lemma active_okD:
  assumes "active_ok A B"
  shows "distinct (map fst A)" "map_of A i = Some t \<Longrightarrow> ti_ID t = i" "distinct (map fst B)"
    "map_of B u = (let n = length (filter (\<lambda>p. ti_UserID (snd p) = u) A) in if n = 0 then None else Some (int n))"
    "go_get 0 B u = int (length (filter (\<lambda>p. ti_UserID (snd p) = u) A))"
  using assms by (auto simp: active_ok_def go_get_def Let_def dest: map_of_SomeD)

lemma active_ok_add:
  assumes ok: "active_ok A B" and new: "map_of A (ti_ID t) = None"
  shows "active_ok (AList.update (ti_ID t) t A) (AList.update (ti_UserID t) (go_get 0 B (ti_UserID t) + 1) B)"
proof -
  have "\<forall>(i, t') \<in> set (AList.update (ti_ID t) t A). ti_ID t' = i"
    using ok new by (auto simp: update_new active_ok_def)
  then show ?thesis
    using active_okD(1,3) [OF ok] active_okD(4,5) [OF ok] new by (auto simp: active_ok_def update_new Let_def)
qed

lemma length_filter_delete:
  assumes "distinct (map fst A)" "map_of A i = Some t"
  shows "length (filter P (AList.delete i A)) = length (filter P A) - (if P (i, t) then 1 else 0)"
  using assms
proof (induction A)
  case (Cons p A)
  have "fst p = i \<Longrightarrow> AList.delete i A = A" using Cons.prems by (auto simp: delete_filter filter_id_conv rev_image_eqI)
  moreover have "fst p \<noteq> i \<Longrightarrow> P (i, t) \<Longrightarrow> filter P A \<noteq> []"
    using Cons.prems by (auto simp: filter_empty_conv dest!: map_of_SomeD split: if_splits)
  ultimately show ?case using Cons by (cases p) (auto simp: Suc_diff_le)
qed simp

lemma active_ok_release:
  assumes ok: "active_ok (qu_active q) (qu_activeByUser q)" and t: "map_of (qu_active q) i = Some t"
  shows "active_ok (AList.delete i (qu_active q))
    (qu_activeByUser (decrementActiveLocked (ti_UserID t) (q\<lparr>qu_active := AList.delete i (qu_active q)\<rparr>)))"
proof -
  let ?A = "qu_active q" and ?B = "qu_activeByUser q" and ?u = "ti_UserID t"
  let ?n = "\<lambda>A u. length (filter (\<lambda>p. ti_UserID (snd p) = u) A)"
  note d = active_okD [OF ok]
  have n: "?n (AList.delete i ?A) v = ?n ?A v - (if v = ?u then 1 else 0)" for v
    using length_filter_delete [OF d(1) t, of "\<lambda>p. ti_UserID (snd p) = v"] by auto
  have pos: "?n ?A ?u > 0" using map_of_SomeD [OF t] by (auto simp: filter_empty_conv intro!: bexI [of _ "(i, t)"])
  have B': "qu_activeByUser (decrementActiveLocked ?u (q\<lparr>qu_active := AList.delete i ?A\<rparr>)) =
      (if ?n ?A ?u = 1 then AList.delete ?u (AList.update ?u (int (?n ?A ?u) - 1) ?B) else AList.update ?u (int (?n ?A ?u) - 1) ?B)"
    by (simp add: decrementActiveLocked_def Let_def d(5))
  have "map_of (qu_activeByUser (decrementActiveLocked ?u (q\<lparr>qu_active := AList.delete i ?A\<rparr>))) v =
      (let k = ?n (AList.delete i ?A) v in if k = 0 then None else Some (int k))" for v
    unfolding B' n using d(4) [of v] pos by (auto simp: Let_def le_Suc_eq)
  moreover have "distinct (map fst (qu_activeByUser (decrementActiveLocked ?u (q\<lparr>qu_active := AList.delete i ?A\<rparr>))))"
    unfolding B' using d(3) by simp
  moreover have "\<forall>(j, t') \<in> set (AList.delete i ?A). ti_ID t' = j"
    using ok by (auto simp: active_ok_def delete_filter)
  ultimately show ?thesis using d(1) by (simp add: active_ok_def)
qed

lemma decrementActiveLocked_fields [simp]:
  "qu_config (decrementActiveLocked u q) = qu_config q" "qu_waiting (decrementActiveLocked u q) = qu_waiting q"
  "qu_waitingTicket (decrementActiveLocked u q) = qu_waitingTicket q" "qu_userOrder (decrementActiveLocked u q) = qu_userOrder q"
  "qu_cursor (decrementActiveLocked u q) = qu_cursor q" "qu_waitingCount (decrementActiveLocked u q) = qu_waitingCount q"
  "qu_active (decrementActiveLocked u q) = qu_active q"
  by (simp_all add: decrementActiveLocked_def Let_def)

lemma release_active_inv:
  assumes inv: "queue_inv q" and t: "map_of (qu_active q) i = Some t"
  shows "queue_inv (decrementActiveLocked (ti_UserID t) (q\<lparr>qu_active := AList.delete i (qu_active q)\<rparr>))"
proof -
  have "int (length (AList.delete i (qu_active q))) \<le> cf_MaxActive (qu_config q)"
    using inv length_delete_present [OF _ t] by (auto simp: queue_inv_def active_ok_def)
  then show ?thesis
    using inv active_ok_release [OF _ t] queue_inv_nonempty [OF inv] by (auto simp: queue_inv_def cursor_ok_def)
qed

lemma admit_inv:
  assumes inv: "queue_inv q" and "map_of (qu_active q) (ti_ID t) = None" "map_of (qu_waitingTicket q) (ti_ID t) = None"
    and "int (length (qu_active q)) < cf_MaxActive (qu_config q)"
  shows "queue_inv (admit now t q)" "qu_active (admit now t q) = qu_active q @ [(ti_ID t, t)]" "ring_of (admit now t q) = ring_of q"
proof -
  show act: "qu_active (admit now t q) = qu_active q @ [(ti_ID t, t)]"
    using assms(2) by (simp add: admit_def update_new)
  show "ring_of (admit now t q) = ring_of q" by (simp add: admit_def ring_of_def)
  have ok: "active_ok (qu_active (admit now t q)) (qu_activeByUser (admit now t q))"
    using active_ok_add [of "qu_active q" "qu_activeByUser q" t] inv assms(2) by (simp add: queue_inv_def admit_def)
  have "int (length (qu_active (admit now t q))) \<le> cf_MaxActive (qu_config q)" using act assms(4) by simp
  then show "queue_inv (admit now t q)"
    using inv ok assms(3) queue_inv_nonempty [OF inv] unfolding queue_inv_def
    by (intro conjI) (simp_all add: admit_def cursor_ok_def)
qed

subsection \<open>Expiry\<close>

abbreviation alive :: "gotime \<Rightarrow> Ticket \<Rightarrow> bool" where
  "alive now t \<equiv> now < ti_Deadline t"

abbreviation expirations :: "gotime \<Rightarrow> Ticket list \<Rightarrow> Expiration list" where
  "expirations now ts \<equiv> map (\<lambda>t. \<lparr>xp_Ticket = t, xp_ExpiredAt = now\<rparr>) (filter (\<lambda>t. \<not> alive now t) ts)"

lemma expire_tickets:
  "foldl (expire_ticket now) (q, kept, ex) ts =
    (q\<lparr>qu_waitingTicket := fold (\<lambda>t. AList.delete (ti_ID t)) (filter (\<lambda>t. \<not> alive now t) ts) (qu_waitingTicket q),
       qu_waitingCount := qu_waitingCount q - int (length (filter (\<lambda>t. \<not> alive now t) ts))\<rparr>,
     kept @ filter (alive now) ts, ex @ expirations now ts)"
  by (induction ts arbitrary: q kept ex) simp_all

lemma map_of_fold_delete:
  "map_of (fold (\<lambda>t. AList.delete (f t)) ts m) i = (if i \<in> f ` set ts then None else map_of m i)"
  by (induction ts arbitrary: m) auto

lemma distinct_fold_delete:
  "distinct (map fst m) \<Longrightarrow> distinct (map fst (fold (\<lambda>t. AList.delete (f t)) ts m))"
  by (induction ts arbitrary: m) auto

text \<open>The effect of the outer loop's body on the queue, and of the whole loop over the users \<open>us\<close>.\<close>

definition expire_one :: "gotime \<Rightarrow> UserID \<Rightarrow> Queue \<Rightarrow> Queue" where
  "expire_one now u q =
    q\<lparr>qu_waiting := (if filter (alive now) (waiting_of q u) = [] then AList.delete u (qu_waiting q)
        else AList.update u (filter (alive now) (waiting_of q u)) (qu_waiting q)),
      qu_waitingTicket := fold (\<lambda>t. AList.delete (ti_ID t)) (filter (\<lambda>t. \<not> alive now t) (waiting_of q u)) (qu_waitingTicket q),
      qu_waitingCount := qu_waitingCount q - int (length (filter (\<lambda>t. \<not> alive now t) (waiting_of q u)))\<rparr>"

lemma expire_user_one:
  "expire_user now (q, ord, ex) u =
    (expire_one now u q, ord @ (if filter (alive now) (waiting_of q u) = [] then [] else [u]), ex @ expirations now (waiting_of q u))"
  by (simp add: expire_tickets expire_one_def)

lemma expire_one_waiting: "waiting_of (expire_one now u q) = (waiting_of q)(u := filter (alive now) (waiting_of q u))"
  by (auto simp: expire_one_def)

lemma expire_users_loop:
  "distinct us \<Longrightarrow> foldl (expire_user now) (q, ord, ex) us =
    (fold (expire_one now) us q, ord @ filter (\<lambda>u. filter (alive now) (waiting_of q u) \<noteq> []) us,
     ex @ concat (map (\<lambda>u. expirations now (waiting_of q u)) us))"
proof (induction us arbitrary: q ord ex)
  case (Cons u us)
  have "filter (\<lambda>v. filter (alive now) (waiting_of (expire_one now u q) v) \<noteq> []) us = filter (\<lambda>v. filter (alive now) (waiting_of q v) \<noteq> []) us"
    "concat (map (\<lambda>v. expirations now (waiting_of (expire_one now u q) v)) us) = concat (map (\<lambda>v. expirations now (waiting_of q v)) us)"
    using Cons.prems by (auto simp: expire_one_waiting intro!: filter_cong arg_cong [where f = concat])
  with Cons show ?case by (simp add: expire_user_one del: expire_user.simps)
qed simp

lemma expire_all_waiting:
  "distinct us \<Longrightarrow> waiting_of (fold (expire_one now) us q) =
    (\<lambda>u. if u \<in> set us then filter (alive now) (waiting_of q u) else waiting_of q u)"
  by (induction us arbitrary: q) (auto simp: expire_one_waiting fun_eq_iff)

lemma expire_all_tickets:
  "distinct us \<Longrightarrow> map_of (qu_waitingTicket (fold (expire_one now) us q)) i =
    (if \<exists>u \<in> set us. \<exists>t \<in> set (waiting_of q u). ti_ID t = i \<and> \<not> alive now t then None else map_of (qu_waitingTicket q) i)"
proof (induction us arbitrary: q)
  case (Cons u us)
  have "(\<exists>v \<in> set us. \<exists>t \<in> set (waiting_of (expire_one now u q) v). ti_ID t = i \<and> \<not> alive now t) \<longleftrightarrow>
      (\<exists>v \<in> set us. \<exists>t \<in> set (waiting_of q v). ti_ID t = i \<and> \<not> alive now t)"
    using Cons.prems by (auto simp: expire_one_waiting split: if_splits)
  moreover have "map_of (qu_waitingTicket (expire_one now u q)) i =
      (if \<exists>t \<in> set (waiting_of q u). ti_ID t = i \<and> \<not> alive now t then None else map_of (qu_waitingTicket q) i)"
    by (auto simp: expire_one_def map_of_fold_delete)
  ultimately show ?case using Cons by auto
qed simp

lemma expire_all_count:
  "distinct us \<Longrightarrow> qu_waitingCount (fold (expire_one now) us q) =
    qu_waitingCount q - (\<Sum>u \<in> set us. int (length (filter (\<lambda>t. \<not> alive now t) (waiting_of q u))))"
proof (induction us arbitrary: q)
  case (Cons u us)
  have "(\<Sum>v \<in> set us. int (length (filter (\<lambda>t. \<not> alive now t) (waiting_of (expire_one now u q) v)))) =
      (\<Sum>v \<in> set us. int (length (filter (\<lambda>t. \<not> alive now t) (waiting_of q v))))"
    using Cons.prems by (intro sum.cong refl) (auto simp: expire_one_waiting)
  moreover have "qu_waitingCount (expire_one now u q) = qu_waitingCount q - int (length (filter (\<lambda>t. \<not> alive now t) (waiting_of q u)))"
    by (simp add: expire_one_def)
  ultimately show ?case using Cons by simp
qed simp

lemma expire_all_rest:
  "qu_config (fold (expire_one now) us q) = qu_config q \<and> qu_active (fold (expire_one now) us q) = qu_active q \<and>
   qu_activeByUser (fold (expire_one now) us q) = qu_activeByUser q \<and>
   (distinct (map fst (qu_waiting q)) \<longrightarrow> distinct (map fst (qu_waiting (fold (expire_one now) us q)))) \<and>
   (distinct (map fst (qu_waitingTicket q)) \<longrightarrow> distinct (map fst (qu_waitingTicket (fold (expire_one now) us q)))) \<and>
   ((\<forall>u. map_of (qu_waiting q) u \<noteq> Some []) \<longrightarrow> (\<forall>u. map_of (qu_waiting (fold (expire_one now) us q)) u \<noteq> Some []))"
proof (induction us arbitrary: q)
  case (Cons u us)
  have keep: "qu_config (expire_one now u q) = qu_config q" "qu_active (expire_one now u q) = qu_active q"
    "qu_activeByUser (expire_one now u q) = qu_activeByUser q"
    "distinct (map fst (qu_waiting q)) \<Longrightarrow> distinct (map fst (qu_waiting (expire_one now u q)))"
    "distinct (map fst (qu_waitingTicket q)) \<Longrightarrow> distinct (map fst (qu_waitingTicket (expire_one now u q)))"
    by (simp_all add: expire_one_def distinct_fold_delete)
  moreover have "(\<forall>v. map_of (qu_waiting q) v \<noteq> Some []) \<longrightarrow> (\<forall>v. map_of (qu_waiting (expire_one now u q)) v \<noteq> Some [])"
    by (simp add: expire_one_def)
  ultimately show ?case using Cons.IH [of "expire_one now u q"] by (simp only: fold_simps o_apply) blast
qed simp

lemma anchor_index_bound: "anchor_index a n us < n + length us \<or> anchor_index a n us = 0"
proof (induction us arbitrary: n)
  case (Cons u us)
  then show ?case using Cons.IH [of "n + 1"] by auto
qed simp

lemma anchor_cursor_ok: "cursor_ok (q\<lparr>qu_userOrder := us, qu_cursor := anchor_index a 0 us\<rparr>)"
  using anchor_index_bound [of a 0 us] by (cases us) (auto simp: cursor_ok_def)

text \<open>Expiry as a whole: the live tickets stay, in order, and the rotation keeps the users that still wait.\<close>

lemma expireLocked_spec:
  assumes inv: "queue_inv q" and ex: "expireLocked now q = (ex, q')"
  shows "queue_inv q'" "waiting_of q' = (\<lambda>u. filter (alive now) (waiting_of q u))"
    "qu_userOrder q' = filter (\<lambda>u. filter (alive now) (waiting_of q u) \<noteq> []) (qu_userOrder q)"
    "ex = concat (map (\<lambda>u. expirations now (waiting_of q u)) (qu_userOrder q))"
    "qu_active q' = qu_active q" "qu_config q' = qu_config q"
proof -
  note w = queue_inv_waiting [OF inv] and d = waiting_okD [OF queue_inv_waiting [OF inv]]
  show W: "waiting_of q' = (\<lambda>u. filter (alive now) (waiting_of q u))"
    and ord: "qu_userOrder q' = filter (\<lambda>u. filter (alive now) (waiting_of q u) \<noteq> []) (qu_userOrder q)"
    and "ex = concat (map (\<lambda>u. expirations now (waiting_of q u)) (qu_userOrder q))"
    and act: "qu_active q' = qu_active q" and cfg: "qu_config q' = qu_config q"
    using ex d(1,2) waiting_count_pos(2) [OF w]
    by (auto simp: expireLocked_def expire_users_loop expire_all_waiting expire_all_rest fun_eq_iff split: if_splits)
  have n: "qu_waitingCount q' = qu_waitingCount q - (\<Sum>u \<in> set (qu_userOrder q). int (length (filter (\<lambda>t. \<not> alive now t) (waiting_of q u))))"
    using ex d(1) waiting_count_pos(2) [OF w] by (auto simp: expireLocked_def expire_users_loop expire_all_count split: if_splits)
  have wt: "map_of (qu_waitingTicket q') i = Some u \<longleftrightarrow> (\<exists>t \<in> set (waiting_of q u). ti_ID t = i \<and> alive now t)" for i u
  proof -
    have "map_of (qu_waitingTicket q') i = (if \<exists>u \<in> set (qu_userOrder q). \<exists>t \<in> set (waiting_of q u). ti_ID t = i \<and> \<not> alive now t
        then None else map_of (qu_waitingTicket q) i)"
      using ex d(1) waiting_count_pos(2) [OF w] by (auto simp: expireLocked_def expire_users_loop expire_all_tickets split: if_splits)
    then show ?thesis
      using d(2) d(5) [of i u] waiting_ids_unique [OF w] by (auto split: if_splits) (metis list.set_intros(1) empty_iff list.set(1))+
  qed
  have "waiting_ok (waiting_of q') (map_of (qu_waitingTicket q')) (qu_userOrder q') (qu_waitingCount q')"
    unfolding W ord by (rule waiting_ok_filter [OF w wt n])
  moreover have "distinct (map fst (qu_waiting q'))" "distinct (map fst (qu_waitingTicket q'))"
    "qu_activeByUser q' = qu_activeByUser q" "\<forall>u. map_of (qu_waiting q') u \<noteq> Some []"
    using ex d(1) expire_all_rest [of now "qu_userOrder q" q] inv
    by (auto simp: expireLocked_def expire_users_loop queue_inv_def split: if_splits)
  moreover have "cursor_ok q'"
  proof (cases "qu_waitingCount q = 0")
    case True
    then show ?thesis using ex inv by (simp add: expireLocked_def queue_inv_def)
  next
    case False
    then obtain q0 us a where "q' = q0\<lparr>qu_userOrder := us, qu_cursor := anchor_index a 0 us\<rparr>"
      using ex by (auto simp: expireLocked_def Let_def case_prod_beta)
    then show ?thesis using anchor_cursor_ok by simp
  qed
  moreover have "qu_waitingCount q' \<le> cf_MaxQueued (qu_config q)"
  proof -
    have "0 \<le> (\<Sum>u \<in> set (qu_userOrder q). int (length (filter (\<lambda>t. \<not> alive now t) (waiting_of q u))))" by (simp add: sum_nonneg)
    moreover have "qu_waitingCount q \<le> cf_MaxQueued (qu_config q)" using inv by (simp add: queue_inv_def)
    ultimately show ?thesis using n by linarith
  qed
  moreover have "map_of (qu_active q) i = None \<or> map_of (qu_waitingTicket q') i = None" for i
  proof (cases "map_of (qu_waitingTicket q') i")
    case (Some u)
    then have "map_of (qu_waitingTicket q) i = Some u" using wt [of i u] d(5) [of i u] by auto
    then show ?thesis using inv unfolding queue_inv_def by (metis option.distinct(1))
  qed simp
  ultimately show "queue_inv q'" using inv act cfg unfolding queue_inv_def by simp
qed

subsection \<open>Enqueue and cancel\<close>

lemma waiting_ok_add:
  assumes ok: "waiting_ok W wt order n" and new: "wt (ti_ID t) = None"
  shows "waiting_ok (W(ti_UserID t := W (ti_UserID t) @ [t])) (wt(ti_ID t \<mapsto> ti_UserID t))
    (if W (ti_UserID t) = [] then order @ [ti_UserID t] else order) (n + 1)"
proof -
  note d = waiting_okD [OF ok]
  let ?u = "ti_UserID t" and ?ord = "if W (ti_UserID t) = [] then order @ [ti_UserID t] else order"
  have u: "?u \<in> set order \<longleftrightarrow> W ?u \<noteq> []" by (rule d(2))
  have notin: "ti_ID t \<notin> ti_ID ` set (W v)" for v using d(5) [of "ti_ID t" v] new by simp
  have set: "set ?ord = insert ?u (set order)" using u by auto
  have "(\<Sum>v \<in> insert ?u (set order). int (length ((W(?u := W ?u @ [t])) v))) =
      int (length (W ?u)) + 1 + (\<Sum>v \<in> set order - {?u}. int (length (W v)))"
    by (subst sum.insert_remove) (auto intro!: sum.cong)
  also have "\<dots> = (\<Sum>v \<in> set order. int (length (W v))) + 1"
    using u by (cases "W ?u = []") (simp_all add: sum.remove [of "set order" ?u])
  finally have "n + 1 = (\<Sum>v \<in> set ?ord. int (length ((W(?u := W ?u @ [t])) v)))"
    unfolding set using d(6) by simp
  moreover have "distinct ?ord" using d(1) u by simp
  moreover have "v \<in> set ?ord \<longleftrightarrow> (W(?u := W ?u @ [t])) v \<noteq> []" for v unfolding set using d(2) [of v] by auto
  moreover have "distinct (map ti_ID ((W(?u := W ?u @ [t])) v))" for v using d(4) [of v] notin [of v] by auto
  moreover have "(wt(ti_ID t \<mapsto> ?u)) i = Some v \<longleftrightarrow> i \<in> ti_ID ` set ((W(?u := W ?u @ [t])) v)" for i v
    using d(5) [of i v] notin [of v] by auto
  moreover have "\<forall>v. \<forall>t' \<in> set ((W(?u := W ?u @ [t])) v). ti_UserID t' = v" using d(3) by auto
  ultimately show ?thesis unfolding waiting_ok_def by blast
qed

text \<open>An accepted request.\<close>

lemma Enqueue_accepted:
  assumes "Enqueue now r q = (Inr t, q')"
  shows "ti_ID t = re_ID r" "ti_UserID t = re_UserID r" "ti_EnqueuedAt t = now" "now \<le> ti_Deadline t"
    "ti_Deadline t \<le> now + cf_MaxQueueWait (qu_config q)"
    "map_of (qu_waitingTicket q) (ti_ID t) = None" "map_of (qu_active q) (ti_ID t) = None"
    "qu_waitingCount q < cf_MaxQueued (qu_config q)"
    "q' = q\<lparr>qu_userOrder := (if waiting_of q (ti_UserID t) = [] then qu_userOrder q @ [ti_UserID t] else qu_userOrder q),
      qu_waiting := AList.update (ti_UserID t) (waiting_of q (ti_UserID t) @ [t]) (qu_waiting q),
      qu_waitingTicket := AList.update (ti_ID t) (ti_UserID t) (qu_waitingTicket q), qu_waitingCount := qu_waitingCount q + 1\<rparr>"
  using assms by (auto simp: Enqueue_def Let_def split: if_splits)

lemma Enqueue_rejected: "Enqueue now r q = (Inl e, q') \<Longrightarrow> q' = q"
  by (auto simp: Enqueue_def Let_def split: if_splits)

lemma Enqueue_inv:
  assumes inv: "queue_inv q"
  shows "queue_inv (snd (Enqueue now r q))"
proof (cases "Enqueue now r q")
  case (Pair res q')
  show ?thesis
  proof (cases res)
    case (Inl e)
    then have "q' = q" using Pair Enqueue_rejected by blast
    then show ?thesis using Pair inv by simp
  next
    case (Inr t)
    note a = Enqueue_accepted [OF Pair [unfolded Inr]]
    have "waiting_ok (waiting_of q') (map_of (qu_waitingTicket q')) (qu_userOrder q') (qu_waitingCount q')"
      using waiting_ok_add [OF queue_inv_waiting [OF inv] a(6)] by (simp add: a(9))
    moreover have "cursor_ok q'" using inv by (auto simp: a(9) cursor_ok_def queue_inv_def split: if_splits)
    moreover have "\<forall>u. map_of (qu_waiting q') u \<noteq> Some []" using queue_inv_nonempty [OF inv] by (simp add: a(9))
    moreover have "qu_waitingCount q' \<le> cf_MaxQueued (qu_config q')" using a(8) by (simp add: a(9))
    moreover have "\<forall>i. map_of (qu_active q') i = None \<or> map_of (qu_waitingTicket q') i = None"
      using inv a(7) by (simp add: a(9) queue_inv_def)
    moreover have "distinct (map fst (qu_waiting q'))" "distinct (map fst (qu_waitingTicket q'))" "qu_config q' = qu_config q"
      "qu_active q' = qu_active q" "qu_activeByUser q' = qu_activeByUser q"
      using inv by (simp_all add: a(9) queue_inv_def)
    ultimately show ?thesis using inv Pair unfolding queue_inv_def by simp
  qed
qed

lemma find_index_Some:
  "find_index P xs = Some i \<Longrightarrow> i < length xs \<and> P (xs ! i) \<and> (\<forall>j < i. \<not> P (xs ! j))"
  by (induction xs arbitrary: i) (auto simp: nth_Cons less_Suc_eq_0_disj split: if_splits nat.splits)

lemma find_index_None: "find_index P xs = None \<longleftrightarrow> (\<forall>x \<in> set xs. \<not> P x)"
  by (induction xs) auto

text \<open>Removing a user keeps the rotation where it was, without that user.\<close>

lemma rotation_remove:
  assumes "u \<notin> set A" "u \<notin> set B" "k < length (A @ u # B)"
    and c: "c = (if length (A @ u # B) = 1 then 0 else if length A < k then k - 1 else if k \<ge> length (A @ u # B) - 1 then 0 else k)"
  shows "drop c (A @ B) @ take c (A @ B) = filter (\<lambda>v. v \<noteq> u) (drop k (A @ u # B) @ take k (A @ u # B))"
proof (cases "length A < k")
  case True
  then obtain m where m: "k = Suc (length A + m)" by (metis less_iff_Suc_add)
  then have "c = length A + m" using c True assms(3) by auto
  moreover have "filter (\<lambda>v. v \<noteq> u) A = A" "filter (\<lambda>v. v \<noteq> u) (drop m B) = drop m B" "filter (\<lambda>v. v \<noteq> u) (take m B) = take m B"
    using assms(1,2) by (auto simp: filter_id_conv dest: in_set_dropD in_set_takeD)
  ultimately show ?thesis using m by simp
next
  case False
  have flt: "filter (\<lambda>v. v \<noteq> u) (drop k A) = drop k A" "filter (\<lambda>v. v \<noteq> u) (take k A) = take k A" "filter (\<lambda>v. v \<noteq> u) B = B"
    using assms(1,2) by (auto simp: filter_id_conv dest: in_set_dropD in_set_takeD)
  show ?thesis
  proof (cases "k \<ge> length (A @ u # B) - 1")
    case True
    then have "length A + length B \<le> k" by simp
    then have "length B = 0" "k = length A" using False by linarith+
    then have "B = []" "k = length A" "c = 0" using c by auto
    then show ?thesis using flt by simp
  next
    case False
    then have "c = k" "k \<le> length A" using c \<open>\<not> length A < k\<close> by (auto split: if_splits)
    then show ?thesis using flt by simp
  qed
qed

lemma removeUserLocked_result:
  assumes "distinct (qu_userOrder q)" "u \<in> set (qu_userOrder q)" "qu_cursor q < length (qu_userOrder q)"
  obtains c where "removeUserLocked u q = q\<lparr>qu_userOrder := filter (\<lambda>v. v \<noteq> u) (qu_userOrder q), qu_cursor := c\<rparr>"
    "cursor_ok (removeUserLocked u q)"
    "drop c (filter (\<lambda>v. v \<noteq> u) (qu_userOrder q)) @ take c (filter (\<lambda>v. v \<noteq> u) (qu_userOrder q)) =
      filter (\<lambda>v. v \<noteq> u) (drop (qu_cursor q) (qu_userOrder q) @ take (qu_cursor q) (qu_userOrder q))"
proof -
  obtain A B where AB: "qu_userOrder q = A @ u # B" "u \<notin> set A" using split_list_first [OF assms(2)] by auto
  have B: "u \<notin> set B" using AB assms(1) by simp
  have i: "find_index (\<lambda>v. v = u) (A @ u # B) = Some (length A)" using AB(2) by (induction A) auto
  have flt: "filter (\<lambda>v. v \<noteq> u) (qu_userOrder q) = A @ B" using AB B filter_id_conv [of "\<lambda>v. v \<noteq> u" A] filter_id_conv [of "\<lambda>v. v \<noteq> u" B] by auto
  define c where "c = (if length (A @ u # B) = 1 then 0 else if length A < qu_cursor q then qu_cursor q - 1
      else if qu_cursor q \<ge> length (A @ u # B) - 1 then 0 else qu_cursor q)"
  have r: "removeUserLocked u q = q\<lparr>qu_userOrder := A @ B, qu_cursor := c\<rparr>"
    using i AB(1) by (auto simp: removeUserLocked_def delete_at_def c_def Let_def)
  have "cursor_ok (removeUserLocked u q)"
    using assms(3) AB(1) unfolding r cursor_ok_def c_def by auto
  moreover have "drop c (A @ B) @ take c (A @ B) =
      filter (\<lambda>v. v \<noteq> u) (drop (qu_cursor q) (qu_userOrder q) @ take (qu_cursor q) (qu_userOrder q))"
    unfolding AB(1) using assms(3) AB(1) by (intro rotation_remove [OF AB(2) B _ c_def]) simp
  ultimately show thesis using r by (intro that [of c, unfolded flt])
qed

text \<open>Removing a waiting ticket: it disappears from its user's queue, and the ring keeps its order.\<close>

lemma delete_at_id:
  assumes "distinct (map ti_ID ts)" "i < length ts"
  shows "delete_at i ts = filter (\<lambda>t'. ti_ID t' \<noteq> ti_ID (ts ! i)) ts"
proof -
  have "distinct ts" using assms(1) by (simp add: distinct_map)
  then have "delete_at i ts = filter (\<lambda>t'. t' \<noteq> ts ! i) ts" using delete_at_filter assms(2) by blast
  also have "\<dots> = filter (\<lambda>t'. ti_ID t' \<noteq> ti_ID (ts ! i)) ts"
  proof (intro filter_cong refl)
    fix x assume "x \<in> set ts"
    then show "(x \<noteq> ts ! i) = (ti_ID x \<noteq> ti_ID (ts ! i))"
      using assms nth_mem [OF assms(2)] by (auto simp: distinct_map dest: inj_onD)
  qed
  finally show ?thesis .
qed

definition ring_remove :: "TicketID \<Rightarrow> ring \<Rightarrow> ring" where
  "ring_remove i r = filter (\<lambda>(u, ts). ts \<noteq> []) (map (\<lambda>(u, ts). (u, filter (\<lambda>t. ti_ID t \<noteq> i) ts)) r)"

lemma map_filter_pair: "map (\<lambda>u. (u, W u)) (filter (\<lambda>u. W u \<noteq> []) us) = filter (\<lambda>(u, ts). ts \<noteq> []) (map (\<lambda>u. (u, W u)) us)"
  by (induction us) auto

lemma removeWaitingLocked_spec:
  assumes inv: "queue_inv q" and i: "map_of (qu_waitingTicket q) i = Some u"
  obtains t q' where "removeWaitingLocked u i q = (Some t, q')" "queue_inv q'" "t \<in> set (waiting_of q u)" "ti_ID t = i"
    "ring_of q' = ring_remove i (ring_of q)" "qu_waitingTicket q' = AList.delete i (qu_waitingTicket q)" "qu_active q' = qu_active q"
    "qu_config q' = qu_config q"
proof -
  note w = queue_inv_waiting [OF inv] and d = waiting_okD [OF queue_inv_waiting [OF inv]]
  define ts where "ts = waiting_of q u"
  have iu: "i \<in> ti_ID ` set ts" using d(5) i by (simp add: ts_def)
  then obtain k where k: "find_index (\<lambda>t. ti_ID t = i) ts = Some k"
    using find_index_None [of "\<lambda>t. ti_ID t = i" ts] by (cases "find_index (\<lambda>t. ti_ID t = i) ts") auto
  define t where "t = ts ! k"
  have t: "t \<in> set ts" "ti_ID t = i" "k < length ts" using find_index_Some [OF k] by (auto simp: t_def)
  define ts' where "ts' = filter (\<lambda>t'. ti_ID t' \<noteq> i) ts"
  have del: "delete_at k ts = ts'" using delete_at_id [of ts k] d(4) [of u] t by (simp add: ts_def [symmetric] t_def ts'_def)
  have mem: "u \<in> set (qu_userOrder q)" using d(2) [of u] iu by (auto simp: ts_def)
  then have cur: "qu_cursor q < length (qu_userOrder q)" using inv by (auto simp: queue_inv_def cursor_ok_def split: if_splits)
  have W': "(\<lambda>v. filter (\<lambda>t'. ti_ID t' \<noteq> i) (waiting_of q v)) = (waiting_of q)(u := ts')"
    using waiting_ids_unique [OF w] t(1,2) d(3) by (auto simp: fun_eq_iff ts'_def ts_def filter_id_conv) metis
  have wok: "waiting_ok ((waiting_of q)(u := ts')) ((map_of (qu_waitingTicket q))(i := None))
      (filter (\<lambda>v. v \<noteq> u \<or> ts' \<noteq> []) (qu_userOrder q)) (qu_waitingCount q - 1)"
    using waiting_ok_remove [OF w, of t u] t by (simp add: ts_def ts'_def)
  define q1 where "q1 = q\<lparr>qu_waitingTicket := AList.delete i (qu_waitingTicket q), qu_waitingCount := qu_waitingCount q - 1,
      qu_waiting := (if ts' = [] then AList.delete u (AList.update u ts' (qu_waiting q)) else AList.update u ts' (qu_waiting q))\<rparr>"
  have q1: "waiting_of q1 = (waiting_of q)(u := ts')" "qu_waitingTicket q1 = AList.delete i (qu_waitingTicket q)"
    "qu_userOrder q1 = qu_userOrder q" "qu_waitingCount q1 = qu_waitingCount q - 1" "qu_cursor q1 = qu_cursor q"
    "qu_active q1 = qu_active q" "qu_config q1 = qu_config q" "qu_activeByUser q1 = qu_activeByUser q"
    by (simp_all add: q1_def)
  obtain c where c: "removeUserLocked u q1 = q1\<lparr>qu_userOrder := filter (\<lambda>v. v \<noteq> u) (qu_userOrder q), qu_cursor := c\<rparr>"
    "cursor_ok (removeUserLocked u q1)"
    "drop c (filter (\<lambda>v. v \<noteq> u) (qu_userOrder q)) @ take c (filter (\<lambda>v. v \<noteq> u) (qu_userOrder q)) =
      filter (\<lambda>v. v \<noteq> u) (drop (qu_cursor q) (qu_userOrder q) @ take (qu_cursor q) (qu_userOrder q))"
    using removeUserLocked_result [of q1 u] d(1) mem cur by (auto simp: q1)
  define q' where "q' = (if ts' = [] then removeUserLocked u q1 else q1)"
  have run: "removeWaitingLocked u i q = (Some t, q')"
    using k del by (simp add: removeWaitingLocked_def Let_def ts_def [symmetric] q'_def q1_def t_def)
  have fields: "waiting_of q' = (waiting_of q)(u := ts')" "qu_waitingTicket q' = AList.delete i (qu_waitingTicket q)"
    "qu_userOrder q' = filter (\<lambda>v. v \<noteq> u \<or> ts' \<noteq> []) (qu_userOrder q)" "qu_waitingCount q' = qu_waitingCount q - 1"
    "qu_active q' = qu_active q" "qu_config q' = qu_config q" "qu_activeByUser q' = qu_activeByUser q" "qu_waiting q' = qu_waiting q1"
    unfolding q'_def using c(1) by (simp_all add: q1)
  have "cursor_ok q'" using c(2) inv by (auto simp: q'_def q1 cursor_ok_def queue_inv_def)
  moreover have "\<forall>v. map_of (qu_waiting q') v \<noteq> Some []" using queue_inv_nonempty [OF inv] by (simp add: fields q1_def)
  moreover have "distinct (map fst (qu_waiting q'))" using inv by (simp add: fields q1_def queue_inv_def)
  ultimately have "queue_inv q'" using inv wok by (auto simp: queue_inv_def fields(1-7))
  moreover have "ring_of q' = ring_remove i (ring_of q)"
  proof -
    let ?rot = "drop (qu_cursor q) (qu_userOrder q) @ take (qu_cursor q) (qu_userOrder q)"
    have "drop (qu_cursor q') (qu_userOrder q') @ take (qu_cursor q') (qu_userOrder q') = filter (\<lambda>v. ((waiting_of q)(u := ts')) v \<noteq> []) ?rot"
    proof (cases "ts' = []")
      case True
      then have "drop (qu_cursor q') (qu_userOrder q') @ take (qu_cursor q') (qu_userOrder q') = filter (\<lambda>v. v \<noteq> u) ?rot"
        using c(1,3) by (simp add: q'_def)
      also have "\<dots> = filter (\<lambda>v. ((waiting_of q)(u := ts')) v \<noteq> []) ?rot"
        using d(2) True by (intro filter_cong) (auto dest: in_set_dropD in_set_takeD)
      finally show ?thesis .
    next
      case False
      then have "filter (\<lambda>v. ((waiting_of q)(u := ts')) v \<noteq> []) ?rot = ?rot"
        unfolding filter_id_conv using d(2) by (auto dest: in_set_dropD in_set_takeD)
      then show ?thesis using False by (simp add: q'_def q1)
    qed
    then show ?thesis
      unfolding ring_of_def ring_remove_def fields(1) by (simp only: map_filter_pair map_map) (simp add: W' [symmetric] o_def)
  qed
  ultimately show thesis using that run t(1,2) fields by (simp add: ts_def)
qed

text \<open>The three cases of \<^const>\<open>Cancel\<close>: an active ticket, a waiting one, an unknown one.\<close>

lemma Cancel_active:
  "map_of (qu_active q) i = Some t \<Longrightarrow>
    Cancel now i q = (Some \<lparr>cn_Ticket = t, cn_CanceledAt = now, cn_WasActive = True\<rparr>, snd (Release i q))"
  by (simp add: Cancel_def Release_def)

lemma Cancel_unknown:
  "map_of (qu_active q) i = None \<Longrightarrow> map_of (qu_waitingTicket q) i = None \<Longrightarrow> Cancel now i q = (None, q)"
  by (simp add: Cancel_def)

lemma queue_inv_disjoint:
  assumes "queue_inv q" "map_of (qu_waitingTicket q) i = Some u"
  shows "map_of (qu_active q) i = None"
proof -
  have "map_of (qu_active q) i = None \<or> map_of (qu_waitingTicket q) i = None" using assms(1) by (simp add: queue_inv_def)
  then show ?thesis using assms(2) by simp
qed

lemma Cancel_waiting:
  assumes inv: "queue_inv q" and i: "map_of (qu_waitingTicket q) i = Some u"
  obtains t q' where "Cancel now i q = (Some \<lparr>cn_Ticket = t, cn_CanceledAt = now, cn_WasActive = False\<rparr>, q')"
    "queue_inv q'" "t \<in> set (waiting_of q u)" "ti_ID t = i" "ring_of q' = ring_remove i (ring_of q)"
    "qu_waitingTicket q' = AList.delete i (qu_waitingTicket q)" "qu_active q' = qu_active q" "qu_config q' = qu_config q"
  by (rule removeWaitingLocked_spec [OF inv i])
    (use i queue_inv_disjoint [OF inv i] that in \<open>auto simp: Cancel_def\<close>)

lemma Release_active:
  assumes inv: "queue_inv q" and t: "map_of (qu_active q) i = Some t" and q': "q' = snd (Release i q)"
  shows "queue_inv q'" "qu_active q' = AList.delete i (qu_active q)" "qu_waitingTicket q' = qu_waitingTicket q"
    "ring_of q' = ring_of q" "qu_config q' = qu_config q" "fst (Release i q)"
  using release_active_inv [OF inv t] t by (simp_all add: q' Release_def ring_of_def)

lemma Release_inv: "queue_inv q \<Longrightarrow> queue_inv (snd (Release i q))"
  using Release_active(1) by (cases "map_of (qu_active q) i") (auto simp: Release_def)

lemma Cancel_inv:
  assumes "queue_inv q"
  shows "queue_inv (snd (Cancel now i q))"
proof (cases "map_of (qu_active q) i")
  case (Some t)
  then show ?thesis using Release_inv [OF assms] by (simp add: Cancel_active)
next
  case None
  then show ?thesis
    using Cancel_waiting [OF assms] Cancel_unknown assms by (cases "map_of (qu_waitingTicket q) i") (auto, metis snd_conv)
qed

subsection \<open>Dispatch\<close>

text \<open>Serving up to \<open>k\<close> tickets from the abstract ring.\<close>

fun ring_serve :: "nat \<Rightarrow> ring \<Rightarrow> Ticket list \<times> ring" where
  "ring_serve 0 r = ([], r)"
| "ring_serve (Suc k) r =
    (case ring_next r of
       None \<Rightarrow> ([], r)
     | Some (t, r') \<Rightarrow> (t # fst (ring_serve k r'), snd (ring_serve k r')))"

definition free_slots :: "Queue \<Rightarrow> nat" where
  "free_slots q = nat (cf_MaxActive (qu_config q) - int (length (qu_active q)))"

lemma take_admit:
  assumes inv: "queue_inv q" and ne: "qu_userOrder q \<noteq> []" and room: "int (length (qu_active q)) < cf_MaxActive (qu_config q)"
  obtains t q' where "takeNextLocked q = (Some t, q')" "queue_inv (admit now t q')"
    "ring_next (ring_of q) = Some (t, ring_of (admit now t q'))" "qu_active (admit now t q') = qu_active q @ [(ti_ID t, t)]"
    "qu_config (admit now t q') = qu_config q"
proof -
  obtain u t ts where u: "u = qu_userOrder q ! qu_cursor q" "waiting_of q u = t # ts" "qu_cursor q < length (qu_userOrder q)"
    "takeNextLocked q = (Some t, take_result q u t ts)"
    using takeNextLocked_result [OF inv ne] .
  have "map_of (qu_waitingTicket q) (ti_ID t) = Some u"
    using waiting_okD(5) [OF queue_inv_waiting [OF inv], of "ti_ID t" u] u(2) by simp
  then have act: "map_of (qu_active (take_result q u t ts)) (ti_ID t) = None" "qu_active (take_result q u t ts) = qu_active q"
    "qu_config (take_result q u t ts) = qu_config q" "map_of (qu_waitingTicket (take_result q u t ts)) (ti_ID t) = None"
    using queue_inv_disjoint [OF inv] by (simp_all add: take_result_def)
  note ad = admit_inv [OF take_result_inv [OF inv u(1,3,2)] act(1,4), of now]
  show thesis
    using that [OF u(4)] ad act room ring_take_result [OF inv u(1,3,2)] by (simp add: admit_def)
qed

lemma dispatch_loop_spec:
  "queue_inv q \<Longrightarrow> dispatch_loop now adm q = (adm', q') \<Longrightarrow>
    queue_inv q' \<and> qu_config q' = qu_config q \<and>
    adm' = adm @ map (\<lambda>t. \<lparr>ad_Ticket = t, ad_AdmittedAt = now\<rparr>) (fst (ring_serve (free_slots q) (ring_of q))) \<and>
    qu_active q' = qu_active q @ map (\<lambda>t. (ti_ID t, t)) (fst (ring_serve (free_slots q) (ring_of q))) \<and>
    ring_of q' = snd (ring_serve (free_slots q) (ring_of q)) \<and>
    (qu_userOrder q' = [] \<or> int (length (qu_active q')) = cf_MaxActive (qu_config q'))"
proof (induction now adm q rule: dispatch_loop.induct)
  case (1 now adm q)
  note unfold = dispatch_loop.simps [of now adm q]
  consider (full) "\<not> int (length (qu_active q)) < cf_MaxActive (qu_config q)"
    | (empty) "int (length (qu_active q)) < cf_MaxActive (qu_config q)" "qu_userOrder q = []"
    | (serve) "int (length (qu_active q)) < cf_MaxActive (qu_config q)" "qu_userOrder q \<noteq> []" by blast
  then show ?case
  proof cases
    case full
    moreover have "int (length (qu_active q)) \<le> cf_MaxActive (qu_config q)" using "1.prems"(1) by (simp add: queue_inv_def)
    ultimately show ?thesis using "1.prems" by (simp add: unfold free_slots_def)
  next
    case empty
    then have "ring_of q = []" by (simp add: ring_of_def)
    then have "ring_serve k (ring_of q) = ([], ring_of q)" for k by (cases k) simp_all
    then show ?thesis using empty "1.prems" takeNextLocked_empty by (simp add: unfold)
  next
    case serve
    obtain t q1 where t: "takeNextLocked q = (Some t, q1)" "queue_inv (admit now t q1)"
      "ring_next (ring_of q) = Some (t, ring_of (admit now t q1))" "qu_active (admit now t q1) = qu_active q @ [(ti_ID t, t)]"
      "qu_config (admit now t q1) = qu_config q"
      using take_admit [OF "1.prems"(1) serve(2,1)] by blast
    have free: "free_slots q = Suc (free_slots (admit now t q1))" using serve(1) t(4,5) by (simp add: free_slots_def)
    have "dispatch_loop now (adm @ [\<lparr>ad_Ticket = t, ad_AdmittedAt = now\<rparr>]) (admit now t q1) = (adm', q')"
      using "1.prems"(2) serve(1) t(1) by (simp add: unfold)
    from "1.IH" [OF serve(1) t(1) [symmetric] refl t(2) this] show ?thesis using t(3-5) by (auto simp: free)
  qed
qed

lemma Dispatch_spec:
  assumes inv: "queue_inv q" and run: "Dispatch now q = (d, q')"
  defines "q1 \<equiv> snd (expireLocked now q)"
  shows "queue_inv q'" "qu_config q' = qu_config q"
    "di_Expired d = concat (map (\<lambda>u. expirations now (waiting_of q u)) (qu_userOrder q))"
    "di_Admitted d = map (\<lambda>t. \<lparr>ad_Ticket = t, ad_AdmittedAt = now\<rparr>) (fst (ring_serve (free_slots q) (ring_of q1)))"
    "qu_active q' = qu_active q @ map (\<lambda>t. (ti_ID t, t)) (fst (ring_serve (free_slots q) (ring_of q1)))"
    "ring_of q' = snd (ring_serve (free_slots q) (ring_of q1))"
    "qu_userOrder q' = [] \<or> int (length (qu_active q')) = cf_MaxActive (qu_config q')"
    "queue_inv q1" "waiting_of q1 = (\<lambda>u. filter (alive now) (waiting_of q u))"
proof -
  obtain ex where ex: "expireLocked now q = (ex, q1)" by (metis prod.collapse q1_def)
  note e = expireLocked_spec [OF inv ex]
  obtain adm where adm: "dispatch_loop now [] q1 = (adm, q')" and d: "d = \<lparr>di_Expired = ex, di_Admitted = adm\<rparr>"
    using run ex by (auto simp: Dispatch_def split: prod.splits)
  have "free_slots q1 = free_slots q" using e(5,6) by (simp add: free_slots_def)
  then show "queue_inv q'" "qu_config q' = qu_config q"
    "di_Expired d = concat (map (\<lambda>u. expirations now (waiting_of q u)) (qu_userOrder q))"
    "di_Admitted d = map (\<lambda>t. \<lparr>ad_Ticket = t, ad_AdmittedAt = now\<rparr>) (fst (ring_serve (free_slots q) (ring_of q1)))"
    "qu_active q' = qu_active q @ map (\<lambda>t. (ti_ID t, t)) (fst (ring_serve (free_slots q) (ring_of q1)))"
    "ring_of q' = snd (ring_serve (free_slots q) (ring_of q1))"
    "qu_userOrder q' = [] \<or> int (length (qu_active q')) = cf_MaxActive (qu_config q')"
    "queue_inv q1" "waiting_of q1 = (\<lambda>u. filter (alive now) (waiting_of q u))"
    using dispatch_loop_spec [OF e(1) adm] e d by auto
qed

subsection \<open>Properties of the abstract ring\<close>

definition ring_ok :: "ring \<Rightarrow> bool" where
  "ring_ok r \<longleftrightarrow> distinct (map fst r) \<and> (\<forall>u ts. (u, ts) \<in> set r \<longrightarrow> ts \<noteq> [] \<and> (\<forall>t \<in> set ts. ti_UserID t = u))"

definition ring_tickets :: "UserID \<Rightarrow> ring \<Rightarrow> Ticket list" where
  "ring_tickets u r = (case map_of r u of None \<Rightarrow> [] | Some ts \<Rightarrow> ts)"

lemma ring_next_ok: "ring_ok r \<Longrightarrow> ring_next r = Some (t, r') \<Longrightarrow> ring_ok r'"
  by (cases r rule: ring_next.cases) (auto simp: ring_ok_def split: if_splits, blast)

lemma ring_next_None: "ring_ok r \<Longrightarrow> ring_next r = None \<longleftrightarrow> r = []"
  by (cases r rule: ring_next.cases) (auto simp: ring_ok_def)

lemma map_of_append_single: "map_of (xs @ [(u, ts)]) v = (case map_of xs v of Some x \<Rightarrow> Some x | None \<Rightarrow> if v = u then Some ts else None)"
  by (simp add: map_add_def split: option.splits)

lemma ring_next_tickets:
  assumes "ring_ok r" "ring_next r = Some (t, r')"
  shows "ring_tickets u r = (if ti_UserID t = u then t # ring_tickets u r' else ring_tickets u r')"
proof -
  obtain v ts rest where r: "r = (v, t # ts) # rest" "r' = rest @ (if ts = [] then [] else [(v, ts)])"
    using assms(2) by (cases r rule: ring_next.cases) auto
  have "map_of rest v = None" "ti_UserID t = v" using assms(1) r by (auto simp: ring_ok_def map_of_eq_None_iff)
  then show ?thesis
    using r by (auto simp: ring_tickets_def map_of_append_single map_add_def split: option.splits)
qed

text \<open>First in, first out per user: what was served, followed by what still waits, is what waited.\<close>

lemma ring_serve_fifo:
  "ring_ok r \<Longrightarrow> filter (\<lambda>t. ti_UserID t = u) (fst (ring_serve k r)) @ ring_tickets u (snd (ring_serve k r)) = ring_tickets u r"
proof (induction k arbitrary: r)
  case (Suc k)
  show ?case
  proof (cases "ring_next r")
    case (Some p)
    then obtain t r' where p: "ring_next r = Some (t, r')" by (cases p) auto
    from Suc.IH [OF ring_next_ok [OF Suc.prems p]] ring_next_tickets [OF Suc.prems p, of u] show ?thesis by (simp add: p)
  qed simp
qed simp

text \<open>With no more slots than users, the oldest ticket of each of the first users is served.\<close>

lemma ring_serve_round:
  "ring_ok r \<Longrightarrow> k \<le> length r \<Longrightarrow> fst (ring_serve k r) = map (\<lambda>(u, ts). hd ts) (take k r)"
proof (induction k arbitrary: r)
  case (Suc k)
  then obtain u ts rest where "r = (u, ts) # rest" by (cases r) auto
  moreover from this obtain t ts' where "ts = t # ts'" using Suc.prems(1) by (cases ts) (auto simp: ring_ok_def)
  ultimately have r: "r = (u, t # ts') # rest" by simp
  have "ring_ok (rest @ (if ts' = [] then [] else [(u, ts')]))" using Suc.prems(1) r ring_next_ok [of r] by simp
  from Suc.IH [OF this] show ?case using Suc.prems(2) r by simp
qed simp

lemma map_of_graph: "map_of (map (\<lambda>v. (v, f v)) us) u = (if u \<in> set us then Some (f u) else None)"
  by (induction us) auto

lemma ring_of_ok:
  assumes "queue_inv q"
  shows "ring_ok (ring_of q)" "ring_tickets u (ring_of q) = waiting_of q u" "length (ring_of q) = length (qu_userOrder q)"
proof -
  note d = waiting_okD [OF queue_inv_waiting [OF assms]]
  let ?us = "drop (qu_cursor q) (qu_userOrder q) @ take (qu_cursor q) (qu_userOrder q)"
  have us: "set ?us = set (qu_userOrder q)"
    by (metis Un_commute append_take_drop_id set_append)
  have "distinct ?us" using d(1) by (metis Int_commute append_take_drop_id distinct_append)
  then show "ring_ok (ring_of q)"
    using d(2,3) us by (auto simp: ring_ok_def ring_of_def o_def dest: in_set_dropD in_set_takeD)
  show "ring_tickets u (ring_of q) = waiting_of q u"
    unfolding ring_tickets_def ring_of_def map_of_graph us using d(2) [of u] by auto
  have "length ?us = length (qu_userOrder q)" by (metis add.commute append_take_drop_id length_append)
  then show "length (ring_of q) = length (qu_userOrder q)" by (simp only: ring_of_def length_map)
qed

text \<open>
  Fair shares: as long as a user still waits after serving, nobody else was served more than one
  ticket more; and no more tickets at all if that user was ahead in the ring.
\<close>

abbreviation served :: "UserID \<Rightarrow> Ticket list \<Rightarrow> nat" where
  "served u ts \<equiv> length (filter (\<lambda>t. ti_UserID t = u) ts)"

definition ahead :: "UserID \<Rightarrow> UserID \<Rightarrow> ring \<Rightarrow> bool" where
  "ahead u v r \<longleftrightarrow> (\<exists>xs ys. map fst r = xs @ ys \<and> u \<in> set xs \<and> v \<notin> set xs)"

lemma ring_serve_users: "ring_ok r \<Longrightarrow> fst ` set (snd (ring_serve k r)) \<subseteq> fst ` set r"
proof (induction k arbitrary: r)
  case (Suc k)
  show ?case
  proof (cases r rule: ring_next.cases)
    case (1 u t ts rest)
    have "ring_ok (rest @ (if ts = [] then [] else [(u, ts)]))" using Suc.prems 1 ring_next_ok [of r] by simp
    from Suc.IH [OF this] show ?thesis using 1 by (auto split: if_splits dest!: subsetD)
  qed simp_all
qed simp

lemma ring_serve_fair:
  assumes "ring_ok r" "u \<in> fst ` set (snd (ring_serve k r))" "u \<noteq> v"
  shows "served v (fst (ring_serve k r)) \<le> served u (fst (ring_serve k r)) + 1 \<and>
    (ahead u v r \<longrightarrow> served v (fst (ring_serve k r)) \<le> served u (fst (ring_serve k r)))"
  using assms
proof (induction k arbitrary: r)
  case (Suc k)
  show ?case
  proof (cases r rule: ring_next.cases)
    case (1 w t ts rest)
    define r' where "r' = rest @ (if ts = [] then [] else [(w, ts)])"
    have nx: "ring_next r = Some (t, r')" using 1 by (simp add: r'_def)
    have w: "ti_UserID t = w" using Suc.prems(1) 1 by (simp add: ring_ok_def)
    have ok: "ring_ok r'" using ring_next_ok [OF Suc.prems(1) nx] .
    have u': "u \<in> fst ` set (snd (ring_serve k r'))" using Suc.prems(2) nx by simp
    then have mem: "u \<in> fst ` set r'" using ring_serve_users [OF ok] by blast
    note IH = Suc.IH [OF ok u' Suc.prems(3)]
    have norm: "ahead u v r \<Longrightarrow> w \<noteq> u \<Longrightarrow> w \<noteq> v \<and> ahead u v r'"
      unfolding ahead_def 1 r'_def by (auto simp: Cons_eq_append_conv) (metis append.assoc)
    have behind: "w = v \<Longrightarrow> ahead u v r'"
      unfolding ahead_def using mem Suc.prems(1,3) 1
      by (intro exI [of _ "map fst rest"] exI [of _ "map fst (if ts = [] then [] else [(w, ts)])"])
        (auto simp: r'_def ring_ok_def split: if_splits)
    show ?thesis using IH norm behind w Suc.prems(3) by (auto simp: nx)
  qed simp_all
qed simp

subsection \<open>Correctness of the queue\<close>

text \<open>The queues that sequences of operations reach, at any clock readings.\<close>

inductive queue_reach :: "Config \<Rightarrow> Queue \<Rightarrow> bool" for config where
  reach_new: "NewQueue config True = Inr q \<Longrightarrow> queue_reach config q"
| reach_enqueue: "queue_reach config q \<Longrightarrow> queue_reach config (snd (Enqueue now r q))"
| reach_dispatch: "queue_reach config q \<Longrightarrow> queue_reach config (snd (Dispatch now q))"
| reach_cancel: "queue_reach config q \<Longrightarrow> queue_reach config (snd (Cancel now i q))"
| reach_release: "queue_reach config q \<Longrightarrow> queue_reach config (snd (Release i q))"

lemma NewQueue_inv: "NewQueue config b = Inr q \<Longrightarrow> queue_inv q \<and> qu_config q = config"
  by (auto simp: NewQueue_def queue_inv_def waiting_ok_def active_ok_def cursor_ok_def validate_config_def split: option.splits if_splits)

lemma Dispatch_inv: "queue_inv q \<Longrightarrow> queue_inv (snd (Dispatch now q))"
  using Dispatch_spec(1) by (cases "Dispatch now q") auto

lemma operation_config:
  assumes "queue_inv q"
  shows "qu_config (snd (Enqueue now r q)) = qu_config q" "qu_config (snd (Dispatch now q)) = qu_config q"
    "qu_config (snd (Cancel now i q)) = qu_config q" "qu_config (snd (Release i q)) = qu_config q"
proof -
  show "qu_config (snd (Enqueue now r q)) = qu_config q" by (simp add: Enqueue_def Let_def)
  show "qu_config (snd (Dispatch now q)) = qu_config q" using Dispatch_spec(2) [OF assms] by (cases "Dispatch now q") auto
  show rel: "qu_config (snd (Release i q)) = qu_config q" by (simp add: Release_def split: option.split)
  show "qu_config (snd (Cancel now i q)) = qu_config q"
  proof (cases "map_of (qu_active q) i")
    case (Some t)
    then show ?thesis using rel by (simp add: Cancel_active)
  next
    case None
    show ?thesis
    proof (cases "map_of (qu_waitingTicket q) i")
      case (Some u)
      show ?thesis by (rule Cancel_waiting [OF assms Some, of now]) simp
    qed (simp add: Cancel_unknown None)
  qed
qed

lemma queue_reach_inv: "queue_reach config q \<Longrightarrow> queue_inv q \<and> qu_config q = config"
  by (induction rule: queue_reach.induct)
    (simp_all add: NewQueue_inv Enqueue_inv Dispatch_inv Cancel_inv Release_inv operation_config)

text \<open>A queue with three users' tickets, used for the concrete instances below.\<close>

abbreviation sample_config :: Config where
  "sample_config \<equiv> \<lparr>cf_MaxQueued = 8, cf_MaxActive = 2, cf_MaxQueueWait = 60\<rparr>"

abbreviation sample_request :: "TicketID \<Rightarrow> UserID \<Rightarrow> Request" where
  "sample_request i u \<equiv> \<lparr>re_ID = i, re_UserID = u, re_QueueTimeout = 0\<rparr>"

definition sample_queue :: Queue where
  "sample_queue = (let q = \<lparr>qu_config = sample_config, qu_waiting = [], qu_waitingTicket = [], qu_userOrder = [], qu_cursor = 0,
       qu_waitingCount = 0, qu_active = [], qu_activeByUser = []\<rparr>;
     q = snd (Enqueue 1 (sample_request ''a1'' ''a'') q); q = snd (Enqueue 2 (sample_request ''a2'' ''a'') q);
     q = snd (Enqueue 3 (sample_request ''b1'' ''b'') q) in snd (Enqueue 4 (sample_request ''c1'' ''c'') q))"

lemma sample_queue_reach: "queue_reach sample_config sample_queue"
proof -
  have new: "NewQueue sample_config True = Inr \<lparr>qu_config = sample_config, qu_waiting = [], qu_waitingTicket = [], qu_userOrder = [],
      qu_cursor = 0, qu_waitingCount = 0, qu_active = [], qu_activeByUser = []\<rparr>"
    by (simp add: NewQueue_def validate_config_def)
  show ?thesis unfolding sample_queue_def Let_def by (intro reach_enqueue reach_new [OF new])
qed

text \<open>
  C23. In every state that operations reach, at any times and in any order, the queue is within its bounds
  (at most MaxActive active and MaxQueued waiting tickets), Snapshot reports exact numbers (the waiting
  counter, per-user waiting counts and per-user active counts agree with the tickets held), and no ticket
  is both waiting and active.
\<close>

theorem queue_reachable_invariant:
  assumes "queue_reach config q"
  shows "sn_Active (Snapshot_queue q) \<le> cf_MaxActive config \<and> sn_Waiting (Snapshot_queue q) \<le> cf_MaxQueued config \<and>
    sn_Waiting (Snapshot_queue q) = (\<Sum>u \<in> set (qu_userOrder q). int (length (waiting_of q u))) \<and>
    (\<forall>u. go_get 0 (sn_WaitingByUser (Snapshot_queue q)) u = int (length (waiting_of q u))) \<and>
    (\<forall>u. go_get 0 (sn_ActiveByUser (Snapshot_queue q)) u = int (card {i. \<exists>t. map_of (qu_active q) i = Some t \<and> ti_UserID t = u})) \<and>
    (\<forall>u. \<forall>t \<in> set (waiting_of q u). map_of (qu_active q) (ti_ID t) = None)"
proof -
  have inv: "queue_inv q" and cfg: "qu_config q = config" using queue_reach_inv [OF assms] by auto
  note d = waiting_okD [OF queue_inv_waiting [OF inv]]
  have act: "active_ok (qu_active q) (qu_activeByUser q)" using inv by (simp add: queue_inv_def)
  have "card {i. \<exists>t. map_of (qu_active q) i = Some t \<and> ti_UserID t = u} =
      length (filter (\<lambda>p. ti_UserID (snd p) = u) (qu_active q))" for u
  proof -
    let ?F = "filter (\<lambda>p. ti_UserID (snd p) = u) (qu_active q)"
    have "{i. \<exists>t. map_of (qu_active q) i = Some t \<and> ti_UserID t = u} = set (map fst ?F)"
      using active_okD(1) [OF act] by force
    moreover have "distinct (map fst ?F)" using active_okD(1) [OF act] by (rule distinct_map_filter)
    ultimately show ?thesis by (simp only: distinct_card length_map)
  qed
  then have users: "\<forall>u. go_get 0 (sn_ActiveByUser (Snapshot_queue q)) u = int (card {i. \<exists>t. map_of (qu_active q) i = Some t \<and> ti_UserID t = u})"
    using active_okD(5) [OF act] by (simp add: Snapshot_queue_def)
  have "go_get 0 (map (\<lambda>(v, ts). (v, int (length ts))) m) u = int (length (go_get [] m u))" for m :: "(UserID \<times> Ticket list) list" and u
    by (induction m) (auto simp: go_get_def)
  then have waits: "\<forall>u. go_get 0 (sn_WaitingByUser (Snapshot_queue q)) u = int (length (waiting_of q u))"
    by (simp add: Snapshot_queue_def)
  have "\<forall>u. \<forall>t \<in> set (waiting_of q u). map_of (qu_active q) (ti_ID t) = None"
    using queue_inv_disjoint [OF inv] d(5) by (metis image_eqI)
  then show ?thesis using inv cfg d(6) users waits by (simp add: queue_inv_def Snapshot_queue_def)
qed

theorem queue_reachable_invariant_witness:
  "sn_Active (Snapshot_queue (snd (Dispatch 5 sample_queue))) \<le> 2 \<and> sn_Waiting (Snapshot_queue (snd (Dispatch 5 sample_queue))) \<le> 8"
  using queue_reachable_invariant [OF reach_dispatch [OF sample_queue_reach, of 5]] by simp

lemma sample_dispatch:
  "map ti_ID (map ad_Ticket (di_Admitted (fst (Dispatch 5 sample_queue)))) = [''a1'', ''b1'']"
  "map ti_ID (map ad_Ticket (di_Admitted (fst (Dispatch 62 sample_queue)))) = [''b1'', ''c1'']"
  by code_simp+

text \<open>Dispatch on the tickets of one user, and what becomes of an expired ticket.\<close>

lemma Dispatch_fifo:
  assumes inv: "queue_inv q" and run: "Dispatch now q = (d, q')"
  shows "filter (\<lambda>t. ti_UserID t = u) (map ad_Ticket (di_Admitted d)) @ waiting_of q' u = filter (alive now) (waiting_of q u)"
proof -
  note s = Dispatch_spec [OF inv run]
  show ?thesis
    using ring_serve_fifo [OF ring_of_ok(1) [OF s(8)], of u "free_slots q"] ring_of_ok(2) [OF s(8), of u]
      ring_of_ok(2) [OF s(1), of u] s(4,6,9) by (simp add: o_def)
qed

lemma Dispatch_admitted:
  assumes "queue_inv q" "Dispatch now q = (d, q')" "a \<in> set (di_Admitted d)"
  shows "ad_Ticket a \<in> set (waiting_of q (ti_UserID (ad_Ticket a)))" "alive now (ad_Ticket a)"
proof -
  let ?u = "ti_UserID (ad_Ticket a)"
  have "ad_Ticket a \<in> set (filter (\<lambda>t. ti_UserID t = ?u) (map ad_Ticket (di_Admitted d)) @ waiting_of q' ?u)"
    using assms(3) by simp
  then show "ad_Ticket a \<in> set (waiting_of q ?u)" "alive now (ad_Ticket a)"
    unfolding Dispatch_fifo [OF assms(1,2)] by simp_all
qed

lemma Dispatch_expired:
  assumes "queue_inv q" "Dispatch now q = (d, q')"
  shows "xp_Ticket ` set (di_Expired d) = {t. \<exists>u. t \<in> set (waiting_of q u) \<and> ti_Deadline t \<le> now}"
proof -
  have "u \<in> set (qu_userOrder q)" if "t \<in> set (waiting_of q u)" for t u
    using that waiting_okD(2) [OF queue_inv_waiting [OF assms(1)], of u] by auto
  then show ?thesis unfolding Dispatch_spec(3) [OF assms] by (auto simp: image_iff not_less) blast
qed

lemma Dispatch_expired_gone:
  assumes inv: "queue_inv q" and run: "Dispatch now q = (d, q')" and t: "t \<in> set (waiting_of q u)" "ti_Deadline t \<le> now"
  shows "map_of (qu_waitingTicket q') (ti_ID t) = None" "map_of (qu_active q') (ti_ID t) = None"
proof -
  note s = Dispatch_spec [OF inv run] and w = queue_inv_waiting [OF inv]
  show "map_of (qu_waitingTicket q') (ti_ID t) = None"
  proof (rule ccontr)
    assume "map_of (qu_waitingTicket q') (ti_ID t) \<noteq> None"
    then obtain v t' where t': "t' \<in> set (waiting_of q' v)" "ti_ID t' = ti_ID t"
      using waiting_okD(5) [OF queue_inv_waiting [OF s(1)]] by (metis imageE not_None_eq)
    then have "t' \<in> set (filter (alive now) (waiting_of q v))"
      unfolding Dispatch_fifo [OF inv run, of v, symmetric] by simp
    then show False using waiting_ids_unique [OF w t(1), of t' v] t'(2) t(2) by auto
  qed
  have "map_of (qu_active q) (ti_ID t) = None"
    using queue_inv_disjoint [OF inv] waiting_okD(5) [OF w] t(1) by blast
  moreover have "ti_ID t \<notin> ti_ID ` set (map ad_Ticket (di_Admitted d))"
    using Dispatch_admitted [OF inv run] waiting_ids_unique [OF w t(1)] t(2) by fastforce
  ultimately show "map_of (qu_active q') (ti_ID t) = None"
    unfolding s(5) using s(4) by (auto simp: map_of_eq_None_iff)
qed

text \<open>
  C24. Dispatch implements the abstract round-robin scheduler: it removes the expired tickets and then
  serves as many tickets from the ring of waiting users as there are free slots, leaving the ring
  that the scheduler leaves; with no more free slots than waiting users, it admits exactly the oldest
  ticket of each of the first users of the ring.
\<close>

theorem Dispatch_refines_ring:
  assumes "queue_reach config q" and "Dispatch now q = (d, q')"
  shows "map ad_Ticket (di_Admitted d) = fst (ring_serve (free_slots q) (ring_of (snd (expireLocked now q)))) \<and>
    ring_of q' = snd (ring_serve (free_slots q) (ring_of (snd (expireLocked now q)))) \<and>
    (free_slots q \<le> length (ring_of (snd (expireLocked now q))) \<longrightarrow>
      map ad_Ticket (di_Admitted d) = map (\<lambda>(u, ts). hd ts) (take (free_slots q) (ring_of (snd (expireLocked now q)))))"
proof -
  have "queue_inv q" using queue_reach_inv [OF assms(1)] by simp
  note s = Dispatch_spec [OF this assms(2)]
  show ?thesis
    using s(4,6) ring_serve_round [OF ring_of_ok(1) [OF s(8)]] by (simp add: o_def)
qed

theorem Dispatch_refines_ring_witness:
  "ring_of (snd (Dispatch 5 sample_queue)) = snd (ring_serve (free_slots sample_queue) (ring_of (snd (expireLocked 5 sample_queue))))"
  using Dispatch_refines_ring [OF sample_queue_reach, of 5] by (metis prod.collapse)

text \<open>
  C25. Dispatch is fair. Each user's own tickets are served first in, first out: the admitted tickets of
  a user, followed by those still waiting, are the user's unexpired tickets in their old order. And if a
  user still waits after the dispatch, no other user was admitted more than one ticket more.
\<close>

theorem Dispatch_fair:
  assumes "queue_reach config q" and "Dispatch now q = (d, q')"
  shows "filter (\<lambda>t. ti_UserID t = u) (map ad_Ticket (di_Admitted d)) @ waiting_of q' u = filter (alive now) (waiting_of q u) \<and>
    (waiting_of q' u \<noteq> [] \<and> u \<noteq> v \<longrightarrow>
      served v (map ad_Ticket (di_Admitted d)) \<le> served u (map ad_Ticket (di_Admitted d)) + 1)"
proof -
  have "queue_inv q" using queue_reach_inv [OF assms(1)] by simp
  note s = Dispatch_spec [OF this assms(2)]
  have adm: "map ad_Ticket (di_Admitted d) = fst (ring_serve (free_slots q) (ring_of (snd (expireLocked now q))))"
    using s(4) by (simp add: o_def)
  have "u \<in> fst ` set (ring_of q')" if "waiting_of q' u \<noteq> []"
    using that ring_of_ok(2) [OF s(1), of u]
    by (auto simp: ring_tickets_def split: option.splits dest!: map_of_SomeD intro: rev_image_eqI)
  then show ?thesis
    using Dispatch_fifo [OF \<open>queue_inv q\<close> assms(2), of u] ring_serve_fair [OF ring_of_ok(1) [OF s(8)], of u "free_slots q" v]
    unfolding adm s(6) by auto
qed

theorem Dispatch_fair_witness:
  "served ''b'' (map ad_Ticket (di_Admitted (fst (Dispatch 5 sample_queue)))) \<le>
    served ''a'' (map ad_Ticket (di_Admitted (fst (Dispatch 5 sample_queue)))) + 1 \<and>
   waiting_of (snd (Dispatch 5 sample_queue)) ''a'' \<noteq> []"
proof -
  have "waiting_of (snd (Dispatch 5 sample_queue)) ''a'' \<noteq> []" by code_simp
  moreover have "Dispatch 5 sample_queue = (fst (Dispatch 5 sample_queue), snd (Dispatch 5 sample_queue))" by simp
  note Dispatch_fair [OF sample_queue_reach this, of "''a''" "''b''"]
  ultimately show ?thesis by simp
qed

text \<open>
  Dispatch is work conserving and respects deadlines: afterwards either every slot is taken or nobody
  waits; it admits no ticket whose deadline has passed; and it reports as expired exactly the waiting
  tickets whose deadline has passed, none of which waits or is active afterwards.
\<close>

theorem Dispatch_work_conserving:
  assumes "queue_reach config q" and "Dispatch now q = (d, q')"
  shows "(int (length (qu_active q')) = cf_MaxActive config \<or> (\<forall>u. waiting_of q' u = [])) \<and>
    (\<forall>a \<in> set (di_Admitted d). now < ti_Deadline (ad_Ticket a)) \<and>
    xp_Ticket ` set (di_Expired d) = {t. \<exists>u. t \<in> set (waiting_of q u) \<and> ti_Deadline t \<le> now} \<and>
    (\<forall>x \<in> set (di_Expired d). map_of (qu_waitingTicket q') (ti_ID (xp_Ticket x)) = None \<and>
      map_of (qu_active q') (ti_ID (xp_Ticket x)) = None)"
proof -
  have inv: "queue_inv q" and cfg: "qu_config q = config" using queue_reach_inv [OF assms(1)] by auto
  note s = Dispatch_spec [OF inv assms(2)] and exp = Dispatch_expired [OF inv assms(2)]
  have "int (length (qu_active q')) = cf_MaxActive config \<or> (\<forall>u. waiting_of q' u = [])"
    using s(7) s(2) cfg waiting_okD(2) [OF queue_inv_waiting [OF s(1)]] by auto
  moreover have "\<forall>a \<in> set (di_Admitted d). now < ti_Deadline (ad_Ticket a)"
    using Dispatch_admitted(2) [OF inv assms(2)] by blast
  moreover have "\<forall>x \<in> set (di_Expired d). map_of (qu_waitingTicket q') (ti_ID (xp_Ticket x)) = None \<and>
      map_of (qu_active q') (ti_ID (xp_Ticket x)) = None"
    using exp Dispatch_expired_gone [OF inv assms(2)] by blast
  ultimately show ?thesis using exp by blast
qed

theorem Dispatch_work_conserving_witness:
  "int (length (qu_active (snd (Dispatch 62 sample_queue)))) = 2 \<or> (\<forall>u. waiting_of (snd (Dispatch 62 sample_queue)) u = [])"
  using Dispatch_work_conserving [OF sample_queue_reach, of 62] by (metis prod.collapse Config.select_convs(2))

text \<open>
  Cancel and Release act once. Cancel reports nothing exactly for an unknown ticket and then changes
  nothing; a canceled waiting ticket leaves the ring with the order of all others unchanged and the
  active tickets untouched; a canceled or released active ticket frees its slot; and repeating Cancel or
  Release afterwards changes nothing.
\<close>

theorem Cancel_Release_once:
  assumes "queue_reach config q" and "Cancel now i q = (res, q')"
  shows "(res = None) = (map_of (qu_active q) i = None \<and> map_of (qu_waitingTicket q) i = None) \<and> (res = None \<longrightarrow> q' = q) \<and>
    (map_of (qu_waitingTicket q) i \<noteq> None \<longrightarrow> ring_of q' = ring_remove i (ring_of q) \<and> qu_active q' = qu_active q) \<and>
    (map_of (qu_active q) i \<noteq> None \<longrightarrow> q' = snd (Release i q) \<and> free_slots q' = Suc (free_slots q) \<and> ring_of q' = ring_of q) \<and>
    Cancel now' i q' = (None, q') \<and> Release i q' = (False, q')"
proof -
  have inv: "queue_inv q" using queue_reach_inv [OF assms(1)] by simp
  show ?thesis
  proof (cases "map_of (qu_active q) i")
    case (Some t)
    note rel = Release_active [OF inv Some, of q']
    have q': "q' = snd (Release i q)" "res \<noteq> None" using assms(2) Some by (auto simp: Cancel_active)
    have "map_of (qu_waitingTicket q) i = None"
      using queue_inv_disjoint [OF inv, of i] Some by (cases "map_of (qu_waitingTicket q) i") simp_all
    moreover have "distinct (map fst (qu_active q))" using inv by (simp add: queue_inv_def active_ok_def)
    from length_delete_present [OF this Some] have "Suc (length (qu_active q')) = length (qu_active q)"
      using rel(2) q'(1) by simp
    moreover have "int (length (qu_active q)) \<le> cf_MaxActive (qu_config q)" using inv by (simp add: queue_inv_def)
    ultimately have "map_of (qu_waitingTicket q) i = None" "free_slots q' = Suc (free_slots q)"
      using rel(5) q'(1) by (simp, simp add: free_slots_def)
    moreover have gone: "map_of (qu_active q') i = None" "map_of (qu_waitingTicket q') i = None"
      using rel(2,3) q'(1) calculation(1) by simp_all
    moreover have "Cancel now' i q' = (None, q')" using gone by (rule Cancel_unknown)
    moreover have "Release i q' = (False, q')" using gone(1) by (simp add: Release_def)
    ultimately show ?thesis using rel(4) q' Some by auto
  next
    case None
    show ?thesis
    proof (cases "map_of (qu_waitingTicket q) i")
      case (Some u)
      show ?thesis
        by (rule Cancel_waiting [OF inv Some, of now]) (use assms(2) Some None in \<open>simp add: Cancel_unknown Release_def\<close>)
    qed (use None assms(2) in \<open>simp add: Cancel_unknown Release_def\<close>)
  qed
qed

theorem Cancel_Release_once_witness:
  "Cancel 7 ''b1'' (snd (Cancel 6 ''b1'' sample_queue)) = (None, snd (Cancel 6 ''b1'' sample_queue)) \<and>
   ring_of (snd (Cancel 6 ''b1'' sample_queue)) = ring_remove ''b1'' (ring_of sample_queue)"
proof -
  have "map_of (qu_waitingTicket sample_queue) ''b1'' \<noteq> None" by code_simp
  moreover have "Cancel 6 ''b1'' sample_queue = (fst (Cancel 6 ''b1'' sample_queue), snd (Cancel 6 ''b1'' sample_queue))" by simp
  note Cancel_Release_once [OF sample_queue_reach this, of 7]
  ultimately show ?thesis by simp
qed

end
