(* ===== verification/Starvation.thy ===== *)
theory Starvation
  imports Admission
begin

text \<open>
  The limit of the queue's fairness: a family of runs of \<open>internal/admission/queue.go\<close> in which one user's
  ticket is passed over for ever.
\<close>

subsection \<open>Starvation across dispatches\<close>

text \<open>
  New users join at the end of \<open>userOrder\<close>, not behind the cursor. A user in front of the cursor can
  therefore be passed over for as long as every served user is replaced by an arrival. The run below has
  one slot; users \<open>b\<close> and \<open>c\<close> take turns, each with one request at a time.
\<close>

definition turn_user :: "nat \<Rightarrow> UserID" where
  "turn_user n = (if even n then ''b'' else ''c'')"

definition turn_id :: "nat \<Rightarrow> TicketID" where
  "turn_id n = CHR ''t'' # replicate n CHR ''x''"

text \<open>One turn: the next request arrives, the running one is released, the slot is dispatched.\<close>

definition turn :: "nat \<Rightarrow> Queue \<Rightarrow> Queue" where
  "turn n q = snd (Dispatch 1 (snd (Release (turn_id n) (snd (Enqueue 1 (sample_request (turn_id (n + 2)) (turn_user n)) q)))))"

fun turns :: "nat \<Rightarrow> Queue \<Rightarrow> Queue" where
  "turns 0 q = q"
| "turns (Suc n) q = turn n (turns n q)"

definition turn_start :: Queue where
  "turn_start = (let q = \<lparr>qu_config = \<lparr>cf_MaxQueued = 3, cf_MaxActive = 1, cf_MaxQueueWait = 60\<rparr>, qu_waiting = [], qu_waitingTicket = [],
       qu_userOrder = [], qu_cursor = 0, qu_waitingCount = 0, qu_active = [], qu_activeByUser = []\<rparr>;
     q = snd (Enqueue 1 (sample_request (turn_id 0) ''a'') q); q = snd (Enqueue 1 (sample_request ''a2'' ''a'') q);
     q = snd (Enqueue 1 (sample_request (turn_id 1) (turn_user 1)) q) in snd (Dispatch 1 q))"

abbreviation turn_ticket :: "TicketID \<Rightarrow> UserID \<Rightarrow> Ticket" where
  "turn_ticket i u \<equiv> \<lparr>ti_ID = i, ti_UserID = u, ti_EnqueuedAt = 1, ti_Deadline = 61\<rparr>"

text \<open>The shape of the queue that every turn restores: \<open>a\<close> waits in front of the cursor.\<close>

definition turn_shape :: "nat \<Rightarrow> Queue \<Rightarrow> bool" where
  "turn_shape n q \<longleftrightarrow> queue_inv q \<and> qu_config q = \<lparr>cf_MaxQueued = 3, cf_MaxActive = 1, cf_MaxQueueWait = 60\<rparr> \<and>
     qu_userOrder q = [''a'', turn_user (n + 1)] \<and> qu_cursor q = 1 \<and> waiting_of q ''a'' = [turn_ticket ''a2'' ''a''] \<and>
     waiting_of q (turn_user (n + 1)) = [turn_ticket (turn_id (n + 1)) (turn_user (n + 1))] \<and> map fst (qu_active q) = [turn_id n]"

lemma turn_start_shape: "turn_shape 0 turn_start"
proof -
  have "queue_reach \<lparr>cf_MaxQueued = 3, cf_MaxActive = 1, cf_MaxQueueWait = 60\<rparr> turn_start"
    unfolding turn_start_def Let_def
    by (intro reach_dispatch reach_enqueue reach_new) (simp add: NewQueue_def validate_config_def)
  then have "queue_inv turn_start" using queue_reach_inv by blast
  moreover have "qu_config turn_start = \<lparr>cf_MaxQueued = 3, cf_MaxActive = 1, cf_MaxQueueWait = 60\<rparr> \<and>
     qu_userOrder turn_start = [''a'', turn_user (0 + 1)] \<and> qu_cursor turn_start = 1 \<and> waiting_of turn_start ''a'' = [turn_ticket ''a2'' ''a''] \<and>
     waiting_of turn_start (turn_user (0 + 1)) = [turn_ticket (turn_id (0 + 1)) (turn_user (0 + 1))] \<and> map fst (qu_active turn_start) = [turn_id 0]"
    by code_simp
  ultimately show ?thesis unfolding turn_shape_def by blast
qed

lemma expireLocked_cursor:
  assumes "queue_inv q" "qu_userOrder q \<noteq> []" "expireLocked now q = (ex, q')"
  shows "qu_cursor q' = anchor_index (qu_userOrder q ! qu_cursor q) 0 (qu_userOrder q')"
proof -
  note w = queue_inv_waiting [OF assms(1)]
  have "qu_cursor q < length (qu_userOrder q)" using assms(1,2) by (simp add: queue_inv_def cursor_ok_def)
  moreover have "qu_waitingCount q \<noteq> 0" using waiting_count_pos(2) [OF w] assms(2) by simp
  ultimately show ?thesis
    using assms(2,3) by (auto simp: expireLocked_def expire_users_loop [OF waiting_okD(1) [OF w]])
qed

lemma turn_user_simps [simp]:
  "turn_user (Suc (Suc n)) = turn_user n" "turn_user (Suc n) \<noteq> turn_user n" "turn_user n \<noteq> turn_user (Suc n)"
  "turn_user n \<noteq> ''a''" "''a'' \<noteq> turn_user n" "turn_user n \<noteq> ''''"
  by (simp_all add: turn_user_def)

lemma turn_id_simps [simp]: "turn_id n = turn_id m \<longleftrightarrow> n = m" "turn_id n \<noteq> ''a2''" "turn_id n \<noteq> ''''" "''a2'' \<noteq> turn_id n"
  by (auto simp: turn_id_def dest: arg_cong [of _ _ length])

text \<open>The dispatch of a full order with one free slot, from an explicit state.\<close>

lemma dispatch_single:
  assumes inv: "queue_inv q" and q: "qu_userOrder q = [''a'', x, y]" "qu_cursor q = 1" "waiting_of q x = [t]" "qu_active q = []"
    "cf_MaxActive (qu_config q) = 1" "\<And>u t'. t' \<in> set (waiting_of q u) \<Longrightarrow> 1 < ti_Deadline t'"
    and q': "q' = snd (Dispatch 1 q)"
  shows "queue_inv q'" "qu_config q' = qu_config q" "qu_userOrder q' = [''a'', y]" "qu_cursor q' = 1"
    "waiting_of q' = (waiting_of q)(x := [])" "qu_active q' = [(ti_ID t, t)]"
proof -
  show "queue_inv q'" "qu_config q' = qu_config q"
    using Dispatch_spec(1,2) [OF inv] by (cases "Dispatch 1 q"; simp add: q')+
  obtain ex q1 where ex: "expireLocked 1 q = (ex, q1)" by fastforce
  note e = expireLocked_spec [OF inv ex]
  have dist: "distinct [''a'', x, y]" using waiting_okD(1) [OF queue_inv_waiting [OF inv]] q(1) by simp
  have W: "waiting_of q1 = waiting_of q" using e(2) q(6) by (auto simp: fun_eq_iff filter_id_conv)
  have ord: "qu_userOrder q1 = [''a'', x, y]"
  proof -
    have "waiting_of q u \<noteq> []" if "u \<in> set (qu_userOrder q)" for u
      using that waiting_okD(2) [OF queue_inv_waiting [OF inv]] by blast
    then have "filter (\<lambda>u. waiting_of q u \<noteq> []) (qu_userOrder q) = qu_userOrder q" by (simp add: filter_id_conv)
    then show ?thesis using e(3) e(2) W q(1) by metis
  qed
  have cur: "qu_cursor q1 = 1" using expireLocked_cursor [OF inv _ ex] q(1,2) ord dist by auto
  obtain t1 ts where t1: "waiting_of q1 x = t1 # ts" "takeNextLocked q1 = (Some t1, take_result q1 x t1 ts)"
    by (rule takeNextLocked_result [OF e(1)]) (use ord cur that in auto)
  then have t: "t1 = t" "ts = []" using W q(3) by simp_all
  define q2 where "q2 = take_result q1 x t []"
  have q2: "qu_userOrder q2 = [''a'', y]" "qu_cursor q2 = 1" "waiting_of q2 = (waiting_of q)(x := [])" "qu_active q2 = []" "qu_config q2 = qu_config q"
    using ord cur W e(5,6) q(4) by (auto simp: q2_def take_result_def delete_at_def)
  have loop: "dispatch_loop 1 [] q1 = dispatch_loop 1 [\<lparr>ad_Ticket = t, ad_AdmittedAt = 1\<rparr>] (admit 1 t q2)"
    using t1(2) t e(5,6) q(4,5) by (subst dispatch_loop.simps) (simp add: q2_def)
  have stop: "dispatch_loop 1 adm (admit 1 t q2) = (adm, admit 1 t q2)" for adm
    using q2(4,5) q(5) by (subst dispatch_loop.simps) (simp add: admit_def)
  have "q' = admit 1 t q2" using ex loop stop by (simp add: q' Dispatch_def)
  then show "qu_userOrder q' = [''a'', y]" "qu_cursor q' = 1" "waiting_of q' = (waiting_of q)(x := [])" "qu_active q' = [(ti_ID t, t)]"
    using q2 by (simp_all add: admit_def)
qed

lemma turn_step:
  assumes "turn_shape n q"
  shows "turn_shape (Suc n) (turn n q)"
proof -
  let ?x = "turn_user (n + 1)" and ?y = "turn_user n" and ?new = "turn_ticket (turn_id (n + 2)) (turn_user n)"
  have inv: "queue_inv q" and cfg: "qu_config q = \<lparr>cf_MaxQueued = 3, cf_MaxActive = 1, cf_MaxQueueWait = 60\<rparr>"
    and ord: "qu_userOrder q = [''a'', ?x]" and cur: "qu_cursor q = 1" and wa: "waiting_of q ''a'' = [turn_ticket ''a2'' ''a'']"
    and wx: "waiting_of q ?x = [turn_ticket (turn_id (n + 1)) ?x]" and act: "map fst (qu_active q) = [turn_id n]"
    using assms by (simp_all add: turn_shape_def)
  note d = waiting_okD [OF queue_inv_waiting [OF inv]]
  have none: "waiting_of q u = []" if "u \<noteq> ''a''" "u \<noteq> ?x" for u using d(2) [of u] ord that by auto
  have wt: "map_of (qu_waitingTicket q) (turn_id (n + 2)) = None"
  proof -
    have "turn_id (n + 2) \<notin> ti_ID ` set (waiting_of q u)" for u
      using wa wx none [of u] by (cases "u = ''a''"; cases "u = ?x") auto
    then show ?thesis using d(5) [of "turn_id (n + 2)"] by (cases "map_of (qu_waitingTicket q) (turn_id (n + 2))") auto
  qed
  have an: "map_of (qu_active q) (turn_id (n + 2)) = None" using act by (auto simp: map_of_eq_None_iff)
  have count: "qu_waitingCount q = 2" using d(6) ord wa wx by simp
  define q1 where "q1 = snd (Enqueue 1 (sample_request (turn_id (n + 2)) ?y) q)"
  have enq: "Enqueue 1 (sample_request (turn_id (n + 2)) ?y) q = (Inr ?new, q1)"
    using wt an count cfg by (simp add: Enqueue_def q1_def Let_def)
  note a = Enqueue_accepted(9) [OF enq]
  have q1: "qu_userOrder q1 = [''a'', ?x, ?y]" "qu_cursor q1 = 1" "waiting_of q1 = (waiting_of q)(?y := [?new])" "qu_active q1 = qu_active q" "qu_config q1 = qu_config q"
    using none [of ?y] ord cur by (simp_all add: a)
  obtain t0 where t0: "map_of (qu_active q1) (turn_id n) = Some t0" "AList.delete (turn_id n) (qu_active q1) = []"
    using act q1(4) by (cases "qu_active q") (auto simp: delete_filter)
  define q2 where "q2 = snd (Release (turn_id n) q1)"
  have inv1: "queue_inv q1" using Enqueue_inv [OF inv] by (simp add: q1_def)
  note rel = Release_active [OF inv1 t0(1) q2_def]
  have q2: "qu_userOrder q2 = [''a'', ?x, ?y]" "qu_cursor q2 = 1" "waiting_of q2 = (waiting_of q)(?y := [?new])" "qu_active q2 = []" "qu_config q2 = qu_config q"
    using q1 t0 by (simp_all add: q2_def Release_def)
  have dl: "1 < ti_Deadline t'" if "t' \<in> set (waiting_of q2 u)" for u t'
    using that wa wx none [of u] by (cases "u = ?y"; cases "u = ''a''"; cases "u = ?x") (auto simp: q2(3))
  have "turn n q = snd (Dispatch 1 q2)" by (simp add: turn_def q2_def q1_def)
  note s = dispatch_single [OF rel(1) q2(1,2) _ q2(4) _ dl this, of "turn_ticket (turn_id (n + 1)) ?x"]
  show ?thesis
    using s q2(3,5) wa wx cfg by (simp add: turn_shape_def)
qed

lemma turns_shape: "turn_shape n (turns n turn_start)"
  using turn_start_shape turn_step by (induction n) auto


end
