(* ===== verification/AdmissionGate.thy ===== *)
theory AdmissionGate
  imports Admission
begin

text \<open>
  The blocking gate of \<open>internal/admission/gate.go\<close> on top of the queue: callers wait on a buffered
  channel until a dispatch hands them a slot or their wait ends. The mutex makes each locked section one
  step; the interleaving of the callers' steps is the relation \<open>gate_run\<close>. What the gate needs from the
  queue is the interface \<open>slot_queue\<close>, which the queue's definitions interpret.
\<close>

subsection \<open>The interface to the queue\<close>

locale slot_queue =
  fixes ok :: "'q \<Rightarrow> bool" and waiting :: "'q \<Rightarrow> 'i set" and active :: "'q \<Rightarrow> 'i set" and capacity :: "'q \<Rightarrow> nat"
    and enqueue :: "gotime \<Rightarrow> 'r \<Rightarrow> 'q \<Rightarrow> 'i option \<times> 'q"
    and dispatch :: "gotime \<Rightarrow> 'q \<Rightarrow> 'i list \<times> 'i list \<times> 'q"
    and cancel :: "gotime \<Rightarrow> 'i \<Rightarrow> 'q \<Rightarrow> 'q" and release :: "'i \<Rightarrow> 'q \<Rightarrow> 'q"
  assumes disjoint: "ok q \<Longrightarrow> waiting q \<inter> active q = {}"
    and bounded: "ok q \<Longrightarrow> finite (active q) \<and> card (active q) \<le> capacity q"
    and enqueue_law: "ok q \<Longrightarrow> enqueue now r q = (res, q') \<Longrightarrow> ok q' \<and> capacity q' = capacity q \<and> active q' = active q \<and>
      waiting q' = waiting q \<union> set_option res \<and> set_option res \<inter> (waiting q \<union> active q) = {}"
    and dispatch_law: "ok q \<Longrightarrow> dispatch now q = (expired, admitted, q') \<Longrightarrow> ok q' \<and> capacity q' = capacity q \<and>
      distinct (expired @ admitted) \<and> set (expired @ admitted) \<subseteq> waiting q \<and>
      waiting q' = waiting q - set (expired @ admitted) \<and> active q' = active q \<union> set admitted \<and>
      (waiting q' = {} \<or> card (active q') = capacity q')"
    and cancel_law: "ok q \<Longrightarrow> ok (cancel now i q) \<and> capacity (cancel now i q) = capacity q \<and>
      waiting (cancel now i q) = waiting q - {i} \<and> active (cancel now i q) = active q - {i}"
    and release_law: "ok q \<Longrightarrow> ok (release i q) \<and> capacity (release i q) = capacity q \<and>
      waiting (release i q) = waiting q \<and> active (release i q) = active q - {i}"
begin

text \<open>Nothing is lost in a dispatch: every ticket stays, becomes active, or is reported as expired.\<close>

lemma dispatch_conserves:
  assumes "ok q" "dispatch now q = (expired, admitted, q')"
  shows "waiting q \<union> active q = waiting q' \<union> active q' \<union> set expired"
    "set expired \<inter> (waiting q' \<union> active q') = {}" "set admitted \<inter> active q = {}"
proof -
  have "distinct (expired @ admitted)" "set (expired @ admitted) \<subseteq> waiting q"
    "waiting q' = waiting q - set (expired @ admitted)" "active q' = active q \<union> set admitted"
    using dispatch_law [OF assms] by blast+
  then show "waiting q \<union> active q = waiting q' \<union> active q' \<union> set expired"
    "set expired \<inter> (waiting q' \<union> active q') = {}" "set admitted \<inter> active q = {}"
    using disjoint [OF assms(1)] by auto
qed

text \<open>After a slot is given up and the queue dispatched, no slot is idle while somebody waits.\<close>

lemma release_dispatch_full:
  assumes "ok q" "dispatch now (release i q) = (expired, admitted, q')"
  shows "waiting q' = {} \<or> card (active q') = capacity q"
proof -
  have "ok (release i q)" "capacity (release i q) = capacity q" using release_law [OF assms(1)] by blast+
  then show ?thesis using dispatch_law [OF _ assms(2)] by auto
qed

end

definition waiting_ids :: "Queue \<Rightarrow> TicketID set" where
  "waiting_ids q = dom (map_of (qu_waitingTicket q))"

definition active_ids :: "Queue \<Rightarrow> TicketID set" where
  "active_ids q = dom (map_of (qu_active q))"

definition enqueue_id :: "gotime \<Rightarrow> Request \<Rightarrow> Queue \<Rightarrow> TicketID option \<times> Queue" where
  "enqueue_id now r q = (case Enqueue now r q of (Inl e, q') \<Rightarrow> (None, q') | (Inr t, q') \<Rightarrow> (Some (ti_ID t), q'))"

definition dispatch_ids :: "gotime \<Rightarrow> Queue \<Rightarrow> TicketID list \<times> TicketID list \<times> Queue" where
  "dispatch_ids now q = (case Dispatch now q of (d, q') \<Rightarrow>
     (map (ti_ID \<circ> xp_Ticket) (di_Expired d), map (ti_ID \<circ> ad_Ticket) (di_Admitted d), q'))"

lemma waiting_ids_iff: "queue_inv q \<Longrightarrow> i \<in> waiting_ids q \<longleftrightarrow> (\<exists>u. \<exists>t \<in> set (waiting_of q u). ti_ID t = i)"
  using waiting_okD(5) [OF queue_inv_waiting, of q i] by (force simp: waiting_ids_def dom_def)

lemma active_ids_card: "queue_inv q \<Longrightarrow> card (active_ids q) = length (qu_active q)"
  by (simp add: active_ids_def queue_inv_def active_ok_def dom_map_of_conv_image_fst distinct_card flip: set_map)

lemma entries_distinct:
  assumes "waiting_ok W wt order n" "distinct us"
  shows "distinct (map ti_ID (concat (map W us)))"
  using assms(2)
proof (induction us)
  case (Cons u us)
  have "ti_ID ` set (W u) \<inter> ti_ID ` set (concat (map W us)) = {}"
  proof (rule ccontr)
    assume "ti_ID ` set (W u) \<inter> ti_ID ` set (concat (map W us)) \<noteq> {}"
    then obtain t t' v where t: "t \<in> set (W u)" "t' \<in> set (W v)" "v \<in> set us" "ti_ID t = ti_ID t'" by auto
    then have "t = t'" using waiting_ids_unique [OF assms(1)] by blast
    then have "u = v" using waiting_okD(3) [OF assms(1)] t(1,2) by metis
    then show False using t(3) Cons.prems by simp
  qed
  then show ?case using Cons waiting_okD(4) [OF assms(1), of u] by simp
qed simp

lemma dispatch_ids_expired:
  assumes inv: "queue_inv q" and run: "Dispatch now q = (d, q')"
  shows "distinct (map (ti_ID \<circ> xp_Ticket) (di_Expired d))"
    "set (map (ti_ID \<circ> xp_Ticket) (di_Expired d)) = {i. \<exists>u. \<exists>t \<in> set (waiting_of q u). ti_ID t = i \<and> \<not> alive now t}"
proof -
  note w = queue_inv_waiting [OF inv]
  have "map (ti_ID \<circ> xp_Ticket) (di_Expired d) = map ti_ID (filter (\<lambda>t. \<not> alive now t) (concat (map (waiting_of q) (qu_userOrder q))))"
    unfolding Dispatch_spec(3) [OF inv run] by (induction "qu_userOrder q") (simp_all add: filter_concat map_concat o_def)
  then show "distinct (map (ti_ID \<circ> xp_Ticket) (di_Expired d))"
    using entries_distinct [OF w waiting_okD(1) [OF w]] by (metis distinct_map_filter)
  have "set (map (ti_ID \<circ> xp_Ticket) (di_Expired d)) = ti_ID ` xp_Ticket ` set (di_Expired d)" by auto
  then show "set (map (ti_ID \<circ> xp_Ticket) (di_Expired d)) = {i. \<exists>u. \<exists>t \<in> set (waiting_of q u). ti_ID t = i \<and> \<not> alive now t}"
    unfolding Dispatch_expired [OF inv run] by (auto simp: not_less)
qed

lemma dispatch_ids_admitted:
  assumes inv: "queue_inv q" and run: "Dispatch now q = (d, q')"
  shows "distinct (map (ti_ID \<circ> ad_Ticket) (di_Admitted d))"
    "active_ids q' = active_ids q \<union> set (map (ti_ID \<circ> ad_Ticket) (di_Admitted d))"
    "set (map (ti_ID \<circ> ad_Ticket) (di_Admitted d)) \<subseteq> {i. \<exists>u. \<exists>t \<in> set (waiting_of q u). ti_ID t = i \<and> alive now t}"
proof -
  note s = Dispatch_spec [OF inv run]
  have act: "map fst (qu_active q') = map fst (qu_active q) @ map (ti_ID \<circ> ad_Ticket) (di_Admitted d)"
    using s(4,5) by (simp add: o_def)
  have "distinct (map fst (qu_active q'))" using s(1) by (simp add: queue_inv_def active_ok_def)
  then show "distinct (map (ti_ID \<circ> ad_Ticket) (di_Admitted d))" unfolding act by simp
  show "active_ids q' = active_ids q \<union> set (map (ti_ID \<circ> ad_Ticket) (di_Admitted d))"
    using arg_cong [OF act, of set] by (simp add: active_ids_def dom_map_of_conv_image_fst)
  show "set (map (ti_ID \<circ> ad_Ticket) (di_Admitted d)) \<subseteq> {i. \<exists>u. \<exists>t \<in> set (waiting_of q u). ti_ID t = i \<and> alive now t}"
    using Dispatch_admitted [OF inv run] by auto
qed

lemma dispatch_ids_waiting:
  assumes inv: "queue_inv q" and run: "Dispatch now q = (d, q')"
  shows "i \<in> waiting_ids q' \<longleftrightarrow>
    (\<exists>u. \<exists>t \<in> set (waiting_of q u). ti_ID t = i \<and> alive now t) \<and> i \<notin> set (map (ti_ID \<circ> ad_Ticket) (di_Admitted d))"
proof
  note w = queue_inv_waiting [OF inv] and fifo = Dispatch_fifo [OF inv run]
  let ?adm = "map ad_Ticket (di_Admitted d)"
  note inv' = Dispatch_spec(1) [OF inv run]
  {
    assume "i \<in> waiting_ids q'"
    then obtain u t where t: "t \<in> set (waiting_of q' u)" "ti_ID t = i" using waiting_ids_iff [OF inv'] by blast
    then have mem: "t \<in> set (filter (alive now) (waiting_of q u))" unfolding fifo [of u, symmetric] by simp
    have "i \<notin> ti_ID ` set ?adm"
    proof
      assume "i \<in> ti_ID ` set ?adm"
      then obtain t' where t': "t' \<in> set ?adm" "ti_ID t' = i" by blast
      then have "t' \<in> set (waiting_of q (ti_UserID t'))" using Dispatch_admitted(1) [OF inv run] by auto
      then have "t' = t" using waiting_ids_unique [OF w] t(2) t'(2) mem by (metis filter_is_subset subsetD)
      moreover have "ti_UserID t = u" using mem waiting_okD(3) [OF w] by simp
      moreover have "distinct (filter (\<lambda>t. ti_UserID t = u) ?adm @ waiting_of q' u)"
        unfolding fifo using waiting_okD(4) [OF w, of u] by (simp add: distinct_map)
      ultimately show False using t t' by auto
    qed
    then show "(\<exists>u. \<exists>t \<in> set (waiting_of q u). ti_ID t = i \<and> alive now t) \<and> i \<notin> set (map (ti_ID \<circ> ad_Ticket) (di_Admitted d))"
      using mem t(2) by auto
  next
    assume "(\<exists>u. \<exists>t \<in> set (waiting_of q u). ti_ID t = i \<and> alive now t) \<and> i \<notin> set (map (ti_ID \<circ> ad_Ticket) (di_Admitted d))"
    then obtain u t where "t \<in> set (filter (alive now) (waiting_of q u))" "ti_ID t = i" "t \<notin> set ?adm" by auto
    then show "i \<in> waiting_ids q'" unfolding fifo [of u, symmetric] using waiting_ids_iff [OF inv'] by auto
  }
qed

interpretation aq: slot_queue queue_inv waiting_ids active_ids "\<lambda>q. nat (cf_MaxActive (qu_config q))"
  enqueue_id dispatch_ids "\<lambda>now i q. snd (Cancel now i q)" "\<lambda>i q. snd (Release i q)"
proof
  fix q assume inv: "queue_inv q"
  show "waiting_ids q \<inter> active_ids q = {}"
    using queue_inv_disjoint [OF inv] by (auto simp: waiting_ids_def active_ids_def)
  show "finite (active_ids q) \<and> card (active_ids q) \<le> nat (cf_MaxActive (qu_config q))"
    using active_ids_card [OF inv] inv by (auto simp: queue_inv_def active_ids_def finite_dom_map_of)
  show "enqueue_id now r q = (res, q') \<Longrightarrow> queue_inv q' \<and> nat (cf_MaxActive (qu_config q')) = nat (cf_MaxActive (qu_config q)) \<and>
      active_ids q' = active_ids q \<and> waiting_ids q' = waiting_ids q \<union> set_option res \<and>
      set_option res \<inter> (waiting_ids q \<union> active_ids q) = {}" for now r res q'
  proof (cases "Enqueue now r q")
    case (Pair x q1)
    assume "enqueue_id now r q = (res, q')"
    then show ?thesis
      using Pair Enqueue_inv [OF inv, of now r] Enqueue_rejected [of now r q _ q1] Enqueue_accepted [of now r q _ q1]
      by (cases x) (auto simp: enqueue_id_def waiting_ids_def active_ids_def)
  qed
  show "dispatch_ids now q = (expired, admitted, q') \<Longrightarrow> queue_inv q' \<and>
      nat (cf_MaxActive (qu_config q')) = nat (cf_MaxActive (qu_config q)) \<and> distinct (expired @ admitted) \<and>
      set (expired @ admitted) \<subseteq> waiting_ids q \<and> waiting_ids q' = waiting_ids q - set (expired @ admitted) \<and>
      active_ids q' = active_ids q \<union> set admitted \<and>
      (waiting_ids q' = {} \<or> card (active_ids q') = nat (cf_MaxActive (qu_config q')))" for now expired admitted q'
  proof -
    assume "dispatch_ids now q = (expired, admitted, q')"
    then obtain d where run: "Dispatch now q = (d, q')" and ex: "expired = map (ti_ID \<circ> xp_Ticket) (di_Expired d)"
      and ad: "admitted = map (ti_ID \<circ> ad_Ticket) (di_Admitted d)"
      by (auto simp: dispatch_ids_def split: prod.splits)
    note s = Dispatch_spec [OF inv run] and e = dispatch_ids_expired [OF inv run, folded ex]
      and a = dispatch_ids_admitted [OF inv run, folded ad] and w = dispatch_ids_waiting [OF inv run, folded ad]
    define L D where "L = {i. \<exists>u. \<exists>t \<in> set (waiting_of q u). ti_ID t = i \<and> alive now t}"
      and "D = {i. \<exists>u. \<exists>t \<in> set (waiting_of q u). ti_ID t = i \<and> \<not> alive now t}"
    have "L \<inter> D = {}" using waiting_ids_unique [OF queue_inv_waiting [OF inv]] unfolding L_def D_def by blast
    moreover have "waiting_ids q = L \<union> D" using waiting_ids_iff [OF inv] unfolding L_def D_def by blast
    moreover have "set expired = D" "set admitted \<subseteq> L" using e(2) a(3) by (simp_all add: L_def D_def)
    moreover have "waiting_ids q' = L - set admitted" using w by (auto simp: L_def)
    ultimately have "set expired \<inter> set admitted = {}" "set (expired @ admitted) \<subseteq> waiting_ids q"
      "waiting_ids q' = waiting_ids q - set (expired @ admitted)" by auto
    moreover have "waiting_ids q' = {} \<or> card (active_ids q') = nat (cf_MaxActive (qu_config q'))"
      using s(7) active_ids_card [OF s(1)] waiting_okD(2) [OF queue_inv_waiting [OF s(1)]] waiting_ids_iff [OF s(1)] by force
    ultimately show ?thesis using s(1,2) e(1) a(1,2) by simp
  qed
  show "queue_inv (snd (Cancel now i q)) \<and> nat (cf_MaxActive (qu_config (snd (Cancel now i q)))) = nat (cf_MaxActive (qu_config q)) \<and>
      waiting_ids (snd (Cancel now i q)) = waiting_ids q - {i} \<and> active_ids (snd (Cancel now i q)) = active_ids q - {i}" for now i
  proof -
    have "waiting_ids (snd (Cancel now i q)) = waiting_ids q - {i} \<and> active_ids (snd (Cancel now i q)) = active_ids q - {i}"
    proof (cases "map_of (qu_active q) i")
      case (Some t)
      then show ?thesis
        using queue_inv_disjoint [OF inv, of i] by (cases "map_of (qu_waitingTicket q) i")
          (auto simp: Cancel_active Release_def waiting_ids_def active_ids_def)
    next
      case None
      then have act: "active_ids q - {i} = active_ids q" by (auto simp: active_ids_def)
      show ?thesis
      proof (cases "map_of (qu_waitingTicket q) i")
        case (Some u)
        show ?thesis unfolding act
          by (rule Cancel_waiting [OF inv Some, of now]) (simp add: waiting_ids_def active_ids_def)
      next
        case wait: None
        then have "waiting_ids q - {i} = waiting_ids q" by (auto simp: waiting_ids_def)
        then show ?thesis using act by (simp add: Cancel_unknown [OF None wait])
      qed
    qed
    then show ?thesis using Cancel_inv [OF inv] operation_config(3) [OF inv] by simp
  qed
  show "queue_inv (snd (Release i q)) \<and> nat (cf_MaxActive (qu_config (snd (Release i q)))) = nat (cf_MaxActive (qu_config q)) \<and>
      waiting_ids (snd (Release i q)) = waiting_ids q \<and> active_ids (snd (Release i q)) = active_ids q - {i}" for i
    using Release_inv [OF inv] operation_config(4) [OF inv]
    by (auto simp: Release_def waiting_ids_def active_ids_def split: option.splits)
qed

subsection \<open>gate.go\<close>

datatype gateResult = GateAdmitted Admission | GateTimedOut

text \<open>
  The channels that \<open>Acquire\<close> makes are numbered; \<open>ga_chans\<close> holds what is buffered in each. A send
  appends to the buffer, whose capacity is 1.
\<close>

record Gate =
  ga_queue :: Queue
  ga_waiters :: "(TicketID \<times> nat) list"
  ga_chans :: "gateResult list list"

definition NewGate :: "Config \<Rightarrow> bool \<Rightarrow> admission_error + Gate" where
  "NewGate config has_clock =
    bindR (NewQueue config has_clock) (\<lambda>queue. Inr \<lparr>ga_queue = queue, ga_waiters = [], ga_chans = []\<rparr>)"

definition deliverLocked :: "TicketID \<Rightarrow> gateResult \<Rightarrow> Gate \<Rightarrow> bool \<times> Gate" where
  "deliverLocked ticketID result g =
    (let waiter = map_of (ga_waiters g) ticketID;
         g = g\<lparr>ga_waiters := AList.delete ticketID (ga_waiters g)\<rparr>
     in case waiter of
          None \<Rightarrow> (False, g)
        | Some ch \<Rightarrow> (True, g\<lparr>ga_chans := (ga_chans g)[ch := ga_chans g ! ch @ [result]]\<rparr>))"

definition deliver_expired :: "Gate \<Rightarrow> Expiration \<Rightarrow> Gate" where
  "deliver_expired g expiration = snd (deliverLocked (ti_ID (xp_Ticket expiration)) GateTimedOut g)"

definition deliver_admitted :: "Gate \<Rightarrow> Admission \<Rightarrow> Gate" where
  "deliver_admitted g admitted =
    (case deliverLocked (ti_ID (ad_Ticket admitted)) (GateAdmitted admitted) g of
       (True, g) \<Rightarrow> g
     | (False, g) \<Rightarrow> g\<lparr>ga_queue := snd (Release (ti_ID (ad_Ticket admitted)) (ga_queue g))\<rparr>)"

definition dispatchLocked :: "gotime \<Rightarrow> Gate \<Rightarrow> Gate" where
  "dispatchLocked now g =
    (let (dispatch, queue) = Dispatch now (ga_queue g);
         g = g\<lparr>ga_queue := queue\<rparr>;
         g = foldl deliver_expired g (di_Expired dispatch)
     in foldl deliver_admitted g (di_Admitted dispatch))"

text \<open>The locked section at the start of \<open>Acquire\<close>; the number of the new channel is returned with the ticket.\<close>

definition acquire_enter :: "gotime \<Rightarrow> Request \<Rightarrow> Gate \<Rightarrow> (admission_error + Ticket \<times> nat) \<times> Gate" where
  "acquire_enter now request g =
    (let waiter = length (ga_chans g) in
     case Enqueue now request (ga_queue g) of
       (Inl err, queue) \<Rightarrow> (Inl err, g\<lparr>ga_queue := queue\<rparr>)
     | (Inr ticket, queue) \<Rightarrow>
         let g = g\<lparr>ga_queue := queue, ga_chans := ga_chans g @ [[]]\<rparr>;
             g = g\<lparr>ga_waiters := AList.update (ti_ID ticket) waiter (ga_waiters g)\<rparr>
         in (Inr (ticket, waiter), dispatchLocked now g))"

text \<open>
  What \<open>Acquire\<close> returns when its select takes the result: the permit with the time waited
  (\<open>AdmittedAt.Sub(EnqueuedAt)\<close>), or the timeout error.
\<close>

definition acquire_result :: "Ticket \<Rightarrow> gateResult \<Rightarrow> (TicketID \<times> duration) option" where
  "acquire_result ticket result =
    (case result of
       GateTimedOut \<Rightarrow> None
     | GateAdmitted admission \<Rightarrow> Some (ti_ID ticket, time_sub (ad_AdmittedAt admission) (ti_EnqueuedAt ticket)))"

definition gate_cancel :: "gotime \<Rightarrow> TicketID \<Rightarrow> Gate \<Rightarrow> Gate" where
  "gate_cancel now ticketID g =
    (let g = g\<lparr>ga_waiters := AList.delete ticketID (ga_waiters g)\<rparr>;
         g = g\<lparr>ga_queue := snd (Cancel now ticketID (ga_queue g))\<rparr>
     in dispatchLocked now g)"

definition gate_release :: "gotime \<Rightarrow> TicketID \<Rightarrow> Gate \<Rightarrow> Gate" where
  "gate_release now ticketID g =
    dispatchLocked now (g\<lparr>ga_queue := snd (Release ticketID (ga_queue g))\<rparr>)"

subsection \<open>The callers\<close>

text \<open>
  A call of \<open>Acquire\<close> waits in its select, then holds a permit until \<open>Permit.Release\<close> (whose \<open>sync.Once\<close>
  makes later releases no-ops), or has ended. Calls are numbered as their channels are.
\<close>

datatype phase = Waiting | Holding | Ended

record call =
  cl_ticket :: Ticket
  cl_phase :: phase

record gsys =
  gs_gate :: Gate
  gs_calls :: "call list"

abbreviation call_id :: "gsys \<Rightarrow> nat \<Rightarrow> TicketID" where
  "call_id s k \<equiv> ti_ID (cl_ticket (gs_calls s ! k))"

abbreviation call_phase :: "gsys \<Rightarrow> nat \<Rightarrow> phase" where
  "call_phase s k \<equiv> cl_phase (gs_calls s ! k)"

text \<open>
  The steps: a new call whose identifier no unfinished call uses; the select taking a delivered result;
  the select taking the context's end or the timer, which cancels; the release of a permit.
\<close>

inductive gate_step :: "gsys \<Rightarrow> gsys \<Rightarrow> bool" where
  step_enter: "\<lbrakk>\<forall>k < length (gs_calls s). call_phase s k \<noteq> Ended \<longrightarrow> call_id s k \<noteq> re_ID r;
      acquire_enter now r (gs_gate s) = (Inr (t, ch), g)\<rbrakk> \<Longrightarrow>
    gate_step s \<lparr>gs_gate = g, gs_calls = gs_calls s @ [\<lparr>cl_ticket = t, cl_phase = Waiting\<rparr>]\<rparr>"
| step_rejected: "acquire_enter now r (gs_gate s) = (Inl e, g) \<Longrightarrow> gate_step s (s\<lparr>gs_gate := g\<rparr>)"
| step_receive: "\<lbrakk>k < length (gs_calls s); call_phase s k = Waiting; ga_chans (gs_gate s) ! k = res # rest\<rbrakk> \<Longrightarrow>
    gate_step s \<lparr>gs_gate = (gs_gate s)\<lparr>ga_chans := (ga_chans (gs_gate s))[k := rest]\<rparr>,
      gs_calls = (gs_calls s)[k := (gs_calls s ! k)\<lparr>cl_phase :=
        (case acquire_result (cl_ticket (gs_calls s ! k)) res of Some _ \<Rightarrow> Holding | None \<Rightarrow> Ended)\<rparr>]\<rparr>"
| step_abandon: "\<lbrakk>k < length (gs_calls s); call_phase s k = Waiting\<rbrakk> \<Longrightarrow>
    gate_step s \<lparr>gs_gate = gate_cancel now (call_id s k) (gs_gate s),
      gs_calls = (gs_calls s)[k := (gs_calls s ! k)\<lparr>cl_phase := Ended\<rparr>]\<rparr>"
| step_release: "\<lbrakk>k < length (gs_calls s); call_phase s k = Holding\<rbrakk> \<Longrightarrow>
    gate_step s \<lparr>gs_gate = gate_release now (call_id s k) (gs_gate s),
      gs_calls = (gs_calls s)[k := (gs_calls s ! k)\<lparr>cl_phase := Ended\<rparr>]\<rparr>"

inductive gate_run :: "Config \<Rightarrow> gsys \<Rightarrow> bool" for config where
  run_new: "NewGate config True = Inr g \<Longrightarrow> gate_run config \<lparr>gs_gate = g, gs_calls = []\<rparr>"
| run_step: "gate_run config s \<Longrightarrow> gate_step s s' \<Longrightarrow> gate_run config s'"

inductive_cases gate_stepE: "gate_step s s'"

text \<open>
  The invariant, with the identifiers \<open>pe\<close> and \<open>pa\<close> that a dispatch has expired and admitted and
  not delivered yet. A call owns a slot when it holds a permit or one is buffered for it.
\<close>

definition owns :: "gsys \<Rightarrow> nat \<Rightarrow> bool" where
  "owns s k \<longleftrightarrow> k < length (gs_calls s) \<and>
     (call_phase s k = Holding \<or> call_phase s k = Waiting \<and> (\<exists>a. ga_chans (gs_gate s) ! k = [GateAdmitted a]))"

definition parked :: "gsys \<Rightarrow> nat \<Rightarrow> bool" where
  "parked s k \<longleftrightarrow> k < length (gs_calls s) \<and> call_phase s k = Waiting \<and> ga_chans (gs_gate s) ! k = []"

definition calls_unique :: "gsys \<Rightarrow> bool" where
  "calls_unique s \<longleftrightarrow> (\<forall>k < length (gs_calls s). \<forall>k' < length (gs_calls s).
     call_phase s k \<noteq> Ended \<and> call_phase s k' \<noteq> Ended \<and> call_id s k = call_id s k' \<longrightarrow> k = k')"

definition gate_inv :: "TicketID set \<Rightarrow> TicketID set \<Rightarrow> gsys \<Rightarrow> bool" where
  "gate_inv pe pa s \<longleftrightarrow>
     queue_inv (ga_queue (gs_gate s)) \<and> length (ga_chans (gs_gate s)) = length (gs_calls s) \<and>
     (\<forall>i k. map_of (ga_waiters (gs_gate s)) i = Some k \<longleftrightarrow> parked s k \<and> call_id s k = i) \<and>
     call_id s ` {k. parked s k} = waiting_ids (ga_queue (gs_gate s)) \<union> pe \<union> pa \<and>
     waiting_ids (ga_queue (gs_gate s)) \<inter> (pe \<union> pa) = {} \<and> pe \<inter> pa = {} \<and>
     active_ids (ga_queue (gs_gate s)) = call_id s ` {k. owns s k} \<union> pa \<and>
     (\<forall>k < length (gs_calls s). length (ga_chans (gs_gate s) ! k) \<le> 1) \<and> calls_unique s"

lemma gate_invD:
  assumes "gate_inv pe pa s"
  shows "queue_inv (ga_queue (gs_gate s))" "length (ga_chans (gs_gate s)) = length (gs_calls s)"
    "map_of (ga_waiters (gs_gate s)) i = Some k \<longleftrightarrow> parked s k \<and> call_id s k = i"
    "call_id s ` {k. parked s k} = waiting_ids (ga_queue (gs_gate s)) \<union> pe \<union> pa"
    "waiting_ids (ga_queue (gs_gate s)) \<inter> (pe \<union> pa) = {}" "pe \<inter> pa = {}"
    "active_ids (ga_queue (gs_gate s)) = call_id s ` {k. owns s k} \<union> pa"
    "k < length (gs_calls s) \<Longrightarrow> length (ga_chans (gs_gate s) ! k) \<le> 1"
    "calls_unique s"
  using assms by (simp_all only: gate_inv_def simp_thms)

lemma live_unique:
  assumes "gate_inv pe pa s" "parked s k \<or> owns s k" "parked s k' \<or> owns s k'" "call_id s k = call_id s k'"
  shows "k = k'"
proof -
  have "k < length (gs_calls s)" "k' < length (gs_calls s)" "call_phase s k \<noteq> Ended" "call_phase s k' \<noteq> Ended"
    using assms(2,3) by (auto simp: parked_def owns_def)
  then show ?thesis using gate_invD(9) [OF assms(1)] assms(4) unfolding calls_unique_def by blast
qed

text \<open>Delivering to a parked call takes it off the waiting list and fills its channel.\<close>

lemma deliver_inv:
  assumes inv: "gate_inv pe pa s" and i: "i \<in> pe \<union> pa"
    and r: "(\<exists>a. result = GateAdmitted a) = (i \<in> pa)"
  shows "fst (deliverLocked i result (gs_gate s))"
    "gate_inv (pe - {i}) (pa - {i}) (s\<lparr>gs_gate := snd (deliverLocked i result (gs_gate s))\<rparr>)"
proof -
  note d = gate_invD [OF inv]
  have "i \<in> call_id s ` {k. parked s k}" using d(4) i by blast
  then obtain k where k: "parked s k" "call_id s k = i" by blast
  have kc: "k < length (gs_calls s)" "ga_chans (gs_gate s) ! k = []" using k(1) by (auto simp: parked_def)
  have wk: "map_of (ga_waiters (gs_gate s)) i = Some k" using d(3) [of i k] k by simp
  define g' where "g' = snd (deliverLocked i result (gs_gate s))"
  have g': "ga_queue g' = ga_queue (gs_gate s)" "ga_waiters g' = AList.delete i (ga_waiters (gs_gate s))"
    "ga_chans g' = (ga_chans (gs_gate s))[k := [result]]"
    using wk kc by (simp_all add: g'_def deliverLocked_def Let_def)
  show "fst (deliverLocked i result (gs_gate s))" using wk by (simp add: deliverLocked_def Let_def)
  have parked: "parked (s\<lparr>gs_gate := g'\<rparr>) j \<longleftrightarrow> parked s j \<and> j \<noteq> k" for j
    using kc d(2) by (auto simp: parked_def g' nth_list_update)
  have owns: "owns (s\<lparr>gs_gate := g'\<rparr>) j \<longleftrightarrow> owns s j \<or> j = k \<and> i \<in> pa" for j
    using k(1) kc d(2) r by (auto simp: owns_def parked_def g' nth_list_update)
  have only: "parked s j \<and> call_id s j = i \<longleftrightarrow> j = k" for j using live_unique [OF inv, of j k] k by auto
  have ids: "call_id s ` {j. parked s j \<and> j \<noteq> k} = call_id s ` {j. parked s j} - {i}" using only k by auto
  have "call_id s ` {j. parked s j} - {i} = waiting_ids (ga_queue (gs_gate s)) \<union> (pe - {i}) \<union> (pa - {i})"
    using d(4,5) i by blast
  moreover have "active_ids (ga_queue (gs_gate s)) = call_id s ` {j. owns s j \<or> j = k \<and> i \<in> pa} \<union> (pa - {i})"
    using d(7) k(2) by auto
  moreover have "waiting_ids (ga_queue (gs_gate s)) \<inter> (pe - {i} \<union> (pa - {i})) = {}" "(pe - {i}) \<inter> (pa - {i}) = {}"
    using d(5,6) by blast+
  moreover have "map_of (AList.delete i (ga_waiters (gs_gate s))) i' = Some j \<longleftrightarrow> (parked s j \<and> j \<noteq> k) \<and> call_id s j = i'" for i' j
    using d(3) [of i' j] only [of j] by auto
  moreover have "length ((ga_chans (gs_gate s))[k := [result]] ! j) \<le> 1" if "j < length (gs_calls s)" for j
    using d(8) [OF that] d(2) that by (cases "j = k") simp_all
  ultimately show "gate_inv (pe - {i}) (pa - {i}) (s\<lparr>gs_gate := snd (deliverLocked i result (gs_gate s))\<rparr>)"
    unfolding g'_def [symmetric] gate_inv_def parked owns using d(1,2,9)
    by (simp add: g' ids calls_unique_def)
qed

lemma deliver_all_expired:
  "\<lbrakk>gate_inv pe pa s; distinct (map (ti_ID \<circ> xp_Ticket) xs); (ti_ID \<circ> xp_Ticket) ` set xs = pe\<rbrakk> \<Longrightarrow>
    gate_inv {} pa (s\<lparr>gs_gate := foldl deliver_expired (gs_gate s) xs\<rparr>)"
proof (induction xs arbitrary: pe s)
  case (Cons x xs)
  let ?i = "ti_ID (xp_Ticket x)"
  have "?i \<in> pe" "?i \<notin> pa" using Cons.prems(3) gate_invD(6) [OF Cons.prems(1)] by auto
  then have "gate_inv (pe - {?i}) pa (s\<lparr>gs_gate := deliver_expired (gs_gate s) x\<rparr>)"
    using deliver_inv(2) [OF Cons.prems(1), of ?i GateTimedOut] by (simp add: deliver_expired_def)
  from Cons.IH [OF this] show ?case using Cons.prems(2,3) by (auto simp: image_iff)
qed simp

lemma deliver_all_admitted:
  "\<lbrakk>gate_inv {} pa s; distinct (map (ti_ID \<circ> ad_Ticket) xs); (ti_ID \<circ> ad_Ticket) ` set xs = pa\<rbrakk> \<Longrightarrow>
    gate_inv {} {} (s\<lparr>gs_gate := foldl deliver_admitted (gs_gate s) xs\<rparr>) \<and>
    ga_queue (foldl deliver_admitted (gs_gate s) xs) = ga_queue (gs_gate s)"
proof (induction xs arbitrary: pa s)
  case (Cons x xs)
  let ?i = "ti_ID (ad_Ticket x)" and ?r = "deliverLocked (ti_ID (ad_Ticket x)) (GateAdmitted x) (gs_gate s)"
  have i: "?i \<in> {} \<union> pa" using Cons.prems(3) by auto
  note del = deliver_inv [OF Cons.prems(1) i, of "GateAdmitted x"]
  have step: "deliver_admitted (gs_gate s) x = snd ?r" using del(1) i by (auto simp: deliver_admitted_def split: prod.splits bool.splits)
  have "gate_inv {} (pa - {?i}) (s\<lparr>gs_gate := snd ?r\<rparr>)" using del(2) i by simp
  from Cons.IH [OF this] have "gate_inv {} {} (s\<lparr>gs_gate := foldl deliver_admitted (snd ?r) xs\<rparr>) \<and>
      ga_queue (foldl deliver_admitted (snd ?r) xs) = ga_queue (snd ?r)"
    using Cons.prems(2,3) by (auto simp: image_iff)
  moreover have "ga_queue (snd ?r) = ga_queue (gs_gate s)" by (simp add: deliverLocked_def Let_def split: option.split)
  ultimately show ?case by (simp add: step)
qed simp

definition no_idle_slot :: "Queue \<Rightarrow> bool" where
  "no_idle_slot q \<longleftrightarrow> waiting_ids q = {} \<or> card (active_ids q) = nat (cf_MaxActive (qu_config q))"

lemma dispatchLocked_inv:
  assumes inv: "gate_inv {} {} s"
  shows "gate_inv {} {} (s\<lparr>gs_gate := dispatchLocked now (gs_gate s)\<rparr>)"
    "no_idle_slot (ga_queue (dispatchLocked now (gs_gate s)))"
    "qu_config (ga_queue (dispatchLocked now (gs_gate s))) = qu_config (ga_queue (gs_gate s))"
proof -
  note dI = gate_invD [OF inv]
  obtain d q' where run: "Dispatch now (ga_queue (gs_gate s)) = (d, q')" by fastforce
  define ex ad where "ex = map (ti_ID \<circ> xp_Ticket) (di_Expired d)" and "ad = map (ti_ID \<circ> ad_Ticket) (di_Admitted d)"
  have ids: "dispatch_ids now (ga_queue (gs_gate s)) = (ex, ad, q')" by (simp add: dispatch_ids_def run ex_def ad_def)
  note law = aq.dispatch_law [OF dI(1) ids]
  define s1 where "s1 = s\<lparr>gs_gate := (gs_gate s)\<lparr>ga_queue := q'\<rparr>\<rparr>"
  have same: "parked s1 = parked s" "owns s1 = owns s" "calls_unique s1 = calls_unique s" "gs_calls s1 = gs_calls s"
    "ga_chans (gs_gate s1) = ga_chans (gs_gate s)" "ga_waiters (gs_gate s1) = ga_waiters (gs_gate s)" "ga_queue (gs_gate s1) = q'"
    by (auto simp: s1_def parked_def owns_def calls_unique_def fun_eq_iff)
  have sets: "waiting_ids q' \<union> set ex \<union> set ad = waiting_ids (ga_queue (gs_gate s))" "waiting_ids q' \<inter> (set ex \<union> set ad) = {}"
    "set ex \<inter> set ad = {}" "active_ids q' = active_ids (ga_queue (gs_gate s)) \<union> set ad" "distinct ex" "distinct ad"
    using law by auto
  have inv1: "gate_inv (set ex) (set ad) s1"
    unfolding gate_inv_def same using law dI(1-4,7-9) sets by simp
  have "gate_inv {} (set ad) (s1\<lparr>gs_gate := foldl deliver_expired (gs_gate s1) (di_Expired d)\<rparr>)"
    using deliver_all_expired [OF inv1, of "di_Expired d"] sets(5) by (simp add: ex_def)
  from deliver_all_admitted [OF this, of "di_Admitted d"]
  have fin: "gate_inv {} {} (s1\<lparr>gs_gate := dispatchLocked now (gs_gate s)\<rparr>)"
    "ga_queue (dispatchLocked now (gs_gate s)) = ga_queue (foldl deliver_expired (gs_gate s1) (di_Expired d))"
    using sets(6) by (simp_all add: ad_def dispatchLocked_def run s1_def)
  have "ga_queue (foldl deliver_expired g xs) = ga_queue g" for g xs
    by (induction xs arbitrary: g) (simp_all add: deliver_expired_def deliverLocked_def Let_def split: option.split)
  then have q: "ga_queue (dispatchLocked now (gs_gate s)) = q'" using fin(2) same(7) by simp
  show "gate_inv {} {} (s\<lparr>gs_gate := dispatchLocked now (gs_gate s)\<rparr>)" using fin(1) by (simp add: s1_def)
  show "no_idle_slot (ga_queue (dispatchLocked now (gs_gate s)))" using law unfolding q no_idle_slot_def by blast
  show "qu_config (ga_queue (dispatchLocked now (gs_gate s))) = qu_config (ga_queue (gs_gate s))"
    unfolding q using Dispatch_spec(2) [OF dI(1) run] .
qed

text \<open>A waiting or holding call that ends and gives its ticket back to the queue.\<close>

lemma end_call_inv:
  assumes inv: "gate_inv {} {} s" and k: "k < length (gs_calls s)" "call_phase s k \<noteq> Ended"
    and q': "queue_inv q'" "waiting_ids q' = waiting_ids (ga_queue (gs_gate s)) - {call_id s k}"
      "active_ids q' = active_ids (ga_queue (gs_gate s)) - {call_id s k}"
    and w: "map_of ws = (map_of (ga_waiters (gs_gate s)))(call_id s k := None)"
    and s': "s' = \<lparr>gs_gate = (gs_gate s)\<lparr>ga_waiters := ws, ga_queue := q'\<rparr>,
        gs_calls = (gs_calls s)[k := (gs_calls s ! k)\<lparr>cl_phase := Ended\<rparr>]\<rparr>"
  shows "gate_inv {} {} s'"
proof -
  note d = gate_invD [OF inv]
  have ids: "call_id s' = call_id s" "length (gs_calls s') = length (gs_calls s)"
    using k by (auto simp: s' fun_eq_iff nth_list_update)
  have ph: "call_phase s' j = (if j = k then Ended else call_phase s j)" for j using k by (simp add: s' nth_list_update)
  have parked: "parked s' j \<longleftrightarrow> parked s j \<and> j \<noteq> k" for j using ph [of j] ids(2) by (auto simp: parked_def s')
  have owns: "owns s' j \<longleftrightarrow> owns s j \<and> j \<noteq> k" for j using ph [of j] ids(2) by (auto simp: owns_def s')
  have uniq: "j = k" if "parked s j \<or> owns s j" "call_id s j = call_id s k" for j
    using d(9) k that unfolding calls_unique_def by (auto simp: parked_def owns_def)
  have "call_id s ` {j. parked s j \<and> j \<noteq> k} = call_id s ` {j. parked s j} - {call_id s k}"
    "call_id s ` {j. owns s j \<and> j \<noteq> k} = call_id s ` {j. owns s j} - {call_id s k}" using uniq by auto
  moreover have "map_of ws i = Some j \<longleftrightarrow> (parked s j \<and> j \<noteq> k) \<and> call_id s j = i" for i j
    using d(3) [of i j] uniq [of j] unfolding w by auto
  moreover have id: "call_id s' j = call_id s j" for j using fun_cong [OF ids(1)] .
  moreover have "calls_unique s'" using d(9) ids(2) id by (simp add: calls_unique_def ph)
  moreover have "ga_queue (gs_gate s') = q'" "ga_waiters (gs_gate s') = ws" "ga_chans (gs_gate s') = ga_chans (gs_gate s)"
    by (simp_all add: s')
  ultimately show ?thesis
    using d(2,4,7,8) q' unfolding gate_inv_def parked owns id ids(2) by simp
qed

text \<open>A call that has just been enqueued.\<close>

lemma enter_inv:
  assumes inv: "gate_inv {} {} s" and fresh: "\<forall>k < length (gs_calls s). call_phase s k \<noteq> Ended \<longrightarrow> call_id s k \<noteq> ti_ID t"
    and q': "queue_inv q'" "waiting_ids q' = insert (ti_ID t) (waiting_ids (ga_queue (gs_gate s)))"
      "active_ids q' = active_ids (ga_queue (gs_gate s))"
    and s': "s' = \<lparr>gs_gate = (gs_gate s)\<lparr>ga_queue := q', ga_chans := ga_chans (gs_gate s) @ [[]],
          ga_waiters := AList.update (ti_ID t) (length (gs_calls s)) (ga_waiters (gs_gate s))\<rparr>, gs_calls = gs_calls s @ [\<lparr>cl_ticket = t, cl_phase = Waiting\<rparr>]\<rparr>"
  shows "gate_inv {} {} s'"
proof -
  note d = gate_invD [OF inv]
  let ?n = "length (gs_calls s)"
  have old: "j < ?n \<Longrightarrow> call_id s' j = call_id s j \<and> call_phase s' j = call_phase s j" "call_id s' ?n = ti_ID t" "call_phase s' ?n = Waiting" for j
    by (simp_all add: s' nth_append)
  have parked: "parked s' j \<longleftrightarrow> parked s j \<or> j = ?n" for j using d(2) by (auto simp: parked_def s' nth_append)
  have owns: "owns s' j \<longleftrightarrow> owns s j" for j using d(2) by (auto simp: owns_def s' nth_append)
  have lt: "parked s j \<Longrightarrow> j < ?n" "owns s j \<Longrightarrow> j < ?n" for j by (simp_all add: parked_def owns_def)
  have img: "call_id s' ` {j. parked s j \<or> j = ?n} = insert (ti_ID t) (call_id s ` {j. parked s j})"
    "call_id s' ` {j. owns s j} = call_id s ` {j. owns s j}" using lt old by (auto simp: image_iff) metis+
  have "parked s j \<Longrightarrow> call_id s j \<noteq> ti_ID t" for j using fresh by (simp add: parked_def)
  then have wt: "map_of (ga_waiters (gs_gate s')) i = Some j \<longleftrightarrow> (parked s j \<or> j = ?n) \<and> call_id s' j = i" for i j
    using d(3) [of i j] old(1) [of j] old(2) lt(1) [of j] by (cases "j = ?n") (auto simp: s')
  have "calls_unique s'"
    unfolding calls_unique_def
  proof (intro allI impI)
    fix j j' assume j: "j < length (gs_calls s')" "j' < length (gs_calls s')"
      and "call_phase s' j \<noteq> Ended \<and> call_phase s' j' \<noteq> Ended \<and> call_id s' j = call_id s' j'"
    moreover have "j < ?n \<or> j = ?n" "j' < ?n \<or> j' = ?n" using j by (auto simp: s' less_Suc_eq)
    ultimately show "j = j'" using d(9) fresh old unfolding calls_unique_def by metis
  qed
  moreover have "length (ga_chans (gs_gate s') ! j) \<le> 1" if "j < length (gs_calls s')" for j
    using d(2) d(8) [of j] that by (cases "j < ?n") (auto simp: s' nth_append less_Suc_eq)
  ultimately show ?thesis
    unfolding gate_inv_def parked owns img using wt d(2,4,7) q' by (simp add: s')
qed

text \<open>The select of a call takes the buffered result.\<close>

lemma receive_inv:
  assumes inv: "gate_inv {} {} s" and k: "k < length (gs_calls s)" "call_phase s k = Waiting" "ga_chans (gs_gate s) ! k = res # rest"
    and s': "s' = \<lparr>gs_gate = (gs_gate s)\<lparr>ga_chans := (ga_chans (gs_gate s))[k := rest]\<rparr>,
      gs_calls = (gs_calls s)[k := (gs_calls s ! k)\<lparr>cl_phase := (case acquire_result (cl_ticket (gs_calls s ! k)) res of Some _ \<Rightarrow> Holding | None \<Rightarrow> Ended)\<rparr>]\<rparr>"
  shows "gate_inv {} {} s'"
proof -
  note d = gate_invD [OF inv]
  have rest: "rest = []" using d(8) [OF k(1)] k(3) by simp
  have ids: "call_id s' j = call_id s j" for j using k by (cases "j = k") (simp_all add: s')
  have ph: "call_phase s' j = (if j = k then (case res of GateAdmitted _ \<Rightarrow> Holding | GateTimedOut \<Rightarrow> Ended) else call_phase s j)" for j
    using k by (auto simp: s' acquire_result_def split: gateResult.splits)
  have ch: "ga_chans (gs_gate s') ! j = (if j = k then [] else ga_chans (gs_gate s) ! j)" for j
    using k(1) d(2) rest by (simp add: s')
  have len: "length (gs_calls s') = length (gs_calls s)" by (simp add: s')
  have parked: "parked s' j \<longleftrightarrow> parked s j" for j
    using k ph [of j] ch [of j] len by (auto simp: parked_def split: gateResult.splits)
  have owns: "owns s' j \<longleftrightarrow> owns s j" for j
    using k rest ph [of j] ch [of j] len by (auto simp: owns_def split: gateResult.splits)
  have "calls_unique s'" using d(9) k(1,2) len unfolding calls_unique_def ids ph by (auto split: gateResult.splits)
  moreover have "length (ga_chans (gs_gate s') ! j) \<le> 1" if "j < length (gs_calls s)" for j
    using d(8) [OF that] by (simp add: ch)
  moreover have "ga_queue (gs_gate s') = ga_queue (gs_gate s)" "ga_waiters (gs_gate s') = ga_waiters (gs_gate s)"
    "length (ga_chans (gs_gate s')) = length (ga_chans (gs_gate s))" by (simp_all add: s')
  ultimately show ?thesis
    using d(1-4,7) unfolding gate_inv_def parked owns ids len by simp
qed

lemma gate_step_inv:
  assumes inv: "gate_inv {} {} s" and step: "gate_step s s'" and idle: "no_idle_slot (ga_queue (gs_gate s))"
  shows "gate_inv {} {} s' \<and> no_idle_slot (ga_queue (gs_gate s')) \<and>
    qu_config (ga_queue (gs_gate s')) = qu_config (ga_queue (gs_gate s))"
  using step
proof (cases rule: gate_step.cases)
  case (step_enter r now t ch g)
  note dI = gate_invD [OF inv]
  obtain q' where enq: "Enqueue now r (ga_queue (gs_gate s)) = (Inr t, q')" "ch = length (ga_chans (gs_gate s))"
    using step_enter(3) by (auto simp: acquire_enter_def Let_def split: prod.splits sum.splits)
  define s1 where "s1 = \<lparr>gs_gate = (gs_gate s)\<lparr>ga_queue := q', ga_chans := ga_chans (gs_gate s) @ [[]],
          ga_waiters := AList.update (ti_ID t) (length (gs_calls s)) (ga_waiters (gs_gate s))\<rparr>, gs_calls = gs_calls s @ [\<lparr>cl_ticket = t, cl_phase = Waiting\<rparr>]\<rparr>"
  have "enqueue_id now r (ga_queue (gs_gate s)) = (Some (ti_ID t), q')" using enq by (simp add: enqueue_id_def)
  note law = aq.enqueue_law [OF dI(1) this]
  have id: "ti_ID t = re_ID r" using Enqueue_accepted(1) [OF enq(1)] .
  have inv1: "gate_inv {} {} s1"
    using law step_enter(2) by (intro enter_inv [OF inv _ _ _ _ s1_def]) (auto simp: id)
  have "g = dispatchLocked now (gs_gate s1)"
    using step_enter(3) enq dI(2) by (simp add: acquire_enter_def Let_def s1_def)
  then show ?thesis
    using dispatchLocked_inv [OF inv1, of now] step_enter(1) Enqueue_accepted(9) [OF enq(1)] by (simp add: s1_def)
next
  case (step_rejected now r e g)
  then have "g = gs_gate s"
    using Enqueue_rejected by (auto simp: acquire_enter_def Let_def split: prod.splits sum.splits)
  then show ?thesis using step_rejected inv idle by simp
next
  case (step_receive k res rest)
  then show ?thesis using receive_inv [OF inv step_receive(2-4)] idle by simp
next
  case (step_abandon k now)
  note law = aq.cancel_law [OF gate_invD(1) [OF inv], of now "call_id s k"]
  define q' where "q' = snd (Cancel now (call_id s k) (ga_queue (gs_gate s)))"
  define s1 where "s1 = \<lparr>gs_gate = (gs_gate s)\<lparr>ga_waiters := AList.delete (call_id s k) (ga_waiters (gs_gate s)), ga_queue := q'\<rparr>,
        gs_calls = (gs_calls s)[k := (gs_calls s ! k)\<lparr>cl_phase := Ended\<rparr>]\<rparr>"
  have inv1: "gate_inv {} {} s1"
    using law step_abandon(2,3) by (intro end_call_inv [OF inv _ _ _ _ _ _ s1_def]) (simp_all add: q'_def)
  have "s' = s1\<lparr>gs_gate := dispatchLocked now (gs_gate s1)\<rparr>"
    using step_abandon(1) by (simp add: s1_def gate_cancel_def q'_def)
  then show ?thesis
    using dispatchLocked_inv [OF inv1, of now] operation_config(3) [OF gate_invD(1) [OF inv]] by (simp add: s1_def q'_def)
next
  case (step_release k now)
  note law = aq.release_law [OF gate_invD(1) [OF inv], of "call_id s k"]
  define q' where "q' = snd (Release (call_id s k) (ga_queue (gs_gate s)))"
  have own: "owns s k" using step_release by (simp add: owns_def)
  then have act: "call_id s k \<in> active_ids (ga_queue (gs_gate s))" using gate_invD(7) [OF inv] by auto
  have nw: "call_id s k \<notin> waiting_ids (ga_queue (gs_gate s))"
    using aq.disjoint [OF gate_invD(1) [OF inv]] act by blast
  have "\<not> parked s j" if "call_id s j = call_id s k" for j
    using live_unique [OF inv, of j k] own that step_release(3) by (auto simp: parked_def)
  then have wn: "map_of (ga_waiters (gs_gate s)) (call_id s k) = None"
    using gate_invD(3) [OF inv] by (cases "map_of (ga_waiters (gs_gate s)) (call_id s k)") auto
  define s1 where "s1 = \<lparr>gs_gate = (gs_gate s)\<lparr>ga_waiters := ga_waiters (gs_gate s), ga_queue := q'\<rparr>,
        gs_calls = (gs_calls s)[k := (gs_calls s ! k)\<lparr>cl_phase := Ended\<rparr>]\<rparr>"
  have inv1: "gate_inv {} {} s1"
    using law step_release(2,3) nw wn by (intro end_call_inv [OF inv _ _ _ _ _ _ s1_def]) (auto simp: q'_def fun_eq_iff)
  have "s' = s1\<lparr>gs_gate := dispatchLocked now (gs_gate s1)\<rparr>"
    using step_release(1) by (simp add: s1_def gate_release_def q'_def)
  then show ?thesis
    using dispatchLocked_inv [OF inv1, of now] operation_config(4) [OF gate_invD(1) [OF inv]] by (simp add: s1_def q'_def)
qed

lemma gate_run_inv:
  "gate_run config s \<Longrightarrow> gate_inv {} {} s \<and> no_idle_slot (ga_queue (gs_gate s)) \<and> qu_config (ga_queue (gs_gate s)) = config"
proof (induction rule: gate_run.induct)
  case (run_new g)
  then obtain q where "NewQueue config True = Inr q" "g = \<lparr>ga_queue = q, ga_waiters = [], ga_chans = []\<rparr>"
    by (auto simp: NewGate_def bindR_Inr_iff)
  moreover from this have "qu_waitingTicket q = []" "qu_active q = []" by (auto simp: NewQueue_def split: option.splits)
  ultimately show ?case
    using NewQueue_inv [of config True q]
    by (simp add: gate_inv_def no_idle_slot_def parked_def owns_def calls_unique_def waiting_ids_def active_ids_def)
next
  case (run_step s s')
  then show ?case using gate_step_inv by metis
qed

subsection \<open>Correctness of the gate\<close>

text \<open>
  C21. Under every interleaving of callers (entering, receiving, abandoning on context end or timer,
  releasing), at most MaxActive callers hold a permit; every occupied slot belongs to a caller that holds
  a permit or has one waiting in its channel, so once all calls have ended no slot and no queue place is
  leaked; and no channel ever holds more than one result, so the send under the lock never blocks.
\<close>

theorem gate_no_leak:
  assumes "gate_run config s"
  shows "card {k. k < length (gs_calls s) \<and> call_phase s k = Holding} \<le> nat (cf_MaxActive config) \<and>
    (\<forall>i. map_of (qu_active (ga_queue (gs_gate s))) i \<noteq> None \<longleftrightarrow> (\<exists>k. owns s k \<and> call_id s k = i)) \<and>
    ((\<forall>k < length (gs_calls s). call_phase s k = Ended) \<longrightarrow>
      qu_active (ga_queue (gs_gate s)) = [] \<and> qu_waitingTicket (ga_queue (gs_gate s)) = [] \<and> ga_waiters (gs_gate s) = []) \<and>
    (\<forall>k < length (gs_calls s). length (ga_chans (gs_gate s) ! k) \<le> 1)"
proof -
  have inv: "gate_inv {} {} s" and cfg: "qu_config (ga_queue (gs_gate s)) = config" using gate_run_inv [OF assms] by auto
  note d = gate_invD [OF inv]
  have act: "active_ids (ga_queue (gs_gate s)) = call_id s ` {k. owns s k}" using d(7) by simp
  let ?H = "{k. k < length (gs_calls s) \<and> call_phase s k = Holding}"
  have "inj_on (call_id s) ?H" using live_unique [OF inv] by (auto simp: inj_on_def owns_def)
  then have "card ?H = card (call_id s ` ?H)" by (simp add: card_image)
  also have "\<dots> \<le> card (active_ids (ga_queue (gs_gate s)))"
    using aq.bounded [OF d(1)] act by (intro card_mono) (auto simp: owns_def)
  also have "\<dots> \<le> nat (cf_MaxActive config)" using aq.bounded [OF d(1)] cfg by simp
  finally have bound: "card ?H \<le> nat (cf_MaxActive config)" .
  have "qu_active (ga_queue (gs_gate s)) = [] \<and> qu_waitingTicket (ga_queue (gs_gate s)) = [] \<and> ga_waiters (gs_gate s) = []"
    if ended: "\<forall>k < length (gs_calls s). call_phase s k = Ended"
  proof -
    have "{k. owns s k} = {}" "{k. parked s k} = {}" using ended by (auto simp: owns_def parked_def)
    then have "active_ids (ga_queue (gs_gate s)) = {}" "waiting_ids (ga_queue (gs_gate s)) = {}" "\<And>k. \<not> parked s k"
      using act d(4) by auto
    moreover have "map_of (ga_waiters (gs_gate s)) = Map.empty"
      using d(3) calculation(3) by (intro ext) (metis not_None_eq)
    ultimately show ?thesis by (simp add: active_ids_def waiting_ids_def)
  qed
  moreover have "map_of (qu_active (ga_queue (gs_gate s))) i \<noteq> None \<longleftrightarrow> (\<exists>k. owns s k \<and> call_id s k = i)" for i
  proof -
    have "map_of (qu_active (ga_queue (gs_gate s))) i \<noteq> None \<longleftrightarrow> i \<in> active_ids (ga_queue (gs_gate s))"
      by (simp add: active_ids_def domIff)
    then show ?thesis unfolding act by auto
  qed
  ultimately show ?thesis using bound d(8) by (intro conjI allI impI) simp_all
qed

text \<open>A gate with one slot and two callers.\<close>

abbreviation small_config :: Config where
  "small_config \<equiv> \<lparr>cf_MaxQueued = 4, cf_MaxActive = 1, cf_MaxQueueWait = 60\<rparr>"

definition small_gate :: Gate where
  "small_gate = \<lparr>ga_queue = \<lparr>qu_config = small_config, qu_waiting = [], qu_waitingTicket = [], qu_userOrder = [], qu_cursor = 0,
     qu_waitingCount = 0, qu_active = [], qu_activeByUser = []\<rparr>, ga_waiters = [], ga_chans = []\<rparr>"

definition entered :: "gotime \<Rightarrow> Request \<Rightarrow> gsys \<Rightarrow> gsys" where
  "entered now r s = (case acquire_enter now r (gs_gate s) of
     (Inr (t, ch), g) \<Rightarrow> \<lparr>gs_gate = g, gs_calls = gs_calls s @ [\<lparr>cl_ticket = t, cl_phase = Waiting\<rparr>]\<rparr>
   | (Inl e, g) \<Rightarrow> s\<lparr>gs_gate := g\<rparr>)"

lemma entered_step:
  assumes "gate_run config s" "\<forall>k < length (gs_calls s). call_phase s k \<noteq> Ended \<longrightarrow> call_id s k \<noteq> re_ID r"
  shows "gate_run config (entered now r s)"
  using run_step [OF assms(1)] step_enter [OF assms(2), of now] step_rejected [of now r s]
  by (auto simp: entered_def split: prod.splits sum.splits)

definition two_callers :: gsys where
  "two_callers = entered 2 (sample_request ''b1'' ''b'') (entered 1 (sample_request ''a1'' ''a'') \<lparr>gs_gate = small_gate, gs_calls = []\<rparr>)"

lemma one_caller_calls:
  "gs_calls (entered 1 (sample_request ''a1'' ''a'') \<lparr>gs_gate = small_gate, gs_calls = []\<rparr>) =
    [\<lparr>cl_ticket = \<lparr>ti_ID = ''a1'', ti_UserID = ''a'', ti_EnqueuedAt = 1, ti_Deadline = 61\<rparr>, cl_phase = Waiting\<rparr>]"
  by code_simp

lemma two_callers_run: "gate_run small_config two_callers"
proof -
  have "NewGate small_config True = Inr small_gate"
    by (simp add: NewGate_def NewQueue_def validate_config_def small_gate_def)
  then have "gate_run small_config (entered 1 (sample_request ''a1'' ''a'') \<lparr>gs_gate = small_gate, gs_calls = []\<rparr>)"
    by (intro entered_step run_new) auto
  then show ?thesis unfolding two_callers_def by (rule entered_step) (simp add: one_caller_calls)
qed

theorem gate_no_leak_witness:
  "card {k. k < length (gs_calls two_callers) \<and> call_phase two_callers k = Holding} \<le> 1"
  using gate_no_leak [OF two_callers_run] by simp

text \<open>
  C22. No slot is idle while somebody waits: after every step of every interleaving, if some caller is
  still parked without a result then all MaxActive slots are occupied.
\<close>

theorem gate_no_idle_slot:
  assumes "gate_run config s" and "k < length (gs_calls s)" and "call_phase s k = Waiting" and "ga_chans (gs_gate s) ! k = []"
  shows "int (length (qu_active (ga_queue (gs_gate s)))) = cf_MaxActive config"
proof -
  have inv: "gate_inv {} {} s" and idle: "no_idle_slot (ga_queue (gs_gate s))" and cfg: "qu_config (ga_queue (gs_gate s)) = config"
    using gate_run_inv [OF assms(1)] by auto
  note d = gate_invD [OF inv]
  have "parked s k" using assms by (simp add: parked_def)
  then have "waiting_ids (ga_queue (gs_gate s)) \<noteq> {}" using d(4) by auto
  moreover have "0 < cf_MaxActive config" using d(1) cfg by (auto simp: queue_inv_def validate_config_def split: if_splits)
  ultimately show ?thesis using idle cfg active_ids_card [OF d(1)] by (simp add: no_idle_slot_def)
qed

theorem gate_no_idle_slot_witness:
  "int (length (qu_active (ga_queue (gs_gate two_callers)))) = 1"
proof -
  have "1 < length (gs_calls two_callers) \<and> call_phase two_callers 1 = Waiting \<and> ga_chans (gs_gate two_callers) ! 1 = []" by code_simp
  then show ?thesis using gate_no_idle_slot [OF two_callers_run, of 1] by simp
qed

end
