(* ===== verification/Coordination.thy ===== *)
theory Coordination
  imports Prelude
begin

text \<open>
  The vocabulary of \<open>internal/coordination\<close>: scopes, dimensions, limits and decisions (\<open>types.go\<close>),
  the coordinator with its key derivation and the validation of dimensions (\<open>coordinator.go\<close>,
  \<open>errors.go\<close>). The keyed hash (hex of HMAC-SHA256 under the coordinator's secret) is the function
  \<open>co_mac\<close>. Error messages are kept up to the values that are interpolated into them.
\<close>

subsection \<open>types.go, errors.go\<close>

datatype Scope = ScopeGlobal | ScopeResourcePool | ScopeModel | ScopeProvider | ScopeCredential | ScopeSharedUpstream
  | ScopeUnsupported string

definition scope_string :: "Scope \<Rightarrow> string" where
  "scope_string s = (case s of ScopeGlobal \<Rightarrow> ''global'' | ScopeResourcePool \<Rightarrow> ''resource_pool'' | ScopeModel \<Rightarrow> ''model''
     | ScopeProvider \<Rightarrow> ''provider'' | ScopeCredential \<Rightarrow> ''credential'' | ScopeSharedUpstream \<Rightarrow> ''shared_upstream''
     | ScopeUnsupported x \<Rightarrow> x)"

record Dimension =
  dm_Scope :: Scope
  dm_SubjectID :: string

definition GlobalDimension :: Dimension where
  "GlobalDimension = \<lparr>dm_Scope = ScopeGlobal, dm_SubjectID = ''''\<rparr>"

datatype BucketMetric = MetricRequests | MetricTokens | MetricDailyTokens | MetricUnsupported string

definition metric_string :: "BucketMetric \<Rightarrow> string" where
  "metric_string m = (case m of MetricRequests \<Rightarrow> ''requests'' | MetricTokens \<Rightarrow> ''tokens'' | MetricDailyTokens \<Rightarrow> ''daily_tokens''
     | MetricUnsupported x \<Rightarrow> x)"

record BucketLimit =
  bl_Dimension :: Dimension
  bl_Metric :: BucketMetric
  bl_CapacityTokens :: int
  bl_RefillTokens :: int
  bl_RefillInterval :: duration
  bl_RequestedTokens :: int
  bl_FixedWindow :: duration
  bl_FixedWindowOffset :: duration

record BucketState =
  bs_Dimension :: Dimension
  bs_Metric :: BucketMetric
  bs_RemainingTokens :: int

record RateDecision =
  ra_Granted :: bool
  ra_ObservedAt :: gotime
  ra_RetryAt :: gotime
  ra_Buckets :: "BucketState list"

record RateObservation =
  ro_ObservedAt :: gotime
  ro_Buckets :: "BucketState list"

record RateRefundDecision =
  rr_Applied :: bool
  rr_ObservedAt :: gotime
  rr_Buckets :: "BucketState list"

record ConcurrencyLimit =
  cl_Dimension :: Dimension
  cl_MaxInFlight :: int

record LeaseRef =
  lr_ID :: string
  lr_Dimensions :: "Dimension list"

record ConcurrencyState =
  cs_Dimension :: Dimension
  cs_InUse :: int
  cs_Limit :: int

record LeaseDecision =
  ld_Granted :: bool
  ld_Lease :: LeaseRef
  ld_ObservedAt :: gotime
  ld_ExpiresAt :: gotime
  ld_RetryAt :: gotime
  ld_Dimensions :: "ConcurrencyState list"

record CleanupResult =
  cr_ObservedAt :: gotime
  cr_Removed :: int
  cr_InUse :: "ConcurrencyState list"

datatype coord_error = ErrInvalidInput string | ErrUnavailable string string | ErrLeaseLost

subsection \<open>coordinator.go\<close>

abbreviation maximumSubjectBytes :: nat where "maximumSubjectBytes \<equiv> 512"
abbreviation minimumHashKeyBytes :: nat where "minimumHashKeyBytes \<equiv> 32"

record Coordinator =
  co_prefix :: string
  co_mac :: "string \<Rightarrow> string"

text \<open>The regular expression \<open>^[A-Za-z0-9][A-Za-z0-9:_-]{0,79}$\<close>.\<close>

definition alnum_char :: "char \<Rightarrow> bool" where
  "alnum_char c \<longleftrightarrow> (let n = of_char c :: int in (65 \<le> n \<and> n \<le> 90) \<or> (97 \<le> n \<and> n \<le> 122) \<or> (48 \<le> n \<and> n \<le> 57))"

definition prefix_matches :: "string \<Rightarrow> bool" where
  "prefix_matches s \<longleftrightarrow>
    (case s of [] \<Rightarrow> False
     | c # cs \<Rightarrow> alnum_char c \<and> length cs \<le> 79 \<and> list_all (\<lambda>c. alnum_char c \<or> c \<in> set '':_-'') cs)"

text \<open>\<open>New\<close>: \<open>mac\<close> is the keyed hash under the options' secret.\<close>

definition NewCoordinator :: "bool \<Rightarrow> string \<Rightarrow> string \<Rightarrow> (string \<Rightarrow> string \<Rightarrow> string) \<Rightarrow> coord_error + Coordinator" where
  [validators]: "NewCoordinator has_client prefix secret hmac =
    (if \<not> has_client then Inl (ErrInvalidInput ''Valkey client is required'')
     else if \<not> prefix_matches prefix then Inl (ErrInvalidInput ''prefix must contain 1-80 safe characters'')
     else if length secret < minimumHashKeyBytes then Inl (ErrInvalidInput ''key hash secret must contain at least 32 bytes'')
     else Inr \<lparr>co_prefix = prefix, co_mac = hmac secret\<rparr>)"

text \<open>\<open>binary.BigEndian.PutUint32(length, uint32(len(part)))\<close>.\<close>

definition be32 :: "nat \<Rightarrow> string" where
  "be32 n = (let n = int n in map char_of [n div 16777216 mod 256, n div 65536 mod 256, n div 256 mod 256, n mod 256])"

definition digest_input :: "string list \<Rightarrow> string" where
  "digest_input parts = concat (map (\<lambda>part. be32 (length part) @ part) parts)"

definition digest :: "Coordinator \<Rightarrow> string list \<Rightarrow> string" where
  "digest c parts = co_mac c (digest_input parts)"

definition rateKey :: "Coordinator \<Rightarrow> BucketLimit \<Rightarrow> string" where
  "rateKey c limit = co_prefix c @ '':{coordination}:rate:'' @ metric_string (bl_Metric limit) @ '':'' @
     scope_string (dm_Scope (bl_Dimension limit)) @ '':'' @
     digest c [''dimension'', scope_string (dm_Scope (bl_Dimension limit)), dm_SubjectID (bl_Dimension limit)]"

definition rateRefundKey :: "Coordinator \<Rightarrow> string \<Rightarrow> string" where
  "rateRefundKey c reference = co_prefix c @ '':{coordination}:rate-refund:'' @ digest c [''rate-refund'', reference]"

definition leaseKey :: "Coordinator \<Rightarrow> Dimension \<Rightarrow> string" where
  "leaseKey c d = co_prefix c @ '':{coordination}:lease:'' @ scope_string (dm_Scope d) @ '':'' @
     digest c [''dimension'', scope_string (dm_Scope d), dm_SubjectID d]"

definition leaseMember :: "Coordinator \<Rightarrow> string \<Rightarrow> string" where
  "leaseMember c leaseID = digest c [''lease'', leaseID]"

definition validateDimension :: "Dimension \<Rightarrow> coord_error option" where
  [validators]: "validateDimension d =
    (case dm_Scope d of
       ScopeGlobal \<Rightarrow> if dm_SubjectID d \<noteq> '''' then Some (ErrInvalidInput ''global dimension cannot have a subject ID'') else None
     | ScopeUnsupported x \<Rightarrow> Some (ErrInvalidInput ''unsupported dimension scope'')
     | _ \<Rightarrow> if blank (dm_SubjectID d) then Some (ErrInvalidInput ''dimension requires a subject ID'')
            else if length (dm_SubjectID d) > maximumSubjectBytes then Some (ErrInvalidInput ''subject ID exceeds 512 bytes'')
            else None)"

definition unavailable :: "string \<Rightarrow> string \<Rightarrow> coord_error" where
  "unavailable operation err = ErrUnavailable operation err"

subsection \<open>Key separation\<close>

text \<open>The length prefixes make the hashed byte string determine the parts.\<close>

lemma be32_length [simp]: "length (be32 n) = 4"
  by (simp add: be32_def Let_def)

lemma be32_inj:
  assumes "n < 2 ^ 32" "m < 2 ^ 32" "be32 n = be32 m"
  shows "n = m"
proof -
  have dig: "map (of_char :: char \<Rightarrow> int) (be32 k) =
      [int k div 16777216 mod 256, int k div 65536 mod 256, int k div 256 mod 256, int k mod 256]" for k
    unfolding be32_def Let_def list.map of_char_of mod_mod_trivial ..
  have rebuild: "k = (k div 16777216 mod 256) * 16777216 + (k div 65536 mod 256) * 65536 + (k div 256 mod 256) * 256 + k mod 256"
    if "0 \<le> k" "k < 2 ^ 32" for k :: int
  proof -
    have "k div 256 div 256 = k div 65536" "k div 65536 div 256 = k div 16777216" by (simp_all add: zdiv_zmult2_eq [symmetric])
    then have "k div 256 = k div 65536 * 256 + k div 256 mod 256" "k div 65536 = k div 16777216 * 256 + k div 65536 mod 256"
      using div_mult_mod_eq [of "k div 256" 256] div_mult_mod_eq [of "k div 65536" 256] by simp_all
    moreover have "k = k div 256 * 256 + k mod 256" by (rule div_mult_mod_eq [symmetric])
    moreover have "k div 16777216 < 256" "0 \<le> k div 16777216" using that by (simp_all add: int_div_less_iff pos_imp_zdiv_nonneg_iff)
    then have "k div 16777216 mod 256 = k div 16777216" by simp
    ultimately show ?thesis by linarith
  qed
  have "[int n div 16777216 mod 256, int n div 65536 mod 256, int n div 256 mod 256, int n mod 256] =
      [int m div 16777216 mod 256, int m div 65536 mod 256, int m div 256 mod 256, int m mod 256]"
    using arg_cong [OF assms(3), of "map (of_char :: char \<Rightarrow> int)"] unfolding dig .
  then have e: "int n div 16777216 mod 256 = int m div 16777216 mod 256" "int n div 65536 mod 256 = int m div 65536 mod 256"
    "int n div 256 mod 256 = int m div 256 mod 256" "int n mod 256 = int m mod 256" by (simp_all only: list.inject)
  have "int n < 2 ^ 32" "int m < 2 ^ 32" using assms(1,2) by simp_all
  then have "int n = int m"
    using rebuild [of "int n", unfolded e] rebuild [of "int m"] by (metis of_nat_0_le_iff)
  then show ?thesis by simp
qed

lemma digest_input_inj:
  "\<lbrakk>\<forall>p \<in> set xs \<union> set ys. length p < 2 ^ 32; digest_input xs = digest_input ys\<rbrakk> \<Longrightarrow> xs = ys"
proof (induction xs arbitrary: ys)
  case Nil
  then show ?case by (cases ys) (auto simp: digest_input_def dest: arg_cong [of _ _ length])
next
  case (Cons x xs)
  from Cons.prems(2) obtain y zs where ys: "ys = y # zs"
    by (cases ys) (auto simp: digest_input_def dest: arg_cong [of _ _ length])
  from Cons.prems(2) have eq: "be32 (length x) @ x @ digest_input xs = be32 (length y) @ y @ digest_input zs"
    by (simp add: digest_input_def ys)
  then have "be32 (length x) = be32 (length y)" "x @ digest_input xs = y @ digest_input zs" by simp_all
  then have "length x = length y" using be32_inj Cons.prems(1) ys by simp
  then have "x = y" "digest_input xs = digest_input zs" using \<open>x @ digest_input xs = y @ digest_input zs\<close> by simp_all
  then show ?case using Cons.IH [of zs] Cons.prems(1) ys by simp
qed

end
