(* ===== verification/Lease.thy ===== *)
theory Lease
  imports Coordination
begin

text \<open>
  Concurrency leases: the Lua scripts of \<open>internal/coordination/lease_script.go\<close> and the Go functions of
  \<open>lease.go\<close> around them. The Valkey server is not part of the repository; its sorted-set commands are
  a record of operations on a store, and their documented behaviour is the interface \<open>zset_store\<close>, which a
  store of association lists interprets. A script runs atomically at one reading of the server's clock.
  Lua numbers that occur here are integers below $2^{53}$, so they are integers of the model.
\<close>

subsection \<open>The commands the scripts use\<close>

record 's zops =
  z_time :: "'s \<Rightarrow> int \<times> int"
  z_remrange :: "string \<Rightarrow> int \<Rightarrow> 's \<Rightarrow> int \<times> 's"
  z_score :: "string \<Rightarrow> string \<Rightarrow> 's \<Rightarrow> int option"
  z_card :: "string \<Rightarrow> 's \<Rightarrow> int"
  z_range1 :: "string \<Rightarrow> int \<Rightarrow> 's \<Rightarrow> (string \<times> int) list"
  z_tail :: "string \<Rightarrow> 's \<Rightarrow> (string \<times> int) list"
  z_add :: "string \<Rightarrow> int \<Rightarrow> string \<Rightarrow> 's \<Rightarrow> 's"
  z_rem :: "string \<Rightarrow> string \<Rightarrow> 's \<Rightarrow> int \<times> 's"
  z_del :: "string \<Rightarrow> 's \<Rightarrow> 's"
  z_pexpireat :: "string \<Rightarrow> int \<Rightarrow> 's \<Rightarrow> 's"

definition now_ms :: "'s zops \<Rightarrow> 's \<Rightarrow> int" where
  "now_ms ops s = fst (z_time ops s) * 1000 + snd (z_time ops s) div 1000"

subsection \<open>lease_script.go\<close>

abbreviation leaseKeyGraceMilliseconds :: int where "leaseKeyGraceMilliseconds \<equiv> 1000"

definition retain_live_key :: "'s zops \<Rightarrow> int \<Rightarrow> string \<Rightarrow> 's \<Rightarrow> 's" where
  "retain_live_key ops grace_ms key s =
    (case z_tail ops key s of
       [] \<Rightarrow> z_del ops key s
     | (member, score) # _ \<Rightarrow> z_pexpireat ops key (score + grace_ms) s)"

text \<open>The first loop of the acquire script.\<close>

fun acquire_scan ::
  "'s zops \<Rightarrow> int \<Rightarrow> string \<Rightarrow> (string \<times> int) list \<Rightarrow> int list \<Rightarrow> int \<Rightarrow> 's \<Rightarrow> (string + int list \<times> int) \<times> 's" where
  "acquire_scan ops now member [] counts retry_after_ms s = (Inr (counts, retry_after_ms), s)"
| "acquire_scan ops now member ((key, limit) # rest) counts retry_after_ms s =
    (let s = snd (z_remrange ops key now s);
         exists = z_score ops key member s \<noteq> None;
         count = z_card ops key s
     in if \<not> exists \<and> count \<ge> limit then
          case z_range1 ops key (count - limit) s of
            [(blocking, score)] \<Rightarrow>
              acquire_scan ops now member rest (counts @ [count]) (max retry_after_ms (max 1 (score - now))) s
          | _ \<Rightarrow> (Inl ''CORRUPT_COORDINATION_LEASE'', s)
        else acquire_scan ops now member rest (counts @ [count]) retry_after_ms s)"

text \<open>The loop that adds the member to every dimension.\<close>

fun acquire_grant :: "'s zops \<Rightarrow> int \<Rightarrow> int \<Rightarrow> string \<Rightarrow> string list \<Rightarrow> int list \<Rightarrow> 's \<Rightarrow> int list \<times> 's" where
  "acquire_grant ops expires grace member [] counts s = ([], s)"
| "acquire_grant ops expires grace member (key # keys) counts s =
    (let existed = z_score ops key member s \<noteq> None;
         s = z_add ops key expires member s;
         count = (if existed then hd counts else hd counts + 1);
         s = retain_live_key ops grace key s;
         (result, s) = acquire_grant ops expires grace member keys (tl counts) s
     in (count # result, s))"

definition acquireLeaseScript :: "'s zops \<Rightarrow> (string \<times> int) list \<Rightarrow> int \<Rightarrow> string \<Rightarrow> int \<Rightarrow> 's \<Rightarrow> (string + int list) \<times> 's" where
  "acquireLeaseScript ops limits ttl_ms member grace_ms s =
    (let now = now_ms ops s;
         expires_at_ms = now + ttl_ms
     in case acquire_scan ops now member limits [] 0 s of
          (Inl err, s) \<Rightarrow> (Inl err, s)
        | (Inr (counts, retry_after_ms), s) \<Rightarrow>
            if retry_after_ms = 0 then
              let (counts, s) = acquire_grant ops expires_at_ms grace_ms member (map fst limits) counts s
              in (Inr ([1, now, expires_at_ms] @ counts), s)
            else
              (Inr ([0, now, retry_after_ms] @ counts), fold (retain_live_key ops grace_ms) (map fst limits) s))"

fun renew_scan :: "'s zops \<Rightarrow> int \<Rightarrow> string \<Rightarrow> string list \<Rightarrow> bool \<Rightarrow> 's \<Rightarrow> bool \<times> 's" where
  "renew_scan ops now member [] held s = (held, s)"
| "renew_scan ops now member (key # keys) held s =
    (let s = snd (z_remrange ops key now s)
     in renew_scan ops now member keys (if z_score ops key member s = None then False else held) s)"

definition renewLeaseScript :: "'s zops \<Rightarrow> string list \<Rightarrow> int \<Rightarrow> string \<Rightarrow> int \<Rightarrow> 's \<Rightarrow> (string + int list) \<times> 's" where
  "renewLeaseScript ops keys ttl_ms member grace_ms s =
    (let now = now_ms ops s;
         expires_at_ms = now + ttl_ms;
         (held, s) = renew_scan ops now member keys True s
     in if \<not> held then
          (Inr [0, now, 0], fold (\<lambda>key s. retain_live_key ops grace_ms key (snd (z_rem ops key member s))) keys s)
        else
          (Inr [1, now, expires_at_ms], fold (\<lambda>key s. retain_live_key ops grace_ms key (z_add ops key expires_at_ms member s)) keys s))"

fun release_loop :: "'s zops \<Rightarrow> int \<Rightarrow> int \<Rightarrow> string \<Rightarrow> string list \<Rightarrow> int \<Rightarrow> 's \<Rightarrow> int \<times> 's" where
  "release_loop ops now grace member [] removed s = (removed, s)"
| "release_loop ops now grace member (key # keys) removed s =
    (let s = snd (z_remrange ops key now s);
         (n, s) = z_rem ops key member s
     in release_loop ops now grace member keys (removed + n) (retain_live_key ops grace key s))"

definition releaseLeaseScript :: "'s zops \<Rightarrow> string list \<Rightarrow> string \<Rightarrow> int \<Rightarrow> 's \<Rightarrow> (string + int list) \<times> 's" where
  "releaseLeaseScript ops keys member grace_ms s =
    (let now = now_ms ops s;
         (removed, s) = release_loop ops now grace_ms member keys 0 s
     in (Inr [now, removed], s))"

fun cleanup_loop :: "'s zops \<Rightarrow> int \<Rightarrow> int \<Rightarrow> string list \<Rightarrow> int \<Rightarrow> int list \<Rightarrow> 's \<Rightarrow> int \<times> int list \<times> 's" where
  "cleanup_loop ops now grace [] cleaned counts s = (cleaned, counts, s)"
| "cleanup_loop ops now grace (key # keys) cleaned counts s =
    (let (removed, s) = z_remrange ops key now s;
         count = z_card ops key s
     in cleanup_loop ops now grace keys (cleaned + removed) (counts @ [count]) (retain_live_key ops grace key s))"

definition cleanupLeaseScript :: "'s zops \<Rightarrow> string list \<Rightarrow> int \<Rightarrow> 's \<Rightarrow> (string + int list) \<times> 's" where
  "cleanupLeaseScript ops keys grace_ms s =
    (let now = now_ms ops s;
         (cleaned, counts, s) = cleanup_loop ops now grace_ms keys 0 [] s
     in (Inr ([now, cleaned] @ counts), s))"

subsection \<open>lease.go\<close>

abbreviation maximumLeaseTTL :: duration where "maximumLeaseTTL \<equiv> 86400000000000"
abbreviation maximumConcurrencyLimit :: int where "maximumConcurrencyLimit \<equiv> 1000000000"
abbreviation maximumLeaseDimensions :: nat where "maximumLeaseDimensions \<equiv> 8"
abbreviation millisecond :: duration where "millisecond \<equiv> 1000000"

text \<open>\<open>time.UnixMilli(x)\<close> and the nanoseconds from year 1 to the Unix epoch.\<close>

abbreviation unix_epoch :: gotime where "unix_epoch \<equiv> 62135596800000000000"

definition UnixMilli :: "int \<Rightarrow> gotime" where
  "UnixMilli ms = unix_epoch + ms * millisecond"

definition validateLeaseIDAndTTL :: "string \<Rightarrow> duration \<Rightarrow> coord_error option" where
  [validators]: "validateLeaseIDAndTTL leaseID ttl =
    (if length leaseID = 0 \<or> length leaseID > maximumSubjectBytes then Some (ErrInvalidInput ''lease ID must contain 1-512 bytes'')
     else if ttl < millisecond \<or> ttl > maximumLeaseTTL then Some (ErrInvalidInput ''lease TTL must be between 1ms and 24h'')
     else None)"

text \<open>The loops over the dimensions, with the keys seen so far.\<close>

fun scan_limits :: "Coordinator \<Rightarrow> string list \<Rightarrow> ConcurrencyLimit list \<Rightarrow> coord_error + string list" where
  "scan_limits c seen [] = Inr []"
| "scan_limits c seen (limit # limits) =
    (case validateDimension (cl_Dimension limit) of
       Some err \<Rightarrow> Inl err
     | None \<Rightarrow>
         if cl_MaxInFlight limit < 1 \<or> cl_MaxInFlight limit > maximumConcurrencyLimit then
           Inl (ErrInvalidInput ''concurrency limit is outside supported bounds'')
         else
           let key = leaseKey c (cl_Dimension limit) in
           if key \<in> set seen then Inl (ErrInvalidInput ''duplicate concurrency dimension'')
           else bindR (scan_limits c (key # seen) limits) (\<lambda>keys. Inr (key # keys)))"

definition prepareConcurrencyLimits :: "Coordinator \<Rightarrow> ConcurrencyLimit list \<Rightarrow> coord_error + string list" where
  "prepareConcurrencyLimits c limits =
    (if length limits = 0 then Inl (ErrInvalidInput ''at least one concurrency limit is required'')
     else if length limits > maximumLeaseDimensions then Inl (ErrInvalidInput ''at most 8 concurrency limits are supported'')
     else scan_limits c [] limits)"

fun scan_dimensions :: "Coordinator \<Rightarrow> string list \<Rightarrow> Dimension list \<Rightarrow> coord_error + string list" where
  "scan_dimensions c seen [] = Inr []"
| "scan_dimensions c seen (d # ds) =
    (case validateDimension d of
       Some err \<Rightarrow> Inl err
     | None \<Rightarrow>
         let key = leaseKey c d in
         if key \<in> set seen then Inl (ErrInvalidInput ''duplicate lease dimension'')
         else bindR (scan_dimensions c (key # seen) ds) (\<lambda>keys. Inr (key # keys)))"

definition prepareLeaseRef :: "Coordinator \<Rightarrow> LeaseRef \<Rightarrow> duration \<Rightarrow> coord_error + string list" where
  "prepareLeaseRef c lease ttl =
    (case validateLeaseIDAndTTL (lr_ID lease) ttl of
       Some err \<Rightarrow> Inl err
     | None \<Rightarrow>
         if length (lr_Dimensions lease) = 0 then Inl (ErrInvalidInput ''at least one lease dimension is required'')
         else if length (lr_Dimensions lease) > maximumLeaseDimensions then Inl (ErrInvalidInput ''at most 8 lease dimensions are supported'')
         else scan_dimensions c [] (lr_Dimensions lease))"

definition prepareLeaseAcquire :: "Coordinator \<Rightarrow> string \<Rightarrow> duration \<Rightarrow> ConcurrencyLimit list \<Rightarrow> coord_error + string list" where
  "prepareLeaseAcquire c leaseID ttl limits =
    (case validateLeaseIDAndTTL leaseID ttl of
       Some err \<Rightarrow> Inl err
     | None \<Rightarrow> prepareConcurrencyLimits c limits)"

text \<open>Reading a script's reply; \<open>Inl\<close> is a server or transport error.\<close>

definition acquire_lease_reply :: "string \<Rightarrow> ConcurrencyLimit list \<Rightarrow> string + int list \<Rightarrow> coord_error + LeaseDecision" where
  "acquire_lease_reply leaseID limits reply =
    (let op = ''acquire concurrency lease'' in
     case reply of
       Inl err \<Rightarrow> Inl (unavailable op err)
     | Inr values \<Rightarrow>
         if length values \<noteq> 3 + length limits \<or> (values ! 0 \<noteq> 0 \<and> values ! 0 \<noteq> 1) \<or> values ! 1 \<le> 0 \<or> values ! 2 \<le> 0 then
           Inl (unavailable op ''invalid script result'')
         else if \<exists>v \<in> set (drop 3 values). v < 0 then Inl (unavailable op ''negative lease count'')
         else
           let granted = (values ! 0 = 1); observed = UnixMilli (values ! 1)
           in Inr \<lparr>ld_Granted = granted,
                ld_Lease = (if granted then \<lparr>lr_ID = leaseID, lr_Dimensions = map cl_Dimension limits\<rparr> else \<lparr>lr_ID = '''', lr_Dimensions = []\<rparr>),
                ld_ObservedAt = observed,
                ld_ExpiresAt = (if granted then UnixMilli (values ! 2) else 0),
                ld_RetryAt = (if granted then 0 else observed + wrap64 (values ! 2 * millisecond)),
                ld_Dimensions = map (\<lambda>(limit, v). \<lparr>cs_Dimension = cl_Dimension limit, cs_InUse = v, cs_Limit = cl_MaxInFlight limit\<rparr>)
                  (zip limits (drop 3 values))\<rparr>)"

definition AcquireLease :: "'s zops \<Rightarrow> Coordinator \<Rightarrow> string \<Rightarrow> duration \<Rightarrow> ConcurrencyLimit list \<Rightarrow> 's \<Rightarrow> (coord_error + LeaseDecision) \<times> 's" where
  "AcquireLease ops c leaseID ttl limits s =
    (case prepareLeaseAcquire c leaseID ttl limits of
       Inl err \<Rightarrow> (Inl err, s)
     | Inr keys \<Rightarrow>
         let (reply, s) = acquireLeaseScript ops (zip keys (map cl_MaxInFlight limits)) (ttl div millisecond) (leaseMember c leaseID)
               leaseKeyGraceMilliseconds s
         in (acquire_lease_reply leaseID limits reply, s))"

definition renew_lease_reply :: "string + int list \<Rightarrow> coord_error + gotime" where
  "renew_lease_reply reply =
    (let op = ''renew concurrency lease'' in
     case reply of
       Inl err \<Rightarrow> Inl (unavailable op err)
     | Inr values \<Rightarrow>
         if length values \<noteq> 3 \<or> (values ! 0 \<noteq> 0 \<and> values ! 0 \<noteq> 1) \<or> values ! 1 \<le> 0 then Inl (unavailable op ''invalid script result'')
         else if values ! 0 = 0 then Inl ErrLeaseLost
         else if values ! 2 \<le> values ! 1 then Inl (unavailable op ''invalid expiration'')
         else Inr (UnixMilli (values ! 2)))"

definition RenewLease :: "'s zops \<Rightarrow> Coordinator \<Rightarrow> LeaseRef \<Rightarrow> duration \<Rightarrow> 's \<Rightarrow> (coord_error + gotime) \<times> 's" where
  "RenewLease ops c lease ttl s =
    (case prepareLeaseRef c lease ttl of
       Inl err \<Rightarrow> (Inl err, s)
     | Inr keys \<Rightarrow>
         let (reply, s) = renewLeaseScript ops keys (ttl div millisecond) (leaseMember c (lr_ID lease)) leaseKeyGraceMilliseconds s
         in (renew_lease_reply reply, s))"

definition release_lease_reply :: "string + int list \<Rightarrow> coord_error option" where
  "release_lease_reply reply =
    (let op = ''release concurrency lease'' in
     case reply of
       Inl err \<Rightarrow> Some (unavailable op err)
     | Inr values \<Rightarrow>
         if length values \<noteq> 2 \<or> values ! 0 \<le> 0 \<or> values ! 1 < 0 then Some (unavailable op ''invalid script result'') else None)"

definition ReleaseLease :: "'s zops \<Rightarrow> Coordinator \<Rightarrow> LeaseRef \<Rightarrow> 's \<Rightarrow> coord_error option \<times> 's" where
  "ReleaseLease ops c lease s =
    (case prepareLeaseRef c lease millisecond of
       Inl err \<Rightarrow> (Some err, s)
     | Inr keys \<Rightarrow>
         let (reply, s) = releaseLeaseScript ops keys (leaseMember c (lr_ID lease)) leaseKeyGraceMilliseconds s
         in (release_lease_reply reply, s))"

definition cleanup_reply :: "ConcurrencyLimit list \<Rightarrow> string + int list \<Rightarrow> coord_error + CleanupResult" where
  "cleanup_reply limits reply =
    (let op = ''clean expired concurrency leases'' in
     case reply of
       Inl err \<Rightarrow> Inl (unavailable op err)
     | Inr values \<Rightarrow>
         if length values \<noteq> 2 + length limits \<or> values ! 0 \<le> 0 \<or> values ! 1 < 0 then Inl (unavailable op ''invalid script result'')
         else if \<exists>v \<in> set (drop 2 values). v < 0 then Inl (unavailable op ''negative lease count'')
         else Inr \<lparr>cr_ObservedAt = UnixMilli (values ! 0), cr_Removed = values ! 1,
           cr_InUse = map (\<lambda>(limit, v). \<lparr>cs_Dimension = cl_Dimension limit, cs_InUse = v, cs_Limit = cl_MaxInFlight limit\<rparr>)
             (zip limits (drop 2 values))\<rparr>)"

definition CleanupExpiredLeases :: "'s zops \<Rightarrow> Coordinator \<Rightarrow> ConcurrencyLimit list \<Rightarrow> 's \<Rightarrow> (coord_error + CleanupResult) \<times> 's" where
  "CleanupExpiredLeases ops c limits s =
    (case prepareConcurrencyLimits c limits of
       Inl err \<Rightarrow> (Inl err, s)
     | Inr keys \<Rightarrow>
         let (reply, s) = cleanupLeaseScript ops keys leaseKeyGraceMilliseconds s
         in (cleanup_reply limits reply, s))"

subsection \<open>The interface to the server\<close>

text \<open>
  A view \<open>z\<close> of the store gives each key's members with their scores; \<open>deadline\<close> gives the time at which
  the server drops a key; \<open>elapse\<close> is the passing of time between commands. The assumptions are the
  documented behaviour of the commands.
\<close>

type_synonym zview = "string \<Rightarrow> string \<rightharpoonup> int"

definition live :: "int \<Rightarrow> (string \<rightharpoonup> int) \<Rightarrow> (string \<rightharpoonup> int)" where
  "live now M = (\<lambda>m. case M m of None \<Rightarrow> None | Some v \<Rightarrow> if now < v then Some v else None)"

lemma live_dom: "dom (live now M) = {m. \<exists>v. M m = Some v \<and> now < v}"
  by (auto simp: live_def split: option.splits if_splits)

lemma live_Some: "live now M m = Some v \<longleftrightarrow> M m = Some v \<and> now < v"
  by (auto simp: live_def split: option.splits)

lemma live_idem [simp]: "live now (live now M) = live now M"
  by (auto simp: live_def fun_eq_iff split: option.splits)

lemma live_upd: "now < x \<Longrightarrow> live now (M(m \<mapsto> x)) = (live now M)(m \<mapsto> x)"
  by (auto simp: live_def fun_eq_iff)

lemma live_rem: "live now (M(m := None)) = (live now M)(m := None)"
  by (auto simp: live_def fun_eq_iff)

lemma live_live: "now \<le> now' \<Longrightarrow> live now' (live now M) = live now' M"
  by (auto simp: live_def fun_eq_iff split: option.splits)

lemma live_mono: "now \<le> now' \<Longrightarrow> dom (live now' M) \<subseteq> dom (live now M)"
  by (auto simp: live_dom)

locale zset_store =
  fixes ops :: "'s zops" and z :: "'s \<Rightarrow> zview" and deadline :: "'s \<Rightarrow> string \<Rightarrow> int option" and elapse :: "'s \<Rightarrow> 's \<Rightarrow> bool"
  assumes finite_members: "finite (dom (z s k))"
    and time_law: "z_time ops (snd (z_remrange ops k x s)) = z_time ops s" "z_time ops (z_add ops k x m s) = z_time ops s"
      "z_time ops (snd (z_rem ops k m s)) = z_time ops s" "z_time ops (z_del ops k s) = z_time ops s"
      "z_time ops (z_pexpireat ops k x s) = z_time ops s"
    and remrange_law: "z (snd (z_remrange ops k x s)) = (z s)(k := live x (z s k))"
      "fst (z_remrange ops k x s) = int (card (dom (z s k)) - card (dom (live x (z s k))))"
    and score_law: "z_score ops k m s = z s k m"
    and card_law: "z_card ops k s = int (card (dom (z s k)))"
    and range_law: "0 \<le> i \<Longrightarrow> i < int (card (dom (z s k))) \<Longrightarrow>
      \<exists>m v. z_range1 ops k i s = [(m, v)] \<and> z s k m = Some v \<and> i < int (card {m'. \<exists>v' \<le> v. z s k m' = Some v'})"
    and tail_law: "z s k = Map.empty \<Longrightarrow> z_tail ops k s = []"
      "z s k \<noteq> Map.empty \<Longrightarrow> \<exists>m v. z_tail ops k s = [(m, v)] \<and> z s k m = Some v \<and> (\<forall>m' v'. z s k m' = Some v' \<longrightarrow> v' \<le> v)"
    and add_law: "z (z_add ops k x m s) = (z s)(k := (z s k)(m \<mapsto> x))"
    and rem_law: "z (snd (z_rem ops k m s)) = (z s)(k := (z s k)(m := None))"
      "fst (z_rem ops k m s) = (if z s k m = None then 0 else 1)"
    and del_law: "z (z_del ops k s) = (z s)(k := Map.empty)"
    and pexpireat_law: "now_ms ops s < x \<Longrightarrow> z (z_pexpireat ops k x s) = z s"
      "now_ms ops s < x \<Longrightarrow> deadline (z_pexpireat ops k x s) k = Some x"
      "k' \<noteq> k \<Longrightarrow> deadline (z_pexpireat ops k x s) k' = deadline s k'"
    and deadline_law: "deadline (snd (z_remrange ops k x s)) k' = deadline s k' \<or> k' = k"
      "deadline (z_add ops k x m s) k' = deadline s k' \<or> k' = k" "deadline (snd (z_rem ops k m s)) k' = deadline s k' \<or> k' = k"
      "deadline (z_del ops k s) k' = (if k' = k then None else deadline s k')"
    and elapse_law: "elapse s s' \<Longrightarrow> now_ms ops s \<le> now_ms ops s'"
      "elapse s s' \<Longrightarrow> z s' k = z s k \<and> deadline s' k = deadline s k \<or>
         (\<exists>t. deadline s k = Some t \<and> t \<le> now_ms ops s' \<and> z s' k = Map.empty \<and> deadline s' k = None)"
begin

text \<open>What a key must satisfy between scripts: it is dropped only after all its members have expired.\<close>

definition key_ok :: "'s \<Rightarrow> string \<Rightarrow> bool" where
  "key_ok s k \<longleftrightarrow> (\<forall>t m v. deadline s k = Some t \<and> z s k m = Some v \<longrightarrow> v < t)"

lemmas z_laws = remrange_law(1) add_law rem_law(1) del_law
lemmas now_laws [simp] = time_law [THEN arg_cong [where f = "\<lambda>p. fst p * 1000 + snd p div 1000"], folded now_ms_def]

lemma retain_now [simp]: "now_ms ops (retain_live_key ops g k s) = now_ms ops s"
  by (auto simp: retain_live_key_def split: list.split)

lemma retain_z:
  assumes "\<forall>m v. z s k m = Some v \<longrightarrow> now_ms ops s < v + g"
  shows "z (retain_live_key ops g k s) = z s"
proof (cases "z s k = Map.empty")
  case True
  then show ?thesis using tail_law(1) [OF True] del_law [of k s] by (simp add: retain_live_key_def fun_upd_idem)
next
  case False
  then obtain m v where "z_tail ops k s = [(m, v)]" "z s k m = Some v" using tail_law(2) by blast
  then show ?thesis using assms pexpireat_law(1) by (simp add: retain_live_key_def)
qed

lemma retain_deadline:
  assumes "\<forall>m v. z s k m = Some v \<longrightarrow> now_ms ops s < v + g" "0 < g"
  shows "key_ok (retain_live_key ops g k s) k" "k' \<noteq> k \<Longrightarrow> deadline (retain_live_key ops g k s) k' = deadline s k'"
proof -
  show "key_ok (retain_live_key ops g k s) k"
  proof (cases "z s k = Map.empty")
    case True
    then show ?thesis using tail_law(1) [OF True] del_law [of k s] by (simp add: key_ok_def retain_live_key_def)
  next
    case False
    then obtain m v where t: "z_tail ops k s = [(m, v)]" "z s k m = Some v" "\<forall>m' v'. z s k m' = Some v' \<longrightarrow> v' \<le> v"
      using tail_law(2) by blast
    then have "now_ms ops s < v + g" using assms(1) by blast
    moreover have "v' < v + g" if "z s k m' = Some v'" for m' v' using t(3) assms(2) that by fastforce
    ultimately show ?thesis
      using t(1) pexpireat_law(1,2) [of s "v + g" k] by (simp add: key_ok_def retain_live_key_def)
  qed
  show "k' \<noteq> k \<Longrightarrow> deadline (retain_live_key ops g k s) k' = deadline s k'"
    using deadline_law(4) [of k s k'] pexpireat_law(3) by (auto simp: retain_live_key_def split: list.split)
qed

end

text \<open>The effect of the loops on the view of the store.\<close>

definition zlive :: "int \<Rightarrow> string set \<Rightarrow> zview \<Rightarrow> zview" where
  "zlive now ks Z = (\<lambda>k. if k \<in> ks then live now (Z k) else Z k)"

definition zadd_all :: "int \<Rightarrow> string \<Rightarrow> string set \<Rightarrow> zview \<Rightarrow> zview" where
  "zadd_all x m ks Z = (\<lambda>k. if k \<in> ks then (Z k)(m \<mapsto> x) else Z k)"

definition zrem_all :: "string \<Rightarrow> string set \<Rightarrow> zview \<Rightarrow> zview" where
  "zrem_all m ks Z = (\<lambda>k. if k \<in> ks then (Z k)(m := None) else Z k)"

definition blocked :: "int \<Rightarrow> string \<Rightarrow> zview \<Rightarrow> string \<times> int \<Rightarrow> bool" where
  "blocked now m Z kl \<longleftrightarrow> live now (Z (fst kl)) m = None \<and> snd kl \<le> int (card (dom (live now (Z (fst kl)))))"

text \<open>What the retry delay of a blocked key guarantees: enough members expire by then.\<close>

definition frees :: "int \<Rightarrow> zview \<Rightarrow> string \<times> int \<Rightarrow> int \<Rightarrow> bool" where
  "frees now Z kl retry \<longleftrightarrow> int (card (dom (live (now + retry) (Z (fst kl))))) < snd kl"

context zset_store
begin

lemma range_frees:
  assumes "1 \<le> L" "L \<le> int (card (dom (z s k)))" "\<forall>m v. z s k m = Some v \<longrightarrow> now < v"
  obtains m v where "z_range1 ops k (int (card (dom (z s k))) - L) s = [(m, v)]" "now < v"
    "\<And>r. v - now \<le> r \<Longrightarrow> frees now (z s) (k, L) r"
proof -
  let ?M = "z s k" and ?n = "int (card (dom (z s k)))"
  have "0 \<le> ?n - L" "?n - L < ?n" using assms(1,2) by auto
  then obtain m v where mv: "z_range1 ops k (?n - L) s = [(m, v)]" "?M m = Some v"
    "?n - L < int (card {m'. \<exists>v' \<le> v. ?M m' = Some v'})" using range_law by blast
  have "frees now (z s) (k, L) r" if "v - now \<le> r" for r
  proof -
    let ?E = "{m'. \<exists>v' \<le> v. ?M m' = Some v'}"
    have sub: "dom (live (now + r) ?M) \<subseteq> dom ?M - ?E" using that by (auto simp: live_dom)
    have E: "?E \<subseteq> dom ?M" by auto
    have "card (dom (live (now + r) ?M)) \<le> card (dom ?M - ?E)" using sub finite_members by (intro card_mono) auto
    also have "\<dots> = card (dom ?M) - card ?E" using E finite_members finite_subset [OF E] by (intro card_Diff_subset) auto
    finally have "card (dom (live (now + r) ?M)) \<le> card (dom ?M) - card ?E" .
    moreover have "card ?E \<le> card (dom ?M)" using E finite_members by (intro card_mono)
    ultimately show ?thesis using mv(3) by (simp add: frees_def)
  qed
  then show thesis using that mv(1,2) assms(3) by blast
qed

lemma acquire_scan_spec:
  "\<lbrakk>\<forall>kl \<in> set ks. 1 \<le> snd kl; 0 \<le> retry\<rbrakk> \<Longrightarrow>
    \<exists>r s'. acquire_scan ops now m ks counts retry s =
        (Inr (counts @ map (\<lambda>kl. int (card (dom (live now (z s (fst kl)))))) ks, r), s') \<and>
      z s' = zlive now (fst ` set ks) (z s) \<and> now_ms ops s' = now_ms ops s \<and>
      (\<forall>k. k \<notin> fst ` set ks \<longrightarrow> deadline s' k = deadline s k) \<and> retry \<le> r \<and>
      (r = 0 \<longleftrightarrow> retry = 0 \<and> (\<forall>kl \<in> set ks. \<not> blocked now m (z s) kl)) \<and>
      (\<forall>kl \<in> set ks. blocked now m (z s) kl \<longrightarrow> frees now (z s) kl r)"
proof (induction ks arbitrary: counts retry s)
  case (Cons kl ks)
  obtain k L where kl: "kl = (k, L)" by (cases kl)
  define s1 where "s1 = snd (z_remrange ops k now s)"
  have z1: "z s1 = (z s)(k := live now (z s k))" by (simp add: s1_def remrange_law)
  have now1: "now_ms ops s1 = now_ms ops s" by (simp add: s1_def)
  have same: "live now (z s1 k') = live now (z s k')" "blocked now m (z s1) = blocked now m (z s)"
    "zlive now (fst ` set ks) (z s1) = zlive now (fst ` set (kl # ks)) (z s)" for k'
    by (auto simp: z1 blocked_def zlive_def fun_eq_iff kl)
  have fr: "0 \<le> r \<Longrightarrow> frees now (z s1) kl' r = frees now (z s) kl' r" for kl' r
    by (auto simp: frees_def z1 live_live)
  have dl: "k' \<noteq> k \<Longrightarrow> deadline s1 k' = deadline s k'" for k' using deadline_law(1) [of k now s k'] by (auto simp: s1_def)
  define n where "n = int (card (dom (live now (z s k))))"
  have step: "acquire_scan ops now m (kl # ks) counts retry s =
      (if blocked now m (z s) kl then
         (case z_range1 ops k (n - L) s1 of
            [(b, v)] \<Rightarrow> acquire_scan ops now m ks (counts @ [n]) (max retry (max 1 (v - now))) s1
          | _ \<Rightarrow> (Inl ''CORRUPT_COORDINATION_LEASE'', s1))
       else acquire_scan ops now m ks (counts @ [n]) retry s1)"
  proof -
    have c: "z_card ops k s1 = n" "z_score ops k m s1 = live now (z s k) m" by (simp_all add: score_law card_law z1 n_def)
    have b: "blocked now m (z s) (k, L) \<longleftrightarrow> live now (z s k) m = None \<and> L \<le> n" by (simp add: blocked_def n_def)
    show ?thesis unfolding kl acquire_scan.simps Let_def s1_def [symmetric] c b by simp
  qed
  show ?case
  proof (cases "blocked now m (z s) kl")
    case False
    from Cons.IH [of retry "counts @ [n]" s1] Cons.prems False step show ?thesis
      by (auto simp: same now1 fr n_def kl dl)
  next
    case True
    have n1: "n = int (card (dom (z s1 k)))" by (simp add: n_def z1)
    have pre: "1 \<le> L" "L \<le> int (card (dom (z s1 k)))" "\<forall>m v. z s1 k m = Some v \<longrightarrow> now < v"
      using True Cons.prems(1) by (simp_all add: kl z1 live_Some blocked_def)
    obtain b v where b: "z_range1 ops k (n - L) s1 = [(b, v)]" "now < v" "\<And>r. v - now \<le> r \<Longrightarrow> frees now (z s1) (k, L) r"
      using range_frees [OF pre, folded n1] by blast
    have "\<forall>kl \<in> set ks. 1 \<le> snd kl" "0 \<le> max retry (max 1 (v - now))" using Cons.prems by auto
    from Cons.IH [OF this, of "counts @ [n]" s1]
    obtain r s' where IH: "acquire_scan ops now m ks (counts @ [n]) (max retry (max 1 (v - now))) s1 =
        (Inr ((counts @ [n]) @ map (\<lambda>kl. int (card (dom (live now (z s1 (fst kl)))))) ks, r), s')"
      "z s' = zlive now (fst ` set ks) (z s1)" "now_ms ops s' = now_ms ops s1" "\<forall>k. k \<notin> fst ` set ks \<longrightarrow> deadline s' k = deadline s1 k"
      "max retry (max 1 (v - now)) \<le> r" "\<forall>kl \<in> set ks. blocked now m (z s1) kl \<longrightarrow> frees now (z s1) kl r" by blast
    have "frees now (z s) kl r" using b(3) [of r] IH(5) fr [of r kl] by (simp add: kl)
    moreover have "\<forall>kl' \<in> set ks. blocked now m (z s) kl' \<longrightarrow> frees now (z s) kl' r" using IH(5,6) fr [of r] by (simp add: same)
    ultimately show ?thesis
      using True step b(1) IH by (auto simp: same now1 n_def kl dl intro!: exI [of _ r] exI [of _ s'])
  qed
qed (auto simp: zlive_def)

text \<open>Loops over distinct keys whose body rewrites one key and leaves it in order.\<close>

definition body_ok :: "int \<Rightarrow> (string \<Rightarrow> 's \<Rightarrow> 's) \<Rightarrow> ((string \<rightharpoonup> int) \<Rightarrow> bool) \<Rightarrow> ((string \<rightharpoonup> int) \<Rightarrow> (string \<rightharpoonup> int)) \<Rightarrow> bool" where
  "body_ok n b Q h \<longleftrightarrow> (\<forall>k s. now_ms ops s = n \<and> Q (z s k) \<longrightarrow> now_ms ops (b k s) = n \<and> z (b k s) = (z s)(k := h (z s k)) \<and>
     key_ok (b k s) k \<and> (\<forall>k'. k' \<noteq> k \<longrightarrow> deadline (b k s) k' = deadline s k'))"

lemma fold_body:
  assumes b: "body_ok n b Q h"
  shows "\<lbrakk>distinct keys; now_ms ops s = n; \<forall>k \<in> set keys. Q (z s k)\<rbrakk> \<Longrightarrow>
    z (fold b keys s) = (\<lambda>k. if k \<in> set keys then h (z s k) else z s k) \<and> now_ms ops (fold b keys s) = n \<and>
    (\<forall>k \<in> set keys. key_ok (fold b keys s) k) \<and> (\<forall>k. k \<notin> set keys \<longrightarrow> deadline (fold b keys s) k = deadline s k)"
proof (induction keys arbitrary: s)
  case (Cons k keys)
  have step: "now_ms ops (b k s) = n" "z (b k s) = (z s)(k := h (z s k))" "key_ok (b k s) k"
    "\<And>k'. k' \<noteq> k \<Longrightarrow> deadline (b k s) k' = deadline s k'"
    using b Cons.prems by (simp_all add: body_ok_def)
  have k: "k \<notin> set keys" using Cons.prems by simp
  then have "\<forall>k' \<in> set keys. Q (z (b k s) k')" using Cons.prems(3) step(2) by auto
  then have IH: "z (fold b keys (b k s)) = (\<lambda>k'. if k' \<in> set keys then h (z (b k s) k') else z (b k s) k')"
    "now_ms ops (fold b keys (b k s)) = n" "\<forall>k' \<in> set keys. key_ok (fold b keys (b k s)) k'"
    "\<forall>k'. k' \<notin> set keys \<longrightarrow> deadline (fold b keys (b k s)) k' = deadline (b k s) k'"
    using Cons.IH [of "b k s"] Cons.prems(1) step(1) by simp_all
  have "key_ok (fold b keys (b k s)) k"
    using step(3) IH(1,4) k by (simp add: key_ok_def)
  moreover have "z (fold b keys (b k s)) = (\<lambda>k'. if k' \<in> set (k # keys) then h (z s k') else z s k')"
    unfolding IH(1) step(2) using k by auto
  ultimately show ?case using IH(2-4) step(4) by simp
qed simp

lemma retain_body:
  assumes f: "\<And>k s. now_ms ops s = n \<Longrightarrow> Q (z s k) \<Longrightarrow> now_ms ops (f k s) = n \<and> z (f k s) = (z s)(k := h (z s k)) \<and>
      (\<forall>k'. k' \<noteq> k \<longrightarrow> deadline (f k s) k' = deadline s k')"
    and Q: "\<And>M m v. Q M \<Longrightarrow> h M m = Some v \<Longrightarrow> n < v" and g: "0 < g"
  shows "body_ok n (\<lambda>k s. retain_live_key ops g k (f k s)) Q h"
  unfolding body_ok_def
proof (intro allI impI)
  fix k s assume s: "now_ms ops s = n \<and> Q (z s k)"
  have fs: "now_ms ops (f k s) = n" "z (f k s) = (z s)(k := h (z s k))" "\<And>k'. k' \<noteq> k \<Longrightarrow> deadline (f k s) k' = deadline s k'"
    using f s by blast+
  have "now_ms ops (f k s) < v + g" if "z (f k s) k m = Some v" for m v
    using Q [of "z s k" m v] s fs g that by simp
  then have pre: "\<forall>m v. z (f k s) k m = Some v \<longrightarrow> now_ms ops (f k s) < v + g" by blast
  have r: "z (retain_live_key ops g k (f k s)) = z (f k s)" "key_ok (retain_live_key ops g k (f k s)) k"
    "\<And>k'. k' \<noteq> k \<Longrightarrow> deadline (retain_live_key ops g k (f k s)) k' = deadline (f k s) k'"
    using retain_z [OF pre] retain_deadline [OF pre g] by blast+
  show "now_ms ops (retain_live_key ops g k (f k s)) = n \<and> z (retain_live_key ops g k (f k s)) = (z s)(k := h (z s k)) \<and>
     key_ok (retain_live_key ops g k (f k s)) k \<and> (\<forall>k'. k' \<noteq> k \<longrightarrow> deadline (retain_live_key ops g k (f k s)) k' = deadline s k')"
    using r fs by simp
qed

abbreviation fresh_members :: "int \<Rightarrow> (string \<rightharpoonup> int) \<Rightarrow> bool" where
  "fresh_members n M \<equiv> \<forall>m v. M m = Some v \<longrightarrow> n < v"

lemma bodies:
  assumes "0 < g"
  shows "n < x \<Longrightarrow> body_ok n (\<lambda>k s. retain_live_key ops g k (z_add ops k x m s)) (fresh_members n) (\<lambda>M. M(m \<mapsto> x))"
    "body_ok n (\<lambda>k s. retain_live_key ops g k (snd (z_rem ops k m s))) (fresh_members n) (\<lambda>M. M(m := None))"
    "body_ok n (\<lambda>k s. retain_live_key ops g k s) (fresh_members n) (\<lambda>M. M)"
    "body_ok n (\<lambda>k s. retain_live_key ops g k (snd (z_rem ops k m (snd (z_remrange ops k n s))))) (\<lambda>_. True) (\<lambda>M. (live n M)(m := None))"
    "body_ok n (\<lambda>k s. retain_live_key ops g k (snd (z_remrange ops k n s))) (\<lambda>_. True) (live n)"
proof -
  have dr: "k' \<noteq> k \<Longrightarrow> deadline (snd (z_remrange ops k y s)) k' = deadline s k'"
    and da: "k' \<noteq> k \<Longrightarrow> deadline (z_add ops k y m s) k' = deadline s k'"
    and dm: "k' \<noteq> k \<Longrightarrow> deadline (snd (z_rem ops k m s)) k' = deadline s k'" for k k' y m s
    using deadline_law(1-3) by blast+
  show "n < x \<Longrightarrow> body_ok n (\<lambda>k s. retain_live_key ops g k (z_add ops k x m s)) (fresh_members n) (\<lambda>M. M(m \<mapsto> x))"
    by (rule retain_body [OF _ _ assms]) (auto simp: z_laws da split: if_splits)
  show "body_ok n (\<lambda>k s. retain_live_key ops g k (snd (z_rem ops k m s))) (fresh_members n) (\<lambda>M. M(m := None))"
    by (rule retain_body [OF _ _ assms]) (auto simp: z_laws dm split: if_splits)
  show "body_ok n (\<lambda>k s. retain_live_key ops g k s) (fresh_members n) (\<lambda>M. M)"
    by (rule retain_body [OF _ _ assms]) auto
  show "body_ok n (\<lambda>k s. retain_live_key ops g k (snd (z_rem ops k m (snd (z_remrange ops k n s))))) (\<lambda>_. True) (\<lambda>M. (live n M)(m := None))"
    by (rule retain_body [OF _ _ assms]) (auto simp: z_laws dm dr live_Some split: if_splits)
  show "body_ok n (\<lambda>k s. retain_live_key ops g k (snd (z_remrange ops k n s))) (\<lambda>_. True) (live n)"
    by (rule retain_body [OF _ _ assms]) (auto simp: z_laws dr live_Some)
qed

lemma grant_state:
  "snd (acquire_grant ops x g m keys counts s) = fold (\<lambda>k s. retain_live_key ops g k (z_add ops k x m s)) keys s"
  by (induction keys arbitrary: counts s) (simp_all add: Let_def case_prod_beta)

lemma grant_counts:
  "\<lbrakk>distinct keys; length counts = length keys; n < x; 0 < g; now_ms ops s = n; \<forall>k \<in> set keys. fresh_members n (z s k)\<rbrakk> \<Longrightarrow>
    fst (acquire_grant ops x g m keys counts s) = map (\<lambda>(k, c). if z s k m = None then c + 1 else c) (zip keys counts)"
proof (induction keys arbitrary: counts s)
  case (Cons k keys)
  obtain c cs where c: "counts = c # cs" using Cons.prems(2) by (cases counts) auto
  define s1 where "s1 = retain_live_key ops g k (z_add ops k x m s)"
  have s1: "z s1 = (z s)(k := (z s k)(m \<mapsto> x))" "now_ms ops s1 = n"
    using bodies(1) [OF Cons.prems(4,3), of m] Cons.prems(5,6) by (simp_all add: body_ok_def s1_def)
  have k: "k \<notin> set keys" using Cons.prems(1) by simp
  have fresh: "\<forall>k' \<in> set keys. fresh_members n (z s1 k')" using Cons.prems(6) k s1(1) by auto
  have "fst (acquire_grant ops x g m keys cs s1) = map (\<lambda>(k, c). if z s1 k m = None then c + 1 else c) (zip keys cs)"
    using Cons.IH [OF _ _ Cons.prems(3,4) s1(2) fresh, of cs] Cons.prems(1,2) c by simp
  also have "\<dots> = map (\<lambda>(k, c). if z s k m = None then c + 1 else c) (zip keys cs)"
    using k s1(1) by (auto dest!: set_zip_leftD)
  finally show ?case using c by (simp add: Let_def case_prod_beta score_law s1_def [symmetric])
qed simp

lemma zlive_fresh: "k \<in> K \<Longrightarrow> fresh_members n (zlive n K Z k)"
  by (simp add: zlive_def live_Some)

text \<open>The acquire script: all dimensions or none.\<close>

lemma acquire_script_granted:
  assumes lim: "distinct (map fst limits)" "\<forall>kl \<in> set limits. 1 \<le> snd kl" and pos: "0 < ttl" "0 < g" and n: "n = now_ms ops s"
    and free: "\<forall>kl \<in> set limits. \<not> blocked n m (z s) kl"
  obtains s' where "acquireLeaseScript ops limits ttl m g s = (Inr ([1, n, n + ttl] @
      map (\<lambda>kl. int (card (dom (live n (z s (fst kl))))) + (if live n (z s (fst kl)) m = None then 1 else 0)) limits), s')"
    "z s' = zadd_all (n + ttl) m (fst ` set limits) (zlive n (fst ` set limits) (z s))" "now_ms ops s' = n"
    "\<forall>k \<in> fst ` set limits. key_ok s' k" "\<forall>k. k \<notin> fst ` set limits \<longrightarrow> deadline s' k = deadline s k"
proof -
  let ?K = "fst ` set limits" and ?counts = "map (\<lambda>kl. int (card (dom (live n (z s (fst kl)))))) limits"
  obtain s1 where s1: "acquire_scan ops n m limits [] 0 s = (Inr (?counts, 0), s1)" "z s1 = zlive n ?K (z s)" "now_ms ops s1 = n"
    "\<forall>k. k \<notin> ?K \<longrightarrow> deadline s1 k = deadline s k"
    using acquire_scan_spec [OF lim(2), of 0 n m "[]" s] free n by auto
  define s' where "s' = snd (acquire_grant ops (n + ttl) g m (map fst limits) ?counts s1)"
  have fresh: "\<forall>k \<in> set (map fst limits). fresh_members n (z s1 k)" using zlive_fresh s1(2) by simp
  have cnt: "fst (acquire_grant ops (n + ttl) g m (map fst limits) ?counts s1) =
      map (\<lambda>kl. int (card (dom (live n (z s (fst kl))))) + (if live n (z s (fst kl)) m = None then 1 else 0)) limits"
    using grant_counts [OF lim(1) _ _ pos(2) s1(3) fresh, of ?counts "n + ttl" m] pos(1)
    by (auto simp: s1(2) zlive_def zip_map1 zip_map2 zip_same_conv_map o_def)
  have run: "acquireLeaseScript ops limits ttl m g s = (Inr ([1, n, n + ttl] @
      map (\<lambda>kl. int (card (dom (live n (z s (fst kl))))) + (if live n (z s (fst kl)) m = None then 1 else 0)) limits), s')"
    using s1(1) cnt by (simp add: acquireLeaseScript_def n [symmetric] Let_def case_prod_beta s'_def)
  have "s' = fold (\<lambda>k s. retain_live_key ops g k (z_add ops k (n + ttl) m s)) (map fst limits) s1" by (simp add: s'_def grant_state)
  from fold_body [OF bodies(1) [OF pos(2)], of n "n + ttl" "map fst limits" s1 m, folded this] pos(1) lim(1) s1(3) fresh
  have "z s' = zadd_all (n + ttl) m ?K (z s1)" "now_ms ops s' = n" "\<forall>k \<in> ?K. key_ok s' k"
    "\<forall>k. k \<notin> ?K \<longrightarrow> deadline s' k = deadline s1 k"
    by (auto simp: zadd_all_def)
  then show thesis using that [OF run] s1(2,4) by simp
qed

lemma acquire_script_denied:
  assumes lim: "distinct (map fst limits)" "\<forall>kl \<in> set limits. 1 \<le> snd kl" and pos: "0 < g" and n: "n = now_ms ops s"
    and full: "\<exists>kl \<in> set limits. blocked n m (z s) kl"
  obtains r s' where "acquireLeaseScript ops limits ttl m g s =
      (Inr ([0, n, r] @ map (\<lambda>kl. int (card (dom (live n (z s (fst kl)))))) limits), s')" "0 < r"
    "z s' = zlive n (fst ` set limits) (z s)" "now_ms ops s' = n"
    "\<forall>k \<in> fst ` set limits. key_ok s' k" "\<forall>k. k \<notin> fst ` set limits \<longrightarrow> deadline s' k = deadline s k"
    "\<forall>kl \<in> set limits. blocked n m (z s) kl \<longrightarrow> frees n (z s) kl r"
proof -
  let ?K = "fst ` set limits" and ?counts = "map (\<lambda>kl. int (card (dom (live n (z s (fst kl)))))) limits"
  obtain r s1 where s1: "acquire_scan ops n m limits [] 0 s = (Inr (?counts, r), s1)" "z s1 = zlive n ?K (z s)" "now_ms ops s1 = n"
    "\<forall>k. k \<notin> ?K \<longrightarrow> deadline s1 k = deadline s k" "0 \<le> r" "r \<noteq> 0"
    "\<forall>kl \<in> set limits. blocked n m (z s) kl \<longrightarrow> frees n (z s) kl r"
    using acquire_scan_spec [OF lim(2), of 0 n m "[]" s] full n by auto
  define s' where "s' = fold (retain_live_key ops g) (map fst limits) s1"
  have fresh: "\<forall>k \<in> set (map fst limits). fresh_members n (z s1 k)" using zlive_fresh s1(2) by simp
  have run: "acquireLeaseScript ops limits ttl m g s = (Inr ([0, n, r] @ ?counts), s')"
    using s1(1,6) by (simp add: acquireLeaseScript_def n [symmetric] Let_def s'_def)
  from fold_body [OF bodies(3) [OF pos], of "map fst limits" s1 n] lim(1) s1(3) fresh
  have "z s' = z s1" "now_ms ops s' = n" "\<forall>k \<in> ?K. key_ok s' k" "\<forall>k. k \<notin> ?K \<longrightarrow> deadline s' k = deadline s1 k"
    by (auto simp: s'_def)
  then show thesis using that [OF run] s1 by simp
qed

text \<open>The retry delay is bounded by the largest remaining lifetime.\<close>

lemma acquire_scan_retry_le:
  "\<lbrakk>acquire_scan ops now m ks counts retry s = (Inr (counts', r), s'); \<forall>kl \<in> set ks. 1 \<le> snd kl;
    \<forall>k m v. z s k m = Some v \<longrightarrow> v \<le> now + B; retry \<le> B; 1 \<le> B\<rbrakk> \<Longrightarrow> r \<le> B"
proof (induction ks arbitrary: counts retry s)
  case (Cons kl ks)
  obtain k L where kl: "kl = (k, L)" by (cases kl)
  define s1 where "s1 = snd (z_remrange ops k now s)"
  have bound: "\<forall>k m v. z s1 k m = Some v \<longrightarrow> v \<le> now + B" using Cons.prems(3) by (auto simp: s1_def remrange_law live_Some)
  have L: "1 \<le> L" "\<forall>kl \<in> set ks. 1 \<le> snd kl" using Cons.prems(2) kl by auto
  show ?case
  proof (cases "z_score ops k m s1 = None \<and> z_card ops k s1 \<ge> L")
    case True
    then obtain b v where bv: "z_range1 ops k (z_card ops k s1 - L) s1 = [(b, v)]" "z s1 k b = Some v"
      using range_law [of "z_card ops k s1 - L" s1 k] L(1) by (auto simp: card_law)
    have "v \<le> now + B" using bound bv(2) by blast
    then have "max retry (max 1 (v - now)) \<le> B" using Cons.prems(4,5) by simp
    then show ?thesis using Cons.IH [OF _ L(2) bound] Cons.prems(1,5) True bv(1) by (simp add: kl Let_def s1_def [symmetric])
  next
    case False
    then show ?thesis using Cons.IH [OF _ L(2) bound] Cons.prems(1,4,5) by (auto simp: kl Let_def s1_def [symmetric])
  qed
qed simp

lemma acquire_script_retry_le:
  assumes "acquireLeaseScript ops limits ttl m g s = (Inr (0 # n # r # counts), s')" "\<forall>kl \<in> set limits. 1 \<le> snd kl"
    "\<forall>k m v. z s k m = Some v \<longrightarrow> v \<le> now_ms ops s + B" "1 \<le> B"
  shows "r \<le> B"
proof (cases "acquire_scan ops (now_ms ops s) m limits [] 0 s")
  case (Pair res s1)
  then show ?thesis
    using acquire_scan_retry_le [of "now_ms ops s" m limits "[]" 0 s] assms
    by (auto simp: acquireLeaseScript_def Let_def case_prod_beta split: sum.splits if_splits)
qed

lemma renew_scan_spec:
  "\<exists>s'. renew_scan ops now m keys held s = (held \<and> (\<forall>k \<in> set keys. live now (z s k) m \<noteq> None), s') \<and>
    z s' = zlive now (set keys) (z s) \<and> now_ms ops s' = now_ms ops s \<and> (\<forall>k. k \<notin> set keys \<longrightarrow> deadline s' k = deadline s k)"
proof (induction keys arbitrary: held s)
  case (Cons k keys)
  define s1 where "s1 = snd (z_remrange ops k now s)"
  have s1: "z s1 = (z s)(k := live now (z s k))" "now_ms ops s1 = now_ms ops s" by (simp_all add: s1_def remrange_law)
  have d: "k' \<noteq> k \<Longrightarrow> deadline s1 k' = deadline s k'" for k' using deadline_law(1) [of k now s k'] by (auto simp: s1_def)
  have "(\<forall>k' \<in> set keys. live now (z s1 k') m \<noteq> None) = (\<forall>k' \<in> set keys. live now (z s k') m \<noteq> None)"
    by (auto simp: s1(1))
  moreover have "zlive now (set keys) (z s1) = zlive now (set (k # keys)) (z s)" by (auto simp: s1(1) zlive_def fun_eq_iff)
  moreover have "z_score ops k m s1 = live now (z s k) m" by (simp add: score_law s1(1))
  ultimately show ?case
    using Cons.IH [of "if z_score ops k m s1 = None then False else held" s1] s1(2) d
    by (auto simp: Let_def s1_def [symmetric])
qed (simp add: zlive_def)

text \<open>The renew script: it extends the lease in every dimension, or drops it from every dimension.\<close>

lemma renew_script:
  assumes keys: "distinct keys" and pos: "0 < ttl" "0 < g" and n: "n = now_ms ops s"
    and held_def: "held = (\<forall>k \<in> set keys. live n (z s k) m \<noteq> None)"
  obtains s' where "renewLeaseScript ops keys ttl m g s = (Inr (if held then [1, n, n + ttl] else [0, n, 0]), s')"
    "z s' = (if held then zadd_all (n + ttl) m (set keys) (zlive n (set keys) (z s)) else zrem_all m (set keys) (zlive n (set keys) (z s)))"
    "now_ms ops s' = n" "\<forall>k \<in> set keys. key_ok s' k" "\<forall>k. k \<notin> set keys \<longrightarrow> deadline s' k = deadline s k"
proof -
  obtain s1 where s1: "renew_scan ops n m keys True s = (held, s1)" "z s1 = zlive n (set keys) (z s)" "now_ms ops s1 = n"
    "\<forall>k. k \<notin> set keys \<longrightarrow> deadline s1 k = deadline s k"
    using renew_scan_spec [of n m keys True s] n by (auto simp: held_def)
  have fresh: "\<forall>k \<in> set keys. fresh_members n (z s1 k)" using zlive_fresh s1(2) by simp
  show thesis
  proof (cases held)
    case True
    define s' where "s' = fold (\<lambda>k s. retain_live_key ops g k (z_add ops k (n + ttl) m s)) keys s1"
    have run: "renewLeaseScript ops keys ttl m g s = (Inr (if held then [1, n, n + ttl] else [0, n, 0]), s')"
      using s1(1) True by (simp add: renewLeaseScript_def n [symmetric] Let_def s'_def)
    from fold_body [OF bodies(1) [OF pos(2)], of n "n + ttl" keys s1 m, folded s'_def] pos(1) keys s1(3) fresh
    have "z s' = zadd_all (n + ttl) m (set keys) (z s1)" "now_ms ops s' = n" "\<forall>k \<in> set keys. key_ok s' k"
      "\<forall>k. k \<notin> set keys \<longrightarrow> deadline s' k = deadline s1 k" by (auto simp: zadd_all_def)
    then show thesis using that [OF run] s1(2,4) True by simp
  next
    case False
    define s' where "s' = fold (\<lambda>k s. retain_live_key ops g k (snd (z_rem ops k m s))) keys s1"
    have run: "renewLeaseScript ops keys ttl m g s = (Inr (if held then [1, n, n + ttl] else [0, n, 0]), s')"
      using s1(1) False by (simp add: renewLeaseScript_def n [symmetric] Let_def s'_def)
    from fold_body [OF bodies(2) [OF pos(2)], of keys s1 n m, folded s'_def] keys s1(3) fresh
    have "z s' = zrem_all m (set keys) (z s1)" "now_ms ops s' = n" "\<forall>k \<in> set keys. key_ok s' k"
      "\<forall>k. k \<notin> set keys \<longrightarrow> deadline s' k = deadline s1 k" by (auto simp: zrem_all_def)
    then show thesis using that [OF run] s1(2,4) False by simp
  qed
qed

lemma release_state:
  "snd (release_loop ops n g m keys removed s) =
    fold (\<lambda>k s. retain_live_key ops g k (snd (z_rem ops k m (snd (z_remrange ops k n s))))) keys s"
  by (induction keys arbitrary: removed s) (simp_all add: Let_def case_prod_beta)

lemma release_removed:
  "\<lbrakk>distinct keys; 0 < g; now_ms ops s = n\<rbrakk> \<Longrightarrow>
    fst (release_loop ops n g m keys removed s) = removed + int (length (filter (\<lambda>k. live n (z s k) m \<noteq> None) keys))"
proof (induction keys arbitrary: removed s)
  case (Cons k keys)
  define s1 where "s1 = retain_live_key ops g k (snd (z_rem ops k m (snd (z_remrange ops k n s))))"
  have s1: "z s1 = (z s)(k := (live n (z s k))(m := None))" "now_ms ops s1 = n"
    using bodies(4) [OF Cons.prems(2)] Cons.prems(3) by (simp_all add: body_ok_def s1_def)
  have "filter (\<lambda>k'. live n (z s1 k') m \<noteq> None) keys = filter (\<lambda>k'. live n (z s k') m \<noteq> None) keys"
    using Cons.prems(1) by (intro filter_cong) (auto simp: s1(1))
  then show ?case
    using Cons.IH [OF _ Cons.prems(2) s1(2)] Cons.prems(1)
    by (simp add: Let_def case_prod_beta rem_law(2) remrange_law(1) s1_def [symmetric])
qed simp

lemma release_script:
  assumes keys: "distinct keys" and pos: "0 < g" and n: "n = now_ms ops s"
  obtains s' where "releaseLeaseScript ops keys m g s = (Inr [n, int (length (filter (\<lambda>k. live n (z s k) m \<noteq> None) keys))], s')"
    "z s' = zrem_all m (set keys) (zlive n (set keys) (z s))"
    "now_ms ops s' = n" "\<forall>k \<in> set keys. key_ok s' k" "\<forall>k. k \<notin> set keys \<longrightarrow> deadline s' k = deadline s k"
proof -
  define s' where "s' = snd (release_loop ops n g m keys 0 s)"
  have run: "releaseLeaseScript ops keys m g s = (Inr [n, int (length (filter (\<lambda>k. live n (z s k) m \<noteq> None) keys))], s')"
    using release_removed [OF keys pos n [symmetric], of m 0] by (simp add: releaseLeaseScript_def n [symmetric] Let_def case_prod_beta s'_def)
  from fold_body [OF bodies(4) [OF pos], of keys s n m] keys n
  have "z s' = zrem_all m (set keys) (zlive n (set keys) (z s))" "now_ms ops s' = n" "\<forall>k \<in> set keys. key_ok s' k"
    "\<forall>k. k \<notin> set keys \<longrightarrow> deadline s' k = deadline s k"
    by (auto simp: zrem_all_def zlive_def s'_def release_state fun_eq_iff)
  then show thesis using that [OF run] by simp
qed

lemma cleanup_state:
  "snd (snd (cleanup_loop ops n g keys removed counts s)) =
    fold (\<lambda>k s. retain_live_key ops g k (snd (z_remrange ops k n s))) keys s"
  by (induction keys arbitrary: removed counts s) (simp_all add: Let_def case_prod_beta)

lemma cleanup_script:
  assumes keys: "distinct keys" and pos: "0 < g" and n: "n = now_ms ops s"
  shows "z (snd (cleanupLeaseScript ops keys g s)) = zlive n (set keys) (z s)"
    "now_ms ops (snd (cleanupLeaseScript ops keys g s)) = n" "\<forall>k \<in> set keys. key_ok (snd (cleanupLeaseScript ops keys g s)) k"
    "\<forall>k. k \<notin> set keys \<longrightarrow> deadline (snd (cleanupLeaseScript ops keys g s)) k = deadline s k"
proof -
  have "snd (cleanupLeaseScript ops keys g s) = fold (\<lambda>k s. retain_live_key ops g k (snd (z_remrange ops k n s))) keys s"
    using cleanup_state [of n g keys 0 "[]" s] by (simp add: cleanupLeaseScript_def n [symmetric] Let_def case_prod_beta)
  with fold_body [OF bodies(5) [OF pos], of keys s n] keys n
  show "z (snd (cleanupLeaseScript ops keys g s)) = zlive n (set keys) (z s)"
    "now_ms ops (snd (cleanupLeaseScript ops keys g s)) = n" "\<forall>k \<in> set keys. key_ok (snd (cleanupLeaseScript ops keys g s)) k"
    "\<forall>k. k \<notin> set keys \<longrightarrow> deadline (snd (cleanupLeaseScript ops keys g s)) k = deadline s k"
    by (auto simp: zlive_def)
qed

end

subsection \<open>Preparation\<close>

lemma scan_limits_Inr:
  "scan_limits c seen limits = Inr keys \<Longrightarrow>
    keys = map (leaseKey c \<circ> cl_Dimension) limits \<and> distinct keys \<and> set keys \<inter> set seen = {} \<and>
    (\<forall>l \<in> set limits. 1 \<le> cl_MaxInFlight l \<and> validateDimension (cl_Dimension l) = None)"
proof (induction limits arbitrary: seen keys)
  case (Cons l limits)
  then obtain ks where ks: "scan_limits c (leaseKey c (cl_Dimension l) # seen) limits = Inr ks" "keys = leaseKey c (cl_Dimension l) # ks"
    "leaseKey c (cl_Dimension l) \<notin> set seen" "1 \<le> cl_MaxInFlight l" "validateDimension (cl_Dimension l) = None"
    by (auto simp: bindR_Inr_iff Let_def split: option.splits if_splits)
  note IH = Cons.IH [OF ks(1)]
  have "distinct ks" "set ks \<inter> set (leaseKey c (cl_Dimension l) # seen) = {}" using IH by blast+
  then have "distinct keys" "set keys \<inter> set seen = {}" using ks(2,3) by auto
  then show ?case using IH ks(2,4,5) by simp
qed simp

lemma prepareConcurrencyLimits_Inr:
  "prepareConcurrencyLimits c limits = Inr keys \<Longrightarrow>
    keys = map (leaseKey c \<circ> cl_Dimension) limits \<and> distinct keys \<and> (\<forall>l \<in> set limits. 1 \<le> cl_MaxInFlight l)"
  using scan_limits_Inr [of c "[]" limits keys] by (auto simp: prepareConcurrencyLimits_def split: if_splits)

lemma scan_dimensions_Inr:
  "scan_dimensions c seen ds = Inr keys \<Longrightarrow> keys = map (leaseKey c) ds \<and> distinct keys \<and> set keys \<inter> set seen = {}"
proof (induction ds arbitrary: seen keys)
  case (Cons d ds)
  then obtain ks where ks: "scan_dimensions c (leaseKey c d # seen) ds = Inr ks" "keys = leaseKey c d # ks" "leaseKey c d \<notin> set seen"
    by (auto simp: bindR_Inr_iff Let_def split: option.splits if_splits)
  note IH = Cons.IH [OF ks(1)]
  have "distinct ks" "set ks \<inter> set (leaseKey c d # seen) = {}" using IH by blast+
  then have "distinct keys" "set keys \<inter> set seen = {}" using ks(2,3) by auto
  then show ?case using IH ks(2) by simp
qed simp

lemma prepareLeaseRef_Inr:
  "prepareLeaseRef c lease ttl = Inr keys \<Longrightarrow>
    keys = map (leaseKey c) (lr_Dimensions lease) \<and> distinct keys \<and> millisecond \<le> ttl \<and> ttl \<le> maximumLeaseTTL"
  using scan_dimensions_Inr [of c "[]" "lr_Dimensions lease" keys]
  by (auto simp: prepareLeaseRef_def validateLeaseIDAndTTL_def split: if_splits option.splits)

lemma prepareLeaseAcquire_Inr:
  "prepareLeaseAcquire c leaseID ttl limits = Inr keys \<Longrightarrow>
    keys = map (leaseKey c \<circ> cl_Dimension) limits \<and> distinct keys \<and> (\<forall>l \<in> set limits. 1 \<le> cl_MaxInFlight l) \<and>
    millisecond \<le> ttl \<and> ttl \<le> maximumLeaseTTL"
  using prepareConcurrencyLimits_Inr [of c limits keys]
  by (auto simp: prepareLeaseAcquire_def validateLeaseIDAndTTL_def split: if_splits option.splits)

lemma ttl_ms: "millisecond \<le> ttl \<Longrightarrow> ttl \<le> maximumLeaseTTL \<Longrightarrow> 0 < ttl div millisecond \<and> ttl div millisecond \<le> 86400000"
  using zdiv_mono1 [of ttl maximumLeaseTTL millisecond] by (simp add: pos_imp_zdiv_pos_iff)

subsection \<open>Runs\<close>

text \<open>
  A step of the system: an operation of some gateway instance on the lease \<open>Some id\<close>, a cleanup, or the
  passing of time. All instances configure the same limit \<open>lim\<close> for a key.
\<close>

inductive lease_step :: "'s zops \<Rightarrow> ('s \<Rightarrow> 's \<Rightarrow> bool) \<Rightarrow> Coordinator \<Rightarrow> (string \<Rightarrow> int) \<Rightarrow> string option \<Rightarrow> 's \<Rightarrow> 's \<Rightarrow> bool"
  for ops elapse c lim where
  lease_acquire: "\<forall>l \<in> set limits. cl_MaxInFlight l = lim (leaseKey c (cl_Dimension l)) \<Longrightarrow>
    lease_step ops elapse c lim (Some leaseID) s (snd (AcquireLease ops c leaseID ttl limits s))"
| lease_renew: "lease_step ops elapse c lim (Some (lr_ID lease)) s (snd (RenewLease ops c lease ttl s))"
| lease_release: "lease_step ops elapse c lim (Some (lr_ID lease)) s (snd (ReleaseLease ops c lease s))"
| lease_cleanup: "lease_step ops elapse c lim None s (snd (CleanupExpiredLeases ops c limits s))"
| lease_elapse: "elapse s s' \<Longrightarrow> lease_step ops elapse c lim None s s'"

inductive lease_reach :: "'s zops \<Rightarrow> ('s \<Rightarrow> 's \<Rightarrow> bool) \<Rightarrow> Coordinator \<Rightarrow> (string \<Rightarrow> int) \<Rightarrow> 's \<Rightarrow> 's \<Rightarrow> bool"
  for ops elapse c lim s0 where
  reach_start: "lease_reach ops elapse c lim s0 s0"
| reach_next: "lease_reach ops elapse c lim s0 s \<Longrightarrow> lease_step ops elapse c lim i s s' \<Longrightarrow> lease_reach ops elapse c lim s0 s'"

context zset_store
begin

definition lease_inv :: "(string \<Rightarrow> int) \<Rightarrow> 's \<Rightarrow> bool" where
  "lease_inv lim s \<longleftrightarrow> (\<forall>k. int (card (dom (live (now_ms ops s) (z s k)))) \<le> lim k \<and> key_ok s k \<and>
     (\<forall>m v. z s k m = Some v \<longrightarrow> v \<le> now_ms ops s + 86400000))"

text \<open>
  Every script changes a key only by dropping what has expired and by setting or removing the one
  member it acts for.
\<close>

definition key_change :: "int \<Rightarrow> int \<Rightarrow> string option \<Rightarrow> (string \<rightharpoonup> int) \<Rightarrow> (string \<rightharpoonup> int) \<Rightarrow> bool" where
  "key_change n L i M M' \<longleftrightarrow> M' = M \<or> M' = live n M \<or> (\<exists>m. i = Some m \<and> (M' = (live n M)(m := None) \<or>
     (\<exists>x. M' = (live n M)(m \<mapsto> x) \<and> n < x \<and> x \<le> n + 86400000 \<and> (live n M m \<noteq> None \<or> int (card (dom (live n M))) < L))))"

lemma key_ok_cases:
  "(\<forall>k \<in> K. key_ok s' k) \<Longrightarrow> (\<forall>k. k \<notin> K \<longrightarrow> deadline s' k = deadline s k \<and> z s' k = z s k) \<Longrightarrow> key_ok s k \<Longrightarrow> key_ok s' k"
  by (cases "k \<in> K") (auto simp: key_ok_def)

text \<open>A script's effect, summarised for the keys \<open>K\<close> it was given.\<close>

definition script_effect :: "(string \<Rightarrow> int) \<Rightarrow> string option \<Rightarrow> string set \<Rightarrow> 's \<Rightarrow> 's \<Rightarrow> bool" where
  "script_effect lim i K s s' \<longleftrightarrow> now_ms ops s' = now_ms ops s \<and> (\<forall>k \<in> K. key_ok s' k) \<and>
     (\<forall>k. k \<notin> K \<longrightarrow> deadline s' k = deadline s k \<and> z s' k = z s k) \<and> (\<forall>k. key_change (now_ms ops s) (lim k) i (z s k) (z s' k))"

lemma effects:
  assumes "z s' = zadd_all x m K (zlive n K (z s)) \<and> n < x \<and> x \<le> n + 86400000 \<and>
        (\<forall>k \<in> K. live n (z s k) m \<noteq> None \<or> int (card (dom (live n (z s k)))) < lim k) \<or> z s' = zrem_all m K (zlive n K (z s)) \<or>
      z s' = zlive n K (z s)"
    and "n = now_ms ops s" "now_ms ops s' = n" "\<forall>k \<in> K. key_ok s' k" "\<forall>k. k \<notin> K \<longrightarrow> deadline s' k = deadline s k"
  shows "script_effect lim (Some m) K s s'"
proof -
  have "key_change n (lim k) (Some m) (z s k) (z s' k)" for k
    using assms(1) by (cases "k \<in> K") (auto simp: key_change_def zadd_all_def zrem_all_def zlive_def)
  moreover have "k \<notin> K \<Longrightarrow> z s' k = z s k" for k using assms(1) by (auto simp: zadd_all_def zrem_all_def zlive_def)
  ultimately show ?thesis using assms(2-5) by (simp add: script_effect_def)
qed

lemma script_effect_refl: "script_effect lim i {} s s"
  by (simp add: script_effect_def key_change_def)

lemma AcquireLease_effect:
  assumes "\<forall>l \<in> set limits. cl_MaxInFlight l = lim (leaseKey c (cl_Dimension l))"
  shows "\<exists>K. script_effect lim (Some (leaseMember c leaseID)) K s (snd (AcquireLease ops c leaseID ttl limits s))"
proof (cases "prepareLeaseAcquire c leaseID ttl limits")
  case (Inl e)
  then show ?thesis using script_effect_refl by (auto simp: AcquireLease_def)
next
  case (Inr keys)
  note p = prepareLeaseAcquire_Inr [OF Inr]
  let ?lim = "zip keys (map cl_MaxInFlight limits)" and ?m = "leaseMember c leaseID" and ?t = "ttl div millisecond"
  have len: "length keys = length limits" using p by simp
  have fst: "map fst ?lim = keys" using len by simp
  have lim: "distinct (map fst ?lim)" "\<forall>kl \<in> set ?lim. 1 \<le> snd kl" using p fst by (auto dest!: set_zip_rightD)
  have t: "0 < ?t" "?t \<le> 86400000" using ttl_ms p by auto
  have K: "fst ` set ?lim = set keys" using fst by (metis set_map)
  have run: "snd (AcquireLease ops c leaseID ttl limits s) = snd (acquireLeaseScript ops ?lim ?t ?m 1000 s)"
    by (simp add: AcquireLease_def Inr case_prod_beta)
  show ?thesis
  proof (cases "\<forall>kl \<in> set ?lim. \<not> blocked (now_ms ops s) ?m (z s) kl")
    case True
    have room: "\<forall>k \<in> set keys. live (now_ms ops s) (z s k) ?m \<noteq> None \<or> int (card (dom (live (now_ms ops s) (z s k)))) < lim k"
    proof
      fix k assume "k \<in> set keys"
      then obtain L where L: "(k, L) \<in> set ?lim" using K by (metis image_iff prod.collapse)
      then have "L = lim k" using assms p by (auto simp: set_zip)
      then show "live (now_ms ops s) (z s k) ?m \<noteq> None \<or> int (card (dom (live (now_ms ops s) (z s k)))) < lim k"
        using True L by (auto simp: blocked_def)
    qed
    show ?thesis
      by (rule acquire_script_granted [OF lim t(1) _ refl True, of 1000, unfolded K])
        (use room in \<open>auto simp: run t intro!: exI [of _ "set keys"] effects [where x = "now_ms ops s + ?t"]\<close>)
  next
    case False
    then have full: "\<exists>kl \<in> set ?lim. blocked (now_ms ops s) ?m (z s) kl" by blast
    show ?thesis
      by (rule acquire_script_denied [OF lim _ refl full, of 1000 ?t, unfolded K])
        (auto simp: run intro!: exI [of _ "set keys"] effects)
  qed
qed

lemma RenewLease_effect: "\<exists>K. script_effect lim (Some (leaseMember c (lr_ID lease))) K s (snd (RenewLease ops c lease ttl s))"
proof (cases "prepareLeaseRef c lease ttl")
  case (Inl e)
  then show ?thesis using script_effect_refl by (auto simp: RenewLease_def)
next
  case (Inr keys)
  note p = prepareLeaseRef_Inr [OF Inr]
  let ?m = "leaseMember c (lr_ID lease)" and ?t = "ttl div millisecond"
  have t: "0 < ?t" "?t \<le> 86400000" using ttl_ms p by auto
  have run: "snd (RenewLease ops c lease ttl s) = snd (renewLeaseScript ops keys ?t ?m 1000 s)"
    by (simp add: RenewLease_def Inr case_prod_beta)
  have dist: "distinct keys" using p by blast
  show ?thesis
    by (rule renew_script [OF dist t(1) _ refl refl, of 1000 ?m s])
      (auto simp: run t split: if_splits intro!: exI [of _ "set keys"] effects [where x = "now_ms ops s + ?t"])
qed

lemma ReleaseLease_effect: "\<exists>K. script_effect lim (Some (leaseMember c (lr_ID lease))) K s (snd (ReleaseLease ops c lease s))"
proof (cases "prepareLeaseRef c lease millisecond")
  case (Inl e)
  then show ?thesis using script_effect_refl by (auto simp: ReleaseLease_def)
next
  case (Inr keys)
  have dist: "distinct keys" using prepareLeaseRef_Inr [OF Inr] by blast
  let ?m = "leaseMember c (lr_ID lease)"
  have run: "snd (ReleaseLease ops c lease s) = snd (releaseLeaseScript ops keys ?m 1000 s)"
    by (simp add: ReleaseLease_def Inr case_prod_beta)
  show ?thesis
    by (rule release_script [OF dist _ refl, of 1000 ?m s]) (auto simp: run intro!: exI [of _ "set keys"] effects)
qed

lemma Cleanup_effect: "\<exists>K. script_effect lim None K s (snd (CleanupExpiredLeases ops c limits s))"
proof (cases "prepareConcurrencyLimits c limits")
  case (Inl e)
  then show ?thesis using script_effect_refl by (auto simp: CleanupExpiredLeases_def)
next
  case (Inr keys)
  have dist: "distinct keys" using prepareConcurrencyLimits_Inr [OF Inr] by blast
  have run: "snd (CleanupExpiredLeases ops c limits s) = snd (cleanupLeaseScript ops keys 1000 s)"
    by (simp add: CleanupExpiredLeases_def Inr case_prod_beta)
  have "script_effect lim None (set keys) s (snd (cleanupLeaseScript ops keys 1000 s))"
    using cleanup_script [OF dist _ refl, of 1000 s] by (auto simp: script_effect_def key_change_def zlive_def)
  then show ?thesis unfolding run by blast
qed

lemma key_change_card:
  assumes "key_change n L i M M'" "finite (dom M)" "int (card (dom (live n M))) \<le> L"
  shows "int (card (dom (live n M'))) \<le> L"
proof -
  have fin: "finite (dom (live n M))" using assms(2) by (rule finite_subset [rotated]) (auto simp: live_dom)
  consider "M' = M \<or> M' = live n M" | m where "M' = (live n M)(m := None)"
    | m x where "M' = (live n M)(m \<mapsto> x)" "n < x" "live n M m \<noteq> None \<or> int (card (dom (live n M))) < L"
    using assms(1) by (auto simp: key_change_def)
  then show ?thesis
  proof cases
    case 1
    then show ?thesis using assms(3) by auto
  next
    case (2 m)
    have "card (dom (live n M')) \<le> card (dom (live n M))"
      using fin by (intro card_mono) (auto simp: 2 live_rem split: if_splits)
    then show ?thesis using assms(3) by simp
  next
    case (3 m x)
    have "dom (live n M') = insert m (dom (live n M))" by (simp add: 3 live_upd)
    then show ?thesis using 3(3) assms(3) fin by (cases "m \<in> dom (live n M)") (auto simp: insert_absorb domIff)
  qed
qed

lemma lease_inv_effect:
  assumes inv: "lease_inv lim s" and eff: "script_effect lim i K s s'"
  shows "lease_inv lim s'"
  unfolding lease_inv_def
proof (intro allI conjI impI)
  fix k
  have n: "now_ms ops s' = now_ms ops s" and ch: "key_change (now_ms ops s) (lim k) i (z s k) (z s' k)"
    using eff by (auto simp: script_effect_def)
  show "int (card (dom (live (now_ms ops s') (z s' k)))) \<le> lim k"
    using key_change_card [OF ch finite_members] inv by (simp add: n lease_inv_def)
  show "key_ok s' k"
    using key_ok_cases [of K s' s k] eff inv by (auto simp: script_effect_def lease_inv_def)
  fix m v assume "z s' k m = Some v"
  then have "z s k m = Some v \<or> v \<le> now_ms ops s + 86400000"
    using ch by (auto simp: key_change_def live_Some split: if_splits)
  then show "v \<le> now_ms ops s' + 86400000" using inv unfolding lease_inv_def n by blast
qed

lemma lease_inv_elapse:
  assumes inv: "lease_inv lim s" and el: "elapse s s'"
  shows "lease_inv lim s'"
  unfolding lease_inv_def
proof (intro allI conjI impI)
  fix k
  have le: "now_ms ops s \<le> now_ms ops s'" using elapse_law(1) [OF el] .
  have L: "int (card (dom (live (now_ms ops s) (z s k)))) \<le> lim k" and ok: "key_ok s k" using inv by (auto simp: lease_inv_def)
  consider "z s' k = z s k" "deadline s' k = deadline s k" | "z s' k = Map.empty" using elapse_law(2) [OF el, of k] by blast
  then show "int (card (dom (live (now_ms ops s') (z s' k)))) \<le> lim k" "key_ok s' k"
    "\<And>m v. z s' k m = Some v \<Longrightarrow> v \<le> now_ms ops s' + 86400000"
  proof (atomize (full), cases)
    case 1
    have "finite (dom (live (now_ms ops s) (z s k)))" by (rule finite_subset [OF _ finite_members]) (auto simp: live_dom)
    then have "card (dom (live (now_ms ops s') (z s k))) \<le> card (dom (live (now_ms ops s) (z s k)))"
      using live_mono [OF le] by (intro card_mono)
    moreover have "v \<le> now_ms ops s' + 86400000" if "z s k m = Some v" for m v
    proof -
      have "v \<le> now_ms ops s + 86400000" using inv that unfolding lease_inv_def by blast
      then show ?thesis using le by simp
    qed
    ultimately show "int (card (dom (live (now_ms ops s') (z s' k)))) \<le> lim k \<and> key_ok s' k \<and>
        (\<forall>m v. z s' k m = Some v \<longrightarrow> v \<le> now_ms ops s' + 86400000)"
      using 1 L ok by (simp add: key_ok_def)
  next
    case 2
    then show "int (card (dom (live (now_ms ops s') (z s' k)))) \<le> lim k \<and> key_ok s' k \<and>
        (\<forall>m v. z s' k m = Some v \<longrightarrow> v \<le> now_ms ops s' + 86400000)"
      using L by (simp add: key_ok_def live_def)
  qed
qed

lemma lease_step_effect:
  assumes "lease_step ops elapse c lim i s s'"
  shows "elapse s s' \<and> i = None \<or> (\<exists>K. script_effect lim (map_option (leaseMember c) i) K s s')"
  using assms by cases (use AcquireLease_effect RenewLease_effect ReleaseLease_effect Cleanup_effect in auto)

lemma lease_reach_inv:
  assumes "lease_reach ops elapse c lim s0 s" "\<forall>k. z s0 k = Map.empty" "\<forall>k. 0 \<le> lim k"
  shows "lease_inv lim s"
  using assms(1)
proof (induction rule: lease_reach.induct)
  case reach_start
  then show ?case using assms(2,3) by (simp add: lease_inv_def key_ok_def live_def)
next
  case (reach_next s i s')
  then show ?case using lease_step_effect lease_inv_effect lease_inv_elapse by blast
qed

lemma held_step:
  assumes inv: "lease_inv lim s" and step: "lease_step ops elapse c lim i s s'"
    and other: "i \<noteq> None \<longrightarrow> leaseMember c (the i) \<noteq> m" and held: "z s k m = Some v" "now_ms ops s' < v"
  shows "z s' k m = Some v"
proof -
  from lease_step_effect [OF step] consider "elapse s s'" | K where "script_effect lim (map_option (leaseMember c) i) K s s'" by blast
  then show ?thesis
  proof cases
    case 1
    have "key_ok s k" using inv by (simp add: lease_inv_def)
    then show ?thesis using elapse_law(2) [OF 1, of k] held by (fastforce simp: key_ok_def)
  next
    case (2 K)
    then have "now_ms ops s' = now_ms ops s" "key_change (now_ms ops s) (lim k) (map_option (leaseMember c) i) (z s k) (z s' k)"
      by (auto simp: script_effect_def)
    then show ?thesis using held other by (auto simp: key_change_def live_Some)
  qed
qed

end

end
