(* ===== verification/LeaseSafety.thy ===== *)
theory LeaseSafety
  imports Lease "HOL-Library.Multiset"
begin

text \<open>
  The guarantees of the concurrency leases over any server that keeps the interface \<open>zset_store\<close>, and a
  store of association lists that keeps it.
\<close>

subsection \<open>A store of association lists\<close>

record zstore =
  zs_clock :: "int \<times> int"
  zs_sets :: "(string \<times> (string \<times> int) list) list"
  zs_deadline :: "(string \<times> int) list"

definition entries :: "(string \<times> int) list \<Rightarrow> (string \<times> int) list" where
  "entries l = map (\<lambda>m. (m, the (map_of l m))) (remdups (map fst l))"

definition members :: "zstore \<Rightarrow> string \<Rightarrow> (string \<times> int) list" where
  "members s k = entries (go_get [] (zs_sets s) k)"

definition set_members :: "string \<Rightarrow> (string \<times> int) list \<Rightarrow> zstore \<Rightarrow> zstore" where
  "set_members k l s = s\<lparr>zs_sets := AList.update k l (zs_sets s)\<rparr>"

definition zs_now :: "int \<times> int \<Rightarrow> int" where
  "zs_now c = fst c * 1000 + snd c div 1000"

definition zs_del :: "string \<Rightarrow> zstore \<Rightarrow> zstore" where
  "zs_del k s = s\<lparr>zs_sets := AList.delete k (zs_sets s), zs_deadline := AList.delete k (zs_deadline s)\<rparr>"

definition ref_ops :: "zstore zops" where
  "ref_ops = \<lparr>z_time = zs_clock,
     z_remrange = (\<lambda>k x s. let l = members s k; l' = filter (\<lambda>p. x < snd p) l in (int (length l - length l'), set_members k l' s)),
     z_score = (\<lambda>k m s. map_of (members s k) m),
     z_card = (\<lambda>k s. int (length (members s k))),
     z_range1 = (\<lambda>k i s. let xs = sort_key snd (members s k) in if 0 \<le> i \<and> nat i < length xs then [xs ! nat i] else []),
     z_tail = (\<lambda>k s. case rev (sort_key snd (members s k)) of [] \<Rightarrow> [] | p # _ \<Rightarrow> [p]),
     z_add = (\<lambda>k x m s. set_members k (AList.update m x (members s k)) s),
     z_rem = (\<lambda>k m s. (if map_of (members s k) m = None then 0 else 1, set_members k (AList.delete m (members s k)) s)),
     z_del = zs_del,
     z_pexpireat = (\<lambda>k x s. if x \<le> zs_now (zs_clock s) then zs_del k s else s\<lparr>zs_deadline := AList.update k x (zs_deadline s)\<rparr>)\<rparr>"

definition ref_view :: "zstore \<Rightarrow> zview" where
  "ref_view s k = map_of (go_get [] (zs_sets s) k)"

definition ref_deadline :: "zstore \<Rightarrow> string \<Rightarrow> int option" where
  "ref_deadline s = map_of (zs_deadline s)"

text \<open>The clock moves on and the server drops the keys whose time has come.\<close>

definition due :: "int \<times> int \<Rightarrow> zstore \<Rightarrow> string \<Rightarrow> bool" where
  "due c s k \<longleftrightarrow> (case map_of (zs_deadline s) k of None \<Rightarrow> False | Some t \<Rightarrow> t \<le> zs_now c)"

definition advance :: "int \<times> int \<Rightarrow> zstore \<Rightarrow> zstore" where
  "advance c s = \<lparr>zs_clock = c, zs_sets = filter (\<lambda>p. \<not> due c s (fst p)) (zs_sets s),
     zs_deadline = filter (\<lambda>p. \<not> due c s (fst p)) (zs_deadline s)\<rparr>"

definition ref_elapse :: "zstore \<Rightarrow> zstore \<Rightarrow> bool" where
  "ref_elapse s s' \<longleftrightarrow> (\<exists>c. zs_now (zs_clock s) \<le> zs_now c \<and> s' = advance c s)"

lemma map_of_entries [simp]: "map_of (entries l) = map_of l"
proof
  fix m
  have "map_of (map (\<lambda>m. (m, the (map_of l m))) ms) m = (if m \<in> set ms then Some (the (map_of l m)) else None)" for ms
    by (induction ms) auto
  then have "map_of (entries l) m = (if m \<in> fst ` set l then Some (the (map_of l m)) else None)" by (simp add: entries_def)
  then show "map_of (entries l) m = map_of l m"
    using map_of_eq_None_iff [of l m] by (cases "map_of l m") (auto split: if_splits)
qed

lemma entries_props: "distinct (map fst (entries l))" "fst ` set (entries l) = dom (map_of l)" "length (entries l) = card (dom (map_of l))"
proof -
  show "distinct (map fst (entries l))" by (simp add: entries_def o_def)
  show "fst ` set (entries l) = dom (map_of l)" by (auto simp: entries_def dom_map_of_conv_image_fst image_image)
  show "length (entries l) = card (dom (map_of l))"
    by (simp add: entries_def dom_map_of_conv_image_fst distinct_card [symmetric] flip: List.card_set)
qed

lemma map_of_filter_score:
  "distinct (map fst l) \<Longrightarrow> map_of (filter (\<lambda>p. x < snd p) l) = live x (map_of l)"
proof (induction l)
  case (Cons p l)
  obtain m v where p: "p = (m, v)" by (cases p)
  have "map_of l m = None" using Cons.prems p by (simp add: map_of_eq_None_iff)
  then have "live x (map_of l) m = None" by (simp add: live_def)
  with Cons show ?case by (auto simp: p live_def fun_eq_iff)
qed (simp add: live_def)

lemma map_of_filter_fst: "map_of (filter (\<lambda>p. P (fst p)) l) k = (if P k then map_of l k else None)"
  by (induction l) auto

lemma members_view: "map_of (members s k) = ref_view s k" "distinct (map fst (members s k))" "length (members s k) = card (dom (ref_view s k))"
  using entries_props(1,3) by (simp_all add: members_def ref_view_def)

lemma set_members_view [simp]: "ref_view (set_members k l s) = (ref_view s)(k := map_of l)"
  by (auto simp: ref_view_def set_members_def fun_eq_iff)

lemma set_members_rest [simp]: "zs_clock (set_members k l s) = zs_clock s" "ref_deadline (set_members k l s) = ref_deadline s"
  by (simp_all add: set_members_def ref_deadline_def)

lemma sorted_members:
  assumes "i < length (members s k)" and xs: "xs = sort_key snd (members s k)"
  shows "ref_view s k (fst (xs ! i)) = Some (snd (xs ! i))"
    "i < card {m'. \<exists>v' \<le> snd (xs ! i). ref_view s k m' = Some v'}"
proof -
  have len: "length xs = length (members s k)" and set: "set xs = set (members s k)" by (simp_all add: xs)
  have dist: "distinct (map fst xs)"
    by (metis members_view(2) mset_map mset_sort mset_eq_imp_distinct_iff xs)
  have mem: "ref_view s k (fst p) = Some (snd p)" if "p \<in> set xs" for p
    using that set members_view(1,2) [of s k] by (metis map_of_eq_Some_iff prod.collapse)
  show "ref_view s k (fst (xs ! i)) = Some (snd (xs ! i))" using mem assms(1) len by simp
  have "sorted (map snd xs)" by (simp add: xs)
  then have le: "snd (xs ! j) \<le> snd (xs ! i)" if "j \<le> i" for j
    using sorted_nth_mono [of "map snd xs" j i] that assms(1) len by simp
  let ?S = "{m'. \<exists>v' \<le> snd (xs ! i). ref_view s k m' = Some v'}"
  have "fst ` set (take (Suc i) xs) \<subseteq> ?S"
  proof
    fix m assume "m \<in> fst ` set (take (Suc i) xs)"
    then obtain j where j: "j < Suc i" "j < length xs" "m = fst (xs ! j)" by (auto simp: in_set_conv_nth)
    then show "m \<in> ?S" using mem [of "xs ! j"] le [of j] by auto
  qed
  moreover have "?S \<subseteq> dom (ref_view s k)" by auto
  then have "finite ?S" by (rule finite_subset) (simp add: ref_view_def finite_dom_map_of)
  ultimately have "card (fst ` set (take (Suc i) xs)) \<le> card ?S" by (intro card_mono)
  moreover have "distinct (map fst (take (Suc i) xs))" using dist by (simp add: take_map [symmetric])
  then have "card (fst ` set (take (Suc i) xs)) = Suc i" using assms(1) len distinct_card [of "map fst (take (Suc i) xs)"] by simp
  ultimately show "i < card ?S" by simp
qed

lemma ref_now: "now_ms ref_ops s = zs_now (zs_clock s)"
  by (simp add: now_ms_def zs_now_def ref_ops_def)

lemma zs_del_view [simp]: "ref_view (zs_del k s) = (ref_view s)(k := Map.empty)" "zs_clock (zs_del k s) = zs_clock s"
  "ref_deadline (zs_del k s) = (ref_deadline s)(k := None)"
  by (auto simp: zs_del_def ref_view_def ref_deadline_def fun_eq_iff)

lemma advance_view:
  "ref_view (advance c s) k = (if due c s k then Map.empty else ref_view s k)"
  "ref_deadline (advance c s) k = (if due c s k then None else ref_deadline s k)"
  using map_of_filter_fst [of "\<lambda>k. \<not> due c s k" "zs_sets s" k] map_of_filter_fst [of "\<lambda>k. \<not> due c s k" "zs_deadline s" k]
  by (auto simp: ref_view_def ref_deadline_def advance_def go_get_def)

interpretation ref: zset_store ref_ops ref_view ref_deadline ref_elapse
proof
  show "finite (dom (ref_view s k))" for s k by (simp add: ref_view_def finite_dom_map_of)
  show "z_time ref_ops (snd (z_remrange ref_ops k x s)) = z_time ref_ops s" "z_time ref_ops (z_add ref_ops k x m s) = z_time ref_ops s"
    "z_time ref_ops (snd (z_rem ref_ops k m s)) = z_time ref_ops s" "z_time ref_ops (z_del ref_ops k s) = z_time ref_ops s"
    "z_time ref_ops (z_pexpireat ref_ops k x s) = z_time ref_ops s" for k x m s
    by (simp_all add: ref_ops_def Let_def)
  show "ref_view (snd (z_remrange ref_ops k x s)) = (ref_view s)(k := live x (ref_view s k))" for k x s
    using map_of_filter_score [OF members_view(2), of x s k] by (simp add: ref_ops_def Let_def members_view(1))
  show "fst (z_remrange ref_ops k x s) = int (card (dom (ref_view s k)) - card (dom (live x (ref_view s k))))" for k x s
  proof -
    let ?f = "filter (\<lambda>p. x < snd p) (members s k)"
    have "distinct (map fst ?f)" using members_view(2) by (rule distinct_map_filter)
    then have "length ?f = card (dom (map_of ?f))" by (metis distinct_card dom_map_of_conv_image_fst length_map list.set_map)
    moreover have "length ?f \<le> length (members s k)" by (rule length_filter_le)
    ultimately show ?thesis
      using map_of_filter_score [OF members_view(2), of x s k] members_view(1,3) [of s k]
      by (simp add: ref_ops_def Let_def of_nat_diff)
  qed
  show "z_score ref_ops k m s = ref_view s k m" for k m s by (simp add: ref_ops_def members_view)
  show "z_card ref_ops k s = int (card (dom (ref_view s k)))" for k s by (simp add: ref_ops_def members_view)
  show "0 \<le> i \<Longrightarrow> i < int (card (dom (ref_view s k))) \<Longrightarrow>
      \<exists>m v. z_range1 ref_ops k i s = [(m, v)] \<and> ref_view s k m = Some v \<and> i < int (card {m'. \<exists>v' \<le> v. ref_view s k m' = Some v'})" for i s k
    using sorted_members [of "nat i" s k, OF _ refl] members_view(3) [of s k]
    by (intro exI [of _ "fst (sort_key snd (members s k) ! nat i)"] exI [of _ "snd (sort_key snd (members s k) ! nat i)"])
      (auto simp: ref_ops_def Let_def)
  show "ref_view s k = Map.empty \<Longrightarrow> z_tail ref_ops k s = []" for s k
    using members_view(3) [of s k] by (simp add: ref_ops_def)
  show "ref_view s k \<noteq> Map.empty \<Longrightarrow> \<exists>m v. z_tail ref_ops k s = [(m, v)] \<and> ref_view s k m = Some v \<and>
      (\<forall>m' v'. ref_view s k m' = Some v' \<longrightarrow> v' \<le> v)" for s k
  proof -
    assume ne: "ref_view s k \<noteq> Map.empty"
    define xs where "xs = sort_key snd (members s k)"
    let ?i = "length (members s k) - 1"
    have len: "0 < length (members s k)"
      using ne members_view(3) [of s k] by (auto simp: card_gt_0_iff ref_view_def finite_dom_map_of)
    then have i: "?i < length (members s k)" by simp
    note m = sorted_members [OF i xs_def]
    let ?S = "{m'. \<exists>v' \<le> snd (xs ! ?i). ref_view s k m' = Some v'}"
    have fin: "finite (dom (ref_view s k))" by (simp add: ref_view_def finite_dom_map_of)
    have "?S = dom (ref_view s k)"
      by (rule card_seteq [OF fin]) (use m(2) members_view(3) [of s k] in auto)
    moreover have "z_tail ref_ops k s = [(fst (xs ! ?i), snd (xs ! ?i))]"
    proof -
      have "length xs = length (members s k)" by (simp add: xs_def)
      then show ?thesis using len by (cases xs rule: rev_cases) (auto simp: ref_ops_def xs_def [symmetric] nth_append)
    qed
    moreover have "v' \<le> snd (xs ! ?i)" if "ref_view s k m' = Some v'" for m' v'
    proof -
      have "m' \<in> ?S" using that calculation(1) by blast
      then show ?thesis using that by auto
    qed
    ultimately show ?thesis using m(1) by blast
  qed
  show "ref_view (z_add ref_ops k x m s) = (ref_view s)(k := (ref_view s k)(m \<mapsto> x))" for k x m s
    by (simp add: ref_ops_def members_view)
  show "ref_view (snd (z_rem ref_ops k m s)) = (ref_view s)(k := (ref_view s k)(m := None))"
    "fst (z_rem ref_ops k m s) = (if ref_view s k m = None then 0 else 1)" for k m s
    by (simp_all add: ref_ops_def members_view)
  show "ref_view (z_del ref_ops k s) = (ref_view s)(k := Map.empty)" for k s by (simp add: ref_ops_def)
  show "now_ms ref_ops s < x \<Longrightarrow> ref_view (z_pexpireat ref_ops k x s) = ref_view s"
    "now_ms ref_ops s < x \<Longrightarrow> ref_deadline (z_pexpireat ref_ops k x s) k = Some x" for s x k
    by (auto simp: ref_now) (auto simp: ref_ops_def ref_view_def ref_deadline_def fun_eq_iff)
  show "k' \<noteq> k \<Longrightarrow> ref_deadline (z_pexpireat ref_ops k x s) k' = ref_deadline s k'" for k' k x s
    by (simp add: ref_ops_def) (simp add: ref_deadline_def)
  show "ref_deadline (snd (z_remrange ref_ops k x s)) k' = ref_deadline s k' \<or> k' = k"
    "ref_deadline (z_add ref_ops k x m s) k' = ref_deadline s k' \<or> k' = k"
    "ref_deadline (snd (z_rem ref_ops k m s)) k' = ref_deadline s k' \<or> k' = k"
    "ref_deadline (z_del ref_ops k s) k' = (if k' = k then None else ref_deadline s k')" for k x s k' m
    by (simp_all add: ref_ops_def Let_def)
  show "ref_elapse s s' \<Longrightarrow> now_ms ref_ops s \<le> now_ms ref_ops s'" for s s'
    by (auto simp: ref_elapse_def ref_now advance_def)
  show "ref_elapse s s' \<Longrightarrow> ref_view s' k = ref_view s k \<and> ref_deadline s' k = ref_deadline s k \<or>
      (\<exists>t. ref_deadline s k = Some t \<and> t \<le> now_ms ref_ops s' \<and> ref_view s' k = Map.empty \<and> ref_deadline s' k = None)" for s s' k
    by (auto simp: ref_elapse_def advance_view ref_now)
      (auto simp: due_def ref_deadline_def advance_def split: option.splits)
qed

lemma blocked_spec:
  "\<not> blocked n m Z kl \<longleftrightarrow> (\<exists>v. Z (fst kl) m = Some v \<and> n < v) \<or> int (card (dom (live n (Z (fst kl))))) < snd kl"
proof -
  have "live n (Z (fst kl)) m \<noteq> None \<longleftrightarrow> (\<exists>v. Z (fst kl) m = Some v \<and> n < v)" by (auto simp: live_Some)
  then show ?thesis by (auto simp: blocked_def not_le)
qed

subsection \<open>What the Go functions return\<close>

definition limit_keys :: "Coordinator \<Rightarrow> ConcurrencyLimit list \<Rightarrow> (string \<times> int) list" where
  "limit_keys c limits = map (\<lambda>l. (leaseKey c (cl_Dimension l), cl_MaxInFlight l)) limits"

lemma limit_keys:
  assumes "prepareLeaseAcquire c leaseID ttl limits = Inr keys"
  shows "zip keys (map cl_MaxInFlight limits) = limit_keys c limits" "map fst (limit_keys c limits) = keys"
    "distinct (map fst (limit_keys c limits))" "\<forall>kl \<in> set (limit_keys c limits). 1 \<le> snd kl" "0 < ttl div millisecond"
  using prepareLeaseAcquire_Inr [OF assms] ttl_ms [of ttl]
  by (auto simp: limit_keys_def zip_map1 zip_map2 zip_same_conv_map o_def)

context zset_store
begin

lemma AcquireLease_granted:
  assumes p: "prepareLeaseAcquire c leaseID ttl limits = Inr keys" and pos: "0 < now_ms ops s"
    and free: "\<forall>kl \<in> set (limit_keys c limits). \<not> blocked (now_ms ops s) (leaseMember c leaseID) (z s) kl"
  obtains d s' where "AcquireLease ops c leaseID ttl limits s = (Inr d, s')" "ld_Granted d"
    "ld_Lease d = \<lparr>lr_ID = leaseID, lr_Dimensions = map cl_Dimension limits\<rparr>"
    "ld_ExpiresAt d = UnixMilli (now_ms ops s + ttl div millisecond)"
    "z s' = zadd_all (now_ms ops s + ttl div millisecond) (leaseMember c leaseID) (set keys) (zlive (now_ms ops s) (set keys) (z s))"
    "now_ms ops s' = now_ms ops s"
proof -
  let ?n = "now_ms ops s" and ?t = "ttl div millisecond" and ?m = "leaseMember c leaseID"
  note k = limit_keys [OF p]
  have K: "fst ` set (limit_keys c limits) = set keys" using k(2) by (metis set_map)
  obtain s' where s': "acquireLeaseScript ops (limit_keys c limits) ?t ?m 1000 s = (Inr ([1, ?n, ?n + ?t] @
      map (\<lambda>kl. int (card (dom (live ?n (z s (fst kl))))) + (if live ?n (z s (fst kl)) ?m = None then 1 else 0)) (limit_keys c limits)), s')"
    "z s' = zadd_all (?n + ?t) ?m (set keys) (zlive ?n (set keys) (z s))" "now_ms ops s' = ?n"
    by (rule acquire_script_granted [OF k(3,4,5) _ refl free, of 1000, unfolded K]) auto
  have len: "length (limit_keys c limits) = length limits" by (simp add: limit_keys_def)
  show thesis
    by (rule that [OF _ _ _ _ s'(2,3)])
      (use k(1,5) s'(1) pos len in \<open>auto simp: AcquireLease_def p acquire_lease_reply_def Let_def\<close>)
qed

lemma AcquireLease_denied:
  assumes p: "prepareLeaseAcquire c leaseID ttl limits = Inr keys" and pos: "0 < now_ms ops s"
    and full: "\<exists>kl \<in> set (limit_keys c limits). blocked (now_ms ops s) (leaseMember c leaseID) (z s) kl"
  obtains d r s' where "AcquireLease ops c leaseID ttl limits s = (Inr d, s')" "\<not> ld_Granted d" "0 < r"
    "ld_RetryAt d = UnixMilli (now_ms ops s) + wrap64 (r * millisecond)"
    "z s' = zlive (now_ms ops s) (set keys) (z s)"
    "\<forall>kl \<in> set (limit_keys c limits). blocked (now_ms ops s) (leaseMember c leaseID) (z s) kl \<longrightarrow> frees (now_ms ops s) (z s) kl r"
    "\<forall>B. 1 \<le> B \<and> (\<forall>k m v. z s k m = Some v \<longrightarrow> v \<le> now_ms ops s + B) \<longrightarrow> r \<le> B"
    "now_ms ops s' = now_ms ops s"
proof -
  let ?n = "now_ms ops s" and ?t = "ttl div millisecond" and ?m = "leaseMember c leaseID"
  note k = limit_keys [OF p]
  have K: "fst ` set (limit_keys c limits) = set keys" using k(2) by (metis set_map)
  obtain r s' where s': "acquireLeaseScript ops (limit_keys c limits) ?t ?m 1000 s =
      (Inr ([0, ?n, r] @ map (\<lambda>kl. int (card (dom (live ?n (z s (fst kl)))))) (limit_keys c limits)), s')" "0 < r"
    "z s' = zlive ?n (set keys) (z s)"
    "\<forall>kl \<in> set (limit_keys c limits). blocked ?n ?m (z s) kl \<longrightarrow> frees ?n (z s) kl r" "now_ms ops s' = ?n"
    by (rule acquire_script_denied [OF k(3,4) _ refl full, of 1000 ?t, unfolded K]) auto
  have len: "length (limit_keys c limits) = length limits" by (simp add: limit_keys_def)
  have le: "\<forall>B. 1 \<le> B \<and> (\<forall>k m v. z s k m = Some v \<longrightarrow> v \<le> ?n + B) \<longrightarrow> r \<le> B"
    using acquire_script_retry_le [of "limit_keys c limits" ?t ?m 1000 s ?n r] s'(1) k(4) by auto
  show thesis
    by (rule that [OF _ _ s'(2) _ s'(3,4) le s'(5)])
      (use k(1) s'(1,2) pos len in \<open>auto simp: AcquireLease_def p acquire_lease_reply_def Let_def\<close>)
qed

lemma RenewLease_result:
  assumes p: "prepareLeaseRef c lease ttl = Inr keys" and pos: "0 < now_ms ops s"
    and held: "held = (\<forall>k \<in> set keys. live (now_ms ops s) (z s k) (leaseMember c (lr_ID lease)) \<noteq> None)"
  shows "fst (RenewLease ops c lease ttl s) = (if held then Inr (UnixMilli (now_ms ops s + ttl div millisecond)) else Inl ErrLeaseLost)"
    "z (snd (RenewLease ops c lease ttl s)) =
      (if held then zadd_all (now_ms ops s + ttl div millisecond) (leaseMember c (lr_ID lease)) (set keys) (zlive (now_ms ops s) (set keys) (z s))
       else zrem_all (leaseMember c (lr_ID lease)) (set keys) (zlive (now_ms ops s) (set keys) (z s)))"
proof -
  let ?n = "now_ms ops s" and ?t = "ttl div millisecond" and ?m = "leaseMember c (lr_ID lease)"
  have d: "distinct keys" and t: "0 < ?t" using prepareLeaseRef_Inr [OF p] ttl_ms [of ttl] by auto
  obtain s' where s': "renewLeaseScript ops keys ?t ?m 1000 s = (Inr (if held then [1, ?n, ?n + ?t] else [0, ?n, 0]), s')"
    "z s' = (if held then zadd_all (?n + ?t) ?m (set keys) (zlive ?n (set keys) (z s)) else zrem_all ?m (set keys) (zlive ?n (set keys) (z s)))"
    by (rule renew_script [OF d t _ refl held, of 1000]) auto
  then have run: "RenewLease ops c lease ttl s = (renew_lease_reply (Inr (if held then [1, ?n, ?n + ?t] else [0, ?n, 0])), s')"
    by (simp add: RenewLease_def p)
  show "fst (RenewLease ops c lease ttl s) = (if held then Inr (UnixMilli (?n + ?t)) else Inl ErrLeaseLost)"
    using pos t by (simp add: run renew_lease_reply_def Let_def)
  show "z (snd (RenewLease ops c lease ttl s)) =
      (if held then zadd_all (?n + ?t) ?m (set keys) (zlive ?n (set keys) (z s)) else zrem_all ?m (set keys) (zlive ?n (set keys) (z s)))"
    using s'(2) by (simp add: run)
qed

lemma ReleaseLease_result:
  assumes p: "prepareLeaseRef c lease millisecond = Inr keys" and pos: "0 < now_ms ops s"
  shows "fst (ReleaseLease ops c lease s) = None"
    "z (snd (ReleaseLease ops c lease s)) = zrem_all (leaseMember c (lr_ID lease)) (set keys) (zlive (now_ms ops s) (set keys) (z s))"
    "now_ms ops (snd (ReleaseLease ops c lease s)) = now_ms ops s"
proof -
  let ?n = "now_ms ops s" and ?m = "leaseMember c (lr_ID lease)"
  have d: "distinct keys" using prepareLeaseRef_Inr [OF p] by auto
  obtain s' r where s': "releaseLeaseScript ops keys ?m 1000 s = (Inr [?n, int r], s')"
    "z s' = zrem_all ?m (set keys) (zlive ?n (set keys) (z s))" "now_ms ops s' = ?n"
    by (rule release_script [OF d _ refl, of 1000 ?m s]) auto
  then have run: "ReleaseLease ops c lease s = (release_lease_reply (Inr [?n, int r]), s')" by (simp add: ReleaseLease_def p)
  show "fst (ReleaseLease ops c lease s) = None" using pos by (simp add: run release_lease_reply_def Let_def)
  show "z (snd (ReleaseLease ops c lease s)) = zrem_all ?m (set keys) (zlive ?n (set keys) (z s))"
    "now_ms ops (snd (ReleaseLease ops c lease s)) = ?n" using s'(2,3) by (simp_all add: run)
qed

end

subsection \<open>Guarantees\<close>

lemma ref_store: "zset_store ref_ops ref_view ref_deadline ref_elapse"
  by (rule ref.zset_store_axioms)

text \<open>A coordinator, two dimensions and a short history for the concrete instances.\<close>

abbreviation sample_coordinator :: Coordinator where
  "sample_coordinator \<equiv> \<lparr>co_prefix = ''gw'', co_mac = (\<lambda>x. x)\<rparr>"

abbreviation sample_dimension :: "string \<Rightarrow> Dimension" where
  "sample_dimension i \<equiv> \<lparr>dm_Scope = ScopeModel, dm_SubjectID = i\<rparr>"

abbreviation sample_limits :: "ConcurrencyLimit list" where
  "sample_limits \<equiv> [\<lparr>cl_Dimension = sample_dimension ''m'', cl_MaxInFlight = 1\<rparr>, \<lparr>cl_Dimension = sample_dimension ''n'', cl_MaxInFlight = 1\<rparr>]"

definition empty_store :: zstore where
  "empty_store = \<lparr>zs_clock = (1, 0), zs_sets = [], zs_deadline = []\<rparr>"

definition held_store :: zstore where
  "held_store = snd (AcquireLease ref_ops sample_coordinator ''first'' 5000000000 sample_limits empty_store)"

lemma sample_prepare:
  "prepareLeaseAcquire sample_coordinator ''first'' 5000000000 sample_limits =
     Inr (map (leaseKey sample_coordinator \<circ> cl_Dimension) sample_limits)"
  "prepareLeaseAcquire sample_coordinator ''second'' 5000000000 sample_limits =
     Inr (map (leaseKey sample_coordinator \<circ> cl_Dimension) sample_limits)"
  by code_simp+

lemma held_store_code [code]:
  "held_store = (let keys = [leaseKey sample_coordinator (sample_dimension ''m''), leaseKey sample_coordinator (sample_dimension ''n'')];
     member = leaseMember sample_coordinator ''first'' in
     \<lparr>zs_clock = (1, 0), zs_sets = map (\<lambda>k. (k, [(member, 6000)])) keys, zs_deadline = map (\<lambda>k. (k, 7000)) keys\<rparr>)"
  by code_simp

lemma held_reach: "lease_reach ref_ops ref_elapse sample_coordinator (\<lambda>_. 1) empty_store held_store"
  unfolding held_store_def by (rule reach_next [OF reach_start]) (rule lease_acquire, simp)

text \<open>
  C27. Concurrency limits hold across all gateway instances: whatever sequence of acquisitions, renewals,
  releases, cleanups and passing of time the store goes through, at no time do more unexpired leases
  exist for a key than its limit.
\<close>

theorem lease_limit_respected:
  assumes "zset_store ops z deadline elapse" and "\<forall>k. z s0 k = Map.empty" and "\<forall>k. 0 \<le> lim k"
    and "lease_reach ops elapse c lim s0 s"
  shows "int (card {m. \<exists>v. z s k m = Some v \<and> now_ms ops s < v}) \<le> lim k"
proof -
  have "zset_store.lease_inv ops z deadline lim s"
    using zset_store.lease_reach_inv [OF assms(1) assms(4,2,3)] .
  then show ?thesis by (simp add: zset_store.lease_inv_def [OF assms(1)] live_dom)
qed

theorem lease_limit_respected_witness:
  "int (card {m. \<exists>v. ref_view held_store ''k'' m = Some v \<and> now_ms ref_ops held_store < v}) \<le> 1"
  using lease_limit_respected [OF ref_store _ _ held_reach, of "''k''"] by (simp add: empty_store_def ref_view_def)

text \<open>
  C28. A lease is kept until it expires: an unexpired lease that no operation on that lease touches is
  still held, with the same expiry, after any other instance's operation, any cleanup and any passing of
  time before its expiry.
\<close>

theorem lease_held_until_expiry:
  assumes "zset_store ops z deadline elapse" and "\<forall>k. z s0 k = Map.empty" and "\<forall>k. 0 \<le> lim k"
    and "lease_reach ops elapse c lim s0 s" and "lease_step ops elapse c lim i s s'"
    and "i \<noteq> None \<longrightarrow> leaseMember c (the i) \<noteq> leaseMember c leaseID"
    and "z s k (leaseMember c leaseID) = Some v" and "now_ms ops s' < v"
  shows "z s' k (leaseMember c leaseID) = Some v"
  using zset_store.held_step [OF assms(1) zset_store.lease_reach_inv [OF assms(1,4,2,3)] assms(5-8)] .

theorem lease_held_until_expiry_witness:
  "ref_view (snd (AcquireLease ref_ops sample_coordinator ''second'' 5000000000 sample_limits held_store))
     (leaseKey sample_coordinator (sample_dimension ''m'')) (leaseMember sample_coordinator ''first'') = Some 6000"
proof -
  have h: "ref_view held_store (leaseKey sample_coordinator (sample_dimension ''m'')) (leaseMember sample_coordinator ''first'') = Some 6000"
    "leaseMember sample_coordinator ''second'' \<noteq> leaseMember sample_coordinator ''first''"
    "now_ms ref_ops (snd (AcquireLease ref_ops sample_coordinator ''second'' 5000000000 sample_limits held_store)) < 6000" by code_simp+
  have step: "lease_step ref_ops ref_elapse sample_coordinator (\<lambda>_. 1) (Some ''second'') held_store
      (snd (AcquireLease ref_ops sample_coordinator ''second'' 5000000000 sample_limits held_store))"
    by (rule lease_acquire) simp
  show ?thesis
    by (rule lease_held_until_expiry [OF ref_store _ _ held_reach step _ h(1) h(3)]) (use h(2) in \<open>auto simp: empty_store_def ref_view_def\<close>)
qed

text \<open>
  C29. Acquiring is all or nothing: a valid request is granted exactly when in every dimension the lease
  is already held or the limit is not reached. When granted, the lease is held in every dimension until
  the expiry that is returned; when denied, no unexpired lease of any key has changed.
\<close>

theorem lease_acquire_decision:
  assumes "zset_store ops z deadline elapse" and "prepareLeaseAcquire c leaseID ttl limits = Inr keys" and "0 < now_ms ops s"
    and "AcquireLease ops c leaseID ttl limits s = (res, s')"
  shows "\<exists>d. res = Inr d \<and>
    (ld_Granted d \<longleftrightarrow> (\<forall>l \<in> set limits. (\<exists>v. z s (leaseKey c (cl_Dimension l)) (leaseMember c leaseID) = Some v \<and> now_ms ops s < v) \<or>
       int (card {m. \<exists>v. z s (leaseKey c (cl_Dimension l)) m = Some v \<and> now_ms ops s < v}) < cl_MaxInFlight l)) \<and>
    (ld_Granted d \<longrightarrow> ld_ExpiresAt d = UnixMilli (now_ms ops s + ttl div millisecond) \<and>
       (\<forall>l \<in> set limits. z s' (leaseKey c (cl_Dimension l)) (leaseMember c leaseID) = Some (now_ms ops s + ttl div millisecond))) \<and>
    (\<not> ld_Granted d \<longrightarrow> (\<forall>k m v. now_ms ops s < v \<longrightarrow> (z s' k m = Some v \<longleftrightarrow> z s k m = Some v)))"
proof -
  let ?n = "now_ms ops s" and ?m = "leaseMember c leaseID"
  let ?room = "\<forall>l \<in> set limits. (\<exists>v. z s (leaseKey c (cl_Dimension l)) ?m = Some v \<and> ?n < v) \<or>
       int (card {m. \<exists>v. z s (leaseKey c (cl_Dimension l)) m = Some v \<and> ?n < v}) < cl_MaxInFlight l"
  have room: "(\<forall>kl \<in> set (limit_keys c limits). \<not> blocked ?n ?m (z s) kl) \<longleftrightarrow> ?room"
    by (simp add: limit_keys_def blocked_spec live_dom [symmetric] not_le)
  have K: "set keys = (\<lambda>l. leaseKey c (cl_Dimension l)) ` set limits" using prepareLeaseAcquire_Inr [OF assms(2)] by (auto simp: o_def)
  show ?thesis
  proof (cases ?room)
    case True
    obtain d where "res = Inr d" "ld_Granted d" "ld_ExpiresAt d = UnixMilli (?n + ttl div millisecond)"
      "z s' = zadd_all (?n + ttl div millisecond) ?m (set keys) (zlive ?n (set keys) (z s))"
      by (rule zset_store.AcquireLease_granted [OF assms(1-3) room [THEN iffD2, OF True]]) (use assms(4) in auto)
    then show ?thesis using True K by (intro exI [of _ d]) (auto simp: zadd_all_def)
  next
    case False
    then have full: "\<exists>kl \<in> set (limit_keys c limits). blocked ?n ?m (z s) kl" using room by blast
    obtain d where "res = Inr d" "\<not> ld_Granted d" "z s' = zlive ?n (set keys) (z s)"
      by (rule zset_store.AcquireLease_denied [OF assms(1-3) full]) (use assms(4) in auto)
    then show ?thesis using False by (intro exI [of _ d]) (auto simp: zlive_def live_Some)
  qed
qed

theorem lease_acquire_decision_witness:
  "\<exists>d. fst (AcquireLease ref_ops sample_coordinator ''second'' 5000000000 sample_limits held_store) = Inr d \<and> \<not> ld_Granted d"
proof -
  let ?k = "leaseKey sample_coordinator (sample_dimension ''m'')"
  have h: "0 < now_ms ref_ops held_store" "z_score ref_ops ?k (leaseMember sample_coordinator ''second'') held_store = None"
    "z_score ref_ops ?k (leaseMember sample_coordinator ''first'') held_store = Some 6000"
    "now_ms ref_ops held_store < 6000" by code_simp+
  let ?L = "{m. \<exists>v. ref_view held_store ?k m = Some v \<and> now_ms ref_ops held_store < v}"
  have "finite ?L" by (rule finite_subset [OF _ ref.finite_members [of held_store ?k]]) auto
  moreover have "leaseMember sample_coordinator ''first'' \<in> ?L" using h(3,4) by (simp add: ref.score_law)
  ultimately have "0 < card ?L" by (auto simp: card_gt_0_iff)
  then have full: "\<not> int (card ?L) < 1" by simp
  have none: "\<not> (\<exists>v. ref_view held_store ?k (leaseMember sample_coordinator ''second'') = Some v \<and> now_ms ref_ops held_store < v)"
    using h(2) by (simp add: ref.score_law)
  have mem: "\<lparr>cl_Dimension = sample_dimension ''m'', cl_MaxInFlight = 1\<rparr> \<in> set sample_limits" by (simp only: list.set insert_iff simp_thms)
  show ?thesis
    apply (rule exE [OF lease_acquire_decision [OF ref_store sample_prepare(2) h(1) surjective_pairing]])
    apply (elim conjE)
    apply (intro exI conjI, assumption)
    apply (rule notI)
    apply (drule (1) iffD1)
    apply (drule bspec [OF _ mem])
    unfolding ConcurrencyLimit.select_convs
    using none full by blast
qed



text \<open>
  Renewing extends a lease that is held in every dimension to the returned expiry everywhere, and
  otherwise reports it as lost and drops it everywhere; releasing succeeds, drops the lease everywhere and
  leaves every other unexpired lease.
\<close>

theorem lease_renew_release:
  assumes "zset_store ops z deadline elapse" and "prepareLeaseRef c lease ttl = Inr keys" and "0 < now_ms ops s"
    and "RenewLease ops c lease ttl s = (res, s1)" and "ReleaseLease ops c lease s = (err, s2)"
    and "m = leaseMember c (lr_ID lease)"
  shows "(if \<forall>d \<in> set (lr_Dimensions lease). \<exists>v. z s (leaseKey c d) m = Some v \<and> now_ms ops s < v
     then res = Inr (UnixMilli (now_ms ops s + ttl div millisecond)) \<and>
       (\<forall>d \<in> set (lr_Dimensions lease). z s1 (leaseKey c d) m = Some (now_ms ops s + ttl div millisecond))
     else res = Inl ErrLeaseLost \<and> (\<forall>d \<in> set (lr_Dimensions lease). z s1 (leaseKey c d) m = None)) \<and>
    err = None \<and> (\<forall>d \<in> set (lr_Dimensions lease). z s2 (leaseKey c d) m = None) \<and>
    (\<forall>k m' v. m' \<noteq> m \<and> now_ms ops s < v \<longrightarrow> (z s1 k m' = Some v \<longleftrightarrow> z s k m' = Some v) \<and> (z s2 k m' = Some v \<longleftrightarrow> z s k m' = Some v))"
proof -
  let ?n = "now_ms ops s" and ?held = "\<forall>d \<in> set (lr_Dimensions lease). \<exists>v. z s (leaseKey c d) m = Some v \<and> now_ms ops s < v"
  have K: "set keys = leaseKey c ` set (lr_Dimensions lease)" using prepareLeaseRef_Inr [OF assms(2)] by auto
  have p1: "prepareLeaseRef c lease millisecond = Inr keys"
    using assms(2) by (auto simp: prepareLeaseRef_def validateLeaseIDAndTTL_def split: if_splits)
  have held: "?held = (\<forall>k \<in> set keys. live ?n (z s k) (leaseMember c (lr_ID lease)) \<noteq> None)" by (auto simp: K live_Some assms(6))
  note ren = zset_store.RenewLease_result [OF assms(1-3) held, unfolded assms(4) fst_conv snd_conv, folded assms(6)]
  note rel = zset_store.ReleaseLease_result [OF assms(1) p1 assms(3), unfolded assms(5) fst_conv snd_conv, folded assms(6)]
  have "err = None" "\<forall>d \<in> set (lr_Dimensions lease). z s2 (leaseKey c d) m = None"
    "\<forall>k m' v. m' \<noteq> m \<and> ?n < v \<longrightarrow> (z s2 k m' = Some v \<longleftrightarrow> z s k m' = Some v)"
    using rel by (auto simp: K zrem_all_def zlive_def live_Some)
  moreover have "\<forall>k m' v. m' \<noteq> m \<and> ?n < v \<longrightarrow> (z s1 k m' = Some v \<longleftrightarrow> z s k m' = Some v)"
    using ren(2) by (simp add: zrem_all_def zadd_all_def zlive_def live_Some split: if_splits)
  moreover have "if ?held then res = Inr (UnixMilli (?n + ttl div millisecond)) \<and>
       (\<forall>d \<in> set (lr_Dimensions lease). z s1 (leaseKey c d) m = Some (?n + ttl div millisecond))
     else res = Inl ErrLeaseLost \<and> (\<forall>d \<in> set (lr_Dimensions lease). z s1 (leaseKey c d) m = None)"
  proof (cases ?held)
    case True
    show ?thesis unfolding if_P [OF True] using ren unfolding if_P [OF True] K zadd_all_def by auto
  next
    case False
    show ?thesis unfolding if_not_P [OF False] using ren unfolding if_not_P [OF False] K zrem_all_def by auto
  qed
  ultimately show ?thesis by blast
qed

theorem lease_renew_release_witness:
  "fst (ReleaseLease ref_ops sample_coordinator \<lparr>lr_ID = ''first'', lr_Dimensions = [sample_dimension ''m'']\<rparr> held_store) = None"
proof -
  have p: "prepareLeaseRef sample_coordinator \<lparr>lr_ID = ''first'', lr_Dimensions = [sample_dimension ''m'']\<rparr> millisecond =
      Inr [leaseKey sample_coordinator (sample_dimension ''m'')]" by code_simp
  have now: "0 < now_ms ref_ops held_store" by code_simp
  show ?thesis
    using lease_renew_release [OF ref_store p now surjective_pairing surjective_pairing refl] by blast
qed

end
