(* ===== verification/LuaNumber.thy ===== *)
theory LuaNumber
  imports Prelude "HOL-Library.Log_Nat"
begin

text \<open>
  The numbers of the scripts that run in the server, and of the Go expressions over \<open>float64\<close>: rational
  values rounded to 53 significant binary digits after each operation (round half to even), written with
  14 significant decimal digits by \<open>tostring\<close> and read back by \<open>tonumber\<close>. Exponents are unbounded: every
  value of the scripts is far inside the exponent range of a double.
\<close>

subsection \<open>Rounding to significant digits\<close>

text \<open>Round half to even.\<close>

definition rne :: "rat \<Rightarrow> int" where
  "rne x = (let f = \<lfloor>x\<rfloor>; r = x - of_int f
    in if r < 1 / 2 then f else if r > 1 / 2 then f + 1 else if even f then f else f + 1)"

lemma rne_bounds: "\<lfloor>x\<rfloor> \<le> rne x" "rne x \<le> \<lfloor>x\<rfloor> + 1"
  by (simp_all add: rne_def Let_def)

lemma rne_of_int [simp]: "rne (of_int n) = n"
  by (simp add: rne_def)

lemma rne_mono: "x \<le> y \<Longrightarrow> rne x \<le> rne y"
proof (cases "\<lfloor>x\<rfloor> = \<lfloor>y\<rfloor>")
  case True
  then show "x \<le> y \<Longrightarrow> rne x \<le> rne y" by (simp add: rne_def Let_def)
next
  case False
  assume "x \<le> y"
  then have "\<lfloor>x\<rfloor> + 1 \<le> \<lfloor>y\<rfloor>" using False floor_mono [of x y] by simp
  then show "rne x \<le> rne y" using rne_bounds(2) [of x] rne_bounds(1) [of y] by linarith
qed

text \<open>The exponent \<open>e\<close> of a positive number in base \<open>b\<close>: \<open>b\<^sup>e \<le> x < b\<^sup>e\<^sup>+\<^sup>1\<close>.\<close>

definition exponent :: "nat \<Rightarrow> rat \<Rightarrow> int" where
  "exponent b x = (let (n, d) = quotient_of x; k = int (floorlog b (nat n)) - int (floorlog b (nat d))
    in if power_int (of_nat b) k \<le> x then k else k - 1)"

definition sig_round :: "nat \<Rightarrow> nat \<Rightarrow> rat \<Rightarrow> rat" where
  "sig_round b p x =
    (if x = 0 then 0
     else let u = power_int (of_nat b) (exponent b \<bar>x\<bar> + 1 - int p) in
       (if x < 0 then - 1 else 1) * (of_int (rne (\<bar>x\<bar> / u)) * u))"

abbreviation fl :: "rat \<Rightarrow> rat" where "fl \<equiv> sig_round 2 53"

text \<open>\<open>tonumber(tostring(x))\<close>\<close>

definition lua_text :: "rat \<Rightarrow> rat" where
  "lua_text x = fl (sig_round 10 14 x)"

lemma floorlog_power:
  assumes "1 < b" "0 < n"
  shows "b ^ (floorlog b n - 1) \<le> n" "n < b ^ floorlog b n" "1 \<le> floorlog b n"
  using floorlog_bounds [OF assms(2,1)] floorlog_eq_zero_iff [of b n] assms by (auto simp: Suc_le_eq)

lemma exponent_bounds:
  assumes b: "1 < b" and x: "0 < (x :: rat)"
  shows "power_int (of_nat b) (exponent b x) \<le> x" "x < power_int (of_nat b) (exponent b x + 1)"
proof -
  obtain n d where q: "quotient_of x = (n, d)" by (cases "quotient_of x")
  have d: "0 < d" using quotient_of_denom_pos [OF q] .
  have xq: "x = of_int n / of_int d" using quotient_of_div [OF q] .
  then have n: "0 < n" using x d by (simp add: zero_less_divide_iff)
  define L M where "L = floorlog b (nat n)" and "M = floorlog b (nat d)"
  let ?B = "of_nat b :: rat"
  have B: "1 < ?B" and ne: "?B \<noteq> 0" using b by simp_all
  have cast: "?B ^ (floorlog b (nat m) - 1) \<le> of_int m" "of_int m < ?B ^ floorlog b (nat m)" "1 \<le> floorlog b (nat m)"
    if m: "0 < m" for m :: int
  proof -
    have m': "(of_nat (nat m) :: rat) = of_int m" using m by (intro of_nat_nat) simp
    note f = floorlog_power [OF b, of "nat m"]
    have "(of_nat (b ^ (floorlog b (nat m) - 1)) :: rat) \<le> of_nat (nat m)" unfolding of_nat_le_iff using f(1) m by simp
    then show "?B ^ (floorlog b (nat m) - 1) \<le> of_int m" unfolding m' of_nat_power .
    have "(of_nat (nat m) :: rat) < of_nat (b ^ floorlog b (nat m))" unfolding of_nat_less_iff using f(2) m by simp
    then show "of_int m < ?B ^ floorlog b (nat m)" unfolding m' of_nat_power .
    show "1 \<le> floorlog b (nat m)" using f(3) m by simp
  qed
  note ln = cast [OF n, folded L_def] and ld = cast [OF d, folded M_def]
  let ?k = "int L - int M"
  have lo: "power_int ?B (?k - 1) < x"
  proof -
    have "power_int ?B (?k - 1) = ?B ^ (L - 1) / ?B ^ M"
    proof -
      have "?k - 1 = int (L - 1) - int M" using ln(3) by simp
      show ?thesis unfolding \<open>?k - 1 = int (L - 1) - int M\<close> power_int_diff [OF disjI1 [OF ne]] power_int_of_nat ..
    qed
    also have "\<dots> < of_int n / of_int d"
      using ln(1) ld(2) d B by (intro frac_less2) auto
    finally show ?thesis by (simp add: xq)
  qed
  have hi: "x < power_int ?B (?k + 1)"
  proof -
    have "of_int n / of_int d < ?B ^ L / ?B ^ (M - 1)"
      using ln(2) ld(1) d n B by (intro frac_less) auto
    also have "\<dots> = power_int ?B (?k + 1)"
    proof -
      have "?k + 1 = int L - int (M - 1)" using ld(3) by simp
      show ?thesis unfolding \<open>?k + 1 = int L - int (M - 1)\<close> power_int_diff [OF disjI1 [OF ne]] power_int_of_nat ..
    qed
    finally show ?thesis by (simp add: xq)
  qed
  have e: "exponent b x = (if power_int ?B ?k \<le> x then ?k else ?k - 1)"
    by (simp add: exponent_def q L_def M_def Let_def)
  show "power_int ?B (exponent b x) \<le> x" "x < power_int ?B (exponent b x + 1)"
    using lo hi by (auto simp: e)
qed

lemma power_int_less_mono: "1 < (b :: rat) \<Longrightarrow> power_int b m < power_int b n \<Longrightarrow> m < n"
  using power_int_increasing [of n m b] by (meson le_less_linear less_le_not_le order_less_imp_le)

lemma sig_round_pos:
  assumes "1 < b" "0 < x"
  shows "sig_round b p x = of_int (rne (x / power_int (of_nat b) (exponent b x + 1 - int p))) * power_int (of_nat b) (exponent b x + 1 - int p)"
  using assms by (simp add: sig_round_def Let_def)

lemma sig_round_0 [simp]: "sig_round b p 0 = 0"
  by (simp add: sig_round_def)

text \<open>A rounded number stays between the powers of the base around it.\<close>

lemma sig_round_between:
  assumes b: "1 < b" and p: "0 < p" and x: "0 < (x :: rat)"
  shows "power_int (of_nat b) (exponent b x) \<le> sig_round b p x" "sig_round b p x \<le> power_int (of_nat b) (exponent b x + 1)"
proof -
  let ?B = "of_nat b :: rat" and ?e = "exponent b x"
  define u where "u = power_int ?B (?e + 1 - int p)"
  have ne: "?B \<noteq> 0" and B: "1 < ?B" using b by simp_all
  have u: "0 < u" using B by (simp add: u_def)
  have lo: "of_int (int b ^ (p - 1)) * u = power_int ?B ?e"
  proof -
    have "power_int ?B ?e = power_int ?B (int (p - 1) + (?e + 1 - int p))" using p by (simp add: of_nat_diff)
    then show ?thesis unfolding u_def power_int_add [OF disjI1 [OF ne]] power_int_of_nat by simp
  qed
  have hi: "of_int (int b ^ p) * u = power_int ?B (?e + 1)"
  proof -
    have "power_int ?B (?e + 1) = power_int ?B (int p + (?e + 1 - int p))" by simp
    then show ?thesis unfolding u_def power_int_add [OF disjI1 [OF ne]] power_int_of_nat by simp
  qed
  have "of_int (int b ^ (p - 1)) \<le> x / u"
    using exponent_bounds(1) [OF b x] u by (simp only: le_divide_eq lo if_True)
  then have "int b ^ (p - 1) \<le> rne (x / u)" using rne_mono rne_of_int by metis
  then have "of_int (int b ^ (p - 1)) * u \<le> of_int (rne (x / u)) * u" using u by (simp only: mult_right_mono of_int_le_iff less_imp_le)
  then show "power_int ?B ?e \<le> sig_round b p x" unfolding lo sig_round_pos [OF b x] u_def [symmetric] .
  have "x / u \<le> of_int (int b ^ p)"
    using exponent_bounds(2) [OF b x] u by (simp only: divide_le_eq hi if_True less_imp_le)
  then have "rne (x / u) \<le> int b ^ p" using rne_mono rne_of_int by metis
  then have "of_int (rne (x / u)) * u \<le> of_int (int b ^ p) * u" using u by (simp only: mult_right_mono of_int_le_iff less_imp_le)
  then show "sig_round b p x \<le> power_int ?B (?e + 1)" unfolding hi sig_round_pos [OF b x] u_def [symmetric] .
qed

lemma sig_round_nonneg: "1 < b \<Longrightarrow> 0 < p \<Longrightarrow> 0 \<le> x \<Longrightarrow> 0 \<le> sig_round b p x"
  using sig_round_between(1) [of b p x] by (cases "x = 0") (auto intro: order_trans [rotated])

lemma sig_round_mono:
  assumes b: "1 < b" and p: "0 < p" and x: "0 \<le> x" and xy: "x \<le> y"
  shows "sig_round b p x \<le> sig_round b p y"
proof (cases "x = 0")
  case True
  then show ?thesis using sig_round_nonneg [OF b p, of y] x xy by simp
next
  case False
  then have pos: "0 < x" "0 < y" using x xy by auto
  let ?B = "of_nat b :: rat"
  have B: "1 < ?B" using b by simp
  have "power_int ?B (exponent b x) < power_int ?B (exponent b y + 1)"
    using exponent_bounds(1) [OF b pos(1)] exponent_bounds(2) [OF b pos(2)] xy by linarith
  then have le: "exponent b x \<le> exponent b y" using power_int_less_mono [OF B] by force
  show ?thesis
  proof (cases "exponent b x = exponent b y")
    case True
    let ?u = "power_int ?B (exponent b y + 1 - int p)"
    have u: "0 < ?u" using B by simp
    then have "x / ?u \<le> y / ?u" using xy by (simp only: divide_right_mono less_imp_le)
    then have "rne (x / ?u) \<le> rne (y / ?u)" by (rule rne_mono)
    then have "of_int (rne (x / ?u)) * ?u \<le> of_int (rne (y / ?u)) * ?u" using u by (simp only: mult_right_mono of_int_le_iff less_imp_le)
    then show ?thesis unfolding sig_round_pos [OF b pos(1)] sig_round_pos [OF b pos(2)] True .
  next
    case False
    then have "power_int ?B (exponent b x + 1) \<le> power_int ?B (exponent b y)" using le B by (intro power_int_increasing) auto
    then show ?thesis using sig_round_between(2) [OF b p pos(1)] sig_round_between(1) [OF b p pos(2)] by linarith
  qed
qed

lemma sig_round_int:
  assumes b: "1 < b" and n: "0 \<le> n" "n < int b ^ p"
  shows "sig_round b p (of_int n) = of_int n"
proof (cases "n = 0")
  case False
  then have pos: "0 < (of_int n :: rat)" using n by simp
  let ?B = "of_nat b :: rat" and ?e = "exponent b (of_int n)"
  have B: "1 < ?B" and ne: "?B \<noteq> 0" using b by simp_all
  have "(of_int n :: rat) < of_int (int b ^ p)" using n(2) by (simp only: of_int_less_iff)
  then have "power_int ?B ?e < power_int ?B (int p)" using exponent_bounds(1) [OF b pos] by simp
  then have "?e < int p" using power_int_less_mono [OF B] by blast
  then obtain k :: nat where k: "?e + 1 - int p = - int k" 
    by (intro that [of "nat (int p - ?e - 1)"]) simp
  have u: "power_int ?B (?e + 1 - int p) = 1 / of_int (int b ^ k)" unfolding k power_int_minus power_int_of_nat by (simp add: field_simps)
  have "(of_int n :: rat) / (1 / of_int (int b ^ k)) = of_int (n * int b ^ k)" by simp
  then show ?thesis unfolding sig_round_pos [OF b pos] u using ne by (simp only: rne_of_int) simp
qed simp

lemma fl_int [simp]: "0 \<le> n \<Longrightarrow> n < 9007199254740992 \<Longrightarrow> fl (of_int n) = of_int n"
  by (rule sig_round_int) simp_all

lemma lua_text_int [simp]: "0 \<le> n \<Longrightarrow> n < 100000000000000 \<Longrightarrow> lua_text (of_int n) = of_int n"
  using sig_round_int [of 10 n 14] by (simp add: lua_text_def)

lemma lua_text_mono: "0 \<le> x \<Longrightarrow> x \<le> y \<Longrightarrow> lua_text x \<le> lua_text y"
  by (simp add: lua_text_def sig_round_mono sig_round_nonneg)

lemma fl_nonneg: "0 \<le> x \<Longrightarrow> 0 \<le> fl x"
  by (simp add: sig_round_nonneg)

lemma lua_text_nonneg: "0 \<le> x \<Longrightarrow> 0 \<le> lua_text x"
  by (simp add: lua_text_def sig_round_nonneg)

text \<open>The relative error, and the floor of a rounded quotient of integers.\<close>

lemma rne_upper: "of_int (rne x) \<le> x + 1 / 2"
proof -
  have "of_int \<lfloor>x\<rfloor> \<le> x" by simp
  then show ?thesis unfolding rne_def Let_def by (auto simp: field_simps intro: order_trans [of _ "x * 2"])
qed

lemma fl_upper:
  assumes "0 < x"
  shows "fl x \<le> x + x / 9007199254740992"
proof -
  let ?u = "power_int 2 (exponent 2 x + 1 - 53) :: rat"
  have u: "0 < ?u" by simp
  have "?u = power_int 2 (exponent 2 x) / 4503599627370496"
    using power_int_diff [of "2 :: rat" "exponent 2 x" 52] by (simp add: algebra_simps)
  also have "\<dots> \<le> x / 4503599627370496" using exponent_bounds(1) [of 2 x] assms by simp
  finally have ux: "?u \<le> x / 4503599627370496" .
  have "fl x = of_int (rne (x / ?u)) * ?u" using sig_round_pos [of 2 x 53] assms by simp
  also have "\<dots> \<le> (x / ?u + 1 / 2) * ?u" using rne_upper [of "x / ?u"] u by (intro mult_right_mono) auto
  also have "\<dots> = x + ?u / 2" using u by (simp add: field_simps)
  also have "\<dots> \<le> x + x / 9007199254740992" using ux by simp
  finally show ?thesis .
qed

lemma floor_fl_div:
  assumes "0 \<le> a" "0 < b" "a + b \<le> 9007199254740992"
  shows "\<lfloor>fl (of_int a / of_int b)\<rfloor> = a div b"
proof (cases "a = 0")
  case False
  then have a: "0 < a" using assms(1) by simp
  let ?q = "of_int a / of_int b :: rat" and ?k = "a div b"
  have q: "0 < ?q" using a assms(2) by simp
  have k0: "0 \<le> ?k" using a assms(2) by (simp add: pos_imp_zdiv_nonneg_iff)
  have kb: "?k * b \<le> a" "a + 1 \<le> (?k + 1) * b"
  proof -
    have "a = ?k * b + a mod b" "0 \<le> a mod b" "a mod b < b" using assms(2) by (simp_all add: div_mult_mod_eq)
    then show "?k * b \<le> a" "a + 1 \<le> (?k + 1) * b" unfolding distrib_right mult_1 by linarith+
  qed
  have "?k * 1 \<le> ?k * b" using k0 assms(2) by (intro mult_left_mono) auto
  then have kn: "?k < 9007199254740992" using kb(1) assms by linarith
  have "of_int ?k \<le> ?q" using kb(1) assms(2) by (simp add: le_divide_eq flip: of_int_mult)
  then have "fl (of_int ?k) \<le> fl ?q" using k0 by (intro sig_round_mono) auto
  then have lo: "of_int ?k \<le> fl ?q" using k0 kn by simp
  have B: "(0 :: rat) < of_int b" using assms(2) by simp
  have "(of_int (a + 1) :: rat) \<le> of_int ((?k + 1) * b)" using kb(2) by (simp only: of_int_le_iff)
  then have "?q + 1 / of_int b \<le> of_int (?k + 1)" using B by (simp add: field_simps)
  moreover have "?q / 9007199254740992 < 1 / of_int b"
  proof -
    have "(of_int a :: rat) < of_int 9007199254740992" unfolding of_int_less_iff using assms(2,3) by simp
    then show ?thesis using B by (simp add: field_simps)
  qed
  ultimately have "fl ?q < of_int (?k + 1)" using fl_upper [OF q] by linarith
  then show ?thesis using lo by (simp add: floor_unique)
qed simp

end
