(* ===== verification/Rate.thy ===== *)
theory Rate
  imports Coordination LuaNumber
begin

text \<open>
  Rate limits: the Lua scripts of \<open>internal/coordination/rate_script.go\<close> and the Go functions of \<open>rate.go\<close>
  around them. The hash, string and expiry commands of the Valkey server are a record of operations on a
  store. A hash field is absent, a text that is not a number, or a number; what a script writes is the number
  that \<open>tonumber\<close> reads back from its \<open>tostring\<close>. Script variables that hold integers below $2^{53}$ are
  integers; fractional ones are rationals rounded after each operation.
\<close>

subsection \<open>The commands the scripts use\<close>

record 's hops =
  h_time :: "'s \<Rightarrow> int \<times> int"
  h_get :: "string \<Rightarrow> string \<Rightarrow> 's \<Rightarrow> rat option option"
  h_set :: "string \<Rightarrow> (string \<times> rat) list \<Rightarrow> 's \<Rightarrow> 's"
  h_pexpire :: "string \<Rightarrow> rat \<Rightarrow> 's \<Rightarrow> 's"
  h_exists :: "string \<Rightarrow> 's \<Rightarrow> bool"
  h_setnx :: "string \<Rightarrow> int \<Rightarrow> 's \<Rightarrow> bool \<times> 's"

definition rate_now :: "'s hops \<Rightarrow> 's \<Rightarrow> int" where
  "rate_now ops s = fst (h_time ops s) * 1000 + snd (h_time ops s) div 1000"

subsection \<open>rate_script.go\<close>

text \<open>The seven arguments of a bucket and the row of the table \<open>states\<close>.\<close>

record bucket_args =
  ba_capacity :: int
  ba_refill :: int
  ba_interval :: int
  ba_requested :: int
  ba_idle_ttl :: int
  ba_window :: int
  ba_offset :: int

record bucket_row =
  br_tokens :: rat
  br_mark :: rat
  br_amount :: int
  br_ttl :: rat
  br_capacity :: int
  br_fixed :: bool
  br_window :: int
  br_offset :: int
  br_can_refund :: bool

abbreviation corrupt_bucket :: string where "corrupt_bucket \<equiv> ''CORRUPT_COORDINATION_BUCKET''"

definition clamp_tokens :: "int \<Rightarrow> rat \<Rightarrow> rat" where
  "clamp_tokens capacity tokens = min (of_int capacity) (max 0 tokens)"

definition window_index :: "int \<Rightarrow> bucket_args \<Rightarrow> int" where
  "window_index now a = \<lfloor>fl (of_int (now - ba_offset a) / of_int (ba_window a))\<rfloor>"

definition until_reset :: "int \<Rightarrow> bucket_args \<Rightarrow> int" where
  "until_reset now a = max 1 ((window_index now a + 1) * ba_window a + ba_offset a - now)"

text \<open>The part of the loops that reads a fixed-window bucket, the same text in the three scripts.\<close>

definition read_window :: "int \<Rightarrow> bucket_args \<Rightarrow> (string \<Rightarrow> rat option option) \<Rightarrow> string + bucket_row" where
  "read_window now a raw =
    (let fields = map raw [''tokens'', ''window_index'', ''capacity_tokens'', ''window_ms'', ''window_offset_ms''];
         row = \<lparr>br_tokens = of_int (ba_capacity a), br_mark = of_int (window_index now a), br_amount = ba_requested a,
           br_ttl = of_int (until_reset now a), br_capacity = ba_capacity a, br_fixed = True, br_window = ba_window a,
           br_offset = ba_offset a, br_can_refund = False\<rparr>
     in if \<exists>x \<in> set (tl fields). (x \<noteq> None) \<noteq> (hd fields \<noteq> None) then Inl corrupt_bucket
        else case fields of
          [Some (Some stored_tokens), Some (Some stored_window), Some (Some stored_capacity), Some (Some stored_window_ms), Some (Some stored_offset_ms)] \<Rightarrow>
            if stored_window > of_int (window_index now a) then Inl corrupt_bucket
            else if stored_window = of_int (window_index now a) then
              if stored_capacity = of_int (ba_capacity a) \<and> stored_window_ms = of_int (ba_window a) \<and> stored_offset_ms = of_int (ba_offset a)
              then Inr (row\<lparr>br_tokens := clamp_tokens (ba_capacity a) stored_tokens, br_can_refund := True\<rparr>)
              else Inr (row\<lparr>br_tokens := 0\<rparr>)
            else Inr row
        | None # _ \<Rightarrow> Inr row
        | _ \<Rightarrow> Inl corrupt_bucket)"

text \<open>The part that reads a continuously refilled bucket, with the delay of a clock that went back.\<close>

definition read_refill :: "int \<Rightarrow> bucket_args \<Rightarrow> (string \<Rightarrow> rat option option) \<Rightarrow> string + bucket_row \<times> rat" where
  "read_refill now a raw =
    (let row = \<lparr>br_tokens = of_int (ba_capacity a), br_mark = of_int now, br_amount = ba_requested a,
           br_ttl = of_int (ba_idle_ttl a), br_capacity = ba_capacity a, br_fixed = False, br_window = 0, br_offset = 0, br_can_refund = False\<rparr>
     in case (raw ''tokens'', raw ''updated_ms'') of
          (None, None) \<Rightarrow> Inr (row, 0)
        | (Some (Some tokens), Some (Some updated_ms)) \<Rightarrow>
            if updated_ms < 0 \<or> updated_ms > of_int (now + ba_idle_ttl a) then Inl corrupt_bucket
            else
              let tokens = clamp_tokens (ba_capacity a) tokens
              in if of_int now \<ge> updated_ms then
                   Inr (row\<lparr>br_tokens := min (of_int (ba_capacity a))
                     (fl (tokens + fl (fl (fl (of_int now - updated_ms) * of_int (ba_refill a)) / of_int (ba_interval a))))\<rparr>, 0)
                 else
                   let clock_delay_ms = fl (updated_ms - of_int now)
                   in Inr (row\<lparr>br_tokens := tokens, br_mark := updated_ms, br_ttl := fl (of_int (ba_idle_ttl a) + clock_delay_ms)\<rparr>, clock_delay_ms)
        | _ \<Rightarrow> Inl corrupt_bucket)"

definition refill_wait :: "bucket_args \<Rightarrow> rat \<Rightarrow> rat \<Rightarrow> rat" where
  "refill_wait a tokens clock_delay_ms =
    fl (clock_delay_ms + of_int \<lceil>fl (fl (fl (of_int (ba_requested a) - tokens) * of_int (ba_interval a)) / of_int (ba_refill a))\<rceil>)"

text \<open>One turn of the acquire script's first loop: the row and the new \<open>retry_after_ms\<close>.\<close>

definition acquire_row :: "int \<Rightarrow> bucket_args \<Rightarrow> (string \<Rightarrow> rat option option) \<Rightarrow> rat \<Rightarrow> string + bucket_row \<times> rat" where
  "acquire_row now a raw retry_after_ms =
    (if ba_window a > 0 then
       bindR (read_window now a raw) (\<lambda>row. Inr (row,
         if br_tokens row < of_int (ba_requested a) then max retry_after_ms (br_ttl row) else retry_after_ms))
     else
       bindR (read_refill now a raw) (\<lambda>(row, clock_delay_ms). Inr (row,
         if br_tokens row < of_int (ba_requested a) then max retry_after_ms (max 1 (refill_wait a (br_tokens row) clock_delay_ms)) else retry_after_ms)))"

fun acquire_rows :: "'s hops \<Rightarrow> int \<Rightarrow> (string \<times> bucket_args) list \<Rightarrow> rat \<Rightarrow> 's \<Rightarrow> string + bucket_row list \<times> rat" where
  "acquire_rows ops now [] retry_after_ms s = Inr ([], retry_after_ms)"
| "acquire_rows ops now ((key, a) # rest) retry_after_ms s =
    bindR (acquire_row now a (\<lambda>field. h_get ops key field s) retry_after_ms) (\<lambda>(row, retry).
      bindR (acquire_rows ops now rest retry s) (\<lambda>(rows, retry). Inr (row # rows, retry)))"

text \<open>\<open>HSET\<close> and \<open>PEXPIRE\<close> of a row.\<close>

definition row_fields :: "bucket_row \<Rightarrow> rat \<Rightarrow> (string \<times> rat) list" where
  "row_fields row remaining =
    (if br_fixed row
     then [(''tokens'', lua_text remaining), (''window_index'', lua_text (br_mark row)), (''capacity_tokens'', lua_text (of_int (br_capacity row))),
           (''window_ms'', lua_text (of_int (br_window row))), (''window_offset_ms'', lua_text (of_int (br_offset row)))]
     else [(''tokens'', lua_text remaining), (''updated_ms'', lua_text (br_mark row))])"

definition write_row :: "'s hops \<Rightarrow> string \<Rightarrow> bucket_row \<Rightarrow> rat \<Rightarrow> 's \<Rightarrow> 's" where
  "write_row ops key row remaining s = h_pexpire ops key (br_ttl row) (h_set ops key (row_fields row remaining) s)"

fun acquire_write :: "'s hops \<Rightarrow> bool \<Rightarrow> (string \<times> bucket_row) list \<Rightarrow> 's \<Rightarrow> int list \<times> 's" where
  "acquire_write ops granted [] s = ([], s)"
| "acquire_write ops granted ((key, row) # rest) s =
    (let remaining = (if granted then fl (br_tokens row - of_int (br_amount row)) else br_tokens row);
         s = write_row ops key row remaining s;
         (result, s) = acquire_write ops granted rest s
     in (\<lfloor>max 0 remaining\<rfloor> # result, s))"

definition acquireRateScript :: "'s hops \<Rightarrow> (string \<times> bucket_args) list \<Rightarrow> 's \<Rightarrow> (string + int list) \<times> 's" where
  "acquireRateScript ops buckets s =
    (let now = rate_now ops s
     in case acquire_rows ops now buckets 0 s of
          Inl err \<Rightarrow> (Inl err, s)
        | Inr (rows, retry_after_ms) \<Rightarrow>
            let granted = (retry_after_ms = 0);
                (result, s) = acquire_write ops granted (zip (map fst buckets) rows) s
            in (Inr ([if granted then 1 else 0, now, \<lfloor>retry_after_ms\<rfloor>] @ result), s))"

text \<open>The row that the inspect and refund scripts compute for a bucket.\<close>

definition read_bucket :: "int \<Rightarrow> bucket_args \<Rightarrow> (string \<Rightarrow> rat option option) \<Rightarrow> string + bucket_row" where
  "read_bucket now a raw =
    (if ba_window a > 0 then read_window now a raw else bindR (read_refill now a raw) (\<lambda>(row, _). Inr row))"

text \<open>The inspect script writes each bucket before it reads the next.\<close>

fun inspect_loop :: "'s hops \<Rightarrow> int \<Rightarrow> (string \<times> bucket_args) list \<Rightarrow> 's \<Rightarrow> (string + int list) \<times> 's" where
  "inspect_loop ops now [] s = (Inr [], s)"
| "inspect_loop ops now ((key, a) # rest) s =
    (let raw = (\<lambda>field. h_get ops key field s)
     in case read_bucket now a raw of
          Inl err \<Rightarrow> (Inl err, s)
        | Inr row \<Rightarrow>
            let (result, s) = inspect_loop ops now rest (write_row ops key row (br_tokens row) s)
            in (bindR result (\<lambda>values. Inr (\<lfloor>max 0 (br_tokens row)\<rfloor> # values)), s))"

definition inspectRateScript :: "'s hops \<Rightarrow> (string \<times> bucket_args) list \<Rightarrow> 's \<Rightarrow> (string + int list) \<times> 's" where
  "inspectRateScript ops buckets s =
    (let now = rate_now ops s; (result, s) = inspect_loop ops now buckets s
     in (bindR result (\<lambda>values. Inr (now # values)), s))"

fun refund_rows :: "'s hops \<Rightarrow> int \<Rightarrow> (string \<times> bucket_args) list \<Rightarrow> 's \<Rightarrow> string + bucket_row list" where
  "refund_rows ops now [] s = Inr []"
| "refund_rows ops now ((key, a) # rest) s =
    (let raw = (\<lambda>field. h_get ops key field s)
     in bindR (read_bucket now a raw) (\<lambda>row.
          bindR (refund_rows ops now rest s) (\<lambda>rows. Inr (row # rows))))"

definition refunded :: "bucket_row \<Rightarrow> rat" where
  "refunded row =
    (if br_fixed row \<and> \<not> br_can_refund row then br_tokens row
     else min (of_int (br_capacity row)) (fl (br_tokens row + of_int (br_amount row))))"

fun refund_write :: "'s hops \<Rightarrow> bool \<Rightarrow> (string \<times> bucket_row) list \<Rightarrow> 's \<Rightarrow> int list \<times> 's" where
  "refund_write ops applied [] s = ([], s)"
| "refund_write ops applied ((key, row) # rest) s =
    (let remaining = (if applied then refunded row else br_tokens row);
         s = (if applied then write_row ops key row remaining s else s);
         (result, s) = refund_write ops applied rest s
     in (\<lfloor>max 0 remaining\<rfloor> # result, s))"

definition refundRateScript :: "'s hops \<Rightarrow> string \<Rightarrow> int \<Rightarrow> (string \<times> bucket_args) list \<Rightarrow> 's \<Rightarrow> (string + int list) \<times> 's" where
  "refundRateScript ops marker marker_ttl_ms buckets s =
    (let now = rate_now ops s;
         already_applied = h_exists ops marker s
     in case refund_rows ops now buckets s of
          Inl err \<Rightarrow> (Inl err, s)
        | Inr rows \<Rightarrow>
            let (applied, s) = (if already_applied then (False, s) else h_setnx ops marker marker_ttl_ms s);
                (result, s) = refund_write ops applied (zip (map fst buckets) rows) s
            in (Inr ([if applied then 1 else 0, now] @ result), s))"

subsection \<open>rate.go\<close>

abbreviation ms :: duration where "ms \<equiv> 1000000"
abbreviation maximumBucketTokens :: int where "maximumBucketTokens \<equiv> 1000000000000"
abbreviation maximumRefillInterval :: duration where "maximumRefillInterval \<equiv> 86400000000000"
abbreviation maximumFixedWindow :: duration where "maximumFixedWindow \<equiv> 2678400000000000"
abbreviation maximumFullRefillMillis :: int where "maximumFullRefillMillis \<equiv> 2592000000"
abbreviation maximumRateDimensions :: nat where "maximumRateDimensions \<equiv> 16"

text \<open>
  The script arguments of one limit; \<open>d div ms\<close> is \<open>Duration.Milliseconds()\<close> for the non-negative durations
  that pass the checks. The Go expressions over \<open>float64\<close> round after each operation.
\<close>

definition bucket_arguments :: "BucketLimit \<Rightarrow> coord_error + bucket_args" where
  [validators]: "bucket_arguments l =
    (let args = (\<lambda>idle. \<lparr>ba_capacity = bl_CapacityTokens l, ba_refill = bl_RefillTokens l, ba_interval = bl_RefillInterval l div ms,
           ba_requested = bl_RequestedTokens l, ba_idle_ttl = idle, ba_window = bl_FixedWindow l div ms, ba_offset = bl_FixedWindowOffset l div ms\<rparr>)
     in case validateDimension (bl_Dimension l) of
          Some err \<Rightarrow> Inl err
        | None \<Rightarrow>
            if bl_Metric l \<noteq> MetricRequests \<and> bl_Metric l \<noteq> MetricTokens \<and> bl_Metric l \<noteq> MetricDailyTokens then
              Inl (ErrInvalidInput ''unsupported bucket metric'')
            else if bl_CapacityTokens l < 1 \<or> bl_CapacityTokens l > maximumBucketTokens \<or> bl_RequestedTokens l < 1 \<or>
                bl_RequestedTokens l > bl_CapacityTokens l then
              Inl (ErrInvalidInput ''bucket token values are outside supported bounds'')
            else if bl_FixedWindow l > 0 \<or> bl_FixedWindowOffset l > 0 then
              if bl_RefillTokens l \<noteq> 0 \<or> bl_RefillInterval l \<noteq> 0 \<or> bl_FixedWindow l < ms \<or> bl_FixedWindow l > maximumFixedWindow \<or>
                bl_FixedWindowOffset l < 0 \<or> bl_FixedWindowOffset l \<ge> bl_FixedWindow l then
                Inl (ErrInvalidInput ''fixed quota window is invalid'')
              else Inr (args 0)
            else if bl_RefillTokens l < 1 \<or> bl_RefillTokens l > maximumBucketTokens \<or> bl_RefillInterval l < ms \<or>
                bl_RefillInterval l > maximumRefillInterval then
              Inl (ErrInvalidInput ''refill interval must be between 1ms and 24h'')
            else
              let fullRefillMillis = \<lceil>fl (fl (of_int (bl_CapacityTokens l) * of_int (bl_RefillInterval l div ms)) / of_int (bl_RefillTokens l))\<rceil>
              in if fullRefillMillis > maximumFullRefillMillis then Inl (ErrInvalidInput ''bucket full-refill duration exceeds 30 days'')
                 else Inr (args (max (bl_RefillInterval l div ms) (fullRefillMillis * 2))))"

fun scan_buckets :: "Coordinator \<Rightarrow> string list \<Rightarrow> BucketLimit list \<Rightarrow> coord_error + (string \<times> bucket_args) list" where
  "scan_buckets c seen [] = Inr []"
| "scan_buckets c seen (l # ls) =
    bindR (bucket_arguments l) (\<lambda>a.
      let key = rateKey c l in
      if key \<in> set seen then Inl (ErrInvalidInput ''duplicate bucket dimension and metric'')
      else bindR (scan_buckets c (key # seen) ls) (\<lambda>rest. Inr ((key, a) # rest)))"

definition prepareRateLimits :: "Coordinator \<Rightarrow> BucketLimit list \<Rightarrow> coord_error + (string \<times> bucket_args) list" where
  "prepareRateLimits c limits =
    (if length limits = 0 then Inl (ErrInvalidInput ''at least one bucket limit is required'')
     else if length limits > maximumRateDimensions then Inl (ErrInvalidInput ''at most 16 bucket limits are supported'')
     else scan_buckets c [] limits)"

definition bucket_states :: "BucketLimit list \<Rightarrow> int list \<Rightarrow> BucketState list" where
  "bucket_states limits values =
    map (\<lambda>(l, v). \<lparr>bs_Dimension = bl_Dimension l, bs_Metric = bl_Metric l, bs_RemainingTokens = v\<rparr>) (zip limits values)"

abbreviation unix_ms :: "int \<Rightarrow> gotime" where "unix_ms t \<equiv> 62135596800000000000 + t * ms"

definition acquire_rate_reply :: "BucketLimit list \<Rightarrow> string + int list \<Rightarrow> coord_error + RateDecision" where
  "acquire_rate_reply limits reply =
    (let op = ''acquire rate tokens'' in
     case reply of
       Inl err \<Rightarrow> Inl (unavailable op err)
     | Inr values \<Rightarrow>
         if length values \<noteq> 3 + length limits \<or> (values ! 0 \<noteq> 0 \<and> values ! 0 \<noteq> 1) \<or> values ! 1 \<le> 0 \<or> values ! 2 < 0 then
           Inl (unavailable op ''invalid script result'')
         else if values ! 0 \<noteq> 1 \<and> values ! 2 = 0 then Inl (unavailable op ''missing retry delay'')
         else if \<exists>v \<in> set (drop 3 values). v < 0 then Inl (unavailable op ''negative bucket balance'')
         else Inr \<lparr>ra_Granted = (values ! 0 = 1), ra_ObservedAt = unix_ms (values ! 1),
           ra_RetryAt = (if values ! 0 = 1 then 0 else unix_ms (values ! 1) + wrap64 (values ! 2 * ms)),
           ra_Buckets = bucket_states limits (drop 3 values)\<rparr>)"

definition AcquireRate :: "'s hops \<Rightarrow> Coordinator \<Rightarrow> BucketLimit list \<Rightarrow> 's \<Rightarrow> (coord_error + RateDecision) \<times> 's" where
  "AcquireRate ops c limits s =
    (case prepareRateLimits c limits of
       Inl err \<Rightarrow> (Inl err, s)
     | Inr buckets \<Rightarrow> let (reply, s) = acquireRateScript ops buckets s in (acquire_rate_reply limits reply, s))"

definition inspect_rate_reply :: "BucketLimit list \<Rightarrow> string + int list \<Rightarrow> coord_error + RateObservation" where
  "inspect_rate_reply limits reply =
    (let op = ''inspect rate tokens'' in
     case reply of
       Inl err \<Rightarrow> Inl (unavailable op err)
     | Inr values \<Rightarrow>
         if length values \<noteq> 1 + length limits \<or> values ! 0 \<le> 0 then Inl (unavailable op ''invalid script result'')
         else if \<exists>v \<in> set (drop 1 values). v < 0 then Inl (unavailable op ''negative bucket balance'')
         else Inr \<lparr>ro_ObservedAt = unix_ms (values ! 0), ro_Buckets = bucket_states limits (drop 1 values)\<rparr>)"

definition InspectRate :: "'s hops \<Rightarrow> Coordinator \<Rightarrow> BucketLimit list \<Rightarrow> 's \<Rightarrow> (coord_error + RateObservation) \<times> 's" where
  "InspectRate ops c limits s =
    (case prepareRateLimits c limits of
       Inl err \<Rightarrow> (Inl err, s)
     | Inr buckets \<Rightarrow> let (reply, s) = inspectRateScript ops buckets s in (inspect_rate_reply limits reply, s))"

definition refund_rate_reply :: "BucketLimit list \<Rightarrow> string + int list \<Rightarrow> coord_error + RateRefundDecision" where
  "refund_rate_reply limits reply =
    (let op = ''refund rate tokens'' in
     case reply of
       Inl err \<Rightarrow> Inl (unavailable op err)
     | Inr values \<Rightarrow>
         if length values \<noteq> 2 + length limits \<or> (values ! 0 \<noteq> 0 \<and> values ! 0 \<noteq> 1) \<or> values ! 1 \<le> 0 then
           Inl (unavailable op ''invalid script result'')
         else if \<exists>v \<in> set (drop 2 values). v < 0 then Inl (unavailable op ''negative bucket balance'')
         else Inr \<lparr>rr_Applied = (values ! 0 = 1), rr_ObservedAt = unix_ms (values ! 1), rr_Buckets = bucket_states limits (drop 2 values)\<rparr>)"

definition RefundRate :: "'s hops \<Rightarrow> Coordinator \<Rightarrow> string \<Rightarrow> BucketLimit list \<Rightarrow> 's \<Rightarrow> (coord_error + RateRefundDecision) \<times> 's" where
  "RefundRate ops c reference limits s =
    (if length reference = 0 \<or> length reference > maximumSubjectBytes then
       (Inl (ErrInvalidInput ''refund reference must contain 1-512 bytes''), s)
     else case prepareRateLimits c limits of
       Inl err \<Rightarrow> (Inl err, s)
     | Inr buckets \<Rightarrow>
         let (reply, s) = refundRateScript ops (rateRefundKey c reference) maximumFullRefillMillis buckets s
         in (refund_rate_reply limits reply, s))"

end
