(* ===== verification/RateSafety.thy ===== *)
theory RateSafety
  imports Rate
begin

text \<open>
  What the rate scripts guarantee over any server that keeps the interface \<open>hash_store\<close>: decisions are all
  or nothing, balances stay within the capacity, a refund is applied once, and a fixed-window quota bounds
  what is granted in each window.
\<close>

subsection \<open>The interface to the server\<close>

type_synonym hview = "string \<Rightarrow> string \<Rightarrow> rat option option"

definition put_fields :: "(string \<times> rat) list \<Rightarrow> (string \<Rightarrow> rat option option) \<Rightarrow> string \<Rightarrow> rat option option" where
  "put_fields kvs M = M ++ map_of (map (\<lambda>(f, v). (f, Some v)) kvs)"

locale hash_store =
  fixes ops :: "'s hops" and h :: "'s \<Rightarrow> hview" and deadline :: "'s \<Rightarrow> string \<Rightarrow> int option" and elapse :: "'s \<Rightarrow> 's \<Rightarrow> bool"
  assumes time_law: "h_time ops (h_set ops k kvs s) = h_time ops s" "h_time ops (h_pexpire ops k t s) = h_time ops s"
      "h_time ops (snd (h_setnx ops k n s)) = h_time ops s"
    and get_law: "h_get ops k f s = h s k f"
    and set_law: "h (h_set ops k kvs s) = (h s)(k := put_fields kvs (h s k))"
      "k' \<noteq> k \<Longrightarrow> h_exists ops k' (h_set ops k kvs s) = h_exists ops k' s" "k' \<noteq> k \<Longrightarrow> deadline (h_set ops k kvs s) k' = deadline s k'"
    and pexpire_law: "0 < n \<Longrightarrow> h (h_pexpire ops k (of_int n) s) = h s"
      "0 < n \<Longrightarrow> h_exists ops k' (h_pexpire ops k (of_int n) s) = h_exists ops k' s"
      "0 < n \<Longrightarrow> h s k \<noteq> Map.empty \<Longrightarrow> deadline (h_pexpire ops k (of_int n) s) k = Some (rate_now ops s + n)"
      "k' \<noteq> k \<Longrightarrow> deadline (h_pexpire ops k t s) k' = deadline s k'"
      "k' \<noteq> k \<Longrightarrow> h (h_pexpire ops k t s) k' = h s k'" "k' \<noteq> k \<Longrightarrow> h_exists ops k' (h_pexpire ops k t s) = h_exists ops k' s"
    and setnx_law: "fst (h_setnx ops k n s) = (\<not> h_exists ops k s)" "k' \<noteq> k \<Longrightarrow> h (snd (h_setnx ops k n s)) k' = h s k'"
      "0 < n \<Longrightarrow> h_exists ops k (snd (h_setnx ops k n s))" "k' \<noteq> k \<Longrightarrow> deadline (snd (h_setnx ops k n s)) k' = deadline s k'"
    and elapse_law: "elapse s s' \<Longrightarrow> rate_now ops s \<le> rate_now ops s'"
      "elapse s s' \<Longrightarrow> h s' k = h s k \<and> deadline s' k = deadline s k \<or>
        (\<exists>t. deadline s k = Some t \<and> t \<le> rate_now ops s' \<and> h s' k = Map.empty \<and> deadline s' k = None)"

subsection \<open>Reading a bucket\<close>

lemma clamp_bounds: "0 \<le> cap \<Longrightarrow> 0 \<le> clamp_tokens cap t" "clamp_tokens cap t \<le> of_int cap"
  by (simp_all add: clamp_tokens_def)

lemma until_reset_pos: "1 \<le> until_reset now a"
  by (simp add: until_reset_def)

lemma read_window_row:
  assumes "read_window now a raw = Inr row" "0 \<le> ba_capacity a"
  shows "0 \<le> br_tokens row \<and> br_tokens row \<le> of_int (ba_capacity a) \<and> br_amount row = ba_requested a \<and> br_capacity row = ba_capacity a \<and>
    br_fixed row \<and> br_ttl row = of_int (until_reset now a) \<and> br_mark row = of_int (window_index now a) \<and> br_window row = ba_window a \<and> br_offset row = ba_offset a"
  using assms clamp_bounds by (auto simp: read_window_def Let_def split: if_splits option.splits list.splits)

lemma read_refill_row:
  assumes "read_refill now a raw = Inr (row, delay)" "0 \<le> ba_capacity a" "0 < ba_refill a" "0 < ba_interval a"
  shows "0 \<le> br_tokens row \<and> br_tokens row \<le> of_int (ba_capacity a) \<and> br_amount row = ba_requested a \<and> br_capacity row = ba_capacity a \<and>
    \<not> br_fixed row"
proof -
  have "0 \<le> fl (clamp_tokens (ba_capacity a) t + fl (fl (fl (of_int now - u) * of_int (ba_refill a)) / of_int (ba_interval a)))"
    if "u \<le> of_int now" for t u
    using that assms clamp_bounds(1) [of "ba_capacity a" t] by (intro fl_nonneg add_nonneg_nonneg divide_nonneg_nonneg mult_nonneg_nonneg) auto
  then show ?thesis using assms clamp_bounds by (auto simp: read_refill_def Let_def split: if_splits option.splits)
qed

text \<open>What \<open>prepareRateLimits\<close> passes to the scripts.\<close>

definition valid_args :: "bucket_args \<Rightarrow> bool" where
  "valid_args a \<longleftrightarrow> 1 \<le> ba_capacity a \<and> ba_capacity a \<le> maximumBucketTokens \<and> 1 \<le> ba_requested a \<and> ba_requested a \<le> ba_capacity a \<and>
    (if ba_window a > 0 then ba_window a \<le> 2678400000 \<and> 0 \<le> ba_offset a \<and> ba_offset a \<le> ba_window a
     else 1 \<le> ba_refill a \<and> 1 \<le> ba_interval a \<and> 1 \<le> ba_idle_ttl a \<and> ba_idle_ttl a \<le> 5184000000)"

lemma bucket_arguments_Inr:
  assumes "bucket_arguments l = Inr a"
  shows "valid_args a" "ba_capacity a = bl_CapacityTokens l" "ba_requested a = bl_RequestedTokens l"
    "ba_window a = bl_FixedWindow l div ms" "ba_offset a = bl_FixedWindowOffset l div ms"
proof -
  have le: "x \<le> y \<Longrightarrow> x div ms \<le> y div ms" for x y :: int by (rule zdiv_mono1) simp_all
  show f: "ba_capacity a = bl_CapacityTokens l" "ba_requested a = bl_RequestedTokens l"
    "ba_window a = bl_FixedWindow l div ms" "ba_offset a = bl_FixedWindowOffset l div ms"
    using assms by (auto simp: bucket_arguments_def Let_def split: if_splits option.splits)
  show "valid_args a"
  proof (cases "bl_FixedWindow l > 0 \<or> bl_FixedWindowOffset l > 0")
    case True
    then have c: "1 \<le> bl_CapacityTokens l" "bl_CapacityTokens l \<le> maximumBucketTokens" "1 \<le> bl_RequestedTokens l" "bl_RequestedTokens l \<le> bl_CapacityTokens l"
      "ms \<le> bl_FixedWindow l" "bl_FixedWindow l \<le> maximumFixedWindow" "0 \<le> bl_FixedWindowOffset l" "bl_FixedWindowOffset l \<le> bl_FixedWindow l"
      using assms by (auto simp: bucket_arguments_def Let_def split: if_splits option.splits)
    have "1 \<le> bl_FixedWindow l div ms" "bl_FixedWindow l div ms \<le> 2678400000" "0 \<le> bl_FixedWindowOffset l div ms"
      "bl_FixedWindowOffset l div ms \<le> bl_FixedWindow l div ms"
      using le [OF c(5)] le [OF c(6)] le [OF c(7)] le [OF c(8)] by simp_all
    then show ?thesis using c(1-4) f by (simp add: valid_args_def)
  next
    case False
    define full where "full = \<lceil>fl (fl (of_int (bl_CapacityTokens l) * of_int (bl_RefillInterval l div ms)) / of_int (bl_RefillTokens l))\<rceil>"
    have c: "1 \<le> bl_CapacityTokens l" "bl_CapacityTokens l \<le> maximumBucketTokens" "1 \<le> bl_RequestedTokens l" "bl_RequestedTokens l \<le> bl_CapacityTokens l"
      "1 \<le> bl_RefillTokens l" "ms \<le> bl_RefillInterval l" "bl_RefillInterval l \<le> maximumRefillInterval" "full \<le> maximumFullRefillMillis"
      "a = \<lparr>ba_capacity = bl_CapacityTokens l, ba_refill = bl_RefillTokens l, ba_interval = bl_RefillInterval l div ms,
           ba_requested = bl_RequestedTokens l, ba_idle_ttl = max (bl_RefillInterval l div ms) (full * 2), ba_window = bl_FixedWindow l div ms, ba_offset = bl_FixedWindowOffset l div ms\<rparr>"
      using assms False by (auto simp: bucket_arguments_def Let_def full_def [symmetric] simp del: ceiling_le_iff less_ceiling_iff split: if_splits option.splits)
    have "1 \<le> bl_RefillInterval l div ms" "bl_RefillInterval l div ms \<le> 86400000" "bl_FixedWindow l div ms \<le> 0"
      using le [OF c(6)] le [OF c(7)] le [of "bl_FixedWindow l" 0] False by simp_all
    then show ?thesis using c(1-5,8) by (simp add: valid_args_def c(9))
  qed
qed

lemma scan_buckets_Inr:
  "scan_buckets c seen limits = Inr bs \<Longrightarrow> map fst bs = map (rateKey c) limits \<and> distinct (map fst bs) \<and> set (map fst bs) \<inter> set seen = {} \<and>
    list_all2 (\<lambda>l b. bucket_arguments l = Inr (snd b)) limits bs"
proof (induction limits arbitrary: seen bs)
  case (Cons l ls)
  then obtain a rest where a: "bucket_arguments l = Inr a" "rateKey c l \<notin> set seen" "scan_buckets c (rateKey c l # seen) ls = Inr rest"
    "bs = (rateKey c l, a) # rest" by (auto simp: bindR_def Let_def split: sum.splits if_splits)
  note IH = Cons.IH [OF a(3)]
  then have k: "distinct (map fst rest)" "map fst rest = map (rateKey c) ls" "set (map fst rest) \<inter> set (rateKey c l # seen) = {}"
    "list_all2 (\<lambda>l b. bucket_arguments l = Inr (snd b)) ls rest" by blast+
  have "distinct (map fst bs)" unfolding a(4) list.map fst_conv distinct.simps using k(1,3) by auto
  moreover have "set (map fst bs) \<inter> set seen = {}" unfolding a(4) list.map fst_conv list.set using k(3) a(2) by auto
  ultimately show ?case using k(2,4) a(1,4) by simp
qed simp

lemma prepareRateLimits_Inr:
  assumes "prepareRateLimits c limits = Inr bs"
  shows "map fst bs = map (rateKey c) limits" "distinct (map fst bs)" "list_all2 (\<lambda>l b. bucket_arguments l = Inr (snd b)) limits bs"
    "\<forall>b \<in> set bs. valid_args (snd b)"
proof -
  have "scan_buckets c [] limits = Inr bs" using assms by (simp add: prepareRateLimits_def split: if_splits)
  note s = scan_buckets_Inr [OF this]
  show "map fst bs = map (rateKey c) limits" "distinct (map fst bs)" and l: "list_all2 (\<lambda>l b. bucket_arguments l = Inr (snd b)) limits bs" using s by auto
  show "\<forall>b \<in> set bs. valid_args (snd b)" 
  proof
    fix b assume "b \<in> set bs"
    then obtain i where "i < length bs" "b = bs ! i" by (auto simp: in_set_conv_nth)
    then have "bucket_arguments (limits ! i) = Inr (snd b)" using l by (simp add: list_all2_conv_all_nth)
    then show "valid_args (snd b)" by (rule bucket_arguments_Inr(1))
  qed
qed

text \<open>A bucket the scripts can use: its fields are absent or numbers, and its time stamp is a whole number.\<close>

definition whole_stamp :: "(string \<Rightarrow> rat option option) \<Rightarrow> bool" where
  "whole_stamp M \<longleftrightarrow> (\<forall>u. M ''updated_ms'' = Some (Some u) \<longrightarrow> u \<in> \<int>)"

lemma read_bucket_row:
  assumes v: "valid_args a" and r: "read_bucket now a M = Inr row"
  shows "0 \<le> br_tokens row" "br_tokens row \<le> of_int (ba_capacity a)" "br_amount row = ba_requested a" "br_capacity row = ba_capacity a"
    "br_fixed row = (0 < ba_window a)"
  using read_window_row [of now a M row] read_refill_row [of now a M row] v r
  by (auto simp: read_bucket_def valid_args_def bindR_def split: if_splits sum.splits)

lemma read_bucket_ttl:
  assumes v: "valid_args a" and r: "read_bucket now a M = Inr row" and w: "whole_stamp M"
  obtains n where "br_ttl row = of_int n" "0 < n"
proof (cases "0 < ba_window a")
  case True
  then have "read_window now a M = Inr row" using r by (simp add: read_bucket_def)
  then have "br_ttl row = of_int (until_reset now a)" using read_window_row [of now a M row] v by (auto simp: valid_args_def)
  then show thesis using that until_reset_pos [of now a] by simp
next
  case False
  then have idle: "1 \<le> ba_idle_ttl a" "ba_idle_ttl a \<le> 5184000000" using v by (auto simp: valid_args_def)
  obtain delay where rr: "read_refill now a M = Inr (row, delay)" using r False by (auto simp: read_bucket_def bindR_def split: sum.splits)
  then consider "br_ttl row = of_int (ba_idle_ttl a)" | u where "M ''updated_ms'' = Some (Some u)" "u \<le> of_int (now + ba_idle_ttl a)" "of_int now < u"
    "br_ttl row = fl (of_int (ba_idle_ttl a) + fl (u - of_int now))"
    by (auto simp: read_refill_def Let_def split: if_splits option.splits)
  then show thesis
  proof cases
    case 1
    then show thesis using that idle by simp
  next
    case (2 u)
    then obtain n where n: "u = of_int n" using w by (auto simp: whole_stamp_def elim: Ints_cases)
    have b: "now < n" "n \<le> now + ba_idle_ttl a" using 2(2,3) unfolding n by (simp_all only: of_int_less_iff of_int_le_iff)
    have "fl (u - of_int now) = of_int (n - now)" using fl_int [of "n - now"] b idle by (simp add: n)
    then have "br_ttl row = of_int (ba_idle_ttl a + (n - now))" using fl_int [of "ba_idle_ttl a + (n - now)"] 2(4) b idle by simp
    then show thesis using that b idle by (metis add_pos_pos diff_gt_0_iff_gt zero_less_one order_less_le_trans)
  qed
qed

lemma acquire_row_read:
  "read_bucket now a M = Inl e \<Longrightarrow> acquire_row now a M r = Inl e"
  by (auto simp: read_bucket_def acquire_row_def bindR_def split: if_splits sum.splits)

lemma acquire_row_ok:
  assumes "read_bucket now a M = Inr row"
  shows "\<exists>r'. acquire_row now a M r = Inr (row, r') \<and> (if of_int (ba_requested a) \<le> br_tokens row then r' = r else max r 1 \<le> r')"
proof (cases "0 < ba_window a")
  case True
  then have w: "read_window now a M = Inr row" using assms by (simp add: read_bucket_def)
  have "br_ttl row = of_int (until_reset now a)" using w by (auto simp: read_window_def Let_def split: if_splits option.splits)
  then have "1 \<le> br_ttl row" using until_reset_pos [of now a] by simp
  then show ?thesis using True w by (simp add: acquire_row_def bindR_def max.coboundedI2)
next
  case False
  then obtain delay where "read_refill now a M = Inr (row, delay)" using assms by (auto simp: read_bucket_def bindR_def split: sum.splits)
  then show ?thesis using False by (simp add: acquire_row_def bindR_def max.coboundedI2)
qed

subsection \<open>The effect of the scripts\<close>

definition readable :: "int \<Rightarrow> (string \<times> bucket_args) list \<Rightarrow> hview \<Rightarrow> bool" where
  "readable now bs Z \<longleftrightarrow> (\<forall>(k, a) \<in> set bs. \<exists>row. read_bucket now a (Z k) = Inr row)"

definition read_rows :: "int \<Rightarrow> (string \<times> bucket_args) list \<Rightarrow> hview \<Rightarrow> (string \<times> bucket_row) list" where
  "read_rows now bs Z = map (\<lambda>(k, a). (k, projr (read_bucket now a (Z k)))) bs"

definition write_all :: "'s hops \<Rightarrow> (bucket_row \<Rightarrow> rat) \<Rightarrow> (string \<times> bucket_row) list \<Rightarrow> 's \<Rightarrow> 's" where
  "write_all ops rem krs s = fold (\<lambda>(k, row). write_row ops k row (rem row)) krs s"

definition whole_ttl :: "bucket_row \<Rightarrow> bool" where
  "whole_ttl row \<longleftrightarrow> (\<exists>n. br_ttl row = of_int n \<and> 0 < n)"

lemma read_rows_fst [simp]: "map fst (read_rows now bs Z) = map fst bs"
  by (simp add: read_rows_def o_def case_prod_beta)

lemma read_rows_zip: "zip (map fst bs) (map (\<lambda>(k, a). projr (read_bucket now a (Z k))) bs) = read_rows now bs Z"
  by (simp add: read_rows_def zip_map_map zip_same_conv_map case_prod_beta)

lemma read_rows_row:
  assumes "readable now bs Z" "\<forall>b \<in> set bs. valid_args (snd b)" "(k, row) \<in> set (read_rows now bs Z)"
  obtains a where "(k, a) \<in> set bs" "read_bucket now a (Z k) = Inr row" "valid_args a" "whole_stamp (Z k) \<Longrightarrow> whole_ttl row"
proof -
  obtain a where a: "(k, a) \<in> set bs" "row = projr (read_bucket now a (Z k))" using assms(3) by (auto simp: read_rows_def)
  then have r: "read_bucket now a (Z k) = Inr row" "valid_args a" using assms(1,2) by (fastforce simp: readable_def)+
  have "whole_stamp (Z k) \<Longrightarrow> whole_ttl row" using read_bucket_ttl [OF r(2,1)] unfolding whole_ttl_def by metis
  then show thesis using that [OF a(1) r] by blast
qed

lemma read_rows_map_of:
  assumes "distinct (map fst bs)" "(k, a) \<in> set bs"
  shows "map_of (read_rows now bs Z) k = Some (projr (read_bucket now a (Z k)))"
proof -
  have "(k, projr (read_bucket now a (Z k))) \<in> set (read_rows now bs Z)" using assms(2) by (force simp: read_rows_def)
  moreover have "distinct (map fst (read_rows now bs Z))" using assms(1) by simp
  ultimately show ?thesis by (intro map_of_is_SomeI)
qed

lemma read_rows_map_of_None: "k \<notin> set (map fst bs) \<Longrightarrow> map_of (read_rows now bs Z) k = None"
  by (metis map_of_eq_None_iff read_rows_fst list.set_map)

definition enough :: "(string \<times> bucket_row) list \<Rightarrow> bool" where
  "enough krs \<longleftrightarrow> (\<forall>(k, row) \<in> set krs. of_int (br_amount row) \<le> br_tokens row)"

abbreviation deducted :: "bool \<Rightarrow> bucket_row \<Rightarrow> rat" where
  "deducted g row \<equiv> if g then fl (br_tokens row - of_int (br_amount row)) else br_tokens row"

lemma acquire_write_all:
  "snd (acquire_write ops g krs s) = write_all ops (\<lambda>row. if g then fl (br_tokens row - of_int (br_amount row)) else br_tokens row) krs s"
  "fst (acquire_write ops g krs s) = map (\<lambda>(k, row). \<lfloor>max 0 (if g then fl (br_tokens row - of_int (br_amount row)) else br_tokens row)\<rfloor>) krs"
  by (induction krs arbitrary: s) (auto simp: write_all_def Let_def case_prod_beta)

lemma refund_write_all:
  "snd (refund_write ops True krs s) = write_all ops refunded krs s" "snd (refund_write ops False krs s) = s"
  "fst (refund_write ops g krs s) = map (\<lambda>(k, row). \<lfloor>max 0 (if g then refunded row else br_tokens row)\<rfloor>) krs"
  by (induction krs arbitrary: s) (auto simp: write_all_def Let_def case_prod_beta)

context hash_store
begin

lemmas now_laws [simp] = time_law [THEN arg_cong [where f = "\<lambda>p. fst p * 1000 + snd p div 1000"], folded rate_now_def]

lemma write_row_now [simp]: "rate_now ops (write_row ops k row rem s) = rate_now ops s"
  by (simp add: write_row_def)

lemma write_row_other:
  "k' \<noteq> k \<Longrightarrow> h (write_row ops k row rem s) k' = h s k'" "k' \<noteq> k \<Longrightarrow> deadline (write_row ops k row rem s) k' = deadline s k'"
  "k' \<noteq> k \<Longrightarrow> h_exists ops k' (write_row ops k row rem s) = h_exists ops k' s"
  by (simp_all add: write_row_def pexpire_law set_law)

lemma write_row_self:
  assumes "whole_ttl row"
  shows "h (write_row ops k row rem s) k = put_fields (row_fields row rem) (h s k)"
    "deadline (write_row ops k row rem s) k = Some (rate_now ops s + \<lfloor>br_ttl row\<rfloor>)"
proof -
  obtain n where n: "br_ttl row = of_int n" "0 < n" using assms by (auto simp: whole_ttl_def)
  show "h (write_row ops k row rem s) k = put_fields (row_fields row rem) (h s k)"
    by (simp add: write_row_def n pexpire_law set_law)
  have "put_fields (row_fields row rem) (h s k) \<noteq> Map.empty"
    by (auto simp: put_fields_def row_fields_def fun_eq_iff intro!: exI [of _ "''tokens''"])
  then show "deadline (write_row ops k row rem s) k = Some (rate_now ops s + \<lfloor>br_ttl row\<rfloor>)"
    using pexpire_law(3) [of n "h_set ops k (row_fields row rem) s" k] n by (simp add: write_row_def set_law)
qed

lemma write_all_now [simp]: "rate_now ops (write_all ops rem krs s) = rate_now ops s"
  by (induction krs arbitrary: s) (simp_all add: write_all_def case_prod_beta)

lemma write_all_other:
  "k \<notin> set (map fst krs) \<Longrightarrow> h (write_all ops rem krs s) k = h s k \<and> deadline (write_all ops rem krs s) k = deadline s k \<and>
    h_exists ops k (write_all ops rem krs s) = h_exists ops k s"
  by (induction krs arbitrary: s) (auto simp: write_all_def write_row_other)

lemma write_all_self:
  "\<lbrakk>distinct (map fst krs); map_of krs k = Some row; whole_ttl row\<rbrakk> \<Longrightarrow>
    h (write_all ops rem krs s) k = put_fields (row_fields row (rem row)) (h s k) \<and>
    deadline (write_all ops rem krs s) k = Some (rate_now ops s + \<lfloor>br_ttl row\<rfloor>)"
proof (induction krs arbitrary: s)
  case (Cons kr krs)
  obtain k' row' where kr: "kr = (k', row')" by (cases kr)
  define s1 where "s1 = write_row ops k' row' (rem row') s"
  have run: "write_all ops rem (kr # krs) s = write_all ops rem krs s1" by (simp add: write_all_def kr s1_def)
  show ?case
  proof (cases "k' = k")
    case True
    then have "row' = row" "k \<notin> set (map fst krs)" using Cons.prems kr by auto
    then show ?thesis unfolding run using write_all_other [of k krs rem s1] write_row_self [OF Cons.prems(3), of k "rem row" s] True
      by (simp add: s1_def)
  next
    case False
    then show ?thesis unfolding run using Cons kr by (simp add: s1_def write_row_other)
  qed
qed simp

lemma acquire_rows_spec:
  "\<lbrakk>readable now bs (h s); 0 \<le> r\<rbrakk> \<Longrightarrow>
    \<exists>r'. acquire_rows ops now bs r s = Inr (map (\<lambda>(k, a). projr (read_bucket now a (h s k))) bs, r') \<and> r \<le> r' \<and> (r' = r \<or> 1 \<le> r') \<and>
      (r' = 0 \<longleftrightarrow> r = 0 \<and> (\<forall>(k, a) \<in> set bs. of_int (ba_requested a) \<le> br_tokens (projr (read_bucket now a (h s k)))))"
proof (induction bs arbitrary: r)
  case (Cons b bs)
  obtain k a where b: "b = (k, a)" by (cases b)
  obtain row where row: "read_bucket now a (h s k) = Inr row" using Cons.prems(1) by (auto simp: readable_def b)
  have raw: "(\<lambda>f. h_get ops k f s) = h s k" by (simp add: get_law)
  obtain r1 where r1: "acquire_row now a (h s k) r = Inr (row, r1)"
    "if of_int (ba_requested a) \<le> br_tokens row then r1 = r else max r 1 \<le> r1" using acquire_row_ok [OF row] by blast
  have r1_pos: "0 \<le> r1" "r \<le> r1" "r1 = r \<or> 1 \<le> r1" "r1 = 0 \<longleftrightarrow> r = 0 \<and> of_int (ba_requested a) \<le> br_tokens row"
    using r1(2) Cons.prems(2) by (auto split: if_splits)
  have "readable now bs (h s)" using Cons.prems(1) by (auto simp: readable_def)
  from Cons.IH [OF this r1_pos(1)] obtain r' where
    r': "acquire_rows ops now bs r1 s = Inr (map (\<lambda>(k, a). projr (read_bucket now a (h s k))) bs, r')" "r1 \<le> r'" "r' = r1 \<or> 1 \<le> r'"
      "r' = 0 \<longleftrightarrow> r1 = 0 \<and> (\<forall>(k, a) \<in> set bs. of_int (ba_requested a) \<le> br_tokens (projr (read_bucket now a (h s k))))" by blast
  have "acquire_rows ops now (b # bs) r s = Inr (map (\<lambda>(k, a). projr (read_bucket now a (h s k))) (b # bs), r')"
    using r1(1) r'(1) by (simp add: b raw bindR_def row)
  then show ?case using r'(2-4) r1_pos row by (intro exI [of _ r']) (auto simp: b)
qed simp

lemma acquire_rows_corrupt:
  "(k, a) \<in> set bs \<Longrightarrow> read_bucket now a (h s k) = Inl e \<Longrightarrow> \<exists>e. acquire_rows ops now bs r s = Inl e"
proof (induction bs arbitrary: r)
  case (Cons b bs)
  obtain k' a' where b: "b = (k', a')" by (cases b)
  have raw: "(\<lambda>f. h_get ops k' f s) = h s k'" by (simp add: get_law)
  show ?case
  proof (cases "acquire_row now a' (h s k') r")
    case (Inr p)
    then have "(k, a) \<in> set bs" using Cons.prems acquire_row_read [OF Cons.prems(2), of r] by (auto simp: b)
    then obtain e' where "acquire_rows ops now bs (snd p) s = Inl e'" using Cons.IH Cons.prems(2) by blast
    then show ?thesis using Inr by (simp add: b raw bindR_def case_prod_beta)
  qed (simp add: b raw bindR_def)
qed simp

lemma acquire_script:
  assumes "readable (rate_now ops s) bs (h s)" "\<forall>b \<in> set bs. valid_args (snd b)"
    and rows: "rows = read_rows (rate_now ops s) bs (h s)"
  obtains r where "acquireRateScript ops bs s = (Inr ([if enough rows then 1 else 0, rate_now ops s, r] @ map (\<lambda>(k, row). \<lfloor>max 0 (deducted (enough rows) row)\<rfloor>) rows),
      write_all ops (deducted (enough rows)) rows s)" "0 \<le> r" "r = 0 \<longleftrightarrow> enough rows"
proof -
  let ?n = "rate_now ops s"
  obtain r' where r': "acquire_rows ops ?n bs 0 s = Inr (map (\<lambda>(k, a). projr (read_bucket ?n a (h s k))) bs, r')" "0 \<le> r'" "r' = 0 \<or> 1 \<le> r'"
    "r' = 0 \<longleftrightarrow> (\<forall>(k, a) \<in> set bs. of_int (ba_requested a) \<le> br_tokens (projr (read_bucket ?n a (h s k))))"
    using acquire_rows_spec [OF assms(1), of 0] by auto
  have "enough rows \<longleftrightarrow> r' = 0"
  proof -
    have "br_amount (projr (read_bucket ?n a (h s k))) = ba_requested a" if "(k, a) \<in> set bs" for k a
      using read_bucket_row(3) [of a ?n "h s k"] assms(1,2) that by (fastforce simp: readable_def)
    then show ?thesis unfolding r'(4) by (auto simp: enough_def rows read_rows_def)
  qed
  then have e: "(r' = 0) = enough rows" by simp
  have r0: "\<lfloor>r'\<rfloor> = 0 \<longleftrightarrow> enough rows" "0 \<le> \<lfloor>r'\<rfloor>" using r'(2,3) e by (auto simp: floor_eq_iff)
  show thesis
    by (rule that [OF _ r0(2,1)])
      (simp add: acquireRateScript_def Let_def r'(1) e case_prod_beta [of "\<lambda>result s. _ result s" "acquire_write _ _ _ _"] read_rows_zip rows [symmetric] acquire_write_all)
qed

lemma acquire_script_corrupt:
  assumes "\<not> readable (rate_now ops s) bs (h s)"
  shows "\<exists>e. acquireRateScript ops bs s = (Inl e, s)"
proof -
  obtain k a e where "(k, a) \<in> set bs" "read_bucket (rate_now ops s) a (h s k) = Inl e"
    using assms by (auto simp: readable_def) (metis sum.exhaust)
  then obtain e' where "acquire_rows ops (rate_now ops s) bs 0 s = Inl e'" using acquire_rows_corrupt by blast
  then show ?thesis by (simp add: acquireRateScript_def Let_def)
qed

lemma refund_rows_spec:
  "readable now bs (h s) \<Longrightarrow> refund_rows ops now bs s = Inr (map (\<lambda>(k, a). projr (read_bucket now a (h s k))) bs)"
  "\<not> readable now bs (h s) \<Longrightarrow> \<exists>e. refund_rows ops now bs s = Inl e"
proof -
  have raw: "(\<lambda>f. h_get ops k f s) = h s k" for k by (simp add: get_law)
  show "readable now bs (h s) \<Longrightarrow> refund_rows ops now bs s = Inr (map (\<lambda>(k, a). projr (read_bucket now a (h s k))) bs)"
    by (induction bs) (auto simp: readable_def raw bindR_def)
  show "\<not> readable now bs (h s) \<Longrightarrow> \<exists>e. refund_rows ops now bs s = Inl e"
  proof (induction bs)
    case (Cons b bs)
    obtain k a where b: "b = (k, a)" by (cases b)
    show ?case
    proof (cases "read_bucket now a (h s k)")
      case (Inr row)
      then have "\<not> readable now bs (h s)" using Cons.prems by (auto simp: readable_def b)
      then obtain e where "refund_rows ops now bs s = Inl e" using Cons.IH by blast
      then show ?thesis using Inr by (simp add: b raw bindR_def)
    qed (simp add: b raw bindR_def)
  qed (simp add: readable_def)
qed

text \<open>The inspect script writes back what it reads, for the buckets before the first corrupt one.\<close>

lemma inspect_loop_spec:
  "distinct (map fst bs) \<Longrightarrow> \<exists>n. readable now (take n bs) (h s) \<and>
    snd (inspect_loop ops now bs s) = write_all ops br_tokens (read_rows now (take n bs) (h s)) s"
proof (induction bs arbitrary: s)
  case (Cons b bs)
  obtain k a where b: "b = (k, a)" by (cases b)
  have raw: "(\<lambda>f. h_get ops k f s) = h s k" by (simp add: get_law)
  show ?case
  proof (cases "read_bucket now a (h s k)")
    case (Inl e)
    then show ?thesis by (intro exI [of _ 0]) (simp add: b raw readable_def read_rows_def write_all_def)
  next
    case (Inr row)
    define s1 where "s1 = write_row ops k row (br_tokens row) s"
    have same: "h s1 k' = h s k'" if "k' \<in> fst ` set bs" for k'
      using that Cons.prems by (auto simp: s1_def b intro: write_row_other)
    obtain n where n: "readable now (take n bs) (h s1)" "snd (inspect_loop ops now bs s1) = write_all ops br_tokens (read_rows now (take n bs) (h s1)) s1"
      using Cons.IH [of s1] Cons.prems b by auto
    have sub: "x \<in> set (take n bs) \<Longrightarrow> fst x \<in> fst ` set bs" for x by (auto dest: in_set_takeD)
    have "read_rows now (take n bs) (h s1) = read_rows now (take n bs) (h s)" using same sub by (force simp: read_rows_def)
    moreover have "readable now (take n bs) (h s)" using n(1) same sub by (force simp: readable_def)
    moreover have "snd (inspect_loop ops now (b # bs) s) = snd (inspect_loop ops now bs s1)"
      by (simp add: b raw Inr s1_def Let_def case_prod_beta)
    moreover have "write_all ops br_tokens (read_rows now (take (Suc n) (b # bs)) (h s)) s = write_all ops br_tokens (read_rows now (take n bs) (h s)) s1"
      by (simp add: write_all_def read_rows_def b Inr s1_def)
    moreover have "readable now (take (Suc n) (b # bs)) (h s) \<longleftrightarrow> readable now (take n bs) (h s)" using Inr by (simp add: readable_def b)
    ultimately show ?thesis using n(2) by (intro exI [of _ "Suc n"]) simp
  qed
qed (simp add: readable_def read_rows_def write_all_def)

end

end
