(* ===== verification/RateQuota.thy ===== *)
theory RateQuota
  imports RateSafety
begin

text \<open>
  Runs of the rate limiter: what the Go functions return, the balance of a fixed-window quota over any
  sequence of operations, a store of association lists that keeps the interface, and the guarantees.
\<close>

subsection \<open>What the Go functions return\<close>

context hash_store
begin

lemma AcquireRate_ok:
  assumes p: "prepareRateLimits c limits = Inr bs" and r: "readable (rate_now ops s) bs (h s)" and pos: "0 < rate_now ops s"
    and rows: "rows = read_rows (rate_now ops s) bs (h s)"
  obtains d where "AcquireRate ops c limits s = (Inr d, write_all ops (deducted (enough rows)) rows s)" "ra_Granted d = enough rows"
proof -
  note q = prepareRateLimits_Inr [OF p]
  have len: "length rows = length limits" using q(1) by (metis length_map read_rows_fst rows)
  obtain r where "acquireRateScript ops bs s = (Inr ([if enough rows then 1 else 0, rate_now ops s, r] @ map (\<lambda>(k, row). \<lfloor>max 0 (deducted (enough rows) row)\<rfloor>) rows),
      write_all ops (deducted (enough rows)) rows s)" "0 \<le> r" "r = 0 \<longleftrightarrow> enough rows"
    by (rule acquire_script [OF r q(4) rows])
  note run = this
  show thesis
  proof (cases "enough rows")
    case True
    then show thesis using pos len run by (intro that) (auto simp: AcquireRate_def p acquire_rate_reply_def Let_def case_prod_beta)
  next
    case False
    then show thesis using pos len run by (intro that) (auto simp: AcquireRate_def p acquire_rate_reply_def Let_def case_prod_beta)
  qed
qed

lemma AcquireRate_corrupt:
  assumes "prepareRateLimits c limits = Inr bs" "\<not> readable (rate_now ops s) bs (h s)"
  shows "\<exists>e. AcquireRate ops c limits s = (Inl (ErrUnavailable ''acquire rate tokens'' e), s)"
  using acquire_script_corrupt [OF assms(2)] assms(1) by (auto simp: AcquireRate_def acquire_rate_reply_def unavailable_def)

lemma RefundRate_ok:
  assumes p: "prepareRateLimits c limits = Inr bs" and r: "readable (rate_now ops s) bs (h s)" and pos: "0 < rate_now ops s"
    and len: "0 < length reference" "length reference \<le> maximumSubjectBytes"
    and rows: "rows = read_rows (rate_now ops s) bs (h s)" and m: "m = rateRefundKey c reference"
  obtains d where "RefundRate ops c reference limits s =
      (Inr d, if h_exists ops m s then s else write_all ops refunded rows (snd (h_setnx ops m maximumFullRefillMillis s)))" "rr_Applied d = (\<not> h_exists ops m s)"
proof -
  note q = prepareRateLimits_Inr [OF p]
  have len': "length rows = length limits" using q(1) by (metis length_map read_rows_fst rows)
  have len'': "length bs = length limits" using q(1) by (metis length_map)
  let ?a = "\<not> h_exists ops m s"
  obtain s1 where s1: "h_setnx ops m maximumFullRefillMillis s = (?a, s1)" 
    using setnx_law(1) [of m maximumFullRefillMillis s] by (cases "h_setnx ops m maximumFullRefillMillis s") auto
  have z: "zip (map fst bs) (map (\<lambda>(k, a). projr (read_bucket (rate_now ops s) a (h s k))) bs) = rows" by (simp add: read_rows_zip rows)
  have w: "refund_write ops True rows s1 = (map (\<lambda>(k, row). \<lfloor>max 0 (refunded row)\<rfloor>) rows, write_all ops refunded rows s1)"
    "refund_write ops False rows s = (map (\<lambda>(k, row). \<lfloor>max 0 (br_tokens row)\<rfloor>) rows, s)"
    by (simp_all add: prod_eq_iff refund_write_all)
  have run: "refundRateScript ops m maximumFullRefillMillis bs s =
      (Inr ([if ?a then 1 else 0, rate_now ops s] @ map (\<lambda>(k, row). \<lfloor>max 0 (if ?a then refunded row else br_tokens row)\<rfloor>) rows),
       if h_exists ops m s then s else write_all ops refunded rows s1)"
    by (cases "h_exists ops m s") (simp_all add: refundRateScript_def Let_def refund_rows_spec(1) [OF r] z s1 w)
  have nn: "\<not> (\<exists>v \<in> set (map (\<lambda>(k, row). \<lfloor>max 0 (f row)\<rfloor>) rows). v < 0)" for f by (auto simp: not_less)
  have go: "RefundRate ops c reference limits s = (refund_rate_reply limits (fst (refundRateScript ops m maximumFullRefillMillis bs s)),
      snd (refundRateScript ops m maximumFullRefillMillis bs s))"
    using len by (simp add: RefundRate_def p m [symmetric] case_prod_beta)
  show thesis
  proof (cases "h_exists ops m s")
    case True
    then show thesis using pos len' nn [of br_tokens] by (intro that, simp add: go run s1 refund_rate_reply_def Let_def, simp)
  next
    case False
    then show thesis using pos len' nn [of refunded] by (intro that, simp add: go run s1 refund_rate_reply_def Let_def, simp)
  qed
qed

lemma RefundRate_corrupt:
  assumes "prepareRateLimits c limits = Inr bs" "\<not> readable (rate_now ops s) bs (h s)"
  shows "\<exists>e. RefundRate ops c reference limits s = (Inl e, s)"
  using refund_rows_spec(2) [OF assms(2)] assms(1) by (auto simp: RefundRate_def refund_rate_reply_def refundRateScript_def Let_def)

end

subsection \<open>Runs on a fixed-window quota\<close>

definition uses_quota :: "Coordinator \<Rightarrow> string \<Rightarrow> int \<Rightarrow> int \<Rightarrow> int \<Rightarrow> BucketLimit list \<Rightarrow> bool" where
  "uses_quota c K cap win off limits \<longleftrightarrow> (\<forall>l \<in> set limits. rateKey c l = K \<longrightarrow>
     bl_CapacityTokens l = cap \<and> bl_FixedWindow l = win * ms \<and> bl_FixedWindowOffset l = off * ms)"

definition requested_at :: "Coordinator \<Rightarrow> string \<Rightarrow> BucketLimit list \<Rightarrow> int" where
  "requested_at c K limits = sum_list (map bl_RequestedTokens (filter (\<lambda>l. rateKey c l = K) limits))"

definition granted_at :: "Coordinator \<Rightarrow> string \<Rightarrow> BucketLimit list \<Rightarrow> coord_error + RateDecision \<Rightarrow> int" where
  "granted_at c K limits res = (case res of Inl _ \<Rightarrow> 0 | Inr d \<Rightarrow> if ra_Granted d then requested_at c K limits else 0)"

definition refunded_at :: "Coordinator \<Rightarrow> string \<Rightarrow> BucketLimit list \<Rightarrow> coord_error + RateRefundDecision \<Rightarrow> int" where
  "refunded_at c K limits res = (case res of Inl _ \<Rightarrow> 0 | Inr d \<Rightarrow> if rr_Applied d then requested_at c K limits else 0)"

text \<open>
  A run of any gateway instances with the tokens granted (\<open>g\<close>) and refunded (\<open>f\<close>) at the key \<open>K\<close> in the window
  that contains the current time.
\<close>

inductive quota_run :: "'s hops \<Rightarrow> ('s \<Rightarrow> 's \<Rightarrow> bool) \<Rightarrow> Coordinator \<Rightarrow> string \<Rightarrow> int \<Rightarrow> int \<Rightarrow> int \<Rightarrow> 's \<Rightarrow> 's \<Rightarrow> int \<Rightarrow> int \<Rightarrow> bool"
  for ops elapse c K cap win off s0 where
  quota_start: "quota_run ops elapse c K cap win off s0 s0 0 0"
| quota_acquire: "quota_run ops elapse c K cap win off s0 s g f \<Longrightarrow> uses_quota c K cap win off limits \<Longrightarrow> AcquireRate ops c limits s = (res, s') \<Longrightarrow>
    quota_run ops elapse c K cap win off s0 s' (g + granted_at c K limits res) f"
| quota_inspect: "quota_run ops elapse c K cap win off s0 s g f \<Longrightarrow> uses_quota c K cap win off limits \<Longrightarrow> InspectRate ops c limits s = (obs, s') \<Longrightarrow>
    quota_run ops elapse c K cap win off s0 s' g f"
| quota_refund: "quota_run ops elapse c K cap win off s0 s g f \<Longrightarrow> uses_quota c K cap win off limits \<Longrightarrow> RefundRate ops c reference limits s = (ref, s') \<Longrightarrow>
    quota_run ops elapse c K cap win off s0 s' g (f + refunded_at c K limits ref)"
| quota_elapse: "quota_run ops elapse c K cap win off s0 s g f \<Longrightarrow> elapse s s' \<Longrightarrow>
    same = ((rate_now ops s - off) div win = (rate_now ops s' - off) div win) \<Longrightarrow>
    quota_run ops elapse c K cap win off s0 s' (if same then g else 0) (if same then f else 0)"

definition quota_state :: "int \<Rightarrow> int \<Rightarrow> int \<Rightarrow> int \<Rightarrow> int \<Rightarrow> (string \<Rightarrow> rat option option) \<Rightarrow> bool" where
  "quota_state cap win off n wi M \<longleftrightarrow> M ''tokens'' = Some (Some (of_int n)) \<and> M ''window_index'' = Some (Some (of_int wi)) \<and>
     M ''capacity_tokens'' = Some (Some (of_int cap)) \<and> M ''window_ms'' = Some (Some (of_int win)) \<and> M ''window_offset_ms'' = Some (Some (of_int off))"

definition quota_ok :: "int \<Rightarrow> int \<Rightarrow> int \<Rightarrow> int \<Rightarrow> int \<Rightarrow> int \<Rightarrow> (string \<Rightarrow> rat option option) \<Rightarrow> int option \<Rightarrow> bool" where
  "quota_ok cap win off now g f M dl \<longleftrightarrow> 0 \<le> f \<and> (M = Map.empty \<and> g = 0 \<or>
     (\<exists>n wi. quota_state cap win off n wi M \<and> 0 \<le> n \<and> n \<le> cap \<and> wi \<le> (now - off) div win \<and>
       (if wi = (now - off) div win then g \<le> cap - n + f else g = 0) \<and> (\<forall>t. dl = Some t \<longrightarrow> (wi + 1) * win + off \<le> t)))"

definition quota_args :: "int \<Rightarrow> int \<Rightarrow> int \<Rightarrow> int \<Rightarrow> bucket_args \<Rightarrow> bool" where
  "quota_args cap win off now a \<longleftrightarrow> valid_args a \<and> ba_capacity a = cap \<and> ba_window a = win \<and> ba_offset a = off \<and> 0 < win \<and> off \<le> now \<and> now < 100000000000000"

lemma window_index_exact:
  assumes "quota_args cap win off now a"
  shows "window_index now a = (now - off) div win" "until_reset now a = ((now - off) div win + 1) * win + off - now"
    "0 \<le> (now - off) div win" "(now - off) div win < 100000000000000"
proof -
  let ?w = "(now - off) div win"
  have a: "0 < win" "win \<le> 2678400000" "off \<le> now" "now < 100000000000000" "0 \<le> off" using assms by (auto simp: quota_args_def valid_args_def)
  show w: "window_index now a = ?w"
    using floor_fl_div [of "now - off" win] assms a by (simp add: window_index_def quota_args_def)
  have m: "now - off = ?w * win + (now - off) mod win" "0 \<le> (now - off) mod win" "(now - off) mod win < win" using a(1) by (simp_all add: div_mult_mod_eq)
  show w0: "0 \<le> ?w" using a by (simp add: pos_imp_zdiv_nonneg_iff)
  have "now + 1 \<le> (?w + 1) * win + off" using m unfolding distrib_right by linarith
  then show "until_reset now a = (?w + 1) * win + off - now" using assms by (simp add: until_reset_def w quota_args_def)
  have "?w * 1 \<le> ?w * win" using w0 a(1) by (intro mult_left_mono) auto
  then show "?w < 100000000000000" using m a by linarith
qed

text \<open>Reading the quota bucket yields a whole balance that still accounts for what was granted.\<close>

lemma quota_read:
  assumes q: "quota_ok cap win off now g f M dl" and a: "quota_args cap win off now a"
  obtains row m where "read_bucket now a M = Inr row" "br_tokens row = of_int m" "0 \<le> m" "m \<le> cap" "g \<le> cap - m + f"
    "br_mark row = of_int ((now - off) div win)" "br_ttl row = of_int (((now - off) div win + 1) * win + off - now)" "br_fixed row"
    "br_capacity row = cap" "br_window row = win" "br_offset row = off" "br_amount row = ba_requested a"
proof -
  note w = window_index_exact [OF a]
  have args: "0 < ba_window a" "ba_capacity a = cap" "ba_window a = win" "ba_offset a = off" "1 \<le> cap" using a by (auto simp: quota_args_def valid_args_def)
  have "\<exists>row m. read_window now a M = Inr row \<and> br_tokens row = of_int m \<and> 0 \<le> m \<and> m \<le> cap \<and> g \<le> cap - m + f"
    using q args by (auto simp: quota_ok_def quota_state_def read_window_def Let_def w clamp_tokens_def of_int_max [symmetric] of_int_min [symmetric]
        simp del: of_int_max of_int_min split: if_splits)
  then obtain row m where r: "read_window now a M = Inr row" "br_tokens row = of_int m" "0 \<le> m" "m \<le> cap" "g \<le> cap - m + f" by blast
  have "read_bucket now a M = Inr row" using r(1) args by (simp add: read_bucket_def)
  then show thesis using that r read_window_row [OF r(1)] args w by simp
qed

lemma quota_okI:
  "\<lbrakk>0 \<le> f; quota_state cap win off n wi M; 0 \<le> n; n \<le> cap; wi \<le> (now - off) div win;
    if wi = (now - off) div win then g \<le> cap - n + f else g = 0; \<forall>t. dl = Some t \<longrightarrow> (wi + 1) * win + off \<le> t\<rbrakk> \<Longrightarrow>
    quota_ok cap win off now g f M dl"
  unfolding quota_ok_def by blast

lemma quota_write:
  assumes a: "quota_args cap win off now a" and m: "0 \<le> m" "m \<le> cap" and gf: "g \<le> cap - m + f" "0 \<le> f"
    and row: "br_mark row = of_int ((now - off) div win)" "br_fixed row" "br_capacity row = cap" "br_window row = win" "br_offset row = off"
    and dl: "dl = Some (((now - off) div win + 1) * win + off)"
  shows "quota_ok cap win off now g f (put_fields (row_fields row (of_int m)) M) dl"
proof -
  note w = window_index_exact [OF a]
  have b: "cap \<le> 1000000000000" "0 < win" "win \<le> 2678400000" "0 \<le> off" "off \<le> win" "1 \<le> cap" using a by (auto simp: quota_args_def valid_args_def)
  have "quota_state cap win off m ((now - off) div win) (put_fields (row_fields row (of_int m)) M)"
    using m b w(3,4) by (simp add: quota_state_def put_fields_def row_fields_def row)
  then show ?thesis using m gf dl by (auto simp: quota_ok_def)
qed

lemma quota_ok_elapse:
  assumes "quota_ok cap win off now g f M dl" "now \<le> now'" "0 < win"
    and "same = ((now - off) div win = (now' - off) div win)"
    and "M' = M \<and> dl' = dl \<or> (\<exists>t. dl = Some t \<and> t \<le> now' \<and> M' = Map.empty \<and> dl' = None)"
  shows "quota_ok cap win off now' (if same then g else 0) (if same then f else 0) M' dl'"
proof -
  have mono: "(now - off) div win \<le> (now' - off) div win" using assms(2,3) by (intro zdiv_mono1) auto
  have end_: "(now - off) div win < (now' - off) div win" if "((now - off) div win + 1) * win + off \<le> now'"
  proof -
    have "((now - off) div win + 1) * win div win \<le> (now' - off) div win" using that assms(3) by (intro zdiv_mono1) auto
    then show ?thesis using assms(3) by simp
  qed
  from assms(1) have f: "0 \<le> f" by (simp add: quota_ok_def)
  from assms(1) consider "M = Map.empty" "g = 0" | n wi where "quota_state cap win off n wi M" "0 \<le> n" "n \<le> cap" "wi \<le> (now - off) div win"
    "if wi = (now - off) div win then g \<le> cap - n + f else g = 0" "\<forall>t. dl = Some t \<longrightarrow> (wi + 1) * win + off \<le> t"
    by (auto simp: quota_ok_def)
  then show ?thesis
  proof cases
    case 1
    then show ?thesis using f assms(5) by (auto simp: quota_ok_def)
  next
    case (2 n wi)
    show ?thesis
    proof (cases "M' = M \<and> dl' = dl")
      case True
      have "if wi = (now' - off) div win then (if same then g else 0) \<le> cap - n + (if same then f else 0) else (if same then g else 0) = 0"
        using 2(2-5) mono assms(4) f by (auto split: if_splits)
      moreover have "wi \<le> (now' - off) div win" using 2(4) mono by simp
      moreover have "0 \<le> (if same then f else 0)" using f by simp
      ultimately show ?thesis using True 2(1-3,6) by (intro quota_okI [of _ _ _ _ n wi]) auto
    next
      case False
      then obtain t where t: "dl = Some t" "t \<le> now'" "M' = Map.empty" using assms(5) by auto
      then have "(wi + 1) * win + off \<le> now'" using 2(6) by force
      then have "\<not> same \<or> g = 0" using end_ 2(5) assms(4) by (auto split: if_splits)
      then show ?thesis using t(3) f by (auto simp: quota_ok_def)
    qed
  qed
qed

lemma requested_at_single:
  assumes "distinct (map (rateKey c) limits)"
  shows "l \<in> set limits \<Longrightarrow> rateKey c l = K \<Longrightarrow> requested_at c K limits = bl_RequestedTokens l"
    "K \<notin> rateKey c ` set limits \<Longrightarrow> requested_at c K limits = 0"
proof -
  show none: "K \<notin> rateKey c ` set ls \<Longrightarrow> requested_at c K ls = 0" for ls
    by (induction ls) (auto simp: requested_at_def)
  show "l \<in> set limits \<Longrightarrow> rateKey c l = K \<Longrightarrow> requested_at c K limits = bl_RequestedTokens l"
    using assms
  proof (induction limits)
    case (Cons x xs)
    then show ?case using none [of xs] by (auto simp: requested_at_def)
  qed simp
qed

lemma rateKey_not_marker: "rateKey c l \<noteq> rateRefundKey c reference"
  by (simp add: rateKey_def rateRefundKey_def)

text \<open>The bucket of \<open>K\<close> in a prepared request, if it has one.\<close>

lemma quota_bucket:
  assumes p: "prepareRateLimits c limits = Inr bs" and u: "uses_quota c K cap win off limits" and n: "0 < win" "off \<le> now" "now < 100000000000000"
  obtains "K \<notin> set (map fst bs)" "requested_at c K limits = 0"
  | a where "(K, a) \<in> set bs" "quota_args cap win off now a" "ba_requested a = requested_at c K limits"
proof (cases "K \<in> set (map fst bs)")
  case False
  note q = prepareRateLimits_Inr [OF p]
  have "K \<notin> rateKey c ` set limits" using False q(1) by (metis list.set_map)
  then have "requested_at c K limits = 0" using requested_at_single(2) q(1,2) by metis
  then show thesis using that(1) False by blast
next
  case True
  note q = prepareRateLimits_Inr [OF p]
  obtain i where i: "i < length bs" "fst (bs ! i) = K" using True by (auto simp: in_set_conv_nth)
  have len: "length limits = length bs" using q(3) by (simp add: list_all2_lengthD)
  have arg: "bucket_arguments (limits ! i) = Inr (snd (bs ! i))" using q(3) i(1) by (simp add: list_all2_conv_all_nth)
  have key: "rateKey c (limits ! i) = K" using q(1) i len by (metis nth_map)
  have l: "limits ! i \<in> set limits" using i(1) len by simp
  note b = bucket_arguments_Inr [OF arg]
  have "bl_CapacityTokens (limits ! i) = cap" "bl_FixedWindow (limits ! i) = win * ms" "bl_FixedWindowOffset (limits ! i) = off * ms"
    using u l key by (auto simp: uses_quota_def)
  then have "quota_args cap win off now (snd (bs ! i))" using b n by (simp add: quota_args_def)
  moreover have "ba_requested (snd (bs ! i)) = requested_at c K limits"
    using b(3) requested_at_single(1) [OF _ l key] q(1,2) by simp
  moreover have "(K, snd (bs ! i)) \<in> set bs" using i by (metis nth_mem prod.collapse)
  ultimately show thesis using that(2) by blast
qed

context hash_store
begin

abbreviation quota_inv :: "string \<Rightarrow> int \<Rightarrow> int \<Rightarrow> int \<Rightarrow> 's \<Rightarrow> int \<Rightarrow> int \<Rightarrow> bool" where
  "quota_inv K cap win off s g f \<equiv> quota_ok cap win off (rate_now ops s) g f (h s K) (deadline s K)"

text \<open>Writing back rows that were read keeps the quota's account.\<close>

lemma quota_write_all:
  assumes q: "quota_inv K cap win off s g f" and d: "distinct (map fst bs)" and in_bs: "(K, a) \<in> set bs"
    and a: "quota_args cap win off (rate_now ops s) a"
    and same: "h s1 K = h s K" "rate_now ops s1 = rate_now ops s"
    and rem: "\<And>row m. \<lbrakk>read_bucket (rate_now ops s) a (h s K) = Inr row; br_tokens row = of_int m; 0 \<le> m; m \<le> cap; g \<le> cap - m + f;
        br_amount row = ba_requested a; br_capacity row = cap; br_fixed row\<rbrakk> \<Longrightarrow> \<exists>m'. rem row = of_int m' \<and> 0 \<le> m' \<and> m' \<le> cap \<and> g' \<le> cap - m' + f' \<and> 0 \<le> f'"
  shows "quota_inv K cap win off (write_all ops rem (read_rows (rate_now ops s) bs (h s)) s1) g' f'"
proof -
  let ?n = "rate_now ops s" and ?rows = "read_rows (rate_now ops s) bs (h s)"
  obtain row m where r: "read_bucket ?n a (h s K) = Inr row" "br_tokens row = of_int m" "0 \<le> m" "m \<le> cap" "g \<le> cap - m + f"
    "br_mark row = of_int ((?n - off) div win)" "br_ttl row = of_int (((?n - off) div win + 1) * win + off - ?n)" "br_fixed row"
    "br_capacity row = cap" "br_window row = win" "br_offset row = off" "br_amount row = ba_requested a"
    by (rule quota_read [OF q a])
  obtain m' where m': "rem row = of_int m'" "0 \<le> m'" "m' \<le> cap" "g' \<le> cap - m' + f'" "0 \<le> f'"
    using rem [OF r(1-5,12,9,8)] by blast
  have t: "whole_ttl row"
  proof -
    have "1 \<le> until_reset ?n a" by (rule until_reset_pos)
    then show ?thesis using r(7) window_index_exact(2) [OF a] unfolding whole_ttl_def by (intro exI conjI) (assumption, simp)
  qed
  have "map_of ?rows K = Some row" using read_rows_map_of [OF d in_bs] r(1) by simp
  note w = write_all_self [OF _ this t, of rem s1]
  have "distinct (map fst ?rows)" using d by simp
  note w = w [OF this]
  have dl: "deadline (write_all ops rem ?rows s1) K = Some (((?n - off) div win + 1) * win + off)"
    using w same(2) unfolding r(7) floor_of_int by simp
  have "h (write_all ops rem ?rows s1) K = put_fields (row_fields row (of_int m')) (h s K)" using w m'(1) same(1) by simp
  then show ?thesis
    using quota_write [OF a m'(2-5) r(6,8-11) dl, of "h s K"] same(2) by simp
qed

lemma AcquireRate_now: "rate_now ops (snd (AcquireRate ops c limits s)) = rate_now ops s"
proof (cases "prepareRateLimits c limits")
  case (Inr bs)
  then show ?thesis
    by (auto simp: AcquireRate_def acquireRateScript_def Let_def case_prod_beta acquire_write_all split: sum.splits prod.splits)
qed (simp add: AcquireRate_def)

lemma InspectRate_now: "rate_now ops (snd (InspectRate ops c limits s)) = rate_now ops s"
proof (cases "prepareRateLimits c limits")
  case (Inr bs)
  then show ?thesis using inspect_loop_spec [OF prepareRateLimits_Inr(2) [OF Inr], of "rate_now ops s" s]
    by (auto simp: InspectRate_def inspectRateScript_def Let_def case_prod_beta)
qed (simp add: InspectRate_def)

lemma refund_write_now [simp]: "rate_now ops (snd (refund_write ops b rows s)) = rate_now ops s"
  by (cases b) (simp_all add: refund_write_all)

lemma RefundRate_now: "rate_now ops (snd (RefundRate ops c reference limits s)) = rate_now ops s"
  by (auto simp: RefundRate_def refundRateScript_def Let_def case_prod_beta split: sum.splits)

lemma quota_acquire_inv:
  assumes q: "quota_inv K cap win off s g f" and u: "uses_quota c K cap win off limits"
    and n: "0 < win" "off \<le> rate_now ops s" "rate_now ops s < 100000000000000" "0 < rate_now ops s"
  shows "quota_inv K cap win off (snd (AcquireRate ops c limits s)) (g + granted_at c K limits (fst (AcquireRate ops c limits s))) f"
proof (cases "prepareRateLimits c limits")
  case (Inl e)
  then show ?thesis using q by (simp add: AcquireRate_def granted_at_def)
next
  case (Inr bs)
  note p = prepareRateLimits_Inr [OF Inr]
  show ?thesis
  proof (cases "readable (rate_now ops s) bs (h s)")
    case False
    then obtain e where "AcquireRate ops c limits s = (Inl (ErrUnavailable ''acquire rate tokens'' e), s)" using AcquireRate_corrupt [OF Inr] by blast
    then show ?thesis using q by (simp add: granted_at_def)
  next
    case True
    define rows where "rows = read_rows (rate_now ops s) bs (h s)"
    obtain d where d: "AcquireRate ops c limits s = (Inr d, write_all ops (deducted (enough rows)) rows s)" "ra_Granted d = enough rows"
      by (rule AcquireRate_ok [OF Inr True n(4) rows_def])
    have g: "granted_at c K limits (Inr d) = (if enough rows then requested_at c K limits else 0)" using d(2) by (simp add: granted_at_def)
    show ?thesis
    proof (rule quota_bucket [OF Inr u n(1-3)])
      assume "K \<notin> set (map fst bs)" "requested_at c K limits = 0"
      then show ?thesis using q write_all_other [of K rows "deducted (enough rows)" s] by (simp add: d g rows_def)
    next
      fix a assume a: "(K, a) \<in> set bs" "quota_args cap win off (rate_now ops s) a" "ba_requested a = requested_at c K limits"
      have "quota_inv K cap win off (write_all ops (deducted (enough rows)) rows s) (g + (if enough rows then requested_at c K limits else 0)) f"
        unfolding rows_def
      proof (rule quota_write_all [OF q p(2) a(1,2) refl refl], fold rows_def)
        fix row m assume r: "read_bucket (rate_now ops s) a (h s K) = Inr row" "br_tokens row = of_int m" "0 \<le> m" "m \<le> cap" "g \<le> cap - m + f"
          "br_amount row = ba_requested a"
        have f: "0 \<le> f" using q by (simp add: quota_ok_def)
        have cap: "cap \<le> 1000000000000" "1 \<le> ba_requested a" using a(2) by (auto simp: quota_args_def valid_args_def)
        have "ba_requested a \<le> m" if "enough rows"
        proof -
          have "map_of rows K = Some row" using read_rows_map_of [OF p(2) a(1)] r(1) by (simp add: rows_def)
          then have "(of_int (ba_requested a) :: rat) \<le> of_int m" using that r(2,6) by (auto simp: enough_def dest!: map_of_SomeD)
          then show ?thesis by simp
        qed
        then show "\<exists>m'. deducted (enough rows) row = of_int m' \<and> 0 \<le> m' \<and> m' \<le> cap \<and>
            g + (if enough rows then requested_at c K limits else 0) \<le> cap - m' + f \<and> 0 \<le> f"
          using r f cap a(3) fl_int [of "m - ba_requested a"]
          by (intro exI [of _ "if enough rows then m - ba_requested a else m"]) auto
      qed
      then show ?thesis by (simp add: d g)
    qed
  qed
qed

lemma quota_inspect_inv:
  assumes q: "quota_inv K cap win off s g f" and u: "uses_quota c K cap win off limits"
    and n: "0 < win" "off \<le> rate_now ops s" "rate_now ops s < 100000000000000"
  shows "quota_inv K cap win off (snd (InspectRate ops c limits s)) g f"
proof (cases "prepareRateLimits c limits")
  case (Inl e)
  then show ?thesis using q by (simp add: InspectRate_def)
next
  case (Inr bs)
  note p = prepareRateLimits_Inr [OF Inr]
  obtain j where j: "readable (rate_now ops s) (take j bs) (h s)"
    "snd (inspect_loop ops (rate_now ops s) bs s) = write_all ops br_tokens (read_rows (rate_now ops s) (take j bs) (h s)) s"
    using inspect_loop_spec [OF p(2)] by blast
  have run: "snd (InspectRate ops c limits s) = write_all ops br_tokens (read_rows (rate_now ops s) (take j bs) (h s)) s"
    using j(2) by (simp add: InspectRate_def Inr inspectRateScript_def case_prod_beta Let_def)
  have d: "distinct (map fst (take j bs))" using p(2) by (simp add: take_map [symmetric])
  have "quota_inv K cap win off (write_all ops br_tokens (read_rows (rate_now ops s) (take j bs) (h s)) s) g f"
  proof (cases "K \<in> set (map fst (take j bs))")
    case False
    then show ?thesis using q write_all_other [of K "read_rows (rate_now ops s) (take j bs) (h s)" br_tokens s] by simp
  next
    case True
    then have K: "K \<in> set (map fst bs)" by (auto dest: in_set_takeD)
    obtain a where a: "(K, a) \<in> set bs" "quota_args cap win off (rate_now ops s) a" by (rule quota_bucket [OF Inr u n]) (use K in auto)
    obtain a' where "(K, a') \<in> set (take j bs)" using True by auto
    then have "a' = a" using a(1) p(2) by (metis eq_key_imp_eq_value in_set_takeD)
    then have "(K, a) \<in> set (take j bs)" using \<open>(K, a') \<in> set (take j bs)\<close> by simp
    then show ?thesis using q by (intro quota_write_all [OF q d _ a(2) refl refl]) (auto simp: quota_ok_def)
  qed
  then show ?thesis by (simp add: run)
qed

lemma quota_refund_inv:
  assumes q: "quota_inv (rateKey c l0) cap win off s g f" and u: "uses_quota c (rateKey c l0) cap win off limits"
    and n: "0 < win" "off \<le> rate_now ops s" "rate_now ops s < 100000000000000" "0 < rate_now ops s"
  shows "quota_inv (rateKey c l0) cap win off (snd (RefundRate ops c reference limits s)) g (f + refunded_at c (rateKey c l0) limits (fst (RefundRate ops c reference limits s)))"
proof -
  let ?K = "rateKey c l0" and ?n = "rate_now ops s" and ?m = "rateRefundKey c reference" and ?go = "RefundRate ops c reference limits s"
  have f: "0 \<le> f" using q by (simp add: quota_ok_def)
  have "quota_inv ?K cap win off (snd ?go) g (f + refunded_at c ?K limits (fst ?go))"
  proof (cases "0 < length reference \<and> length reference \<le> maximumSubjectBytes \<and> (\<exists>bs. prepareRateLimits c limits = Inr bs \<and> readable ?n bs (h s))")
    case False
    then have "\<exists>e. ?go = (Inl e, s)"
      using RefundRate_corrupt [of c limits _ s reference] by (cases "prepareRateLimits c limits") (auto simp: RefundRate_def)
    then show ?thesis using q by (auto simp: refunded_at_def)
  next
    case True
    then obtain bs where bs: "prepareRateLimits c limits = Inr bs" "readable ?n bs (h s)" and len: "0 < length reference" "length reference \<le> maximumSubjectBytes" by auto
    note p = prepareRateLimits_Inr [OF bs(1)]
    define rows where "rows = read_rows ?n bs (h s)"
    define s1 where "s1 = snd (h_setnx ops ?m maximumFullRefillMillis s)"
    obtain d where d: "?go = (Inr d, if h_exists ops ?m s then s else write_all ops refunded rows s1)" "rr_Applied d = (\<not> h_exists ops ?m s)"
      by (rule RefundRate_ok [OF bs n(4) len rows_def refl]) (auto simp: s1_def)
    have K: "?K \<noteq> ?m" by (rule rateKey_not_marker)
    have s1: "h s1 ?K = h s ?K" "rate_now ops s1 = ?n" "deadline s1 ?K = deadline s ?K" using setnx_law(2,4) [OF K] by (simp_all add: s1_def)
    show ?thesis
    proof (cases "h_exists ops ?m s")
      case True
      then show ?thesis using q d by (simp add: refunded_at_def)
    next
      case False
      have "quota_inv ?K cap win off (write_all ops refunded rows s1) g (f + requested_at c ?K limits)"
      proof (rule quota_bucket [OF bs(1) u n(1-3)])
        assume "?K \<notin> set (map fst bs)" "requested_at c ?K limits = 0"
        then show ?thesis using q s1 write_all_other [of ?K rows refunded s1] by (simp add: rows_def)
      next
        fix a assume a: "(?K, a) \<in> set bs" "quota_args cap win off ?n a" "ba_requested a = requested_at c ?K limits"
        show ?thesis unfolding rows_def
        proof (rule quota_write_all [OF q p(2) a(1,2) s1(1,2)])
          fix row :: bucket_row and m :: int assume r: "br_tokens row = of_int m" "0 \<le> m" "m \<le> cap" "g \<le> cap - m + f" "br_amount row = ba_requested a" "br_capacity row = cap"
          have cap: "cap \<le> 1000000000000" "1 \<le> ba_requested a" "ba_requested a \<le> cap" using a(2) by (auto simp: quota_args_def valid_args_def)
          have "fl (of_int m + of_int (ba_requested a)) = of_int (m + ba_requested a)" using fl_int [of "m + ba_requested a"] r cap by simp
          then show "\<exists>m'. refunded row = of_int m' \<and> 0 \<le> m' \<and> m' \<le> cap \<and> g \<le> cap - m' + (f + requested_at c ?K limits) \<and> 0 \<le> f + requested_at c ?K limits"
            using r f cap a(3)
            by (intro exI [of _ "if br_fixed row \<and> \<not> br_can_refund row then m else min cap (m + ba_requested a)"])
              (auto simp: refunded_def min_def simp flip: of_int_add)
        qed
      qed
      then show ?thesis using d False s1(2) by (simp add: refunded_at_def)
    qed
  qed
  then show ?thesis .
qed

lemma quota_run_inv:
  assumes "quota_run ops elapse c (rateKey c l0) cap win off s0 s g f" "h s0 (rateKey c l0) = Map.empty" "0 < win" "off \<le> rate_now ops s0" "0 < rate_now ops s0"
  shows "rate_now ops s0 \<le> rate_now ops s \<and> (rate_now ops s < 100000000000000 \<longrightarrow> quota_inv (rateKey c l0) cap win off s g f)"
  using assms(1)
proof (induction rule: quota_run.induct)
  case quota_start
  then show ?case using assms(2) by (simp add: quota_ok_def)
next
  case (quota_acquire s g f limits res s')
  then show ?case
    using quota_acquire_inv [where K = "rateKey c l0" and cap = cap and win = win and off = off and s = s and g = g and f = f and c = c and limits = limits] AcquireRate_now [of c limits s] assms(3-5) by auto
next
  case (quota_inspect s g f limits obs s')
  then show ?case
    using quota_inspect_inv [where K = "rateKey c l0" and cap = cap and win = win and off = off and s = s and g = g and f = f and c = c and limits = limits] assms(3-5) InspectRate_now [of c limits s] by auto
next
  case (quota_refund s g f limits reference ref s')
  then show ?case
    using quota_refund_inv [where ?l0.0 = l0 and cap = cap and win = win and off = off and s = s and g = g and f = f and c = c and limits = limits and reference = reference] RefundRate_now [of c reference limits s] assms(3-5) by auto
next
  case (quota_elapse s g f s' same)
  then show ?case
    using quota_ok_elapse [OF _ elapse_law(1) [OF quota_elapse.hyps(2)] assms(3) quota_elapse.hyps(3) elapse_law(2) [OF quota_elapse.hyps(2), of "rateKey c l0"], where cap = cap and g = g and f = f]
      elapse_law(1) [OF quota_elapse.hyps(2)] by auto
qed

end

end
