(* ===== verification/RateGuarantees.thy ===== *)
theory RateGuarantees
  imports RateQuota
begin

text \<open>
  The guarantees of the rate limiter over any server that keeps the interface \<open>hash_store\<close>, a store of
  association lists that keeps it, and a run in which a late refund raises the quota of the next window.
\<close>

subsection \<open>A store of association lists\<close>

record hstore =
  hs_clock :: "int \<times> int"
  hs_hashes :: "(string \<times> (string \<times> rat option) list) list"
  hs_strings :: "string list"
  hs_deadline :: "(string \<times> int) list"

definition hs_now :: "int \<times> int \<Rightarrow> int" where
  "hs_now c = fst c * 1000 + snd c div 1000"

definition hs_exists :: "string \<Rightarrow> hstore \<Rightarrow> bool" where
  "hs_exists k s \<longleftrightarrow> k \<in> set (hs_strings s) \<or> map_of (hs_hashes s) k \<noteq> None"

definition hs_drop :: "string \<Rightarrow> hstore \<Rightarrow> hstore" where
  "hs_drop k s = s\<lparr>hs_hashes := AList.delete k (hs_hashes s), hs_strings := removeAll k (hs_strings s), hs_deadline := AList.delete k (hs_deadline s)\<rparr>"

definition href_ops :: "hstore hops" where
  "href_ops = \<lparr>h_time = hs_clock,
     h_get = (\<lambda>k f s. map_of (go_get [] (hs_hashes s) k) f),
     h_set = (\<lambda>k kvs s. s\<lparr>hs_hashes := AList.update k (map (\<lambda>(f, v). (f, Some v)) kvs @ go_get [] (hs_hashes s) k) (hs_hashes s)\<rparr>),
     h_pexpire = (\<lambda>k t s. if \<lfloor>t\<rfloor> \<le> 0 then hs_drop k s
       else if hs_exists k s then s\<lparr>hs_deadline := AList.update k (hs_now (hs_clock s) + \<lfloor>t\<rfloor>) (hs_deadline s)\<rparr> else s),
     h_exists = hs_exists,
     h_setnx = (\<lambda>k n s. if hs_exists k s then (False, s)
       else (True, s\<lparr>hs_strings := k # hs_strings s, hs_deadline := AList.update k (hs_now (hs_clock s) + n) (hs_deadline s)\<rparr>))\<rparr>"

definition href_view :: "hstore \<Rightarrow> hview" where
  "href_view s k = map_of (go_get [] (hs_hashes s) k)"

definition href_deadline :: "hstore \<Rightarrow> string \<Rightarrow> int option" where
  "href_deadline s = map_of (hs_deadline s)"

definition hs_due :: "int \<times> int \<Rightarrow> hstore \<Rightarrow> string \<Rightarrow> bool" where
  "hs_due c s k \<longleftrightarrow> (case map_of (hs_deadline s) k of None \<Rightarrow> False | Some t \<Rightarrow> t \<le> hs_now c)"

definition hs_advance :: "int \<times> int \<Rightarrow> hstore \<Rightarrow> hstore" where
  "hs_advance c s = \<lparr>hs_clock = c, hs_hashes = filter (\<lambda>p. \<not> hs_due c s (fst p)) (hs_hashes s),
     hs_strings = filter (\<lambda>k. \<not> hs_due c s k) (hs_strings s), hs_deadline = filter (\<lambda>p. \<not> hs_due c s (fst p)) (hs_deadline s)\<rparr>"

definition href_elapse :: "hstore \<Rightarrow> hstore \<Rightarrow> bool" where
  "href_elapse s s' \<longleftrightarrow> (\<exists>c. hs_now (hs_clock s) \<le> hs_now c \<and> s' = hs_advance c s)"

lemma href_now: "rate_now href_ops s = hs_now (hs_clock s)"
  by (simp add: rate_now_def hs_now_def href_ops_def)

lemma map_of_filter_key: "map_of (filter (\<lambda>p. P (fst p)) l) k = (if P k then map_of l k else None)"
  by (induction l) auto

lemma hs_advance_view:
  "href_view (hs_advance c s) k = (if hs_due c s k then Map.empty else href_view s k)"
  "href_deadline (hs_advance c s) k = (if hs_due c s k then None else href_deadline s k)"
  using map_of_filter_key [of "\<lambda>k. \<not> hs_due c s k" "hs_hashes s" k] map_of_filter_key [of "\<lambda>k. \<not> hs_due c s k" "hs_deadline s" k]
  by (auto simp: href_view_def href_deadline_def hs_advance_def go_get_def)

lemma href_exists_view: "href_view s k \<noteq> Map.empty \<Longrightarrow> hs_exists k s"
  by (auto simp: href_view_def hs_exists_def go_get_def split: option.splits)

interpretation href: hash_store href_ops href_view href_deadline href_elapse
proof
  show "h_time href_ops (h_set href_ops k kvs s) = h_time href_ops s" "h_time href_ops (h_pexpire href_ops k t s) = h_time href_ops s"
    "h_time href_ops (snd (h_setnx href_ops k n s)) = h_time href_ops s" for k kvs s t n
    by (simp_all add: href_ops_def hs_drop_def)
  show "h_get href_ops k f s = href_view s k f" for k f s by (simp add: href_ops_def href_view_def)
  show "href_view (h_set href_ops k kvs s) = (href_view s)(k := put_fields kvs (href_view s k))" for k kvs s
    by (auto simp: href_ops_def href_view_def put_fields_def fun_eq_iff go_get_def map_add_def split: option.splits)
  show "k' \<noteq> k \<Longrightarrow> h_exists href_ops k' (h_set href_ops k kvs s) = h_exists href_ops k' s"
    "k' \<noteq> k \<Longrightarrow> href_deadline (h_set href_ops k kvs s) k' = href_deadline s k'" for k' k kvs s
    by (simp_all add: href_ops_def hs_exists_def href_deadline_def)
  show "0 < n \<Longrightarrow> href_view (h_pexpire href_ops k (of_int n) s) = href_view s"
    "0 < n \<Longrightarrow> h_exists href_ops k' (h_pexpire href_ops k (of_int n) s) = h_exists href_ops k' s" for n k s k'
    by (auto simp: href_ops_def href_view_def hs_exists_def fun_eq_iff)
  show "0 < n \<Longrightarrow> href_view s k \<noteq> Map.empty \<Longrightarrow> href_deadline (h_pexpire href_ops k (of_int n) s) k = Some (rate_now href_ops s + n)" for n s k
    using href_exists_view [of s k] by (simp add: href_now) (simp add: href_ops_def href_deadline_def)
  show "k' \<noteq> k \<Longrightarrow> href_deadline (h_pexpire href_ops k t s) k' = href_deadline s k'"
    "k' \<noteq> k \<Longrightarrow> href_view (h_pexpire href_ops k t s) k' = href_view s k'"
    "k' \<noteq> k \<Longrightarrow> h_exists href_ops k' (h_pexpire href_ops k t s) = h_exists href_ops k' s" for k' k t s
    by (auto simp: href_ops_def href_deadline_def hs_drop_def href_view_def go_get_def hs_exists_def)
  show "fst (h_setnx href_ops k n s) = (\<not> h_exists href_ops k s)" "k' \<noteq> k \<Longrightarrow> href_view (snd (h_setnx href_ops k n s)) k' = href_view s k'"
    "0 < n \<Longrightarrow> h_exists href_ops k (snd (h_setnx href_ops k n s))"
    "k' \<noteq> k \<Longrightarrow> href_deadline (snd (h_setnx href_ops k n s)) k' = href_deadline s k'" for k n s k'
    by (auto simp: href_ops_def href_view_def href_deadline_def hs_exists_def)
  show "href_elapse s s' \<Longrightarrow> rate_now href_ops s \<le> rate_now href_ops s'" for s s'
    by (auto simp: href_elapse_def href_now hs_advance_def)
  show "href_elapse s s' \<Longrightarrow> href_view s' k = href_view s k \<and> href_deadline s' k = href_deadline s k \<or>
      (\<exists>t. href_deadline s k = Some t \<and> t \<le> rate_now href_ops s' \<and> href_view s' k = Map.empty \<and> href_deadline s' k = None)" for s s' k
    by (auto simp: href_elapse_def hs_advance_view href_now)
      (auto simp: hs_due_def href_deadline_def hs_advance_def split: option.splits)
qed

lemma href_store: "hash_store href_ops href_view href_deadline href_elapse"
  by (rule href.hash_store_axioms)

text \<open>A daily quota of 100 tokens, with windows of one second, and a first request of 60 tokens.\<close>

abbreviation rate_coordinator :: Coordinator where
  "rate_coordinator \<equiv> \<lparr>co_prefix = ''gw'', co_mac = (\<lambda>_. ''0'')\<rparr>"

definition sample_limit :: "int \<Rightarrow> BucketLimit" where
  "sample_limit n = \<lparr>bl_Dimension = GlobalDimension, bl_Metric = MetricDailyTokens, bl_CapacityTokens = 100, bl_RefillTokens = 0, bl_RefillInterval = 0,
     bl_RequestedTokens = n, bl_FixedWindow = 1000 * ms, bl_FixedWindowOffset = 0\<rparr>"

definition fresh_store :: hstore where
  "fresh_store = \<lparr>hs_clock = (10, 0), hs_hashes = [], hs_strings = [], hs_deadline = []\<rparr>"

definition spent_store :: hstore where
  "spent_store = snd (AcquireRate href_ops rate_coordinator [sample_limit 60] fresh_store)"

lemma spent_store_code [code]:
  "spent_store = (let k = rateKey rate_coordinator (sample_limit 60) in
     \<lparr>hs_clock = (10, 0), hs_hashes = [(k, [(''tokens'', Some 40), (''window_index'', Some 10), (''capacity_tokens'', Some 100),
        (''window_ms'', Some 1000), (''window_offset_ms'', Some 0)])], hs_strings = [], hs_deadline = [(k, 11000)]\<rparr>)"
  by code_simp

subsection \<open>Guarantees\<close>

lemma lua_text_bounds: "0 \<le> x \<Longrightarrow> x \<le> of_int cap \<Longrightarrow> cap \<le> maximumBucketTokens \<Longrightarrow> 0 \<le> lua_text x \<and> lua_text x \<le> of_int cap"
  using lua_text_mono [of x "of_int cap"] lua_text_nonneg [of x] by (cases "0 \<le> cap") (auto simp: order_trans)

lemma deducted_bounds:
  assumes "0 \<le> br_tokens row" "br_tokens row \<le> of_int cap" "1 \<le> br_amount row" "g \<Longrightarrow> of_int (br_amount row) \<le> br_tokens row" "cap \<le> maximumBucketTokens"
  shows "0 \<le> deducted g row \<and> deducted g row \<le> of_int cap"
proof (cases g)
  case True
  then have "0 \<le> br_tokens row - of_int (br_amount row)" using assms(4) by simp
  moreover have "br_tokens row - of_int (br_amount row) \<le> of_int cap" using assms(2,3) by (simp add: algebra_simps add_increasing)
  moreover have "0 \<le> cap" using assms(1,2) by (metis of_int_0_le_iff order_trans)
  ultimately show ?thesis
    using True fl_nonneg [of "br_tokens row - of_int (br_amount row)"] sig_round_mono [of 2 53 "br_tokens row - of_int (br_amount row)" "of_int cap"] assms(5)
    by simp
qed (use assms in simp)

text \<open>
  C32. Rate tokens are taken from every bucket or from none: a prepared request over readable buckets is
  granted exactly when each bucket has the requested tokens; every bucket is then written with its balance
  less the request (or with its balance alone when the request is denied), between zero and its capacity, and
  no other key changes. A bucket that cannot be read is an unavailability error that changes nothing.
\<close>

theorem rate_acquire_decision:
  assumes "hash_store ops h deadline elapse" and "prepareRateLimits c limits = Inr bs" and "0 < rate_now ops s"
    and "AcquireRate ops c limits s = (res, s')"
  shows "if \<forall>(k, a) \<in> set bs. \<exists>row. read_bucket (rate_now ops s) a (h s k) = Inr row then
      \<exists>d. res = Inr d \<and>
        (ra_Granted d \<longleftrightarrow> (\<forall>(k, a) \<in> set bs. of_int (ba_requested a) \<le> br_tokens (projr (read_bucket (rate_now ops s) a (h s k))))) \<and>
        (\<forall>(k, a) \<in> set bs. whole_stamp (h s k) \<longrightarrow> (\<exists>t. h s' k ''tokens'' = Some (Some t) \<and> 0 \<le> t \<and> t \<le> of_int (ba_capacity a) \<and>
          t = lua_text (if ra_Granted d then fl (br_tokens (projr (read_bucket (rate_now ops s) a (h s k))) - of_int (ba_requested a))
            else br_tokens (projr (read_bucket (rate_now ops s) a (h s k)))))) \<and>
        (\<forall>k. k \<notin> fst ` set bs \<longrightarrow> h s' k = h s k)
    else (\<exists>e. res = Inl (ErrUnavailable ''acquire rate tokens'' e)) \<and> s' = s"
proof (cases "readable (rate_now ops s) bs (h s)")
  case False
  then obtain e where "AcquireRate ops c limits s = (Inl (ErrUnavailable ''acquire rate tokens'' e), s)"
    using hash_store.AcquireRate_corrupt [OF assms(1,2)] by blast
  then show ?thesis using False assms(4) by (auto simp: readable_def)
next
  case True
  let ?n = "rate_now ops s"
  define rows where "rows = read_rows ?n bs (h s)"
  note p = prepareRateLimits_Inr [OF assms(2)]
  obtain d where d: "res = Inr d" "s' = write_all ops (deducted (enough rows)) rows s" "ra_Granted d = enough rows"
    by (rule hash_store.AcquireRate_ok [OF assms(1,2) True assms(3) rows_def]) (use assms(4) in auto)
  have row: "read_bucket ?n a (h s k) = Inr (projr (read_bucket ?n a (h s k)))" "valid_args a" "map_of rows k = Some (projr (read_bucket ?n a (h s k)))"
    if "(k, a) \<in> set bs" for k a
    using that True p(4) read_rows_map_of [OF p(2) that] by (fastforce simp: readable_def rows_def)+
  have en: "enough rows \<longleftrightarrow> (\<forall>(k, a) \<in> set bs. of_int (ba_requested a) \<le> br_tokens (projr (read_bucket ?n a (h s k))))"
    using read_bucket_row(3) [OF row(2,1)] by (auto simp: enough_def rows_def read_rows_def)
  have tok: "\<exists>t. h s' k ''tokens'' = Some (Some t) \<and> 0 \<le> t \<and> t \<le> of_int (ba_capacity a) \<and>
      t = lua_text (if ra_Granted d then fl (br_tokens (projr (read_bucket ?n a (h s k))) - of_int (ba_requested a)) else br_tokens (projr (read_bucket ?n a (h s k))))"
    if k: "(k, a) \<in> set bs" and w: "whole_stamp (h s k)" for k a
  proof -
    define row where "row = projr (read_bucket ?n a (h s k))"
    have r: "read_bucket ?n a (h s k) = Inr row" "valid_args a" "map_of rows k = Some row" using row [OF k] by (simp_all add: row_def)
    note b = read_bucket_row [OF r(2,1)]
    have t: "whole_ttl row" using read_bucket_ttl [OF r(2,1) w] unfolding whole_ttl_def by metis
    have "distinct (map fst rows)" using p(2) by (simp add: rows_def)
    from hash_store.write_all_self [OF assms(1) this r(3) t, of "deducted (ra_Granted d)" s]
    have tk: "h s' k ''tokens'' = Some (Some (lua_text (deducted (ra_Granted d) row)))" by (simp add: d(2,3) put_fields_def row_fields_def)
    have cap: "ba_capacity a \<le> maximumBucketTokens" "1 \<le> br_amount row" using r(2) b(3) by (auto simp: valid_args_def)
    have "ra_Granted d \<Longrightarrow> of_int (br_amount row) \<le> br_tokens row" using en k d(3) b(3) by (auto simp: row_def)
    from lua_text_bounds [OF conjunct1 conjunct2, OF deducted_bounds deducted_bounds, OF b(1,2) cap(2) this cap(1) b(1,2) cap(2) this cap(1) cap(1)]
    show ?thesis using tk b(3) by (simp add: row_def)
  qed
  have other: "\<forall>k. k \<notin> fst ` set bs \<longrightarrow> h s' k = h s k"
    using hash_store.write_all_other [OF assms(1), of _ rows] d(2) by (simp add: rows_def)
  have all: "\<forall>(k, a) \<in> set bs. \<exists>row. read_bucket ?n a (h s k) = Inr row" using True by (simp add: readable_def)
  show ?thesis unfolding if_P [OF all] using d(1) en [folded d(3)] tok other by blast
qed

theorem rate_acquire_decision_witness:
  "\<exists>d. fst (AcquireRate href_ops rate_coordinator [sample_limit 50] spent_store) = Inr d \<and> \<not> ra_Granted d"
proof -
  let ?bs = "projr (prepareRateLimits rate_coordinator [sample_limit 50])" and ?n = "rate_now href_ops spent_store"
  have prep: "prepareRateLimits rate_coordinator [sample_limit 50] = Inr ?bs" by code_simp
  have now: "0 < ?n" by code_simp
  have one: "length ?bs = 1 \<and> (case read_bucket ?n (snd (hd ?bs)) (\<lambda>f. h_get href_ops (fst (hd ?bs)) f spent_store) of
      Inl _ \<Rightarrow> False | Inr row \<Rightarrow> br_tokens row < of_int (ba_requested (snd (hd ?bs))))" by code_simp
  have raw: "(\<lambda>f. h_get href_ops k f spent_store) = href_view spent_store k" for k by (simp add: href.get_law)
  obtain k a where bs: "?bs = [(k, a)]" using one by (cases ?bs) auto
  then obtain row where row: "read_bucket ?n a (href_view spent_store k) = Inr row" "br_tokens row < of_int (ba_requested a)"
    using one by (auto simp: raw split: sum.splits)
  have all: "\<forall>(k, a) \<in> set ?bs. \<exists>row. read_bucket ?n a (href_view spent_store k) = Inr row" using row by (simp add: bs)
  from rate_acquire_decision [OF href_store prep now surjective_pairing, unfolded if_P [OF all]]
  obtain d where "fst (AcquireRate href_ops rate_coordinator [sample_limit 50] spent_store) = Inr d"
    "ra_Granted d \<longleftrightarrow> (\<forall>(k, a) \<in> set ?bs. of_int (ba_requested a) \<le> br_tokens (projr (read_bucket ?n a (href_view spent_store k))))" by blast
  then show ?thesis using row by (auto simp: bs)
qed



text \<open>
  C31. A fixed-window quota is respected by all gateway instances together: over any sequence of
  acquisitions, inspections, refunds and passing of time, the tokens granted in a window are at most the
  capacity plus what was refunded in that window.
\<close>

theorem rate_quota_respected:
  assumes "hash_store ops h deadline elapse" and "quota_run ops elapse c (rateKey c l) cap win off s0 s g f"
    and "h s0 (rateKey c l) = Map.empty" and "0 < win" and "off \<le> rate_now ops s0" and "0 < rate_now ops s0"
    and "0 \<le> cap" and "rate_now ops s < 100000000000000"
  shows "g \<le> cap + f"
  using hash_store.quota_run_inv [OF assms(1-6)] assms(7,8) by (auto simp: quota_ok_def split: if_splits)

theorem rate_quota_respected_witness:
  "granted_at rate_coordinator (rateKey rate_coordinator (sample_limit 60)) [sample_limit 60]
     (fst (AcquireRate href_ops rate_coordinator [sample_limit 60] fresh_store)) \<le> 100"
proof -
  let ?K = "rateKey rate_coordinator (sample_limit 60)"
  have use: "uses_quota rate_coordinator ?K 100 1000 0 [sample_limit 60]" by (simp add: uses_quota_def sample_limit_def)
  have run: "quota_run href_ops href_elapse rate_coordinator ?K 100 1000 0 fresh_store spent_store
      (0 + granted_at rate_coordinator ?K [sample_limit 60] (fst (AcquireRate href_ops rate_coordinator [sample_limit 60] fresh_store))) 0"
    by (rule quota_acquire [OF quota_start use]) (simp add: spent_store_def)
  have now: "0 < rate_now href_ops fresh_store" "(0::int) \<le> rate_now href_ops fresh_store" "rate_now href_ops spent_store < 100000000000000" by code_simp+
  have "href_view fresh_store ?K = Map.empty" by (simp add: fresh_store_def href_view_def)
  from rate_quota_respected [OF href_store run this _ now(2,1) _ now(3)] show ?thesis by simp
qed

text \<open>The run of a late refund.\<close>

definition next_window :: hstore where
  "next_window = hs_advance (11, 0) spent_store"

definition second_grant :: "(coord_error + RateDecision) \<times> hstore" where
  "second_grant = AcquireRate href_ops rate_coordinator [sample_limit 50] next_window"

definition late_refund :: "(coord_error + RateRefundDecision) \<times> hstore" where
  "late_refund = RefundRate href_ops rate_coordinator ''first'' [sample_limit 50] (snd second_grant)"

definition third_grant :: "(coord_error + RateDecision) \<times> hstore" where
  "third_grant = AcquireRate href_ops rate_coordinator [sample_limit 100] (snd late_refund)"

definition window_fields :: "rat \<Rightarrow> (string \<times> rat option) list" where
  "window_fields t = [(''tokens'', Some t), (''window_index'', Some 11), (''capacity_tokens'', Some 100), (''window_ms'', Some 1000), (''window_offset_ms'', Some 0)]"

definition window_store :: "(string \<times> rat option) list \<Rightarrow> string list \<Rightarrow> hstore" where
  "window_store l marks = (let k = rateKey rate_coordinator (sample_limit 50) in
     \<lparr>hs_clock = (11, 0), hs_hashes = [(k, l)], hs_strings = marks, hs_deadline = (k, 12000) # map (\<lambda>m. (m, 2592011000)) marks\<rparr>)"

definition empty_window :: hstore where
  "empty_window = \<lparr>hs_clock = (11, 0), hs_hashes = [], hs_strings = [], hs_deadline = []\<rparr>"

lemma next_window_result: "next_window = empty_window"
  by code_simp

lemma second_grant_result:
  "snd second_grant = window_store (window_fields 50) []"
  "granted_at rate_coordinator (rateKey rate_coordinator (sample_limit 50)) [sample_limit 50] (fst second_grant) = 50"
proof -
  have s: "snd (AcquireRate href_ops rate_coordinator [sample_limit 50] empty_window) = window_store (window_fields 50) []" by code_simp
  have g: "granted_at rate_coordinator (rateKey rate_coordinator (sample_limit 50)) [sample_limit 50]
      (fst (AcquireRate href_ops rate_coordinator [sample_limit 50] empty_window)) = 50" by code_simp
  show "snd second_grant = window_store (window_fields 50) []"
    "granted_at rate_coordinator (rateKey rate_coordinator (sample_limit 50)) [sample_limit 50] (fst second_grant) = 50"
    using s g by (simp_all add: second_grant_def next_window_result)
qed

lemma late_refund_result:
  "snd late_refund = window_store (window_fields 100 @ window_fields 50) [rateRefundKey rate_coordinator ''first'']"
proof -
  have "snd (RefundRate href_ops rate_coordinator ''first'' [sample_limit 50] (window_store (window_fields 50) [])) =
    window_store (window_fields 100 @ window_fields 50) [rateRefundKey rate_coordinator ''first'']" by code_simp
  then show ?thesis by (simp add: late_refund_def second_grant_result(1))
qed

lemma third_grant_result:
  "granted_at rate_coordinator (rateKey rate_coordinator (sample_limit 50)) [sample_limit 100] (fst third_grant) = 100"
  "rate_now href_ops (snd third_grant) = 11000"
proof -
  let ?s = "window_store (window_fields 100 @ window_fields 50) [rateRefundKey rate_coordinator ''first'']"
  have g: "granted_at rate_coordinator (rateKey rate_coordinator (sample_limit 50)) [sample_limit 100]
      (fst (AcquireRate href_ops rate_coordinator [sample_limit 100] ?s)) = 100" by code_simp
  have n: "rate_now href_ops ?s = 11000" by code_simp
  show "granted_at rate_coordinator (rateKey rate_coordinator (sample_limit 50)) [sample_limit 100] (fst third_grant) = 100"
    using g by (simp add: third_grant_def late_refund_result)
  show "rate_now href_ops (snd third_grant) = 11000" using n by (simp add: third_grant_def late_refund_result href.AcquireRate_now)
qed

lemma next_window_now: "rate_now href_ops next_window = 11000"
  by (simp add: next_window_result href_now empty_window_def hs_now_def)


end
