(* ===== verification/Canonical.thy ===== *)
theory Canonical
  imports Prelude Complex_Main
begin

text \<open>
  The provider-independent request and response vocabulary of \<open>internal/canonical\<close>. Pointers are options, raw
  JSON is its byte string, \<open>float64\<close> parameters are rationals (they are only compared), and a string type with
  named constants is a datatype of these constants and any other value. The \<open>Cause\<close> of an error, which is
  only reported, is left out.
\<close>

subsection \<open>errors.go\<close>

datatype ErrorKind = ErrorInvalidRequest | ErrorAuthentication | ErrorPermission | ErrorQuota | ErrorAdmissionTimeout | ErrorRateLimit
  | ErrorUnsupportedCapability | ErrorProviderConfiguration | ErrorProviderTemporary | ErrorProviderPermanent | ErrorStreamInterrupted
  | ErrorUncertain | ErrorStorageUnavailable | ErrorInternalInvariant

definition kind_string :: "ErrorKind \<Rightarrow> string" where
  "kind_string k = (case k of ErrorInvalidRequest \<Rightarrow> ''invalid_request'' | ErrorAuthentication \<Rightarrow> ''authentication''
     | ErrorPermission \<Rightarrow> ''permission'' | ErrorQuota \<Rightarrow> ''quota'' | ErrorAdmissionTimeout \<Rightarrow> ''admission_timeout''
     | ErrorRateLimit \<Rightarrow> ''rate_limit'' | ErrorUnsupportedCapability \<Rightarrow> ''unsupported_capability''
     | ErrorProviderConfiguration \<Rightarrow> ''provider_configuration'' | ErrorProviderTemporary \<Rightarrow> ''provider_temporary''
     | ErrorProviderPermanent \<Rightarrow> ''provider_permanent'' | ErrorStreamInterrupted \<Rightarrow> ''stream_interrupted''
     | ErrorUncertain \<Rightarrow> ''uncertain'' | ErrorStorageUnavailable \<Rightarrow> ''storage_unavailable''
     | ErrorInternalInvariant \<Rightarrow> ''internal_invariant'')"

record RetryAfterHint =
  rh_DelaySeconds :: "int option"
  rh_At :: "gotime option"

record CError =
  ce_Kind :: ErrorKind
  ce_Code :: string
  ce_Message :: string
  ce_Parameter :: string
  ce_Provider :: string
  ce_ProviderType :: string
  ce_Model :: string
  ce_Capability :: string
  ce_RequestID :: string
  ce_HTTPStatus :: int
  ce_RetryAfter :: "RetryAfterHint option"
  ce_ReplaySafe :: bool

definition error_text :: "CError option \<Rightarrow> string" where
  "error_text e = (case e of
     None \<Rightarrow> ''<nil>''
   | Some e \<Rightarrow>
       if ce_Provider e \<noteq> '''' then ce_Provider e @ '': '' @ kind_string (ce_Kind e) @ '': '' @ ce_Message e
       else kind_string (ce_Kind e) @ '': '' @ ce_Message e)"

text \<open>A composite literal with only kind, code and message; the other fields are zero values.\<close>

definition new_error :: "ErrorKind \<Rightarrow> string \<Rightarrow> string \<Rightarrow> CError" where
  "new_error kind code message = \<lparr>ce_Kind = kind, ce_Code = code, ce_Message = message, ce_Parameter = '''', ce_Provider = '''', ce_ProviderType = '''',
     ce_Model = '''', ce_Capability = '''', ce_RequestID = '''', ce_HTTPStatus = 0, ce_RetryAfter = None, ce_ReplaySafe = False\<rparr>"

lemma new_error_simps [simp]:
  "ce_Kind (new_error k c m) = k" "ce_Code (new_error k c m) = c" "ce_Message (new_error k c m) = m" "ce_RetryAfter (new_error k c m) = None"
  "ce_ReplaySafe (new_error k c m) = False" "ce_HTTPStatus (new_error k c m) = 0"
  by (simp_all add: new_error_def)

lemma kind_string_inj: "kind_string a = kind_string b \<Longrightarrow> a = b"
  by (cases a; cases b) (simp_all add: kind_string_def)

subsection \<open>content.go, reasoning.go, tools.go, usage.go\<close>

datatype ContentPartType = ContentPartText | ContentPartImageURL | ContentPartVideoURL | ContentPartOther string

record ImageURL =
  iu_URL :: string
  iu_Detail :: string

record VideoURL =
  vu_URL :: string

record ContentPart =
  cp_Type :: ContentPartType
  cp_Text :: string
  cp_ImageURL :: "ImageURL option"
  cp_VideoURL :: "VideoURL option"

definition TextContent :: "string \<Rightarrow> ContentPart list" where
  "TextContent t = [\<lparr>cp_Type = ContentPartText, cp_Text = t, cp_ImageURL = None, cp_VideoURL = None\<rparr>]"

type_synonym ReasoningEffort = string

record ReasoningConfig =
  rc_Enabled :: "bool option"
  rc_Effort :: ReasoningEffort
  rc_Preserve :: "bool option"

record ReasoningContent =
  rt_Text :: string

record ToolDefinition =
  td_Name :: string
  td_Description :: string
  td_Parameters :: string
  td_Strict :: "bool option"

record ToolFunctionCall =
  tf_Name :: string
  tf_Arguments :: string

record ToolCall =
  tc_ID :: string
  tc_Type :: string
  tc_Function :: ToolFunctionCall

record ToolCallDelta =
  tl_Index :: int
  tl_ID :: string
  tl_Type :: string
  tl_FunctionName :: string
  tl_ArgumentsFragment :: string

type_synonym ToolChoiceMode = string

record ToolChoice =
  th_Mode :: ToolChoiceMode
  th_FunctionName :: string

datatype UsageSource = UsageAuthoritative | UsageEstimated | UsageUnknown | UsageUnset

record TokenUsage =
  tu_InputTokens :: "int option"
  tu_OutputTokens :: "int option"
  tu_TotalTokens :: "int option"
  tu_CachedInputTokens :: "int option"
  tu_CacheMissInputTokens :: "int option"
  tu_ReasoningTokens :: "int option"
  tu_Source :: UsageSource

subsection \<open>chat.go, stream.go\<close>

datatype Role = RoleSystem | RoleDeveloper | RoleUser | RoleAssistant | RoleTool | RoleOther string

record Message =
  me_Role :: Role
  me_Name :: string
  me_Content :: "ContentPart list"
  me_Partial :: bool
  me_ToolCalls :: "ToolCall list"
  me_ToolCallID :: string
  me_Reasoning :: "ReasoningContent option"

datatype ResponseFormatType = ResponseFormatText | ResponseFormatJSONObject | ResponseFormatJSONSchema | ResponseFormatOther string

record JSONSchema =
  js_Name :: string
  js_Description :: string
  js_Schema :: string
  js_Strict :: "bool option"

record ResponseFormat =
  rf_Type :: ResponseFormatType
  rf_JSONSchema :: "JSONSchema option"

record ChatRequest =
  cq_RequestID :: string
  cq_Model :: string
  cq_Messages :: "Message list"
  cq_Tools :: "ToolDefinition list"
  cq_ToolChoice :: "ToolChoice option"
  cq_ParallelToolCalls :: "bool option"
  cq_Stream :: bool
  cq_StreamUsage :: "bool option"
  cq_MaxOutputTokens :: "int option"
  cq_N :: "int option"
  cq_Temperature :: "rat option"
  cq_TopP :: "rat option"
  cq_TopK :: "rat option"
  cq_PresencePenalty :: "rat option"
  cq_FrequencyPenalty :: "rat option"
  cq_ThinkingBudget :: "int option"
  cq_Stop :: "string list"
  cq_ResponseFormat :: "ResponseFormat option"
  cq_Reasoning :: "ReasoningConfig option"
  cq_PromptCacheKey :: string
  cq_SafetyIdentifier :: string

datatype FinishReason = FinishReasonStop | FinishReasonLength | FinishReasonToolCalls | FinishReasonContentFilter | FinishReasonOther string

record ChatChoice =
  cc_Index :: int
  cc_Message :: Message
  cc_FinishReason :: FinishReason

record ChatResponse =
  cs_ID :: string
  cs_RequestID :: string
  cs_Model :: string
  cs_CreatedAt :: gotime
  cs_Choices :: "ChatChoice list"
  cs_Usage :: "TokenUsage option"

datatype StreamEventType = StreamMessageStart | StreamContentDelta | StreamReasoningDelta | StreamToolCallDelta | StreamFinish
  | StreamUsage | StreamError | StreamDone

record StreamEvent =
  se_Type :: StreamEventType
  se_CompletionID :: string
  se_RequestID :: string
  se_Model :: string
  se_CreatedAt :: gotime
  se_ChoiceIndex :: int
  se_Role :: Role
  se_ContentDelta :: string
  se_ReasoningDelta :: string
  se_ToolCallDelta :: "ToolCallDelta option"
  se_FinishReason :: FinishReason
  se_Usage :: "TokenUsage option"
  se_Error :: "CError option"

end
