(* ===== verification/SSE.thy ===== *)
theory SSE
  imports Canonical
begin

text \<open>
  The incremental decoder of server-sent events of \<open>internal/canonical/sse.go\<close> and the writers of
  \<open>internal/protocol/present.go\<close>. Bytes are characters; an error of \<open>Feed\<close> or \<open>Close\<close> is a message, and the
  decoder it leaves behind is returned with it.
\<close>

subsection \<open>sse.go\<close>

abbreviation LF :: char where "LF \<equiv> CHR 0x0A"
abbreviation CR :: char where "CR \<equiv> CHR 0x0D"
abbreviation DefaultMaxSSEEventBytes :: int where "DefaultMaxSSEEventBytes \<equiv> 1048576"

record SSEEvent =
  sv_Event :: string
  sv_Data :: string
  sv_ID :: string
  sv_RetryMilliseconds :: "int option"

record SSEDecoder =
  sd_maxEventBytes :: int
  sd_buffer :: string
  sd_data :: string
  sd_event :: string
  sd_id :: string
  sd_retry :: "int option"
  sd_seenData :: bool
  sd_firstLine :: bool
  sd_closed :: bool

definition NewSSEDecoder :: "int \<Rightarrow> SSEDecoder" where
  "NewSSEDecoder maxEventBytes =
    \<lparr>sd_maxEventBytes = (if maxEventBytes \<le> 0 then DefaultMaxSSEEventBytes else maxEventBytes), sd_buffer = '''', sd_data = '''', sd_event = '''',
     sd_id = '''', sd_retry = None, sd_seenData = False, sd_firstLine = True, sd_closed = False\<rparr>"

text \<open>The loop of \<open>nextSSELine\<close> at an index, with the rest of the buffer from there.\<close>

fun line_scan :: "string \<Rightarrow> bool \<Rightarrow> nat \<Rightarrow> string \<Rightarrow> (string \<times> nat) option" where
  "line_scan buffer atEOF index [] = (if atEOF \<and> length buffer > 0 then Some (buffer, length buffer) else None)"
| "line_scan buffer atEOF index (c # cs) =
    (if c = LF then
       let end = (if index > 0 \<and> buffer ! (index - 1) = CR then index - 1 else index)
       in Some (take end buffer, index + 1)
     else if c = CR then
       if index + 1 = length buffer \<and> \<not> atEOF then None
       else Some (take index buffer, if index + 1 < length buffer \<and> buffer ! (index + 1) = LF then index + 2 else index + 1)
     else line_scan buffer atEOF (index + 1) cs)"

definition nextSSELine :: "string \<Rightarrow> bool \<Rightarrow> (string \<times> nat) option" where
  "nextSSELine buffer atEOF = line_scan buffer atEOF 0 buffer"

text \<open>\<open>bytes.Cut\<close> at the first colon: the part before it, and the part after it if there is one.\<close>

fun cut_colon :: "string \<Rightarrow> string \<times> string option" where
  "cut_colon [] = ([], None)"
| "cut_colon (c # cs) = (if c = CHR '':'' then ([], Some cs) else (let (field, value) = cut_colon cs in (c # field, value)))"

text \<open>\<open>strconv.ParseInt(text, 10, 64)\<close>: an optional sign and decimal digits, within 64 bits.\<close>

definition digit_value :: "char \<Rightarrow> int option" where
  "digit_value c = (let n = of_char c :: int in if 48 \<le> n \<and> n \<le> 57 then Some (n - 48) else None)"

fun parse_digits :: "int \<Rightarrow> string \<Rightarrow> int option" where
  "parse_digits acc [] = Some acc"
| "parse_digits acc (c # cs) = (case digit_value c of None \<Rightarrow> None | Some v \<Rightarrow> parse_digits (acc * 10 + v) cs)"

definition ParseInt64 :: "string \<Rightarrow> int option" where
  "ParseInt64 text =
    (let (sign, digits) = (case text of c # cs \<Rightarrow> if c = CHR ''-'' then (- 1, cs) else if c = CHR ''+'' then (1, cs) else (1, text) | [] \<Rightarrow> (1, []))
     in if digits = [] then None
        else case parse_digits 0 digits of
          None \<Rightarrow> None
        | Some v \<Rightarrow> if min_int64 \<le> sign * v \<and> sign * v \<le> max_int64 then Some (sign * v) else None)"

definition consumeField :: "string \<Rightarrow> SSEDecoder \<Rightarrow> string option \<times> SSEDecoder" where
  "consumeField line d =
    (if line \<noteq> [] \<and> hd line = CHR '':'' then (None, d)
     else
       let (field, value) = cut_colon line;
           value = (case value of None \<Rightarrow> [] | Some v \<Rightarrow> if v \<noteq> [] \<and> hd v = CHR '' '' then tl v else v)
       in if field = ''data'' then
            if int (length (sd_data d)) + (int (length value) + (if sd_seenData d then 1 else 0)) > sd_maxEventBytes d then
              (Some ''SSE event exceeds the limit'', d)
            else (None, d\<lparr>sd_data := sd_data d @ (if sd_seenData d then [LF] else []) @ value, sd_seenData := True\<rparr>)
          else if field = ''event'' then (None, d\<lparr>sd_event := value\<rparr>)
          else if field = ''id'' then (None, if CHR 0x00 \<in> set value then d else d\<lparr>sd_id := value\<rparr>)
          else if field = ''retry'' then
            (None, case ParseInt64 value of None \<Rightarrow> d | Some v \<Rightarrow> if v \<ge> 0 then d\<lparr>sd_retry := Some v\<rparr> else d)
          else (None, d))"

definition dispatch_event :: "SSEDecoder \<Rightarrow> SSEEvent option \<times> SSEDecoder" where
  "dispatch_event d =
    (if \<not> sd_seenData d then (None, d\<lparr>sd_event := '''', sd_retry := None\<rparr>)
     else (Some \<lparr>sv_Event = sd_event d, sv_Data = sd_data d, sv_ID = sd_id d, sv_RetryMilliseconds = sd_retry d\<rparr>,
       d\<lparr>sd_data := '''', sd_event := '''', sd_retry := None, sd_seenData := False\<rparr>))"

abbreviation utf8_bom :: string where "utf8_bom \<equiv> [CHR 0xEF, CHR 0xBB, CHR 0xBF]"

definition trim_prefix :: "string \<Rightarrow> string \<Rightarrow> string" where
  "trim_prefix p s = (if take (length p) s = p then drop (length p) s else s)"

text \<open>The body of the loop of \<open>consumeLines\<close> for one line.\<close>

definition consume_line :: "string \<Rightarrow> SSEDecoder \<Rightarrow> (string + SSEEvent option) \<times> SSEDecoder" where
  "consume_line line d =
    (if int (length line) > sd_maxEventBytes d then (Inl ''SSE line exceeds the limit'', d)
     else
       let (line, d) = (if sd_firstLine d then (trim_prefix utf8_bom line, d\<lparr>sd_firstLine := False\<rparr>) else (line, d))
       in if length line = 0 then (let (ev, d) = dispatch_event d in (Inr ev, d))
          else case consumeField line d of (Some err, d) \<Rightarrow> (Inl err, d) | (None, d) \<Rightarrow> (Inr None, d))"

lemma line_scan_consumed: "line_scan buffer eof i rest = Some (line, n) \<Longrightarrow> i + length rest = length buffer \<Longrightarrow> 0 < n \<and> n \<le> length buffer"
  by (induction buffer eof i rest rule: line_scan.induct) (auto simp: Let_def split: if_splits)

lemma nextSSELine_consumed: "nextSSELine buffer eof = Some (line, n) \<Longrightarrow> 0 < n \<and> n \<le> length buffer"
  using line_scan_consumed [of buffer eof 0 buffer] by (simp add: nextSSELine_def)

lemma consumeField_buffer: "sd_buffer (snd (consumeField line d)) = sd_buffer d"
  by (auto simp: consumeField_def Let_def case_prod_beta split: option.splits)

lemma consume_line_buffer: "sd_buffer (snd (consume_line line d)) = sd_buffer d"
  using consumeField_buffer
  by (auto simp: consume_line_def dispatch_event_def Let_def case_prod_beta split: if_splits prod.splits option.splits)

function consumeLines :: "bool \<Rightarrow> SSEDecoder \<Rightarrow> (string + SSEEvent list) \<times> SSEDecoder" where
  "consumeLines atEOF d =
    (case nextSSELine (sd_buffer d) atEOF of
       None \<Rightarrow> (Inr [], d)
     | Some (line, consumed) \<Rightarrow>
         (case consume_line line (d\<lparr>sd_buffer := drop consumed (sd_buffer d)\<rparr>) of
            (Inl err, d) \<Rightarrow> (Inl err, d)
          | (Inr ev, d) \<Rightarrow>
              (case consumeLines atEOF d of
                 (Inl err, d) \<Rightarrow> (Inl err, d)
               | (Inr events, d) \<Rightarrow> (Inr ((case ev of None \<Rightarrow> [] | Some e \<Rightarrow> [e]) @ events), d))))"
  by pat_completeness auto
termination
proof (relation "measure (\<lambda>(eof, d). length (sd_buffer d))", goal_cases)
  case (2 eof d p line consumed x d' ev)
  then have "snd (consume_line line (d\<lparr>sd_buffer := drop consumed (sd_buffer d)\<rparr>)) = d'" by (metis snd_conv)
  then have "sd_buffer d' = drop consumed (sd_buffer d)"
    using consume_line_buffer [of line "d\<lparr>sd_buffer := drop consumed (sd_buffer d)\<rparr>"] by auto
  moreover have "0 < consumed" "consumed \<le> length (sd_buffer d)" using nextSSELine_consumed [of "sd_buffer d" eof line consumed] 2 by auto
  ultimately show ?case by auto
qed simp

declare consumeLines.simps [simp del]

definition Feed :: "string \<Rightarrow> SSEDecoder \<Rightarrow> (string + SSEEvent list) \<times> SSEDecoder" where
  "Feed chunk d =
    (if sd_closed d then (Inl ''SSE decoder is closed'', d)
     else if length chunk = 0 then (Inr [], d)
     else
       case consumeLines False (d\<lparr>sd_buffer := sd_buffer d @ chunk\<rparr>) of
         (Inl err, d) \<Rightarrow> (Inl err, d)
       | (Inr events, d) \<Rightarrow>
           if int (length (sd_buffer d)) > sd_maxEventBytes d then (Inl ''SSE line exceeds the limit'', d) else (Inr events, d))"

definition Close :: "SSEDecoder \<Rightarrow> (string + SSEEvent list) \<times> SSEDecoder" where
  "Close d =
    (if sd_closed d then (Inl ''SSE decoder is closed'', d)
     else
       case consumeLines True (d\<lparr>sd_closed := True\<rparr>) of
         (Inl err, d) \<Rightarrow> (Inl err, d)
       | (Inr events, d) \<Rightarrow> (case dispatch_event d of (None, d) \<Rightarrow> (Inr events, d) | (Some e, d) \<Rightarrow> (Inr (events @ [e]), d)))"

subsection \<open>present.go: the writers\<close>

text \<open>\<open>encoded\<close> is the JSON text that \<open>json.Marshal\<close> returned.\<close>

definition WriteSSE :: "string \<Rightarrow> string" where
  "WriteSSE encoded = ''data: '' @ encoded @ [LF, LF]"

definition WriteNamedSSE :: "string \<Rightarrow> string \<Rightarrow> string" where
  "WriteNamedSSE event encoded = ''event: '' @ event @ [LF] @ ''data: '' @ encoded @ [LF, LF]"

definition WriteSSEDone :: string where
  "WriteSSEDone = ''data: [DONE]'' @ [LF, LF]"

subsection \<open>Chunks\<close>

lemma line_scan_append:
  "\<lbrakk>line_scan buffer False i rest = Some (line, n); rest = drop i buffer; i \<le> length buffer\<rbrakk> \<Longrightarrow>
    line_scan (buffer @ b) False i (rest @ b) = Some (line, n)"
proof (induction buffer False i rest rule: line_scan.induct)
  case (2 buffer index c cs)
  have i: "index < length buffer" "cs = drop (Suc index) buffer" using "2.prems"(2,3) by (metis drop_all linorder_not_less list.discI, metis drop_Suc drop_tl list.sel(3))
  show ?case
  proof (cases "c = LF \<or> c = CR")
    case True
    then show ?thesis using "2.prems"(1) i(1) by (auto simp: nth_append Let_def split: if_splits)
  next
    case False
    then show ?thesis using "2.hyps" "2.prems"(1) i by simp
  qed
qed simp

lemma nextSSELine_append: "nextSSELine buffer False = Some (line, n) \<Longrightarrow> nextSSELine (buffer @ b) False = Some (line, n)"
  using line_scan_append [of buffer 0 buffer line n b] by (simp add: nextSSELine_def)

lemma consumeField_set_buffer:
  "consumeField line (d\<lparr>sd_buffer := x\<rparr>) = (fst (consumeField line d), (snd (consumeField line d))\<lparr>sd_buffer := x\<rparr>)"
  by (auto simp: consumeField_def Let_def case_prod_beta split: option.splits)

lemma first_line_buffer: "d\<lparr>sd_buffer := x, sd_firstLine := False\<rparr> = d\<lparr>sd_firstLine := False, sd_buffer := x\<rparr>"
  by (cases d) simp

lemma dispatch_event_set_buffer:
  "dispatch_event (d\<lparr>sd_buffer := x\<rparr>) = (fst (dispatch_event d), (snd (dispatch_event d))\<lparr>sd_buffer := x\<rparr>)"
  by (cases d) (simp add: dispatch_event_def)

lemma consume_line_set_buffer:
  "consume_line line (d\<lparr>sd_buffer := x\<rparr>) = (fst (consume_line line d), (snd (consume_line line d))\<lparr>sd_buffer := x\<rparr>)"
proof (cases "int (length line) > sd_maxEventBytes d")
  case True
  then show ?thesis by (simp add: consume_line_def)
next
  case False
  define l where "l = (if sd_firstLine d then trim_prefix utf8_bom line else line)"
  define d0 where "d0 = (if sd_firstLine d then d\<lparr>sd_firstLine := False\<rparr> else d)"
  have a: "consume_line line d = (if length l = 0 then (let (ev, d) = dispatch_event d0 in (Inr ev, d))
      else case consumeField l d0 of (Some err, d) \<Rightarrow> (Inl err, d) | (None, d) \<Rightarrow> (Inr None, d))"
    using False by (simp add: consume_line_def l_def d0_def)
  have b: "consume_line line (d\<lparr>sd_buffer := x\<rparr>) = (if length l = 0 then (let (ev, d) = dispatch_event (d0\<lparr>sd_buffer := x\<rparr>) in (Inr ev, d))
      else case consumeField l (d0\<lparr>sd_buffer := x\<rparr>) of (Some err, d) \<Rightarrow> (Inl err, d) | (None, d) \<Rightarrow> (Inr None, d))"
    using False unfolding l_def d0_def by (cases "sd_firstLine d") (simp_all add: consume_line_def first_line_buffer)
  show ?thesis unfolding a b dispatch_event_set_buffer consumeField_set_buffer
    by (cases "consumeField l d0"; cases "fst (consumeField l d0)") (simp_all add: case_prod_beta)
qed

lemma consumeField_keeps: "sd_closed (snd (consumeField line d)) = sd_closed d" "sd_maxEventBytes (snd (consumeField line d)) = sd_maxEventBytes d"
  by (simp_all add: consumeField_def Let_def case_prod_beta split: option.split)

lemma consume_line_keeps: "sd_closed (snd (consume_line line d)) = sd_closed d" "sd_maxEventBytes (snd (consume_line line d)) = sd_maxEventBytes d"
  by (simp_all add: consume_line_def dispatch_event_def Let_def case_prod_beta consumeField_keeps split: option.split)

text \<open>The three ways \<open>consumeLines\<close> goes on, and the induction over the lines it consumes.\<close>

lemma consumeLines_none: "nextSSELine (sd_buffer d) eof = None \<Longrightarrow> consumeLines eof d = (Inr [], d)"
  by (simp add: consumeLines.simps)

lemma consumeLines_some:
  "nextSSELine (sd_buffer d) eof = Some (line, n) \<Longrightarrow> consume_line line (d\<lparr>sd_buffer := drop n (sd_buffer d)\<rparr>) = (r, d1) \<Longrightarrow>
    consumeLines eof d = (case r of Inl err \<Rightarrow> (Inl err, d1) | Inr ev \<Rightarrow> (case consumeLines eof d1 of
        (Inl err, d) \<Rightarrow> (Inl err, d) | (Inr events, d) \<Rightarrow> (Inr ((case ev of None \<Rightarrow> [] | Some e \<Rightarrow> [e]) @ events), d)))"
  by (subst consumeLines.simps) (simp split: sum.splits)

lemma consumeLines_rule [consumes 0, case_names none error line]:
  assumes "\<And>d. nextSSELine (sd_buffer d) eof = None \<Longrightarrow> P d (Inr []) d"
    and "\<And>d line n e d1. nextSSELine (sd_buffer d) eof = Some (line, n) \<Longrightarrow>
      consume_line line (d\<lparr>sd_buffer := drop n (sd_buffer d)\<rparr>) = (Inl e, d1) \<Longrightarrow> P d (Inl e) d1"
    and "\<And>d line n ev d1 r d2. nextSSELine (sd_buffer d) eof = Some (line, n) \<Longrightarrow>
      consume_line line (d\<lparr>sd_buffer := drop n (sd_buffer d)\<rparr>) = (Inr ev, d1) \<Longrightarrow> consumeLines eof d1 = (r, d2) \<Longrightarrow> P d1 r d2 \<Longrightarrow>
      P d (case r of Inl e \<Rightarrow> Inl e | Inr es \<Rightarrow> Inr ((case ev of None \<Rightarrow> [] | Some e \<Rightarrow> [e]) @ es)) d2"
  shows "P d (fst (consumeLines eof d)) (snd (consumeLines eof d))"
proof (induction "length (sd_buffer d)" arbitrary: d rule: less_induct)
  case less
  show ?case
  proof (cases "nextSSELine (sd_buffer d) eof")
    case None
    then show ?thesis using assms(1) [OF None] by (simp add: consumeLines_none)
  next
    case (Some p)
    obtain line n where p: "p = (line, n)" by (cases p)
    obtain r d1 where r: "consume_line line (d\<lparr>sd_buffer := drop n (sd_buffer d)\<rparr>) = (r, d1)" by fastforce
    have "sd_buffer d1 = drop n (sd_buffer d)" using consume_line_buffer [of line "d\<lparr>sd_buffer := drop n (sd_buffer d)\<rparr>"] r by simp
    then have len: "length (sd_buffer d1) < length (sd_buffer d)" using nextSSELine_consumed [of "sd_buffer d" eof line n] Some p by auto
    obtain r2 d2 where r2: "consumeLines eof d1 = (r2, d2)" by fastforce
    note step = consumeLines_some [OF Some [unfolded p] r]
    show ?thesis
    proof (cases r)
      case (Inl e)
      then show ?thesis using assms(2) [OF Some [unfolded p]] r step by simp
    next
      case (Inr ev)
      then show ?thesis using assms(3) [OF Some [unfolded p] r [unfolded Inr] r2] less [OF len] r2 step by (simp split: sum.splits)
    qed
  qed
qed

lemma consumeLines_keeps: "sd_closed (snd (consumeLines eof d)) = sd_closed d \<and> sd_maxEventBytes (snd (consumeLines eof d)) = sd_maxEventBytes d"
proof (rule consumeLines_rule [where P = "\<lambda>d r d'. sd_closed d' = sd_closed d \<and> sd_maxEventBytes d' = sd_maxEventBytes d"], goal_cases)
  case (2 d line n e d1)
  then show ?case using consume_line_keeps [of line "d\<lparr>sd_buffer := drop n (sd_buffer d)\<rparr>"] by simp
next
  case (3 d line n ev d1 r d2)
  then show ?case using consume_line_keeps [of line "d\<lparr>sd_buffer := drop n (sd_buffer d)\<rparr>"] by simp
qed simp

lemma consumeLines_rest: "consumeLines False d = (Inr es, d1) \<Longrightarrow> nextSSELine (sd_buffer d1) False = None"
proof -
  have "isl (fst (consumeLines False d)) \<or> nextSSELine (sd_buffer (snd (consumeLines False d))) False = None"
    by (rule consumeLines_rule [where P = "\<lambda>d r d'. isl r \<or> nextSSELine (sd_buffer d') False = None"]) (auto split: sum.splits)
  then show "consumeLines False d = (Inr es, d1) \<Longrightarrow> nextSSELine (sd_buffer d1) False = None" by simp
qed

lemma consumeLines_append:
  "case consumeLines False d of
     (Inl e, d1) \<Rightarrow> consumeLines False (d\<lparr>sd_buffer := sd_buffer d @ b\<rparr>) = (Inl e, d1\<lparr>sd_buffer := sd_buffer d1 @ b\<rparr>)
   | (Inr ea, d1) \<Rightarrow> consumeLines False (d\<lparr>sd_buffer := sd_buffer d @ b\<rparr>) =
       (case consumeLines False (d1\<lparr>sd_buffer := sd_buffer d1 @ b\<rparr>) of (Inl e, d2) \<Rightarrow> (Inl e, d2) | (Inr eb, d2) \<Rightarrow> (Inr (ea @ eb), d2))"
proof (induction False d rule: consumeLines.induct)
  case (1 d)
  show ?case
  proof (cases "nextSSELine (sd_buffer d) False")
    case None
    then have "consumeLines False d = (Inr [], d)" by (simp add: consumeLines.simps)
    then show ?thesis by (auto split: sum.splits prod.splits)
  next
    case (Some p)
    obtain line n where p: "p = (line, n)" by (cases p)
    have n: "n \<le> length (sd_buffer d)" using nextSSELine_consumed Some p by blast
    obtain r d1 where r: "consume_line line (d\<lparr>sd_buffer := drop n (sd_buffer d)\<rparr>) = (r, d1)" by fastforce
    have d1: "sd_buffer d1 = drop n (sd_buffer d)" using consume_line_buffer [of line "d\<lparr>sd_buffer := drop n (sd_buffer d)\<rparr>"] r by simp
    have r': "consume_line line (d\<lparr>sd_buffer := drop n (sd_buffer d) @ b\<rparr>) = (r, d1\<lparr>sd_buffer := sd_buffer d1 @ b\<rparr>)"
      using consume_line_set_buffer [where line = line and d = "d\<lparr>sd_buffer := drop n (sd_buffer d)\<rparr>" and x = "drop n (sd_buffer d) @ b"] r d1 by simp
    have nx: "nextSSELine (sd_buffer d @ b) False = Some (line, n)" using nextSSELine_append Some p by blast
    note step = consumeLines_some [OF Some [unfolded p] r]
    have step': "consumeLines False (d\<lparr>sd_buffer := sd_buffer d @ b\<rparr>) = (case r of Inl err \<Rightarrow> (Inl err, d1\<lparr>sd_buffer := sd_buffer d1 @ b\<rparr>) | Inr ev \<Rightarrow>
        (case consumeLines False (d1\<lparr>sd_buffer := sd_buffer d1 @ b\<rparr>) of
        (Inl err, d) \<Rightarrow> (Inl err, d) | (Inr events, d) \<Rightarrow> (Inr ((case ev of None \<Rightarrow> [] | Some e \<Rightarrow> [e]) @ events), d)))"
      using nx r' n by (intro consumeLines_some [of _ _ line n]) simp_all
    show ?thesis
    proof (cases r)
      case (Inl e)
      then show ?thesis using step step' by simp
    next
      case (Inr ev)
      have IH: "case consumeLines False d1 of
         (Inl e, d2) \<Rightarrow> consumeLines False (d1\<lparr>sd_buffer := sd_buffer d1 @ b\<rparr>) = (Inl e, d2\<lparr>sd_buffer := sd_buffer d2 @ b\<rparr>)
       | (Inr ea, d2) \<Rightarrow> consumeLines False (d1\<lparr>sd_buffer := sd_buffer d1 @ b\<rparr>) =
           (case consumeLines False (d2\<lparr>sd_buffer := sd_buffer d2 @ b\<rparr>) of (Inl e, d2) \<Rightarrow> (Inl e, d2) | (Inr eb, d2) \<Rightarrow> (Inr (ea @ eb), d2))"
        using "1.hyps" [OF Some p [symmetric] r [symmetric] Inr] .
      show ?thesis unfolding step step' Inr sum.case
        using IH by (cases "consumeLines False d1") (auto split: sum.splits prod.splits)
    qed
  qed
qed

text \<open>Feeding a list of chunks, as the read loop of a stream does; it stops at the first error.\<close>

fun feed_all :: "string list \<Rightarrow> SSEDecoder \<Rightarrow> (string + SSEEvent list) \<times> SSEDecoder" where
  "feed_all [] d = (Inr [], d)"
| "feed_all (c # cs) d =
    (case Feed c d of
       (Inl e, d) \<Rightarrow> (Inl e, d)
     | (Inr es, d) \<Rightarrow> (case feed_all cs d of (Inl e, d) \<Rightarrow> (Inl e, d) | (Inr es', d) \<Rightarrow> (Inr (es @ es'), d)))"

lemma Feed_eq:
  "\<not> sd_closed d \<Longrightarrow> c \<noteq> [] \<Longrightarrow> consumeLines False (d\<lparr>sd_buffer := sd_buffer d @ c\<rparr>) = (r, d1) \<Longrightarrow>
    Feed c d = (case r of Inl e \<Rightarrow> (Inl e, d1) | Inr es \<Rightarrow>
      if int (length (sd_buffer d1)) > sd_maxEventBytes d1 then (Inl ''SSE line exceeds the limit'', d1) else (Inr es, d1))"
  by (simp add: Feed_def split: sum.splits)

lemma Feed_empty: "\<not> sd_closed d \<Longrightarrow> Feed [] d = (Inr [], d)"
  by (simp add: Feed_def)

lemma Feed_keeps: "sd_closed (snd (Feed c d)) = sd_closed d \<and> sd_maxEventBytes (snd (Feed c d)) = sd_maxEventBytes d"
  using consumeLines_keeps [of False "d\<lparr>sd_buffer := sd_buffer d @ c\<rparr>"]
  by (auto simp: Feed_def split: prod.splits sum.splits)

lemma consumeLines_two:
  assumes "consumeLines False (d\<lparr>sd_buffer := sd_buffer d @ a\<rparr>) = (r, d1)"
  shows "consumeLines False (d\<lparr>sd_buffer := sd_buffer d @ a @ b\<rparr>) =
    (case r of Inl e \<Rightarrow> (Inl e, d1\<lparr>sd_buffer := sd_buffer d1 @ b\<rparr>)
     | Inr ea \<Rightarrow> (case consumeLines False (d1\<lparr>sd_buffer := sd_buffer d1 @ b\<rparr>) of (Inl e, d2) \<Rightarrow> (Inl e, d2) | (Inr eb, d2) \<Rightarrow> (Inr (ea @ eb), d2)))"
  using consumeLines_append [of "d\<lparr>sd_buffer := sd_buffer d @ a\<rparr>" b] assms by (simp split: sum.splits)

lemma Feed_two:
  assumes "\<not> sd_closed d" "Feed a d = (Inr ea, d1)" "Feed b d1 = (r, d2)"
  shows "Feed (a @ b) d = (case r of Inl e \<Rightarrow> Inl e | Inr eb \<Rightarrow> Inr (ea @ eb), d2)"
proof (cases "a = [] \<or> b = []")
  case True
  then show ?thesis
    using assms Feed_keeps [of a d] by (cases "a = []") (auto simp: Feed_empty split: sum.splits)
next
  case False
  obtain ra da where ra: "consumeLines False (d\<lparr>sd_buffer := sd_buffer d @ a\<rparr>) = (ra, da)" by fastforce
  have a: "ra = Inr ea" "da = d1" using Feed_eq [OF assms(1) _ ra] False assms(2) by (auto split: sum.splits if_splits)
  have c1: "\<not> sd_closed d1" using Feed_keeps [of a d] assms by simp
  obtain rb db where rb: "consumeLines False (d1\<lparr>sd_buffer := sd_buffer d1 @ b\<rparr>) = (rb, db)" by fastforce
  have ab: "consumeLines False (d\<lparr>sd_buffer := sd_buffer d @ a @ b\<rparr>) = (case rb of Inl e \<Rightarrow> Inl e | Inr eb \<Rightarrow> Inr (ea @ eb), db)"
    using consumeLines_two [OF ra, of b] a rb by (simp split: sum.splits)
  show ?thesis
    using Feed_eq [OF assms(1) _ ab] Feed_eq [OF c1 _ rb] False assms(3) by (auto split: sum.splits if_splits)
qed

text \<open>A chunk that fails for another reason than the pending line fails every continuation of it.\<close>

lemma Feed_fails:
  assumes "\<not> sd_closed d" "Feed a d = (Inl e, d1)" "e \<noteq> ''SSE line exceeds the limit''"
  shows "\<exists>d2. Feed (a @ b) d = (Inl e, d2)"
proof -
  have a: "a \<noteq> []" using assms Feed_empty by auto
  obtain ra da where ra: "consumeLines False (d\<lparr>sd_buffer := sd_buffer d @ a\<rparr>) = (ra, da)" by fastforce
  have "ra = Inl e" using Feed_eq [OF assms(1) a ra] assms(2,3) by (auto split: sum.splits if_splits)
  then have "consumeLines False (d\<lparr>sd_buffer := sd_buffer d @ a @ b\<rparr>) = (Inl e, da\<lparr>sd_buffer := sd_buffer da @ b\<rparr>)"
    using consumeLines_two [OF ra, of b] by simp
  from Feed_eq [OF assms(1) _ this] a show ?thesis by auto
qed

lemma feed_all_Feed:
  assumes "\<not> sd_closed d"
  shows "feed_all cs d = (Inr es, d1) \<Longrightarrow> Feed (concat cs) d = (Inr es, d1)"
    "feed_all cs d = (Inl e, d1) \<Longrightarrow> e \<noteq> ''SSE line exceeds the limit'' \<Longrightarrow> \<exists>d2. Feed (concat cs) d = (Inl e, d2)"
  using assms
proof (induction cs arbitrary: d es d1 e)
  case (Cons c cs)
  {
    case 1
    obtain r d' where F: "Feed c d = (r, d')" by fastforce
    have cl: "\<not> sd_closed d'" using Feed_keeps [of c d] F 1(2) by simp
    obtain ea where ea: "r = Inr ea" using 1(1) F by (auto split: sum.splits)
    obtain eb where eb: "feed_all cs d' = (Inr eb, d1)" "es = ea @ eb" using 1(1) F ea by (auto split: sum.splits prod.splits)
    then show ?case using Feed_two [OF 1(2) F [unfolded ea] Cons.IH(1) [OF eb(1) cl]] by simp
  next
    case 2
    obtain r d' where F: "Feed c d = (r, d')" by fastforce
    have cl: "\<not> sd_closed d'" using Feed_keeps [of c d] F 2(3) by simp
    show ?case
    proof (cases r)
      case (Inl e')
      then show ?thesis using Feed_fails [OF 2(3) _ 2(2), of c d' "concat cs"] 2(1) F by auto
    next
      case (Inr ea)
      then obtain d2 where "feed_all cs d' = (Inl e, d2)" using 2(1) F by (auto split: sum.splits prod.splits)
      then obtain d3 where "Feed (concat cs) d' = (Inl e, d3)" using Cons.IH(2) 2(2) cl by blast
      from Feed_two [OF 2(3) F [unfolded Inr] this] show ?thesis by simp
    qed
  }
qed (auto simp: Feed_empty)

subsection \<open>Sizes\<close>

definition sse_bounded :: "SSEDecoder \<Rightarrow> bool" where
  "sse_bounded d \<longleftrightarrow> int (length (sd_data d)) \<le> sd_maxEventBytes d"

definition events_bounded :: "int \<Rightarrow> SSEEvent list \<Rightarrow> bool" where
  "events_bounded m es \<longleftrightarrow> (\<forall>e \<in> set es. int (length (sv_Data e)) \<le> m)"

lemma consume_line_bounded:
  assumes "sse_bounded d" "0 \<le> sd_maxEventBytes d" "consume_line line d = (r, d1)"
  shows "sse_bounded d1" "r = Inr ev \<Longrightarrow> events_bounded (sd_maxEventBytes d) (case ev of None \<Rightarrow> [] | Some e \<Rightarrow> [e])"
  using assms
  by (auto simp: sse_bounded_def events_bounded_def consume_line_def consumeField_def dispatch_event_def Let_def case_prod_beta
      split: if_splits option.splits)

lemma consumeLines_bounded:
  assumes "sse_bounded d" "0 \<le> sd_maxEventBytes d" "consumeLines eof d = (r, d1)"
  shows "sse_bounded d1 \<and> (\<forall>es. r = Inr es \<longrightarrow> events_bounded (sd_maxEventBytes d) es)"
proof -
  have "sse_bounded d \<and> 0 \<le> sd_maxEventBytes d \<longrightarrow> sse_bounded (snd (consumeLines eof d)) \<and>
     (\<forall>es. fst (consumeLines eof d) = Inr es \<longrightarrow> events_bounded (sd_maxEventBytes d) es)"
  proof (rule consumeLines_rule [where P = "\<lambda>d r d'. sse_bounded d \<and> 0 \<le> sd_maxEventBytes d \<longrightarrow> sse_bounded d' \<and>
     (\<forall>es. r = Inr es \<longrightarrow> events_bounded (sd_maxEventBytes d) es)"], goal_cases)
    case (1 d)
    then show ?case by (simp add: events_bounded_def)
  next
    case (2 d line n e d1)
    then show ?case using consume_line_bounded(1) [of "d\<lparr>sd_buffer := drop n (sd_buffer d)\<rparr>" line] by (auto simp: sse_bounded_def)
  next
    case (3 d line n ev d1 r d2)
    have m: "sd_maxEventBytes d1 = sd_maxEventBytes d" using consume_line_keeps [of line "d\<lparr>sd_buffer := drop n (sd_buffer d)\<rparr>"] 3 by simp
    show ?case
    proof (intro impI)
      assume b: "sse_bounded d \<and> 0 \<le> sd_maxEventBytes d"
      note l = consume_line_bounded [of "d\<lparr>sd_buffer := drop n (sd_buffer d)\<rparr>" line, OF _ _ 3(2)]
      have "sse_bounded d1" "events_bounded (sd_maxEventBytes d) (case ev of None \<Rightarrow> [] | Some e \<Rightarrow> [e])"
        using l b by (auto simp: sse_bounded_def)
      then show "sse_bounded d2 \<and> (\<forall>es. (case r of Inl e \<Rightarrow> Inl e | Inr es \<Rightarrow> Inr ((case ev of None \<Rightarrow> [] | Some e \<Rightarrow> [e]) @ es)) = Inr es \<longrightarrow>
          events_bounded (sd_maxEventBytes d) es)"
        using 3(4) m b by (auto simp: events_bounded_def split: sum.splits)
    qed
  qed
  then show ?thesis using assms by simp
qed

lemma Feed_bounded:
  assumes "sse_bounded d" "0 \<le> sd_maxEventBytes d" "Feed c d = (r, d1)"
  shows "sse_bounded d1 \<and> (\<forall>es. r = Inr es \<longrightarrow> events_bounded (sd_maxEventBytes d) es \<and>
    (\<not> sd_closed d \<longrightarrow> int (length (sd_buffer d)) \<le> sd_maxEventBytes d \<longrightarrow> int (length (sd_buffer d1)) \<le> sd_maxEventBytes d))"
proof -
  obtain r' d' where c: "consumeLines False (d\<lparr>sd_buffer := sd_buffer d @ c\<rparr>) = (r', d')" by fastforce
  have "sse_bounded (d\<lparr>sd_buffer := sd_buffer d @ c\<rparr>)" using assms(1) by (simp add: sse_bounded_def)
  with consumeLines_bounded [OF this _ c] consumeLines_keeps [of False "d\<lparr>sd_buffer := sd_buffer d @ c\<rparr>"] c assms
  show ?thesis by (auto simp: Feed_def events_bounded_def split: if_splits sum.splits)
qed

end
