(* ===== verification/SSEGuarantees.thy ===== *)
theory SSEGuarantees
  imports SSE
begin

text \<open>
  What the event decoder promises: the events do not depend on how the bytes were cut into chunks, everything it
  keeps or returns stays within the limit, and it reads back the frames that the writers of
  \<open>internal/protocol/present.go\<close> write.
\<close>

subsection \<open>Whole lines\<close>

text \<open>The reference decoder: the lines of a text, one after the other.\<close>

fun feed_lines :: "string list \<Rightarrow> SSEDecoder \<Rightarrow> (string + SSEEvent list) \<times> SSEDecoder" where
  "feed_lines [] d = (Inr [], d)"
| "feed_lines (l # ls) d =
    (case consume_line l d of
       (Inl e, d) \<Rightarrow> (Inl e, d)
     | (Inr ev, d) \<Rightarrow>
         (case feed_lines ls d of
            (Inl e, d) \<Rightarrow> (Inl e, d)
          | (Inr es, d) \<Rightarrow> (Inr ((case ev of None \<Rightarrow> [] | Some e \<Rightarrow> [e]) @ es), d)))"

definition clean :: "string \<Rightarrow> bool" where
  "clean l \<longleftrightarrow> LF \<notin> set l \<and> CR \<notin> set l"

definition unlines :: "string list \<Rightarrow> string" where
  "unlines ls = concat (map (\<lambda>l. l @ [LF]) ls)"

lemma unlines_simps [simp]: "unlines [] = []" "unlines (l # ls) = l @ LF # unlines ls" "unlines (ls @ ls') = unlines ls @ unlines ls'"
  by (simp_all add: unlines_def)

lemma clean_simps [simp]: "clean []" "clean (c # cs) \<longleftrightarrow> c \<noteq> LF \<and> c \<noteq> CR \<and> clean cs" "clean (a @ b) \<longleftrightarrow> clean a \<and> clean b"
  by (auto simp: clean_def)

lemma line_scan_clean:
  "clean l \<Longrightarrow> line_scan (p @ l @ LF # rest) False (length p) (l @ LF # rest) =
    Some (take (if p @ l \<noteq> [] \<and> last (p @ l) = CR then length (p @ l) - 1 else length (p @ l)) (p @ l @ LF # rest), length (p @ l) + 1)"
proof (induction l arbitrary: p)
  case Nil
  then show ?case by (cases p rule: rev_cases) (auto simp: nth_append)
next
  case (Cons c l)
  from Cons.IH [of "p @ [c]"] Cons.prems show ?case by (simp del: last.simps)
qed

lemma nextSSELine_clean: "clean l \<Longrightarrow> nextSSELine (l @ LF # rest) False = Some (l, length l + 1)"
proof -
  assume c: "clean l"
  then have "l \<noteq> [] \<Longrightarrow> last l \<noteq> CR" unfolding clean_def using last_in_set by metis
  then show ?thesis using line_scan_clean [of l "[]" rest] c by (auto simp: nextSSELine_def)
qed

lemma line_scan_pending: "clean l \<Longrightarrow> line_scan buffer False i l = None"
  by (induction l arbitrary: i) auto

lemma nextSSELine_pending: "clean p \<Longrightarrow> nextSSELine p False = None"
  by (simp add: nextSSELine_def line_scan_pending)

lemma feed_lines_set_buffer:
  "feed_lines ls (d\<lparr>sd_buffer := x\<rparr>) = (fst (feed_lines ls d), (snd (feed_lines ls d))\<lparr>sd_buffer := x\<rparr>)"
proof (induction ls arbitrary: d)
  case (Cons l ls)
  obtain r d1 where r: "consume_line l d = (r, d1)" by fastforce
  obtain r2 d2 where r2: "feed_lines ls d1 = (r2, d2)" by fastforce
  show ?case using r r2 Cons.IH [of d1] by (simp add: consume_line_set_buffer split: sum.splits)
qed simp

lemma feed_lines_keeps: "sd_closed (snd (feed_lines ls d)) = sd_closed d \<and> sd_maxEventBytes (snd (feed_lines ls d)) = sd_maxEventBytes d"
proof (induction ls arbitrary: d)
  case (Cons l ls)
  obtain r d1 where r: "consume_line l d = (r, d1)" by fastforce
  obtain r2 d2 where r2: "feed_lines ls d1 = (r2, d2)" by fastforce
  show ?case using r r2 Cons.IH [of d1] consume_line_keeps [of l d] by (simp split: sum.splits)
qed simp

lemma feed_lines_append:
  "feed_lines (a @ b) d = (Inr es, d2) \<longleftrightarrow> (\<exists>ea d1 eb. feed_lines a d = (Inr ea, d1) \<and> feed_lines b d1 = (Inr eb, d2) \<and> es = ea @ eb)"
proof (induction a arbitrary: d es)
  case (Cons l a)
  obtain r d1 where r: "consume_line l d = (r, d1)" by fastforce
  show ?case
  proof (cases r)
    case (Inr ev)
    have *: "feed_lines (l # ls) d = (Inr es, d3) \<longleftrightarrow>
      (\<exists>es'. feed_lines ls d1 = (Inr es', d3) \<and> es = (case ev of None \<Rightarrow> [] | Some e \<Rightarrow> [e]) @ es')" for ls es d3
      using r Inr by (auto split: sum.splits prod.splits)
    show ?thesis unfolding append_Cons * Cons.IH by (metis append.assoc)
  qed (use r in simp)
qed simp

lemma consumeLines_text:
  "\<forall>l \<in> set ls. clean l \<Longrightarrow> clean p \<Longrightarrow> feed_lines ls d = (Inr es, d1) \<Longrightarrow>
    consumeLines False (d\<lparr>sd_buffer := unlines ls @ p\<rparr>) = (Inr es, d1\<lparr>sd_buffer := p\<rparr>)"
proof (induction ls arbitrary: d es)
  case Nil
  then show ?case using nextSSELine_pending by (simp add: consumeLines_none)
next
  case (Cons l ls)
  obtain r d0 where r: "consume_line l d = (r, d0)" by fastforce
  obtain ev where ev: "r = Inr ev" using Cons.prems(3) r by (auto split: sum.splits)
  obtain es' where es': "feed_lines ls d0 = (Inr es', d1)" "es = (case ev of None \<Rightarrow> [] | Some e \<Rightarrow> [e]) @ es'"
    using Cons.prems(3) r ev by (auto split: sum.splits prod.splits)
  have nx: "nextSSELine (sd_buffer (d\<lparr>sd_buffer := unlines (l # ls) @ p\<rparr>)) False = Some (l, length l + 1)"
    using nextSSELine_clean [of l "unlines ls @ p"] Cons.prems(1) by simp
  have cl: "consume_line l (d\<lparr>sd_buffer := unlines ls @ p\<rparr>) = (Inr ev, d0\<lparr>sd_buffer := unlines ls @ p\<rparr>)"
    using r ev by (simp add: consume_line_set_buffer)
  show ?case
    using consumeLines_some [OF nx, of "Inr ev"] cl Cons.IH [OF _ Cons.prems(2) es'(1)] Cons.prems(1) es'(2) by simp
qed

lemma unlines_prefix:
  "x @ y = unlines ls \<Longrightarrow> \<exists>ls1 ls2 p. x = unlines ls1 @ p \<and> ls = ls1 @ ls2 \<and> p @ y = unlines ls2 \<and> (p = [] \<or> (\<exists>l \<in> set ls2. \<exists>q. l = p @ q))"
proof (induction ls arbitrary: x)
  case Nil
  then show ?case by (auto intro: exI [of _ "[]"])
next
  case (Cons l ls)
  consider (inside) q where "l = x @ q" | (beyond) x' where "x = l @ LF # x'" "x' @ y = unlines ls"
    using Cons.prems by (auto simp: append_eq_append_conv2 append_eq_Cons_conv)
  then show ?case
  proof cases
    case inside
    then show ?thesis using Cons.prems by (intro exI [of _ "[]"] exI [of _ "l # ls"] exI [of _ x]) auto
  next
    case beyond
    obtain ls1 ls2 p where "x' = unlines ls1 @ p" "ls = ls1 @ ls2" "p @ y = unlines ls2" "p = [] \<or> (\<exists>l \<in> set ls2. \<exists>q. l = p @ q)"
      using Cons.IH [OF beyond(2)] by blast
    then show ?thesis using beyond(1) by (intro exI [of _ "l # ls1"] exI [of _ ls2] exI [of _ p]) auto
  qed
qed

text \<open>However a text of clean lines is cut, the decoder reads the lines.\<close>

lemma feed_all_text:
  "\<lbrakk>sd_buffer d @ concat cs = unlines ls; feed_lines ls d = (Inr es, d1); \<not> sd_closed d;
    \<forall>l \<in> set ls. clean l \<and> int (length l) \<le> sd_maxEventBytes d; clean (sd_buffer d); 0 \<le> sd_maxEventBytes d\<rbrakk> \<Longrightarrow>
    feed_all cs d = (Inr es, d1\<lparr>sd_buffer := []\<rparr>)"
proof (induction cs arbitrary: d d1 ls es)
  case Nil
  have "ls = []"
  proof (cases ls)
    case (Cons l ls')
    then have "LF \<in> set (sd_buffer d)" using Nil.prems(1) by simp
    then show ?thesis using Nil.prems(5) by (simp add: clean_def)
  qed simp
  then show ?case using Nil.prems by (cases d) auto
next
  case (Cons c cs)
  show ?case
  proof (cases "c = []")
    case True
    then show ?thesis using Cons by (simp add: Feed_empty)
  next
    case False
    obtain ls1 ls2 p where sp: "sd_buffer d @ c = unlines ls1 @ p" "ls = ls1 @ ls2" "p @ concat cs = unlines ls2"
        "p = [] \<or> (\<exists>l \<in> set ls2. \<exists>q. l = p @ q)"
      using unlines_prefix [of "sd_buffer d @ c" "concat cs" ls] Cons.prems(1) unfolding concat.simps append_assoc by metis
    have p: "clean p" "int (length p) \<le> sd_maxEventBytes d" using sp(2,4) Cons.prems(4,6) by (auto dest: bspec)
    obtain ea d0 eb where f: "feed_lines ls1 d = (Inr ea, d0)" "feed_lines ls2 d0 = (Inr eb, d1)" "es = ea @ eb"
      using Cons.prems(2) sp(2) feed_lines_append by blast
    have k: "sd_closed d0 = sd_closed d" "sd_maxEventBytes d0 = sd_maxEventBytes d" using feed_lines_keeps [of ls1 d] f(1) by auto
    have "consumeLines False (d\<lparr>sd_buffer := sd_buffer d @ c\<rparr>) = (Inr ea, d0\<lparr>sd_buffer := p\<rparr>)"
      unfolding sp(1) using consumeLines_text [OF _ p(1) f(1)] sp(2) Cons.prems(4) by simp
    from Feed_eq [OF Cons.prems(3) False this] have F: "Feed c d = (Inr ea, d0\<lparr>sd_buffer := p\<rparr>)" using p(2) k by simp
    have "feed_lines ls2 (d0\<lparr>sd_buffer := p\<rparr>) = (Inr eb, d1\<lparr>sd_buffer := p\<rparr>)" by (simp add: feed_lines_set_buffer f(2))
    from Cons.IH [OF _ this] have "feed_all cs (d0\<lparr>sd_buffer := p\<rparr>) = (Inr eb, d1\<lparr>sd_buffer := []\<rparr>)"
      using sp p(1) k Cons.prems(3,4,6) by simp
    with F f(3) show ?thesis by simp
  qed
qed

subsection \<open>Frames\<close>

text \<open>A frame is a payload with the event name of \<open>WriteNamedSSE\<close>, or without one for \<open>WriteSSE\<close>.\<close>

fun frame_lines :: "string option \<times> string \<Rightarrow> string list" where
  "frame_lines (None, p) = [''data: '' @ p, '''']"
| "frame_lines (Some e, p) = [''event: '' @ e, ''data: '' @ p, '''']"

fun write_frame :: "string option \<times> string \<Rightarrow> string" where
  "write_frame (None, p) = WriteSSE p"
| "write_frame (Some e, p) = WriteNamedSSE e p"

fun frame_event :: "string option \<times> string \<Rightarrow> SSEEvent" where
  "frame_event (e, p) = \<lparr>sv_Event = (case e of None \<Rightarrow> '''' | Some e \<Rightarrow> e), sv_Data = p, sv_ID = '''', sv_RetryMilliseconds = None\<rparr>"

lemma write_frame_lines: "write_frame f = unlines (frame_lines f)"
  by (induction f rule: write_frame.induct) (simp_all add: WriteSSE_def WriteNamedSSE_def)

lemma write_frames_lines: "concat (map write_frame fs) = unlines (concat (map frame_lines fs))"
  by (induction fs) (simp_all add: write_frame_lines)

definition fits :: "int \<Rightarrow> string option \<times> string \<Rightarrow> bool" where
  "fits m f \<longleftrightarrow> (\<forall>l \<in> set (frame_lines f). clean l \<and> int (length l) \<le> m)"

definition idle :: "SSEDecoder \<Rightarrow> bool" where
  "idle d \<longleftrightarrow> sd_data d = [] \<and> sd_event d = [] \<and> sd_id d = [] \<and> sd_retry d = None \<and> \<not> sd_seenData d"

lemma consume_event_line: "fits m (Some e, p) \<Longrightarrow> sd_maxEventBytes d = m \<Longrightarrow>
  consume_line (''event: '' @ e) d = (Inr None, d\<lparr>sd_firstLine := False, sd_event := e\<rparr>)"
  by (cases d) (simp add: consume_line_def consumeField_def trim_prefix_def fits_def Let_def)

lemma consume_data_line: "fits m (e, p) \<Longrightarrow> sd_maxEventBytes d = m \<Longrightarrow> \<not> sd_seenData d \<Longrightarrow> sd_data d = [] \<Longrightarrow>
  consume_line (''data: '' @ p) d = (Inr None, d\<lparr>sd_firstLine := False, sd_data := p, sd_seenData := True\<rparr>)"
  by (cases d; cases e) (simp_all add: consume_line_def consumeField_def trim_prefix_def fits_def Let_def)

lemma consume_end_line: "sd_seenData d \<Longrightarrow> 0 \<le> sd_maxEventBytes d \<Longrightarrow> \<not> sd_firstLine d \<Longrightarrow>
  consume_line [] d = (Inr (Some \<lparr>sv_Event = sd_event d, sv_Data = sd_data d, sv_ID = sd_id d, sv_RetryMilliseconds = sd_retry d\<rparr>),
    d\<lparr>sd_data := '''', sd_event := '''', sd_retry := None, sd_seenData := False\<rparr>)"
  by (simp add: consume_line_def dispatch_event_def)

lemma frame_fed:
  assumes "idle d" "fits m f" "sd_maxEventBytes d = m" "0 \<le> m"
  shows "feed_lines (frame_lines f) d = (Inr [frame_event f], d\<lparr>sd_firstLine := False\<rparr>)"
proof -
  obtain e p where f: "f = (e, p)" by (cases f)
  define d0 where "d0 = (case e of None \<Rightarrow> d | Some e \<Rightarrow> d\<lparr>sd_firstLine := False, sd_event := e\<rparr>)"
  define d1 where "d1 = d0\<lparr>sd_firstLine := False, sd_data := p, sd_seenData := True\<rparr>"
  have "consume_line (''data: '' @ p) d0 = (Inr None, d1)"
    unfolding d1_def using assms f by (intro consume_data_line [of m e]) (simp_all add: d0_def idle_def split: option.splits)
  moreover have "consume_line [] d1 = (Inr (Some (frame_event f)), d\<lparr>sd_firstLine := False\<rparr>)"
    using assms f consume_end_line [of d1] by (cases d; cases e) (simp_all add: d1_def d0_def idle_def)
  moreover have "consume_line (''event: '' @ ev) d = (Inr None, d0)" if "e = Some ev" for ev
    using that assms f consume_event_line [of m ev p d] by (simp add: d0_def)
  ultimately show ?thesis using f by (cases e) (simp_all del: append.simps add: d0_def)
qed

lemma frames_fed:
  "idle d \<Longrightarrow> sd_maxEventBytes d = m \<Longrightarrow> 0 \<le> m \<Longrightarrow> \<forall>f \<in> set fs. fits m f \<Longrightarrow>
    \<exists>d1. feed_lines (concat (map frame_lines fs)) d = (Inr (map frame_event fs), d1) \<and> idle d1"
proof (induction fs arbitrary: d)
  case (Cons f fs)
  have "idle (d\<lparr>sd_firstLine := False\<rparr>)" using Cons.prems(1) by (simp add: idle_def)
  from Cons.IH [OF this] Cons.prems obtain d1 where
    d1: "feed_lines (concat (map frame_lines fs)) (d\<lparr>sd_firstLine := False\<rparr>) = (Inr (map frame_event fs), d1)" "idle d1" by auto
  moreover have "feed_lines (frame_lines f) d = (Inr [frame_event f], d\<lparr>sd_firstLine := False\<rparr>)" using frame_fed [of d m f] Cons.prems by simp
  ultimately show ?case by (auto simp: feed_lines_append)
qed simp

lemma NewSSEDecoder_facts [simp]:
  "sd_buffer (NewSSEDecoder n) = []" "\<not> sd_closed (NewSSEDecoder n)" "idle (NewSSEDecoder n)" "0 < sd_maxEventBytes (NewSSEDecoder n)"
  by (simp_all add: NewSSEDecoder_def idle_def)

lemma Close_idle: "idle d \<Longrightarrow> \<not> sd_closed d \<Longrightarrow> sd_buffer d = [] \<Longrightarrow> fst (Close d) = Inr []"
  by (simp add: Close_def consumeLines_none nextSSELine_def idle_def dispatch_event_def)

subsection \<open>The properties\<close>

text \<open>
  C35. The events do not depend on how the bytes were cut: an open decoder that accepts the chunks returns the events, and is left in the state,
  of one call with all the bytes. When it refuses the chunks for another reason than the length of a line, one call with all the bytes gives
  the same error; when one call accepts the bytes, the chunks can only be refused for the length of a line.
\<close>

theorem sse_chunking:
  assumes "\<not> sd_closed d"
  shows "(feed_all cs d = (Inr es, d1) \<longrightarrow> Feed (concat cs) d = (Inr es, d1)) \<and>
    (fst (feed_all cs d) = Inl e \<and> e \<noteq> ''SSE line exceeds the limit'' \<longrightarrow> fst (Feed (concat cs) d) = Inl e) \<and>
    (Feed (concat cs) d = (Inr es, d1) \<longrightarrow> feed_all cs d = (Inr es, d1) \<or> fst (feed_all cs d) = Inl ''SSE line exceeds the limit'')"
proof -
  obtain r d' where r: "feed_all cs d = (r, d')" by fastforce
  note ok = feed_all_Feed(1) [OF assms, of cs] and bad = feed_all_Feed(2) [OF assms, of cs]
  have "fst (feed_all cs d) = Inl e \<and> e \<noteq> ''SSE line exceeds the limit'' \<longrightarrow> fst (Feed (concat cs) d) = Inl e"
    using bad r by (metis fst_conv)
  moreover have "Feed (concat cs) d = (Inr es, d1) \<longrightarrow> feed_all cs d = (Inr es, d1) \<or> fst (feed_all cs d) = Inl ''SSE line exceeds the limit''"
    using ok bad r by (cases r) (auto, metis Pair_inject sum.distinct(1))
  ultimately show ?thesis using ok by blast
qed

text \<open>
  Sizes: whatever chunks a new decoder accepted, the pending bytes, the data collected for the next event and the data of every event
  it returned are within its limit.
\<close>

theorem sse_sizes:
  assumes "feed_all cs (NewSSEDecoder n) = (Inr es, d)"
  shows "int (length (sd_buffer d)) \<le> sd_maxEventBytes (NewSSEDecoder n) \<and> int (length (sd_data d)) \<le> sd_maxEventBytes (NewSSEDecoder n) \<and>
    (\<forall>ev \<in> set es. int (length (sv_Data ev)) \<le> sd_maxEventBytes (NewSSEDecoder n))"
proof -
  have F: "Feed (concat cs) (NewSSEDecoder n) = (Inr es, d)" using feed_all_Feed(1) assms by simp
  have "sse_bounded (NewSSEDecoder n)" by (simp add: sse_bounded_def NewSSEDecoder_def)
  from Feed_bounded [OF this _ F] Feed_keeps [of "concat cs" "NewSSEDecoder n"] F NewSSEDecoder_facts(4) [of n]
  show ?thesis by (auto simp: sse_bounded_def events_bounded_def)
qed

text \<open>
  C36. Round trip: the frames that \<open>WriteSSE\<close> and \<open>WriteNamedSSE\<close> write for names and payloads without line ends and within the limit are read
  back, one event a frame with its name and payload, however the bytes arrive in chunks; closing the decoder then returns nothing more.
\<close>

theorem sse_round_trip:
  assumes "\<forall>f \<in> set fs. fits (sd_maxEventBytes (NewSSEDecoder n)) f" "concat cs = concat (map write_frame fs)"
  shows "\<exists>d. feed_all cs (NewSSEDecoder n) = (Inr (map frame_event fs), d) \<and> fst (Close d) = Inr []"
proof -
  obtain d1 where d1: "feed_lines (concat (map frame_lines fs)) (NewSSEDecoder n) = (Inr (map frame_event fs), d1)" "idle d1"
    using frames_fed [OF NewSSEDecoder_facts(3) refl less_imp_le [OF NewSSEDecoder_facts(4)] assms(1)] by blast
  have "feed_all cs (NewSSEDecoder n) = (Inr (map frame_event fs), d1\<lparr>sd_buffer := []\<rparr>)"
    using assms by (intro feed_all_text [OF _ d1(1)]) (auto simp: write_frames_lines fits_def less_imp_le)
  moreover have "\<not> sd_closed d1" using feed_lines_keeps [of "concat (map frame_lines fs)" "NewSSEDecoder n"] d1(1) by simp
  ultimately show ?thesis using d1(2) Close_idle [of "d1\<lparr>sd_buffer := []\<rparr>"] by (simp add: idle_def)
qed

subsection \<open>Witnesses\<close>

theorem sse_chunking_witness:
  "Feed (''data: a'' @ [LF, LF]) (NewSSEDecoder 64) = feed_all [''da'', ''ta: a'', [LF, LF]] (NewSSEDecoder 64)"
proof -
  define r where "r = feed_all [''da'', ''ta: a'', [LF, LF]] (NewSSEDecoder 64)"
  have "fst r = Inr [\<lparr>sv_Event = [], sv_Data = ''a'', sv_ID = [], sv_RetryMilliseconds = None\<rparr>]" unfolding r_def by code_simp
  then have "feed_all [''da'', ''ta: a'', [LF, LF]] (NewSSEDecoder 64) =
      (Inr [\<lparr>sv_Event = [], sv_Data = ''a'', sv_ID = [], sv_RetryMilliseconds = None\<rparr>], snd r)"
    by (metis prod.collapse r_def)
  with sse_chunking [OF NewSSEDecoder_facts(2)] show ?thesis by fastforce
qed

theorem sse_sizes_witness:
  "int (length (sd_buffer (snd (feed_all [''da'', ''ta: a''] (NewSSEDecoder 8))))) \<le> sd_maxEventBytes (NewSSEDecoder 8)"
proof -
  have "fst (feed_all [''da'', ''ta: a''] (NewSSEDecoder 8)) = Inr []" by code_simp
  then show ?thesis using sse_sizes [of "[''da'', ''ta: a'']" 8 "[]"] by (metis prod.collapse)
qed

theorem sse_round_trip_witness:
  "\<exists>d. feed_all [''event: m'' @ [LF], ''data: {}'' @ [LF, LF] @ ''data: [DO'', ''NE]'' @ [LF, LF]] (NewSSEDecoder 64) =
    (Inr (map frame_event [(Some ''m'', ''{}''), (None, ''[DONE]'')]), d) \<and> fst (Close d) = Inr []"
  by (rule sse_round_trip) (simp_all add: fits_def NewSSEDecoder_def WriteSSE_def WriteNamedSSE_def)

end
