(* ===== verification/Capabilities.thy ===== *)
theory Capabilities
  imports Canonical LuaNumber
begin

text \<open>
  The capability contracts of models: the provider-owned matrix of \<open>internal/providers\<close> (\<open>capabilities.go\<close>,
  \<open>model_profile.go\<close>, the profiles of \<open>kimi.go\<close>, \<open>zhipu.go\<close>, \<open>agnes.go\<close> and the model directory of \<open>catalog.go\<close>),
  the persisted contract of \<open>internal/registry/types.go\<close> and the conversions between the two. Values are
  immutable here, so the \<open>clone\<close> functions are the identity and are left out. A \<open>float64\<close> is the
  rational it denotes: the constant \<open>0.1\<close> of the source is \<open>fl (1 / 10)\<close>, one tenth rounded to 53 binary digits.
\<close>

subsection \<open>capabilities.go\<close>

record IntegerParameterLimit =
  il_Supported :: bool
  il_Minimum :: "int option"
  il_Maximum :: "int option"
  il_ExactValues :: "int list"

record NumberParameterLimit =
  nl_Supported :: bool
  nl_Minimum :: "rat option"
  nl_Maximum :: "rat option"
  nl_ExactValues :: "rat list"

record SamplingCondition =
  sc_ThinkingEnabled :: "bool option"
  sc_TemperatureExact :: "rat option"
  sc_TemperatureAtMost :: "rat option"
  sc_NMaximum :: "int option"

record ParameterCapabilities =
  pp_MaxOutputTokens :: IntegerParameterLimit
  pp_Temperature :: NumberParameterLimit
  pp_TopP :: NumberParameterLimit
  pp_PresencePenalty :: NumberParameterLimit
  pp_FrequencyPenalty :: NumberParameterLimit
  pp_N :: IntegerParameterLimit
  pp_TopK :: NumberParameterLimit
  pp_ThinkingBudget :: IntegerParameterLimit
  pp_SamplingConditions :: "SamplingCondition list"

record Capabilities =
  ca_Chat :: bool
  ca_Models :: bool
  ca_Responses :: bool
  ca_Streaming :: bool
  ca_Tools :: bool
  ca_ToolStreaming :: bool
  ca_ToolChoiceNone :: bool
  ca_ToolChoiceAuto :: bool
  ca_ToolChoiceRequired :: bool
  ca_ToolChoiceNamed :: bool
  ca_ParallelToolCalls :: bool
  ca_StrictTools :: bool
  ca_ImageInput :: bool
  ca_VideoInput :: bool
  ca_PartialMode :: bool
  ca_JSONOutput :: bool
  ca_JSONSchemaOutput :: bool
  ca_MessageName :: bool
  ca_PromptCacheKey :: bool
  ca_SafetyIdentifier :: bool
  ca_ReasoningToggle :: bool
  ca_ReasoningAlwaysOn :: bool
  ca_ReasoningDefaultEnabled :: bool
  ca_ReasoningConfig :: bool
  ca_ReasoningEffort :: bool
  ca_ReasoningContent :: bool
  ca_ReasoningReplay :: bool
  ca_AllowedReasoningEfforts :: "ReasoningEffort list"
  ca_ToolChoiceModesWithReasoning :: "ToolChoiceMode list"
  ca_Parameters :: ParameterCapabilities
  ca_ResponseUsage :: bool
  ca_StreamUsage :: bool
  ca_ResponseRequestID :: bool

text \<open>Zero values.\<close>

definition no_integer :: IntegerParameterLimit where
  "no_integer = \<lparr>il_Supported = False, il_Minimum = None, il_Maximum = None, il_ExactValues = []\<rparr>"

definition no_number :: NumberParameterLimit where
  "no_number = \<lparr>nl_Supported = False, nl_Minimum = None, nl_Maximum = None, nl_ExactValues = []\<rparr>"

definition no_condition :: SamplingCondition where
  "no_condition = \<lparr>sc_ThinkingEnabled = None, sc_TemperatureExact = None, sc_TemperatureAtMost = None, sc_NMaximum = None\<rparr>"

definition no_parameters :: ParameterCapabilities where
  "no_parameters = \<lparr>pp_MaxOutputTokens = no_integer, pp_Temperature = no_number, pp_TopP = no_number, pp_PresencePenalty = no_number,
     pp_FrequencyPenalty = no_number, pp_N = no_integer, pp_TopK = no_number, pp_ThinkingBudget = no_integer, pp_SamplingConditions = []\<rparr>"

definition no_capabilities :: Capabilities where
  "no_capabilities = \<lparr>ca_Chat = False, ca_Models = False, ca_Responses = False, ca_Streaming = False, ca_Tools = False, ca_ToolStreaming = False,
     ca_ToolChoiceNone = False, ca_ToolChoiceAuto = False, ca_ToolChoiceRequired = False, ca_ToolChoiceNamed = False, ca_ParallelToolCalls = False,
     ca_StrictTools = False, ca_ImageInput = False, ca_VideoInput = False, ca_PartialMode = False, ca_JSONOutput = False, ca_JSONSchemaOutput = False,
     ca_MessageName = False, ca_PromptCacheKey = False, ca_SafetyIdentifier = False, ca_ReasoningToggle = False, ca_ReasoningAlwaysOn = False,
     ca_ReasoningDefaultEnabled = False, ca_ReasoningConfig = False, ca_ReasoningEffort = False, ca_ReasoningContent = False,
     ca_ReasoningReplay = False, ca_AllowedReasoningEfforts = [], ca_ToolChoiceModesWithReasoning = [], ca_Parameters = no_parameters,
     ca_ResponseUsage = False, ca_StreamUsage = False, ca_ResponseRequestID = False\<rparr>"

definition integerAtLeast :: "int \<Rightarrow> IntegerParameterLimit" where
  "integerAtLeast minimum = no_integer\<lparr>il_Supported := True, il_Minimum := Some minimum\<rparr>"

definition integerBetween :: "int \<Rightarrow> int \<Rightarrow> IntegerParameterLimit" where
  "integerBetween minimum maximum = no_integer\<lparr>il_Supported := True, il_Minimum := Some minimum, il_Maximum := Some maximum\<rparr>"

definition fixedIntegers :: "int list \<Rightarrow> IntegerParameterLimit" where
  "fixedIntegers values = no_integer\<lparr>il_Supported := True, il_ExactValues := values\<rparr>"

definition numberBetween :: "rat \<Rightarrow> rat \<Rightarrow> NumberParameterLimit" where
  "numberBetween minimum maximum = no_number\<lparr>nl_Supported := True, nl_Minimum := Some minimum, nl_Maximum := Some maximum\<rparr>"

definition numberAtMost :: "rat \<Rightarrow> NumberParameterLimit" where
  "numberAtMost maximum = no_number\<lparr>nl_Supported := True, nl_Maximum := Some maximum\<rparr>"

definition fixedNumbers :: "rat list \<Rightarrow> NumberParameterLimit" where
  "fixedNumbers values = no_number\<lparr>nl_Supported := True, nl_ExactValues := values\<rparr>"

definition SiliconFlowCapabilities :: Capabilities where
  "SiliconFlowCapabilities = no_capabilities\<lparr>
     ca_Chat := True, ca_Models := True, ca_Streaming := True, ca_Tools := True, ca_ToolStreaming := False, ca_ParallelToolCalls := False,
     ca_StrictTools := False, ca_JSONOutput := True, ca_JSONSchemaOutput := True, ca_MessageName := True, ca_ReasoningEffort := False,
     ca_ResponseUsage := True, ca_StreamUsage := True,
     ca_Parameters := no_parameters\<lparr>
       pp_MaxOutputTokens := integerAtLeast 1, pp_Temperature := numberBetween 0 2, pp_TopP := numberBetween (fl (1 / 10)) 1,
       pp_PresencePenalty := numberBetween (- 2) 2, pp_FrequencyPenalty := numberBetween (- 2) 2, pp_N := integerAtLeast 1,
       pp_TopK := numberAtMost 100\<rparr>\<rparr>"

definition ModelDiscoveryCapabilities :: Capabilities where
  "ModelDiscoveryCapabilities = no_capabilities\<lparr>ca_Chat := True, ca_Models := True\<rparr>"

subsection \<open>kimi.go, zhipu.go, agnes.go: capabilities\<close>

definition kimiK3Capabilities :: Capabilities where
  "kimiK3Capabilities = no_capabilities\<lparr>
     ca_Chat := True, ca_Models := True, ca_Streaming := True, ca_Tools := True, ca_ToolStreaming := True,
     ca_ToolChoiceNone := True, ca_ToolChoiceAuto := True, ca_ToolChoiceRequired := True, ca_ToolChoiceNamed := True,
     ca_StrictTools := True, ca_ImageInput := True, ca_VideoInput := True, ca_PartialMode := True, ca_JSONOutput := True, ca_JSONSchemaOutput := True,
     ca_MessageName := True, ca_PromptCacheKey := True, ca_SafetyIdentifier := True,
     ca_ReasoningAlwaysOn := True, ca_ReasoningContent := True, ca_ReasoningReplay := True, ca_ReasoningEffort := True,
     ca_AllowedReasoningEfforts := [''low'', ''high'', ''max''],
     ca_ResponseUsage := True, ca_StreamUsage := True,
     ca_Parameters := no_parameters\<lparr>pp_MaxOutputTokens := integerAtLeast 1, pp_Temperature := numberBetween 0 1, pp_N := integerAtLeast 1\<rparr>\<rparr>"

definition kimiK27CodeCapabilities :: Capabilities where
  "kimiK27CodeCapabilities = kimiK3Capabilities\<lparr>ca_ToolChoiceRequired := False, ca_ReasoningEffort := False, ca_AllowedReasoningEfforts := [],
     ca_ReasoningConfig := True, ca_ImageInput := False, ca_VideoInput := False\<rparr>"

definition kimiK26Capabilities :: Capabilities where
  "kimiK26Capabilities = kimiK3Capabilities\<lparr>ca_ToolChoiceRequired := False, ca_ReasoningAlwaysOn := False, ca_ReasoningToggle := True,
     ca_ReasoningEffort := False, ca_AllowedReasoningEfforts := [], ca_ReasoningDefaultEnabled := True,
     ca_ToolChoiceModesWithReasoning := [''auto'', ''none''],
     ca_Parameters := (ca_Parameters kimiK3Capabilities)\<lparr>
       pp_Temperature := fixedNumbers [fl (6 / 10), 1], pp_TopP := fixedNumbers [fl (95 / 100)], pp_N := fixedIntegers [1],
       pp_PresencePenalty := fixedNumbers [0], pp_FrequencyPenalty := fixedNumbers [0],
       pp_SamplingConditions := [no_condition\<lparr>sc_ThinkingEnabled := Some True, sc_TemperatureExact := Some 1\<rparr>,
         no_condition\<lparr>sc_ThinkingEnabled := Some False, sc_TemperatureExact := Some (fl (6 / 10))\<rparr>]\<rparr>\<rparr>"

definition kimiK25Capabilities :: Capabilities where
  "kimiK25Capabilities = kimiK26Capabilities\<lparr>ca_VideoInput := False\<rparr>"

definition zhipuCapabilities :: Capabilities where
  "zhipuCapabilities = no_capabilities\<lparr>
     ca_Chat := True, ca_Models := True, ca_Streaming := True, ca_Tools := True, ca_ToolStreaming := True, ca_ToolChoiceAuto := True,
     ca_JSONOutput := True, ca_ReasoningToggle := True, ca_ReasoningEffort := True, ca_ReasoningContent := True,
     ca_ReasoningReplay := True, ca_ResponseUsage := True, ca_StreamUsage := True, ca_ResponseRequestID := True,
     ca_Parameters := no_parameters\<lparr>pp_MaxOutputTokens := integerBetween 1 131072, pp_Temperature := numberBetween 0 1,
       pp_TopP := numberBetween (fl (1 / 100)) 1\<rparr>\<rparr>"

definition agnesCapabilities :: Capabilities where
  "agnesCapabilities = no_capabilities\<lparr>
     ca_Chat := True, ca_Models := True, ca_Streaming := True, ca_Tools := True, ca_ToolStreaming := True,
     ca_ToolChoiceAuto := True, ca_ToolChoiceNamed := True, ca_ImageInput := True, ca_ReasoningToggle := True,
     ca_ResponseUsage := True, ca_StreamUsage := True,
     ca_Parameters := no_parameters\<lparr>pp_MaxOutputTokens := integerAtLeast 1, pp_Temperature := numberBetween 0 2, pp_TopP := numberBetween 0 1,
       pp_PresencePenalty := numberBetween (- 2) 2, pp_FrequencyPenalty := numberBetween (- 2) 2\<rparr>\<rparr>"

subsection \<open>model_profile.go\<close>

record ModelProfile =
  mp_UpstreamName :: string
  mp_Capabilities :: Capabilities
  mp_ContextTokens :: int
  mp_OutputTokens :: int

fun validate_profiles_loop :: "string list \<Rightarrow> ModelProfile list \<Rightarrow> string option" where
  "validate_profiles_loop seen [] = None"
| "validate_profiles_loop seen (p # ps) =
    (if mp_UpstreamName p = '''' \<or> \<not> ca_Chat (mp_Capabilities p) \<or> \<not> ca_Models (mp_Capabilities p) then
       Some ''model name and chat/models capabilities are required''
     else if mp_ContextTokens p < 0 \<or> mp_OutputTokens p < 0 \<or> (mp_ContextTokens p > 0 \<and> mp_OutputTokens p > mp_ContextTokens p) then
       Some ''model token limits are invalid''
     else if mp_UpstreamName p \<in> set seen then Some (''duplicate model profile '' @ mp_UpstreamName p)
     else validate_profiles_loop (mp_UpstreamName p # seen) ps)"

definition validateModelProfiles :: "ModelProfile list \<Rightarrow> string option" where
  "validateModelProfiles profiles =
    (if profiles = [] then Some ''at least one model profile is required'' else validate_profiles_loop [] profiles)"

definition siliconFlowModel :: "string \<Rightarrow> int \<Rightarrow> int \<Rightarrow> bool \<Rightarrow> ModelProfile" where
  "siliconFlowModel name contextTokens outputTokens reasoning =
    (let c = SiliconFlowCapabilities\<lparr>ca_ImageInput := False, ca_ReasoningToggle := reasoning, ca_ReasoningEffort := False,
               ca_ReasoningContent := reasoning, ca_ParallelToolCalls := False\<rparr>;
         c = (if reasoning then c\<lparr>ca_Parameters := (ca_Parameters c)\<lparr>pp_ThinkingBudget := integerBetween 128 32768\<rparr>\<rparr> else c)
     in \<lparr>mp_UpstreamName = name, mp_Capabilities = c, mp_ContextTokens = contextTokens, mp_OutputTokens = outputTokens\<rparr>)"

definition zhipuTextModel :: "string \<Rightarrow> int \<Rightarrow> int \<Rightarrow> bool \<Rightarrow> bool \<Rightarrow> ModelProfile" where
  "zhipuTextModel name contextTokens outputTokens effort toolStreaming =
    (let c = zhipuCapabilities\<lparr>ca_ImageInput := False, ca_ToolStreaming := toolStreaming, ca_ReasoningEffort := effort\<rparr>;
         c = (if effort then c\<lparr>ca_AllowedReasoningEfforts := [''none'', ''minimal'', ''low'', ''medium'', ''high'', ''xhigh'', ''max'']\<rparr> else c)
     in \<lparr>mp_UpstreamName = name, mp_Capabilities = c, mp_ContextTokens = contextTokens, mp_OutputTokens = outputTokens\<rparr>)"

definition zhipuVisionModel :: "string \<Rightarrow> int \<Rightarrow> int \<Rightarrow> ModelProfile" where
  "zhipuVisionModel name contextTokens outputTokens =
    (let p = zhipuTextModel name contextTokens outputTokens False False
     in p\<lparr>mp_Capabilities := (mp_Capabilities p)\<lparr>ca_ImageInput := True\<rparr>\<rparr>)"

definition agnesTextModel :: "string \<Rightarrow> int \<Rightarrow> int \<Rightarrow> bool \<Rightarrow> ModelProfile" where
  "agnesTextModel name contextTokens outputTokens advanced =
    (let c = (if advanced then agnesCapabilities
              else agnesCapabilities\<lparr>ca_Tools := False, ca_ToolChoiceAuto := False, ca_ToolChoiceNamed := False, ca_ReasoningToggle := False\<rparr>)
     in \<lparr>mp_UpstreamName = name, mp_Capabilities = c, mp_ContextTokens = contextTokens, mp_OutputTokens = outputTokens\<rparr>)"

definition kimiK3Model :: ModelProfile where
  "kimiK3Model = \<lparr>mp_UpstreamName = ''kimi-k3'', mp_Capabilities = kimiK3Capabilities, mp_ContextTokens = 1000000, mp_OutputTokens = 0\<rparr>"

definition kimiK27CodeModel :: "string \<Rightarrow> ModelProfile" where
  "kimiK27CodeModel name = \<lparr>mp_UpstreamName = name, mp_Capabilities = kimiK27CodeCapabilities, mp_ContextTokens = 256000, mp_OutputTokens = 0\<rparr>"

definition kimiK26Model :: ModelProfile where
  "kimiK26Model = \<lparr>mp_UpstreamName = ''kimi-k2.6'', mp_Capabilities = kimiK26Capabilities, mp_ContextTokens = 256000, mp_OutputTokens = 0\<rparr>"

definition kimiK25Model :: ModelProfile where
  "kimiK25Model = \<lparr>mp_UpstreamName = ''kimi-k2.5'', mp_Capabilities = kimiK25Capabilities, mp_ContextTokens = 256000, mp_OutputTokens = 0\<rparr>"

subsection \<open>catalog.go: the model directory\<close>

datatype Kind = KindSiliconFlow | KindZhipu | KindAgnes | KindKimi

text \<open>The \<open>Models\<close> of the definitions of \<open>defaultCatalog\<close>, by kind.\<close>

definition default_models :: "Kind \<Rightarrow> ModelProfile list" where
  "default_models kind = (case kind of
     KindKimi \<Rightarrow> [kimiK3Model, kimiK27CodeModel ''kimi-k2.7-code'', kimiK27CodeModel ''kimi-k2.7-code-highspeed'', kimiK26Model, kimiK25Model]
   | KindSiliconFlow \<Rightarrow> [siliconFlowModel ''Qwen/Qwen3.5-9B'' 0 0 True, siliconFlowModel ''Pro/zai-org/GLM-4.7'' 0 0 True]
   | KindZhipu \<Rightarrow>
       [zhipuTextModel ''glm-5.2'' 1000000 131072 True True, zhipuTextModel ''glm-5.1'' 0 0 False True, zhipuTextModel ''glm-5'' 0 0 False True,
        zhipuTextModel ''glm-5-turbo'' 0 0 False False, zhipuTextModel ''glm-4.7-flash'' 200000 131072 False True,
        zhipuTextModel ''glm-4.7'' 0 0 False True, zhipuTextModel ''glm-4.6'' 0 0 False False, zhipuTextModel ''glm-4.5'' 0 0 False False,
        zhipuVisionModel ''glm-5v-turbo'' 200000 131072]
   | KindAgnes \<Rightarrow> [agnesTextModel ''agnes-1.5-flash'' 256000 65536 False, agnesTextModel ''agnes-2.0-flash'' 512000 65536 True])"

fun find_profile :: "string \<Rightarrow> ModelProfile list \<Rightarrow> ModelProfile option" where
  "find_profile upstreamName [] = None"
| "find_profile upstreamName (p # ps) = (if mp_UpstreamName p = upstreamName then Some p else find_profile upstreamName ps)"

definition catalog_ModelCapabilities :: "Kind \<Rightarrow> string \<Rightarrow> ModelProfile option" where
  "catalog_ModelCapabilities kind upstreamName = find_profile upstreamName (default_models kind)"

subsection \<open>registry/types.go: the persisted contract\<close>

datatype ReasoningMode = ReasoningUnset | ReasoningToggle | ReasoningEffortMode | ReasoningHybrid | ReasoningAlwaysOnMode

record ModelCapabilities =
  mc_Chat :: bool
  mc_Streaming :: bool
  mc_Tools :: bool
  mc_ToolChoiceModes :: "string list"
  mc_StrictTools :: bool
  mc_ParallelToolCalls :: bool
  mc_ToolStreaming :: bool
  mc_ImageInput :: bool
  mc_VideoInput :: bool
  mc_PartialMode :: bool
  mc_Reasoning :: bool
  mc_ReasoningMode :: ReasoningMode
  mc_ReasoningAlwaysOn :: bool
  mc_ReasoningDefaultEnabled :: bool
  mc_ReasoningConfig :: bool
  mc_ReasoningContent :: bool
  mc_ReasoningPreserve :: bool
  mc_ReasoningEfforts :: "string list"
  mc_ToolChoiceModesWithReasoning :: "string list"
  mc_StructuredOutput :: bool
  mc_JSONSchemaOutput :: bool
  mc_MessageName :: bool
  mc_PromptCacheKey :: bool
  mc_SafetyIdentifier :: bool
  mc_ResponseUsage :: bool
  mc_StreamUsage :: bool
  mc_ContextTokens :: int
  mc_OutputTokens :: int
  mc_Parameters :: ParameterCapabilities

definition ModelCapabilitiesFromProfile :: "ModelProfile \<Rightarrow> ModelCapabilities" where
  "ModelCapabilitiesFromProfile profile =
    (let c = mp_Capabilities profile;
         reasoningMode = (if ca_ReasoningAlwaysOn c then ReasoningAlwaysOnMode
                          else if ca_ReasoningToggle c \<and> ca_ReasoningEffort c then ReasoningHybrid
                          else if ca_ReasoningToggle c then ReasoningToggle
                          else if ca_ReasoningEffort c then ReasoningEffortMode
                          else ReasoningUnset);
         toolChoice = (if ca_ToolChoiceNone c then [''none''] else []) @ (if ca_ToolChoiceAuto c then [''auto''] else []) @
           (if ca_ToolChoiceRequired c then [''required''] else []) @ (if ca_ToolChoiceNamed c then [''function''] else [])
     in \<lparr>mc_Chat = ca_Chat c, mc_Streaming = ca_Streaming c, mc_Tools = ca_Tools c, mc_ToolChoiceModes = toolChoice, mc_StrictTools = ca_StrictTools c,
         mc_ParallelToolCalls = ca_ParallelToolCalls c, mc_ToolStreaming = ca_ToolStreaming c, mc_ImageInput = ca_ImageInput c,
         mc_VideoInput = ca_VideoInput c, mc_PartialMode = ca_PartialMode c,
         mc_Reasoning = ca_ReasoningToggle c \<or> ca_ReasoningAlwaysOn c \<or> ca_ReasoningEffort c \<or> ca_ReasoningContent c,
         mc_ReasoningMode = reasoningMode, mc_ReasoningAlwaysOn = ca_ReasoningAlwaysOn c, mc_ReasoningDefaultEnabled = ca_ReasoningDefaultEnabled c,
         mc_ReasoningConfig = ca_ReasoningConfig c, mc_ReasoningContent = ca_ReasoningContent c, mc_ReasoningPreserve = ca_ReasoningReplay c,
         mc_ReasoningEfforts = ca_AllowedReasoningEfforts c, mc_ToolChoiceModesWithReasoning = ca_ToolChoiceModesWithReasoning c,
         mc_StructuredOutput = ca_JSONOutput c, mc_JSONSchemaOutput = ca_JSONSchemaOutput c, mc_MessageName = ca_MessageName c,
         mc_PromptCacheKey = ca_PromptCacheKey c, mc_SafetyIdentifier = ca_SafetyIdentifier c, mc_ResponseUsage = ca_ResponseUsage c,
         mc_StreamUsage = ca_StreamUsage c, mc_ContextTokens = mp_ContextTokens profile, mc_OutputTokens = mp_OutputTokens profile,
         mc_Parameters = ca_Parameters c\<rparr>)"

definition apply_tool_choice :: "string \<Rightarrow> Capabilities \<Rightarrow> Capabilities" where
  "apply_tool_choice mode c =
    (if mode = ''none'' then c\<lparr>ca_ToolChoiceNone := True\<rparr>
     else if mode = ''auto'' then c\<lparr>ca_ToolChoiceAuto := True\<rparr>
     else if mode = ''required'' then c\<lparr>ca_ToolChoiceRequired := True\<rparr>
     else if mode = ''function'' then c\<lparr>ca_ToolChoiceNamed := True\<rparr>
     else c)"

definition AdapterCapabilities :: "ModelCapabilities \<Rightarrow> Capabilities" where
  "AdapterCapabilities c =
    (let cap = no_capabilities\<lparr>ca_Chat := mc_Chat c, ca_Models := True, ca_Streaming := mc_Streaming c, ca_Tools := mc_Tools c,
           ca_ToolStreaming := mc_ToolStreaming c, ca_StrictTools := mc_StrictTools c, ca_ParallelToolCalls := mc_ParallelToolCalls c,
           ca_ImageInput := mc_ImageInput c, ca_VideoInput := mc_VideoInput c, ca_PartialMode := mc_PartialMode c, ca_JSONOutput := mc_StructuredOutput c,
           ca_JSONSchemaOutput := mc_JSONSchemaOutput c, ca_MessageName := mc_MessageName c, ca_ReasoningContent := mc_ReasoningContent c,
           ca_ReasoningReplay := mc_ReasoningPreserve c, ca_ReasoningAlwaysOn := mc_ReasoningAlwaysOn c,
           ca_ReasoningDefaultEnabled := mc_ReasoningDefaultEnabled c, ca_ReasoningConfig := mc_ReasoningConfig c,
           ca_PromptCacheKey := mc_PromptCacheKey c, ca_SafetyIdentifier := mc_SafetyIdentifier c, ca_ResponseUsage := mc_ResponseUsage c,
           ca_StreamUsage := mc_StreamUsage c, ca_Parameters := mc_Parameters c\<rparr>;
         cap = fold apply_tool_choice (mc_ToolChoiceModes c) cap
     in cap\<lparr>ca_ReasoningToggle := mc_ReasoningMode c = ReasoningToggle \<or> mc_ReasoningMode c = ReasoningHybrid,
            ca_ReasoningEffort := mc_ReasoningMode c = ReasoningEffortMode \<or> mc_ReasoningMode c = ReasoningHybrid \<or> length (mc_ReasoningEfforts c) > 0,
            ca_AllowedReasoningEfforts := ca_AllowedReasoningEfforts cap @ mc_ReasoningEfforts c,
            ca_ToolChoiceModesWithReasoning := ca_ToolChoiceModesWithReasoning cap @ mc_ToolChoiceModesWithReasoning c\<rparr>)"

subsection \<open>The conversions\<close>

text \<open>What a profile must satisfy for its contract to survive the way through the registry.\<close>

definition storable :: "Capabilities \<Rightarrow> bool" where
  "storable c \<longleftrightarrow> ca_Models c \<and> \<not> (ca_ReasoningAlwaysOn c \<and> ca_ReasoningToggle c) \<and>
    (ca_ReasoningAlwaysOn c \<and> ca_ReasoningEffort c \<longrightarrow> ca_AllowedReasoningEfforts c \<noteq> []) \<and>
    (\<not> ca_ReasoningEffort c \<longrightarrow> ca_AllowedReasoningEfforts c = [])"

lemma tool_choice_restored:
  "fold apply_tool_choice ((if n then [''none''] else []) @ (if a then [''auto''] else []) @ (if r then [''required''] else []) @ (if f then [''function''] else [])) c =
    c\<lparr>ca_ToolChoiceNone := ca_ToolChoiceNone c \<or> n, ca_ToolChoiceAuto := ca_ToolChoiceAuto c \<or> a,
      ca_ToolChoiceRequired := ca_ToolChoiceRequired c \<or> r, ca_ToolChoiceNamed := ca_ToolChoiceNamed c \<or> f\<rparr>"
  by (cases n; cases a; cases r; cases f) (simp_all add: apply_tool_choice_def)

lemma profile_tool_choice:
  "mc_ToolChoiceModes (ModelCapabilitiesFromProfile p) = (let c = mp_Capabilities p in
    (if ca_ToolChoiceNone c then [''none''] else []) @ (if ca_ToolChoiceAuto c then [''auto''] else []) @
    (if ca_ToolChoiceRequired c then [''required''] else []) @ (if ca_ToolChoiceNamed c then [''function''] else []))"
  by (simp add: ModelCapabilitiesFromProfile_def Let_def)

lemma profile_reasoning:
  assumes "storable (mp_Capabilities p)"
  defines "m \<equiv> ModelCapabilitiesFromProfile p"
  shows "mc_ReasoningMode m = ReasoningToggle \<or> mc_ReasoningMode m = ReasoningHybrid \<longleftrightarrow> ca_ReasoningToggle (mp_Capabilities p)"
    "mc_ReasoningMode m = ReasoningEffortMode \<or> mc_ReasoningMode m = ReasoningHybrid \<or> length (mc_ReasoningEfforts m) > 0 \<longleftrightarrow>
      ca_ReasoningEffort (mp_Capabilities p)"
  using assms by (auto simp: ModelCapabilitiesFromProfile_def Let_def storable_def)

lemma round_trip_storable:
  assumes "storable (mp_Capabilities p)"
  shows "AdapterCapabilities (ModelCapabilitiesFromProfile p) = (mp_Capabilities p)\<lparr>ca_Responses := False, ca_ResponseRequestID := False\<rparr>"
proof -
  have "ca_Models (mp_Capabilities p)" using assms by (simp add: storable_def)
  then show ?thesis
    unfolding AdapterCapabilities_def Let_def profile_tool_choice tool_choice_restored profile_reasoning [OF assms]
    by (cases "mp_Capabilities p") (simp add: ModelCapabilitiesFromProfile_def Let_def no_capabilities_def)
qed

lemmas capability_defs = kimiK3Model_def kimiK27CodeModel_def kimiK26Model_def kimiK25Model_def siliconFlowModel_def zhipuTextModel_def zhipuVisionModel_def
  agnesTextModel_def kimiK3Capabilities_def kimiK27CodeCapabilities_def kimiK26Capabilities_def kimiK25Capabilities_def SiliconFlowCapabilities_def
  zhipuCapabilities_def agnesCapabilities_def no_capabilities_def

lemma default_models_storable: "p \<in> set (default_models kind) \<Longrightarrow> storable (mp_Capabilities p)"
  by (cases kind) (auto simp: default_models_def capability_defs storable_def Let_def)

lemma default_models_valid: "validateModelProfiles (default_models kind) = None"
  by (cases kind) (simp_all add: validateModelProfiles_def default_models_def capability_defs Let_def)

lemma find_profile_in: "find_profile name ps = Some p \<Longrightarrow> p \<in> set ps \<and> mp_UpstreamName p = name"
  by (induction ps) (auto split: if_splits)



end
