(* ===== verification/ModelCheck.thy ===== *)
theory ModelCheck
  imports Capabilities
begin

text \<open>
  The checks that the request workflow makes on a canonical request before it takes any capacity:
  \<open>validateCapabilities\<close> of \<open>internal/requestflow/service.go\<close> and the token estimates of \<open>estimate.go\<close>. Identifiers
  (\<open>uuid.UUID\<close>) are their canonical text; \<open>uuid_nil\<close> is \<open>uuid.Nil\<close>.
\<close>

type_synonym uuid = string

definition uuid_nil :: uuid where
  "uuid_nil = ''00000000-0000-0000-0000-000000000000''"

subsection \<open>types.go: models\<close>

record Model =
  md_ID :: uuid
  md_PublicName :: string
  md_UpstreamName :: string
  md_ProviderID :: uuid
  md_ProviderSlug :: string
  md_ProviderKind :: Kind
  md_ProviderBaseURL :: string
  md_Capabilities :: ModelCapabilities
  md_CreatedAt :: gotime

subsection \<open>service.go: the capability check\<close>

definition decimal :: "nat \<Rightarrow> string" where
  "decimal n = (let digits = (\<lambda>n. map (\<lambda>k. char_of (48 + n div 10 ^ k mod 10)) (rev [0 ..< (if n = 0 then 1 else floorlog 10 n)])) in digits n)"

fun containsCapability :: "string list \<Rightarrow> string \<Rightarrow> bool" where
  "containsCapability [] v = False"
| "containsCapability (c # cs) v = (if c = v then True else containsCapability cs v)"

fun containsIntegerParameter :: "int list \<Rightarrow> int \<Rightarrow> bool" where
  "containsIntegerParameter [] v = False"
| "containsIntegerParameter (c # cs) v = (if c = v then True else containsIntegerParameter cs v)"

fun containsNumberParameter :: "rat list \<Rightarrow> rat \<Rightarrow> bool" where
  "containsNumberParameter [] v = False"
| "containsNumberParameter (c # cs) v = (if c = v then True else containsNumberParameter cs v)"

definition reasoningEnabledForModel :: "ModelCapabilities \<Rightarrow> ChatRequest \<Rightarrow> bool" where
  "reasoningEnabledForModel c request =
    (case cq_Reasoning request of
       Some r \<Rightarrow> (case rc_Enabled r of Some b \<Rightarrow> b | None \<Rightarrow> mc_ReasoningAlwaysOn c \<or> mc_ReasoningDefaultEnabled c)
     | None \<Rightarrow> mc_ReasoningAlwaysOn c \<or> mc_ReasoningDefaultEnabled c)"

definition unsupported :: "Model \<Rightarrow> string \<Rightarrow> string \<Rightarrow> string \<Rightarrow> CError" where
  "unsupported model capability parameter reason =
    (new_error ErrorUnsupportedCapability ''model_capability_unsupported'' reason)\<lparr>ce_Parameter := parameter, ce_Model := md_PublicName model,
      ce_Provider := md_ProviderSlug model, ce_Capability := capability, ce_HTTPStatus := 400\<rparr>"

definition parameterInvalid :: "Model \<Rightarrow> string \<Rightarrow> string \<Rightarrow> string \<Rightarrow> CError" where
  "parameterInvalid model capability parameter message =
    (new_error ErrorInvalidRequest ''model_parameter_invalid'' message)\<lparr>ce_Parameter := parameter, ce_Model := md_PublicName model,
      ce_Provider := md_ProviderSlug model, ce_Capability := capability, ce_HTTPStatus := 400\<rparr>"

definition below :: "'a::linorder \<Rightarrow> 'a option \<Rightarrow> bool" where
  "below v limit = (case limit of None \<Rightarrow> False | Some m \<Rightarrow> v < m)"

definition above :: "'a::linorder \<Rightarrow> 'a option \<Rightarrow> bool" where
  "above v limit = (case limit of None \<Rightarrow> False | Some m \<Rightarrow> v > m)"

definition validateIntegerParameter :: "Model \<Rightarrow> string \<Rightarrow> string \<Rightarrow> int option \<Rightarrow> IntegerParameterLimit \<Rightarrow> CError option" where
  "validateIntegerParameter model capability parameter value limit =
    (case value of
       None \<Rightarrow> None
     | Some v \<Rightarrow>
         if \<not> il_Supported limit then Some (unsupported model capability parameter ''the selected model does not support this request parameter'')
         else if below v (il_Minimum limit) \<or> above v (il_Maximum limit) \<or>
           (length (il_ExactValues limit) > 0 \<and> \<not> containsIntegerParameter (il_ExactValues limit) v) then
           Some (parameterInvalid model capability parameter ''the request parameter is outside the model's supported range'')
         else None)"

definition validateNumberParameter :: "Model \<Rightarrow> string \<Rightarrow> string \<Rightarrow> rat option \<Rightarrow> NumberParameterLimit \<Rightarrow> CError option" where
  "validateNumberParameter model capability parameter value limit =
    (case value of
       None \<Rightarrow> None
     | Some v \<Rightarrow>
         if \<not> nl_Supported limit then Some (unsupported model capability parameter ''the selected model does not support this request parameter'')
         else if below v (nl_Minimum limit) \<or> above v (nl_Maximum limit) \<or>
           (length (nl_ExactValues limit) > 0 \<and> \<not> containsNumberParameter (nl_ExactValues limit) v) then
           Some (parameterInvalid model capability parameter ''the request parameter is outside the model's supported range'')
         else None)"

text \<open>A sequence of \<open>if failure := check; failure != nil \{ return failure \}\<close>.\<close>

fun first_failure :: "CError option list \<Rightarrow> CError option" where
  "first_failure [] = None"
| "first_failure (r # rs) = (case r of Some e \<Rightarrow> Some e | None \<Rightarrow> first_failure rs)"

definition guard :: "bool \<Rightarrow> CError \<Rightarrow> CError option" where
  "guard b e = (if b then Some e else None)"

fun check_strict :: "Model \<Rightarrow> nat \<Rightarrow> ToolDefinition list \<Rightarrow> CError option" where
  "check_strict model index [] = None"
| "check_strict model index (t # ts) =
    (if td_Strict t \<noteq> None \<and> \<not> mc_StrictTools (md_Capabilities model) then
       Some (unsupported model ''tools.strict_schema'' (''tools.'' @ decimal index @ ''.function.strict'') ''the selected model does not support strict tool schemas'')
     else check_strict model (index + 1) ts)"

fun check_parts :: "Model \<Rightarrow> ContentPart list \<Rightarrow> CError option" where
  "check_parts model [] = None"
| "check_parts model (p # ps) =
    (if cp_Type p = ContentPartImageURL \<and> \<not> mc_ImageInput (md_Capabilities model) then
       Some (unsupported model ''vision.image_url'' ''messages'' ''the selected model does not support image URL input'')
     else if cp_Type p = ContentPartVideoURL \<and> \<not> mc_VideoInput (md_Capabilities model) then
       Some (unsupported model ''vision.video_url'' ''messages'' ''the selected model does not support video URL input'')
     else check_parts model ps)"

fun check_messages :: "Model \<Rightarrow> Message list \<Rightarrow> CError option" where
  "check_messages model [] = None"
| "check_messages model (m # ms) =
    (if me_Name m \<noteq> '''' \<and> \<not> mc_MessageName (md_Capabilities model) then
       Some (unsupported model ''messages.name'' ''messages'' ''the selected model does not support message names'')
     else first_failure [check_parts model (me_Content m), check_messages model ms])"

text \<open>The second loop over the messages; the message at the end of the list is the one at index \<open>len(request.Messages)-1\<close>.\<close>

fun check_partial :: "Model \<Rightarrow> Message list \<Rightarrow> CError option" where
  "check_partial model [] = None"
| "check_partial model (m # ms) =
    (if \<not> me_Partial m then check_partial model ms
     else if \<not> mc_PartialMode (md_Capabilities model) then
       Some (unsupported model ''extensions.partial_mode'' ''messages'' ''the selected model does not support partial mode'')
     else if me_Role m \<noteq> RoleAssistant \<or> ms \<noteq> [] then
       Some ((new_error ErrorInvalidRequest ''invalid_partial_mode'' ''partial mode requires the final message to be an assistant message'')
         \<lparr>ce_Parameter := ''messages'', ce_HTTPStatus := 400\<rparr>)
     else check_partial model ms)"

definition check_reasoning :: "Model \<Rightarrow> ReasoningConfig \<Rightarrow> CError option" where
  "check_reasoning model r =
    (let c = md_Capabilities model in
     if \<not> mc_Reasoning c then Some (unsupported model ''reasoning'' ''thinking'' ''the selected model does not support thinking or reasoning'')
     else if rc_Enabled r \<noteq> None \<and> mc_ReasoningMode c \<noteq> ReasoningToggle \<and> mc_ReasoningMode c \<noteq> ReasoningHybrid \<and> mc_ReasoningMode c \<noteq> ReasoningAlwaysOnMode then
       Some (unsupported model ''reasoning.toggle'' ''thinking'' ''the selected model does not support explicitly enabling or disabling thinking'')
     else if mc_ReasoningAlwaysOn c \<and> rc_Enabled r = Some False then
       Some (unsupported model ''reasoning.always_on'' ''thinking.type'' ''the selected model always enables reasoning'')
     else if rc_Effort r \<noteq> '''' \<and> \<not> containsCapability (mc_ReasoningEfforts c) (rc_Effort r) then
       Some (unsupported model ''reasoning.effort'' ''reasoning_effort'' ''the selected model does not support this reasoning effort'')
     else if rc_Preserve r \<noteq> None \<and> \<not> mc_ReasoningPreserve c then
       Some (unsupported model ''reasoning.preserve'' ''thinking.keep'' ''the selected model does not support reasoning replay'')
     else if mc_ReasoningAlwaysOn c \<and> rc_Preserve r = Some False then
       Some (unsupported model ''reasoning.preserve'' ''thinking.keep'' ''the selected model always preserves reasoning'')
     else None)"

definition check_format :: "Model \<Rightarrow> ResponseFormat \<Rightarrow> CError option" where
  "check_format model f = (case rf_Type f of
     ResponseFormatJSONObject \<Rightarrow> guard (\<not> mc_StructuredOutput (md_Capabilities model))
       (unsupported model ''structured_output.json_object'' ''response_format'' ''the selected model does not support JSON object output'')
   | ResponseFormatJSONSchema \<Rightarrow> guard (\<not> mc_JSONSchemaOutput (md_Capabilities model))
       (unsupported model ''structured_output.json_schema'' ''response_format'' ''the selected model does not support JSON Schema output'')
   | _ \<Rightarrow> None)"

fun check_conditions :: "Model \<Rightarrow> ChatRequest \<Rightarrow> SamplingCondition list \<Rightarrow> CError option" where
  "check_conditions model request [] = None"
| "check_conditions model request (c # cs) =
    (if (case sc_ThinkingEnabled c of None \<Rightarrow> False | Some b \<Rightarrow> b \<noteq> reasoningEnabledForModel (md_Capabilities model) request) then
       check_conditions model request cs
     else if (case (sc_TemperatureExact c, cq_Temperature request) of (Some x, Some t) \<Rightarrow> t \<noteq> x | _ \<Rightarrow> False) then
       Some (parameterInvalid model ''parameters.temperature'' ''temperature'' ''temperature conflicts with the model's thinking-mode requirement'')
     else if (case (sc_TemperatureAtMost c, cq_Temperature request, sc_NMaximum c, cq_N request) of
         (Some x, Some t, Some k, Some n) \<Rightarrow> t \<le> x \<and> n > k | _ \<Rightarrow> False) then
       Some (parameterInvalid model ''parameters.n'' ''n'' ''n exceeds the model limit for this temperature'')
     else check_conditions model request cs)"

text \<open>The checks of \<open>validateCapabilities\<close> on tools and tool choice, and on the numeric parameters, in their order.\<close>

definition check_tools :: "Model \<Rightarrow> ChatRequest \<Rightarrow> CError option" where
  "check_tools model request =
    (let c = md_Capabilities model in first_failure [
     guard (length (cq_Tools request) > 0 \<and> \<not> mc_Tools c)
        (unsupported model ''tools.function_calling'' ''tools'' ''the selected model does not support function tools''),
     check_strict model 0 (cq_Tools request),
     case cq_ToolChoice request of None \<Rightarrow> None | Some t \<Rightarrow> guard (\<not> containsCapability (mc_ToolChoiceModes c) (th_Mode t))
        (unsupported model ''tools.tool_choice'' ''tool_choice'' ''the selected model does not support this tool_choice mode''),
     case cq_ToolChoice request of None \<Rightarrow> None | Some t \<Rightarrow>
        guard (length (mc_ToolChoiceModesWithReasoning c) > 0 \<and> reasoningEnabledForModel c request \<and>
            \<not> containsCapability (mc_ToolChoiceModesWithReasoning c) (th_Mode t))
          ((new_error ErrorInvalidRequest ''tool_choice_with_thinking'' ''this model only accepts auto or none tool_choice while thinking is enabled'')
            \<lparr>ce_Parameter := ''tool_choice'', ce_Model := md_PublicName model, ce_Provider := md_ProviderSlug model, ce_Capability := ''tools.tool_choice'',
             ce_HTTPStatus := 400\<rparr>),
     guard (cq_ParallelToolCalls request \<noteq> None \<and> \<not> mc_ParallelToolCalls c)
        (unsupported model ''tools.parallel_tool_calls'' ''parallel_tool_calls'' ''the selected model does not support parallel tool calls''),
     guard (cq_Stream request \<and> length (cq_Tools request) > 0 \<and> \<not> mc_ToolStreaming c)
        (unsupported model ''tools.streaming_tool_calls'' ''tools'' ''the selected model does not support streaming tool calls'')])"

definition check_parameters :: "Model \<Rightarrow> ChatRequest \<Rightarrow> CError option" where
  "check_parameters model request =
    (let parameters = mc_Parameters (md_Capabilities model) in first_failure [
     validateIntegerParameter model ''parameters.max_completion_tokens'' ''max_completion_tokens'' (cq_MaxOutputTokens request) (pp_MaxOutputTokens parameters),
     validateIntegerParameter model ''parameters.n'' ''n'' (cq_N request) (pp_N parameters),
     validateNumberParameter model ''parameters.temperature'' ''temperature'' (cq_Temperature request) (pp_Temperature parameters),
     validateNumberParameter model ''parameters.top_p'' ''top_p'' (cq_TopP request) (pp_TopP parameters),
     validateNumberParameter model ''parameters.top_k'' ''top_k'' (cq_TopK request) (pp_TopK parameters),
     validateNumberParameter model ''parameters.presence_penalty'' ''presence_penalty'' (cq_PresencePenalty request) (pp_PresencePenalty parameters),
     validateNumberParameter model ''parameters.frequency_penalty'' ''frequency_penalty'' (cq_FrequencyPenalty request) (pp_FrequencyPenalty parameters),
     validateIntegerParameter model ''parameters.thinking_budget'' ''thinking_budget'' (cq_ThinkingBudget request) (pp_ThinkingBudget parameters)])"

definition validateCapabilities :: "Model \<Rightarrow> ChatRequest \<Rightarrow> CError option" where
  "validateCapabilities model request =
    (let c = md_Capabilities model in first_failure [
     guard (\<not> mc_Chat c) (unsupported model ''chat_completions'' ''model'' ''the selected model is not available for chat completions''),
     guard (cq_Stream request \<and> \<not> mc_Streaming c) (unsupported model ''streaming'' ''stream'' ''the selected model does not support streaming''),
     guard (cq_StreamUsage request = Some True \<and> \<not> mc_StreamUsage c)
        (unsupported model ''usage.stream'' ''stream_options.include_usage'' ''the selected model does not support authoritative stream usage''),
     check_tools model request,
     check_messages model (cq_Messages request),
     check_partial model (cq_Messages request),
     guard (cq_PromptCacheKey request \<noteq> '''' \<and> \<not> mc_PromptCacheKey c)
        (unsupported model ''extensions.prompt_cache_key'' ''prompt_cache_key'' ''the selected model does not support prompt cache keys''),
     guard (cq_SafetyIdentifier request \<noteq> '''' \<and> \<not> mc_SafetyIdentifier c)
        (unsupported model ''extensions.safety_identifier'' ''safety_identifier'' ''the selected model does not support safety identifiers''),
     case cq_Reasoning request of None \<Rightarrow> None | Some r \<Rightarrow> check_reasoning model r,
     case cq_ResponseFormat request of None \<Rightarrow> None | Some f \<Rightarrow> check_format model f,
     case cq_MaxOutputTokens request of None \<Rightarrow> None | Some m \<Rightarrow> guard (mc_OutputTokens c > 0 \<and> m > mc_OutputTokens c)
        ((new_error ErrorInvalidRequest ''max_output_tokens_exceeded'' ''requested output exceeds the model limit'')
          \<lparr>ce_Parameter := ''max_completion_tokens'', ce_Model := md_PublicName model, ce_Provider := md_ProviderSlug model,
           ce_Capability := ''limits.output_tokens'', ce_HTTPStatus := 400\<rparr>),
     check_parameters model request,
     check_conditions model request (pp_SamplingConditions (mc_Parameters c))])"

subsection \<open>estimate.go\<close>

text \<open>Lengths are counted in 64 bits; the counts stay far below the range, so the sums are exact.\<close>

definition message_bytes :: "Message \<Rightarrow> int" where
  "message_bytes m =
    8 + sum_list (map (\<lambda>p. int (length (cp_Text p))) (me_Content m))
      + sum_list (map (\<lambda>t. int (length (tc_ID t) + length (tf_Name (tc_Function t)) + length (tf_Arguments (tc_Function t)))) (me_ToolCalls m))
      + (case me_Reasoning m of None \<Rightarrow> 0 | Some r \<Rightarrow> int (length (rt_Text r)))"

definition EstimateInputTokens :: "ChatRequest \<Rightarrow> int" where
  "EstimateInputTokens request =
    (let bytes = sum_list (map message_bytes (cq_Messages request)) +
                 sum_list (map (\<lambda>t. int (length (td_Name t) + length (td_Description t) + length (td_Parameters t))) (cq_Tools request));
         input = go_div bytes 4;
         input = (if go_mod bytes 4 \<noteq> 0 then input + 1 else input)
     in if input < 1 then 1 else input)"

definition estimateOutputBudget :: "ChatRequest \<Rightarrow> int" where
  "estimateOutputBudget request = (case cq_MaxOutputTokens request of None \<Rightarrow> 1024 | Some m \<Rightarrow> m)"

definition EstimateTokens :: "ChatRequest \<Rightarrow> int" where
  "EstimateTokens request = wrap64 (EstimateInputTokens request + estimateOutputBudget request)"

definition event_bytes :: "StreamEvent \<Rightarrow> int" where
  "event_bytes e = int (length (se_ContentDelta e) + length (se_ReasoningDelta e)) +
    (case se_ToolCallDelta e of None \<Rightarrow> 0 | Some d \<Rightarrow> int (length (tl_FunctionName d) + length (tl_ArgumentsFragment d)))"

definition EstimatedOutputTokens :: "StreamEvent list \<Rightarrow> int" where
  "EstimatedOutputTokens events =
    (let bytes = sum_list (map event_bytes events) in if bytes = 0 then 0 else go_div (bytes + 3) 4)"

subsection \<open>What the check accepts\<close>

text \<open>The contract of a model, stated request field by request field.\<close>

definition integer_fits :: "int option \<Rightarrow> IntegerParameterLimit \<Rightarrow> bool" where
  "integer_fits v l \<longleftrightarrow> (\<forall>x \<in> set_option v. il_Supported l \<and> (\<forall>m \<in> set_option (il_Minimum l). m \<le> x) \<and> (\<forall>m \<in> set_option (il_Maximum l). x \<le> m) \<and>
    (il_ExactValues l = [] \<or> x \<in> set (il_ExactValues l)))"

definition number_fits :: "rat option \<Rightarrow> NumberParameterLimit \<Rightarrow> bool" where
  "number_fits v l \<longleftrightarrow> (\<forall>x \<in> set_option v. nl_Supported l \<and> (\<forall>m \<in> set_option (nl_Minimum l). m \<le> x) \<and> (\<forall>m \<in> set_option (nl_Maximum l). x \<le> m) \<and>
    (nl_ExactValues l = [] \<or> x \<in> set (nl_ExactValues l)))"

definition parameters_fit :: "ChatRequest \<Rightarrow> ParameterCapabilities \<Rightarrow> bool" where
  "parameters_fit r p \<longleftrightarrow> integer_fits (cq_MaxOutputTokens r) (pp_MaxOutputTokens p) \<and> integer_fits (cq_N r) (pp_N p) \<and>
    number_fits (cq_Temperature r) (pp_Temperature p) \<and> number_fits (cq_TopP r) (pp_TopP p) \<and> number_fits (cq_TopK r) (pp_TopK p) \<and>
    number_fits (cq_PresencePenalty r) (pp_PresencePenalty p) \<and> number_fits (cq_FrequencyPenalty r) (pp_FrequencyPenalty p) \<and>
    integer_fits (cq_ThinkingBudget r) (pp_ThinkingBudget p)"

definition condition_met :: "ModelCapabilities \<Rightarrow> ChatRequest \<Rightarrow> SamplingCondition \<Rightarrow> bool" where
  "condition_met c r s \<longleftrightarrow> sc_ThinkingEnabled s \<in> {None, Some (reasoningEnabledForModel c r)} \<longrightarrow>
    (\<forall>x \<in> set_option (sc_TemperatureExact s). \<forall>t \<in> set_option (cq_Temperature r). t = x) \<and>
    (\<forall>x \<in> set_option (sc_TemperatureAtMost s). \<forall>t \<in> set_option (cq_Temperature r). \<forall>k \<in> set_option (sc_NMaximum s). \<forall>n \<in> set_option (cq_N r). t \<le> x \<longrightarrow> n \<le> k)"

definition tools_fit :: "ModelCapabilities \<Rightarrow> ChatRequest \<Rightarrow> bool" where
  "tools_fit c r \<longleftrightarrow> (cq_Tools r \<noteq> [] \<longrightarrow> mc_Tools c \<and> (cq_Stream r \<longrightarrow> mc_ToolStreaming c)) \<and>
    (\<forall>t \<in> set (cq_Tools r). td_Strict t \<noteq> None \<longrightarrow> mc_StrictTools c) \<and>
    (\<forall>t \<in> set_option (cq_ToolChoice r). th_Mode t \<in> set (mc_ToolChoiceModes c) \<and>
      (mc_ToolChoiceModesWithReasoning c \<noteq> [] \<and> reasoningEnabledForModel c r \<longrightarrow> th_Mode t \<in> set (mc_ToolChoiceModesWithReasoning c))) \<and>
    (cq_ParallelToolCalls r \<noteq> None \<longrightarrow> mc_ParallelToolCalls c)"

definition messages_fit :: "ModelCapabilities \<Rightarrow> Message list \<Rightarrow> bool" where
  "messages_fit c ms \<longleftrightarrow> (\<forall>m \<in> set ms. (me_Name m \<noteq> [] \<longrightarrow> mc_MessageName c) \<and>
      (\<forall>p \<in> set (me_Content m). (cp_Type p = ContentPartImageURL \<longrightarrow> mc_ImageInput c) \<and> (cp_Type p = ContentPartVideoURL \<longrightarrow> mc_VideoInput c))) \<and>
    (\<forall>i < length ms. me_Partial (ms ! i) \<longrightarrow> mc_PartialMode c \<and> me_Role (ms ! i) = RoleAssistant \<and> i = length ms - 1)"

definition reasoning_fits :: "ModelCapabilities \<Rightarrow> ReasoningConfig \<Rightarrow> bool" where
  "reasoning_fits c r \<longleftrightarrow> mc_Reasoning c \<and>
    (rc_Enabled r \<noteq> None \<longrightarrow> mc_ReasoningMode c \<in> {ReasoningToggle, ReasoningHybrid, ReasoningAlwaysOnMode}) \<and>
    (mc_ReasoningAlwaysOn c \<longrightarrow> rc_Enabled r \<noteq> Some False \<and> rc_Preserve r \<noteq> Some False) \<and>
    (rc_Effort r \<noteq> [] \<longrightarrow> rc_Effort r \<in> set (mc_ReasoningEfforts c)) \<and>
    (rc_Preserve r \<noteq> None \<longrightarrow> mc_ReasoningPreserve c)"

definition conforms :: "ModelCapabilities \<Rightarrow> ChatRequest \<Rightarrow> bool" where
  "conforms c r \<longleftrightarrow> mc_Chat c \<and> (cq_Stream r \<longrightarrow> mc_Streaming c) \<and> (cq_StreamUsage r = Some True \<longrightarrow> mc_StreamUsage c) \<and>
    tools_fit c r \<and> messages_fit c (cq_Messages r) \<and>
    (cq_PromptCacheKey r \<noteq> [] \<longrightarrow> mc_PromptCacheKey c) \<and> (cq_SafetyIdentifier r \<noteq> [] \<longrightarrow> mc_SafetyIdentifier c) \<and>
    (\<forall>x \<in> set_option (cq_Reasoning r). reasoning_fits c x) \<and>
    (\<forall>f \<in> set_option (cq_ResponseFormat r). (rf_Type f = ResponseFormatJSONObject \<longrightarrow> mc_StructuredOutput c) \<and>
      (rf_Type f = ResponseFormatJSONSchema \<longrightarrow> mc_JSONSchemaOutput c)) \<and>
    (\<forall>m \<in> set_option (cq_MaxOutputTokens r). mc_OutputTokens c > 0 \<longrightarrow> m \<le> mc_OutputTokens c) \<and>
    parameters_fit r (mc_Parameters c) \<and> (\<forall>s \<in> set (pp_SamplingConditions (mc_Parameters c)). condition_met c r s)"

lemma first_failure_None: "first_failure rs = None \<longleftrightarrow> (\<forall>r \<in> set rs. r = None)"
  by (induction rs) (auto split: option.splits)

declare first_failure.simps [simp del]

lemma first_failure_Some: "first_failure rs = Some e \<Longrightarrow> Some e \<in> set rs"
  by (induction rs) (auto simp: first_failure.simps split: option.splits)

lemma guard_None: "guard b e = None \<longleftrightarrow> \<not> b"
  by (simp add: guard_def)

lemma containsCapability_iff [simp]: "containsCapability vs v \<longleftrightarrow> v \<in> set vs"
  by (induction vs) auto

lemma containsIntegerParameter_iff [simp]: "containsIntegerParameter vs v \<longleftrightarrow> v \<in> set vs"
  by (induction vs) auto

lemma containsNumberParameter_iff [simp]: "containsNumberParameter vs v \<longleftrightarrow> v \<in> set vs"
  by (induction vs) auto

lemma integer_parameter_None: "validateIntegerParameter model a b v l = None \<longleftrightarrow> integer_fits v l"
  by (cases v; cases "il_Minimum l"; cases "il_Maximum l") (auto simp: validateIntegerParameter_def integer_fits_def below_def above_def)

lemma number_parameter_None: "validateNumberParameter model a b v l = None \<longleftrightarrow> number_fits v l"
  by (cases v; cases "nl_Minimum l"; cases "nl_Maximum l") (auto simp: validateNumberParameter_def number_fits_def below_def above_def)

lemma check_strict_None: "check_strict model i ts = None \<longleftrightarrow> (\<forall>t \<in> set ts. td_Strict t \<noteq> None \<longrightarrow> mc_StrictTools (md_Capabilities model))"
  by (induction ts arbitrary: i) auto

lemma check_parts_None: "check_parts model ps = None \<longleftrightarrow> (\<forall>p \<in> set ps. (cp_Type p = ContentPartImageURL \<longrightarrow> mc_ImageInput (md_Capabilities model)) \<and>
    (cp_Type p = ContentPartVideoURL \<longrightarrow> mc_VideoInput (md_Capabilities model)))"
  by (induction ps) auto

lemma check_messages_None: "check_messages model ms = None \<longleftrightarrow> (\<forall>m \<in> set ms. (me_Name m \<noteq> [] \<longrightarrow> mc_MessageName (md_Capabilities model)) \<and>
    check_parts model (me_Content m) = None)"
  by (induction ms) (auto simp: first_failure_None split: option.splits)

lemma check_partial_None: "check_partial model ms = None \<longleftrightarrow>
  (\<forall>i < length ms. me_Partial (ms ! i) \<longrightarrow> mc_PartialMode (md_Capabilities model) \<and> me_Role (ms ! i) = RoleAssistant \<and> i = length ms - 1)"
proof (induction ms)
  case (Cons m ms)
  have *: "(\<forall>i < length (m # ms). P i) \<longleftrightarrow> P 0 \<and> (\<forall>i < length ms. P (Suc i))" for P by (auto simp: less_Suc_eq_0_disj)
  show ?case unfolding * using Cons by (cases ms) (auto simp: less_Suc_eq_0_disj)
qed simp

lemma check_condition_None:
  "check_conditions model request (s # cs) = None \<longleftrightarrow> condition_met (md_Capabilities model) request s \<and> check_conditions model request cs = None"
  by (cases "sc_ThinkingEnabled s"; cases "sc_TemperatureExact s"; cases "sc_TemperatureAtMost s"; cases "cq_Temperature request"; cases "sc_NMaximum s"; cases "cq_N request")
    (simp_all add: condition_met_def not_less)

lemma check_conditions_None: "check_conditions model request cs = None \<longleftrightarrow> (\<forall>s \<in> set cs. condition_met (md_Capabilities model) request s)"
  by (induction cs) (simp_all add: check_condition_None del: check_conditions.simps(2))

lemma check_reasoning_None: "check_reasoning model r = None \<longleftrightarrow> reasoning_fits (md_Capabilities model) r"
  by (auto simp: check_reasoning_def reasoning_fits_def Let_def)

lemma check_format_None: "check_format model f = None \<longleftrightarrow> (rf_Type f = ResponseFormatJSONObject \<longrightarrow> mc_StructuredOutput (md_Capabilities model)) \<and>
      (rf_Type f = ResponseFormatJSONSchema \<longrightarrow> mc_JSONSchemaOutput (md_Capabilities model))"
  by (cases "rf_Type f") (simp_all add: check_format_def guard_def)

lemma check_tools_None: "check_tools model request = None \<longleftrightarrow> tools_fit (md_Capabilities model) request"
  by (cases "cq_ToolChoice request") (auto simp: check_tools_def tools_fit_def Let_def first_failure_None guard_None check_strict_None)

lemma check_parameters_None: "check_parameters model request = None \<longleftrightarrow> parameters_fit request (mc_Parameters (md_Capabilities model))"
  by (simp add: check_parameters_def parameters_fit_def Let_def first_failure_None integer_parameter_None number_parameter_None)

lemma check_all_messages_None:
  "check_messages model ms = None \<and> check_partial model ms = None \<longleftrightarrow> messages_fit (md_Capabilities model) ms"
  by (simp only: check_messages_None check_parts_None check_partial_None messages_fit_def)

lemma validateCapabilities_None: "validateCapabilities model request = None \<longleftrightarrow> conforms (md_Capabilities model) request"
proof -
  have r: "(case cq_Reasoning request of None \<Rightarrow> None | Some r \<Rightarrow> check_reasoning model r) = None \<longleftrightarrow>
      (\<forall>x \<in> set_option (cq_Reasoning request). reasoning_fits (md_Capabilities model) x)"
    by (cases "cq_Reasoning request") (simp_all add: check_reasoning_None)
  have f: "(case cq_ResponseFormat request of None \<Rightarrow> None | Some f \<Rightarrow> check_format model f) = None \<longleftrightarrow>
      (\<forall>f \<in> set_option (cq_ResponseFormat request). (rf_Type f = ResponseFormatJSONObject \<longrightarrow> mc_StructuredOutput (md_Capabilities model)) \<and>
      (rf_Type f = ResponseFormatJSONSchema \<longrightarrow> mc_JSONSchemaOutput (md_Capabilities model)))"
    by (cases "cq_ResponseFormat request") (simp_all only: check_format_None option.case option.set, simp_all)
  have m: "(case cq_MaxOutputTokens request of None \<Rightarrow> None | Some m \<Rightarrow> guard (mc_OutputTokens c > 0 \<and> m > mc_OutputTokens c) e) = None \<longleftrightarrow>
      (\<forall>m \<in> set_option (cq_MaxOutputTokens request). mc_OutputTokens c > 0 \<longrightarrow> m \<le> mc_OutputTokens c)" for c e
    by (cases "cq_MaxOutputTokens request") (auto simp: guard_None)
  show ?thesis
    unfolding validateCapabilities_def conforms_def Let_def first_failure_None list.set ball_simps check_tools_None check_parameters_None check_conditions_None
      check_all_messages_None [symmetric] guard_None r f m
    by argo
qed

subsection \<open>What a refusal says\<close>

definition client_refusal :: "CError \<Rightarrow> bool" where
  "client_refusal e \<longleftrightarrow> ce_Kind e \<in> {ErrorInvalidRequest, ErrorUnsupportedCapability} \<and> ce_HTTPStatus e = 400 \<and> ce_RetryAfter e = None \<and> \<not> ce_ReplaySafe e"

lemma client_refusal_intros [intro]: "client_refusal (unsupported m c p r)" "client_refusal (parameterInvalid m c p r)"
  by (simp_all add: client_refusal_def unsupported_def parameterInvalid_def)

lemma client_refusal_literal [intro]:
  "client_refusal ((new_error ErrorInvalidRequest c m)\<lparr>ce_Parameter := p, ce_HTTPStatus := 400\<rparr>)"
  "client_refusal ((new_error ErrorInvalidRequest c m)\<lparr>ce_Parameter := p, ce_Model := a, ce_Provider := b, ce_Capability := d, ce_HTTPStatus := 400\<rparr>)"
  by (simp_all add: client_refusal_def)

definition refusing :: "CError option \<Rightarrow> bool" where
  "refusing r \<longleftrightarrow> (\<forall>e. r = Some e \<longrightarrow> client_refusal e)"

lemma refusing_simps [simp]: "refusing None" "refusing (Some e) \<longleftrightarrow> client_refusal e" "refusing (guard b e) \<longleftrightarrow> (b \<longrightarrow> client_refusal e)"
  by (simp_all add: refusing_def guard_def)

lemma refusing_first: "(\<forall>r \<in> set rs. refusing r) \<Longrightarrow> refusing (first_failure rs)"
  using first_failure_Some unfolding refusing_def by metis

lemma refusing_option: "(\<And>x. v = Some x \<Longrightarrow> refusing (f x)) \<Longrightarrow> refusing (case v of None \<Rightarrow> None | Some x \<Rightarrow> f x)"
  by (cases v) simp_all

lemmas refusal_simps [simp] = client_refusal_intros client_refusal_literal

lemma refusing_integer [simp]: "refusing (validateIntegerParameter model a b v l)"
  by (simp add: validateIntegerParameter_def refusing_option)

lemma refusing_number [simp]: "refusing (validateNumberParameter model a b v l)"
  by (simp add: validateNumberParameter_def refusing_option)

lemma refusing_strict [simp]: "refusing (check_strict model i ts)"
  by (induction ts arbitrary: i) simp_all

lemma refusing_parts [simp]: "refusing (check_parts model ps)"
  by (induction ps) simp_all

lemma refusing_messages [simp]: "refusing (check_messages model ms)"
  by (induction ms) (simp_all add: refusing_first)

lemma refusing_partial [simp]: "refusing (check_partial model ms)"
  by (induction ms) simp_all

lemma refusing_reasoning [simp]: "refusing (check_reasoning model r)"
  by (simp add: check_reasoning_def Let_def)

lemma refusing_format [simp]: "refusing (check_format model f)"
  by (cases "rf_Type f") (simp_all add: check_format_def)

lemma refusing_conditions [simp]: "refusing (check_conditions model request cs)"
  by (induction cs) simp_all

lemma refusing_tools [simp]: "refusing (check_tools model request)"
  unfolding check_tools_def Let_def by (rule refusing_first) (simp add: refusing_option)

lemma refusing_parameters [simp]: "refusing (check_parameters model request)"
  unfolding check_parameters_def Let_def by (rule refusing_first) simp

lemma validateCapabilities_refusing: "refusing (validateCapabilities model request)"
  unfolding validateCapabilities_def Let_def by (rule refusing_first) (simp add: refusing_option)

text \<open>
  C37. The capability check accepts exactly the requests that keep to the model's contract, and everything it refuses is the client's
  error: status 400, invalid request or unsupported capability, no retry advice and not replayable on another credential.
\<close>

theorem capability_check_decides:
  "(validateCapabilities model request = None \<longleftrightarrow> conforms (md_Capabilities model) request) \<and>
   (\<forall>e. validateCapabilities model request = Some e \<longrightarrow>
     ce_Kind e \<in> {ErrorInvalidRequest, ErrorUnsupportedCapability} \<and> ce_HTTPStatus e = 400 \<and> ce_RetryAfter e = None \<and> \<not> ce_ReplaySafe e)"
  using validateCapabilities_None [of model request] validateCapabilities_refusing [of model request] unfolding refusing_def client_refusal_def by blast

subsection \<open>Estimates\<close>

text \<open>A request with the parameters of interest and nothing else.\<close>

definition plain_request :: "Message list \<Rightarrow> int option \<Rightarrow> ChatRequest" where
  "plain_request messages maximum = \<lparr>cq_RequestID = '''', cq_Model = '''', cq_Messages = messages, cq_Tools = [], cq_ToolChoice = None,
     cq_ParallelToolCalls = None, cq_Stream = False, cq_StreamUsage = None, cq_MaxOutputTokens = maximum, cq_N = None, cq_Temperature = None,
     cq_TopP = None, cq_TopK = None, cq_PresencePenalty = None, cq_FrequencyPenalty = None, cq_ThinkingBudget = None, cq_Stop = [],
     cq_ResponseFormat = None, cq_Reasoning = None, cq_PromptCacheKey = '''', cq_SafetyIdentifier = ''''\<rparr>"

definition user_message :: "string \<Rightarrow> Message" where
  "user_message t = \<lparr>me_Role = RoleUser, me_Name = '''', me_Content = TextContent t, me_Partial = False, me_ToolCalls = [], me_ToolCallID = '''', me_Reasoning = None\<rparr>"

definition kimi_k3_model :: Model where
  "kimi_k3_model = \<lparr>md_ID = ''m'', md_PublicName = ''kimi-k3'', md_UpstreamName = ''kimi-k3'', md_ProviderID = ''p'', md_ProviderSlug = ''kimi'',
     md_ProviderKind = KindKimi, md_ProviderBaseURL = ''https://api.moonshot.cn/v1'', md_Capabilities = ModelCapabilitiesFromProfile kimiK3Model, md_CreatedAt = 0\<rparr>"

theorem capability_check_decides_witness:
  "conforms (md_Capabilities kimi_k3_model) (plain_request [user_message ''hi''] (Some 64))"
proof -
  have "validateCapabilities kimi_k3_model (plain_request [user_message ''hi''] (Some 64)) = None"
    by (simp add: validateCapabilities_def first_failure_None guard_None check_tools_def check_parameters_def kimi_k3_model_def plain_request_def
        user_message_def TextContent_def ModelCapabilitiesFromProfile_def kimiK3Model_def kimiK3Capabilities_def no_capabilities_def no_parameters_def Let_def
        validateIntegerParameter_def validateNumberParameter_def integerAtLeast_def no_integer_def below_def above_def)
  then show ?thesis using capability_check_decides [of kimi_k3_model "plain_request [user_message ''hi''] (Some 64)"] by blast
qed

lemma message_bytes_nonneg: "0 \<le> message_bytes m"
  unfolding message_bytes_def by (intro add_nonneg_nonneg sum_list_nonneg) (auto split: option.split)

definition request_bytes :: "ChatRequest \<Rightarrow> int" where
  "request_bytes request = sum_list (map message_bytes (cq_Messages request)) +
     sum_list (map (\<lambda>t. int (length (td_Name t) + length (td_Description t) + length (td_Parameters t))) (cq_Tools request))"

lemma request_bytes_nonneg: "0 \<le> request_bytes request"
  unfolding request_bytes_def by (intro add_nonneg_nonneg sum_list_nonneg) (auto simp: message_bytes_nonneg)

lemma EstimateInputTokens_eq: "EstimateInputTokens request = max 1 ((request_bytes request + 3) div 4)"
proof -
  define b where "b = request_bytes request"
  have b: "0 \<le> b" using request_bytes_nonneg by (simp add: b_def)
  have "(if b mod 4 \<noteq> 0 then b div 4 + 1 else b div 4) = (b + 3) div 4" by presburger
  then show ?thesis using b unfolding EstimateInputTokens_def Let_def request_bytes_def [symmetric] b_def [symmetric] by (auto simp: max_def)
qed

text \<open>
  The input estimate is a quarter of the request's bytes rounded up and at least one token; as long as the requested output stays within the
  64-bit range with it, the estimate that the limits are charged with is their exact sum, and positive.
\<close>

theorem token_estimate:
  "EstimateInputTokens request = max 1 ((request_bytes request + 3) div 4) \<and>
   (0 \<le> estimateOutputBudget request \<and> EstimateInputTokens request + estimateOutputBudget request \<le> max_int64 \<longrightarrow>
     EstimateTokens request = EstimateInputTokens request + estimateOutputBudget request \<and> 0 < EstimateTokens request)"
  by (auto simp: EstimateInputTokens_eq EstimateTokens_def)

theorem token_estimate_witness:
  "EstimateTokens (plain_request [user_message ''hello''] (Some 10)) = 14"
  using token_estimate [of "plain_request [user_message ''hello''] (Some 10)"]
  by (simp add: request_bytes_def plain_request_def user_message_def TextContent_def message_bytes_def estimateOutputBudget_def)

text \<open>
  Beyond that range the addition wraps: kimi-k3 publishes no output limit, so the capability check accepts the largest 64-bit value
  as max_completion_tokens, and the estimate is then negative, which the check against the context size lets pass.
\<close>

lemma token_estimate_overflow:
  "validateCapabilities kimi_k3_model (plain_request [user_message ''hi''] (Some max_int64)) = None \<and>
   EstimateTokens (plain_request [user_message ''hi''] (Some max_int64)) < 0 \<and>
   \<not> EstimateTokens (plain_request [user_message ''hi''] (Some max_int64)) > mc_ContextTokens (md_Capabilities kimi_k3_model)"
proof -
  have e: "EstimateTokens (plain_request [user_message ''hi''] (Some max_int64)) < 0"
    unfolding EstimateTokens_def EstimateInputTokens_eq
    by (simp add: request_bytes_def plain_request_def user_message_def TextContent_def message_bytes_def estimateOutputBudget_def wrap64_def)
  moreover have "mc_ContextTokens (md_Capabilities kimi_k3_model) = 1000000"
    by (simp add: kimi_k3_model_def ModelCapabilitiesFromProfile_def kimiK3Model_def Let_def)
  moreover have "validateCapabilities kimi_k3_model (plain_request [user_message ''hi''] (Some max_int64)) = None"
    by (simp add: validateCapabilities_def first_failure_None guard_None check_tools_def check_parameters_def kimi_k3_model_def plain_request_def
        user_message_def TextContent_def ModelCapabilitiesFromProfile_def kimiK3Model_def kimiK3Capabilities_def no_capabilities_def no_parameters_def Let_def
        validateIntegerParameter_def validateNumberParameter_def integerAtLeast_def no_integer_def below_def above_def)
  ultimately show ?thesis by simp
qed

end
