(* ===== verification/CapacityAdapter.thy ===== *)
theory CapacityAdapter
  imports ModelCheck Lease Rate Admission
begin

text \<open>
  The request workflow's use of the coordinator: \<open>internal/requestflow/coordination_adapter.go\<close>, with the lease
  types of \<open>types.go\<close>. The sorted sets of leases and the hashes of rate buckets have disjoint keys, so the
  store is given as two parts, one for each set of commands. A random lease identifier, the clock and
  the outcome of a wait are arguments.
\<close>

subsection \<open>Errors and types\<close>

datatype flow_error = ErrModelNotFound | ErrModelNotAuthorized | ErrNoEligibleUpstream | ErrCoordinationFailed string | ErrAdmissionQueueFull string
  | ErrAdmissionTimedOut string | ErrAdmissionCanceled string | ErrIdempotencyConflict | ErrInvalidAccounting | ErrFenced | ErrNotClaimable
  | CapacityError gotime | OtherError string

record LeaseRequest =
  lq_RequestID :: uuid
  lq_ExecutionID :: uuid
  lq_ModelID :: uuid
  lq_ProviderID :: uuid
  lq_CredentialID :: uuid
  lq_ResourcePoolID :: uuid
  lq_EstimatedTokens :: int
  lq_RPMLimit :: "int option"
  lq_TPMLimit :: "int option"
  lq_Concurrency :: "int option"
  lq_SharedCapacityScope :: "string option"
  lq_SharedRPMLimit :: "int option"
  lq_SharedTPMLimit :: "int option"
  lq_SharedConcurrency :: "int option"
  lq_SharedDailyTokenLimit :: "int option"
  lq_SharedDailyResetMinuteUTC :: "int option"

record CredentialCapacityInput =
  ki_CredentialID :: uuid
  ki_ProviderID :: uuid
  ki_RPMLimit :: "int option"
  ki_TPMLimit :: "int option"
  ki_ConcurrencyLimit :: "int option"
  ki_SharedCapacityScope :: "string option"
  ki_SharedRPMLimit :: "int option"
  ki_SharedTPMLimit :: "int option"
  ki_SharedConcurrencyLimit :: "int option"
  ki_SharedDailyTokenLimit :: "int option"
  ki_SharedDailyResetMinuteUTC :: "int option"

record CapacityObservation =
  ob_ObservedAt :: gotime
  ob_RequestsPerMinuteLimit :: int
  ob_RequestsPerMinuteRemain :: int
  ob_TokensPerMinuteLimit :: int
  ob_TokensPerMinuteRemain :: int
  ob_DailyTokenLimit :: int
  ob_DailyTokenRemain :: int
  ob_DailyTokenResetAt :: "gotime option"
  ob_ConcurrencyLimit :: int
  ob_ConcurrencyInUse :: int

record CredentialCapacity =
  kc_Local :: CapacityObservation
  kc_Shared :: "CapacityObservation option"

record Capacity =
  cy_RequestsPerMinute :: int
  cy_TokensPerMinute :: int
  cy_DailyTokens :: int
  cy_DailyResetMinuteUTC :: int
  cy_Concurrency :: int

record CoordinationConfig =
  cn_Global :: Capacity
  cn_ResourcePool :: Capacity
  cn_Model :: Capacity
  cn_Provider :: Capacity
  cn_DefaultCredential :: Capacity
  cn_LeaseTTL :: duration

record AdmissionCoordinationConfig =
  an_MaxActive :: int
  an_MaxQueueWait :: duration
  an_RetryInterval :: duration
  an_LeaseTTL :: duration

abbreviation second :: duration where "second \<equiv> 1000000000"
abbreviation minute :: duration where "minute \<equiv> 60000000000"
abbreviation hour :: duration where "hour \<equiv> 3600000000000"

subsection \<open>Limits of a request\<close>

definition sharedUpstreamCapacity ::
  "uuid \<Rightarrow> string option \<Rightarrow> int option \<Rightarrow> int option \<Rightarrow> int option \<Rightarrow> int option \<Rightarrow> int option \<Rightarrow> string + (Dimension \<times> Capacity) option" where
  "sharedUpstreamCapacity providerID scope rpm tpm concurrency dailyTokens dailyResetMinuteUTC =
    (case scope of
       None \<Rightarrow>
         if rpm \<noteq> None \<or> tpm \<noteq> None \<or> concurrency \<noteq> None \<or> dailyTokens \<noteq> None \<or> dailyResetMinuteUTC \<noteq> None then
           Inl ''shared upstream limits require a scope''
         else Inr None
     | Some sc \<Rightarrow>
         (case (rpm, tpm, concurrency) of
            (Some r, Some t, Some n) \<Rightarrow>
              if providerID = uuid_nil \<or> sc = '''' \<or> r < 1 \<or> t < 1 \<or> n < 1 then
                Inl ''shared upstream scope requires a provider and positive RPM, TPM, and concurrency limits''
              else
                let capacity = \<lparr>cy_RequestsPerMinute = r, cy_TokensPerMinute = t, cy_DailyTokens = 0, cy_DailyResetMinuteUTC = 0, cy_Concurrency = n\<rparr>;
                    dimension = \<lparr>dm_Scope = ScopeSharedUpstream, dm_SubjectID = providerID @ '':'' @ sc\<rparr>
                in (case (dailyTokens, dailyResetMinuteUTC) of
                      (None, None) \<Rightarrow> Inr (Some (dimension, capacity))
                    | (Some d, Some m) \<Rightarrow>
                        if d < 1 \<or> m < 0 \<or> m \<ge> 1440 then Inl ''shared upstream daily token quota requires a positive limit and UTC reset minute''
                        else Inr (Some (dimension, capacity\<lparr>cy_DailyTokens := d, cy_DailyResetMinuteUTC := m\<rparr>))
                    | _ \<Rightarrow> Inl ''shared upstream daily token quota requires a positive limit and UTC reset minute'')
          | _ \<Rightarrow> Inl ''shared upstream scope requires a provider and positive RPM, TPM, and concurrency limits''))"

definition requestDimensions :: "LeaseRequest \<Rightarrow> CoordinationConfig \<Rightarrow> Capacity \<Rightarrow> string + (Dimension \<times> Capacity) list" where
  "requestDimensions request config credentialCapacity =
    (let dimensions =
       [(GlobalDimension, cn_Global config),
        (\<lparr>dm_Scope = ScopeResourcePool, dm_SubjectID = lq_ResourcePoolID request\<rparr>, cn_ResourcePool config),
        (\<lparr>dm_Scope = ScopeModel, dm_SubjectID = lq_ModelID request\<rparr>, cn_Model config),
        (\<lparr>dm_Scope = ScopeProvider, dm_SubjectID = lq_ProviderID request\<rparr>, cn_Provider config),
        (\<lparr>dm_Scope = ScopeCredential, dm_SubjectID = lq_CredentialID request\<rparr>, credentialCapacity)]
     in bindR (sharedUpstreamCapacity (lq_ProviderID request) (lq_SharedCapacityScope request) (lq_SharedRPMLimit request) (lq_SharedTPMLimit request)
          (lq_SharedConcurrency request) (lq_SharedDailyTokenLimit request) (lq_SharedDailyResetMinuteUTC request)) (\<lambda>shared.
        Inr (dimensions @ (case shared of None \<Rightarrow> [] | Some s \<Rightarrow> [s]))))"

definition minuteBucket :: "Dimension \<Rightarrow> BucketMetric \<Rightarrow> int \<Rightarrow> int \<Rightarrow> BucketLimit" where
  "minuteBucket dimension metric capacity requested =
    \<lparr>bl_Dimension = dimension, bl_Metric = metric, bl_CapacityTokens = capacity, bl_RefillTokens = capacity, bl_RefillInterval = minute,
     bl_RequestedTokens = requested, bl_FixedWindow = 0, bl_FixedWindowOffset = 0\<rparr>"

definition dailyTokenBucket :: "Dimension \<Rightarrow> int \<Rightarrow> int \<Rightarrow> int \<Rightarrow> BucketLimit" where
  "dailyTokenBucket dimension capacity resetMinuteUTC requested =
    \<lparr>bl_Dimension = dimension, bl_Metric = MetricDailyTokens, bl_CapacityTokens = capacity, bl_RefillTokens = 0, bl_RefillInterval = 0,
     bl_RequestedTokens = requested, bl_FixedWindow = 24 * hour, bl_FixedWindowOffset = resetMinuteUTC * minute\<rparr>"

text \<open>Midnight UTC is a multiple of a day after the zero time.\<close>

definition nextDailyReset :: "gotime \<Rightarrow> int \<Rightarrow> gotime" where
  "nextDailyReset observedAt resetMinuteUTC =
    (let day = observedAt - observedAt mod (24 * hour) + resetMinuteUTC * minute
     in if \<not> day > observedAt then day + 24 * hour else day)"

definition effectiveCredentialCapacity :: "CoordinationConfig \<Rightarrow> int option \<Rightarrow> int option \<Rightarrow> int option \<Rightarrow> Capacity" where
  "effectiveCredentialCapacity config rpm tpm concurrency =
    (let c = cn_DefaultCredential config;
         c = (case rpm of None \<Rightarrow> c | Some r \<Rightarrow> c\<lparr>cy_RequestsPerMinute := r\<rparr>);
         c = (case tpm of None \<Rightarrow> c | Some t \<Rightarrow> c\<lparr>cy_TokensPerMinute := t\<rparr>)
     in (case concurrency of None \<Rightarrow> c | Some n \<Rightarrow> c\<lparr>cy_Concurrency := n\<rparr>))"

definition positive_capacity :: "Capacity \<Rightarrow> bool" where
  "positive_capacity c \<longleftrightarrow> \<not> (cy_RequestsPerMinute c < 1 \<or> cy_TokensPerMinute c < 1 \<or> cy_Concurrency c < 1)"

definition NewCoordinationAdapter :: "bool \<Rightarrow> CoordinationConfig \<Rightarrow> string option" where
  [validators]: "NewCoordinationAdapter has_coordinator config =
    (if \<not> has_coordinator \<or> cn_LeaseTTL config < 3 * second \<or> cn_LeaseTTL config > hour then Some ''coordination adapter configuration is invalid''
     else if list_all positive_capacity [cn_Global config, cn_ResourcePool config, cn_Model config, cn_Provider config, cn_DefaultCredential config]
       then None
     else Some ''all coordination capacity defaults must be positive'')"

subsection \<open>Taking capacity\<close>

text \<open>The bucket limits of one dimension, with those whose tokens can be given back.\<close>

definition dimension_rates :: "int \<Rightarrow> Dimension \<times> Capacity \<Rightarrow> BucketLimit list \<times> BucketLimit list" where
  "dimension_rates estimated dc =
    (let (dimension, capacity) = dc;
         tokenLimit = minuteBucket dimension MetricTokens (cy_TokensPerMinute capacity) estimated;
         daily = (if cy_DailyTokens capacity > 0
                  then [dailyTokenBucket dimension (cy_DailyTokens capacity) (cy_DailyResetMinuteUTC capacity) estimated] else [])
     in ([minuteBucket dimension MetricRequests (cy_RequestsPerMinute capacity) 1, tokenLimit] @ daily, tokenLimit # daily))"

record renewingLease =
  rl_reference :: LeaseRef
  rl_tokenRateLimits :: "BucketLimit list"
  rl_estimatedTokens :: int
  rl_rateRefundReference :: string
  rl_ttl :: duration

definition concurrency_limits :: "(Dimension \<times> Capacity) list \<Rightarrow> ConcurrencyLimit list" where
  "concurrency_limits dims = map (\<lambda>(d, c). \<lparr>cl_Dimension = d, cl_MaxInFlight = cy_Concurrency c\<rparr>) dims"

definition adapter_Acquire ::
  "'s zops \<Rightarrow> 't hops \<Rightarrow> Coordinator \<Rightarrow> CoordinationConfig \<Rightarrow> string option \<Rightarrow> LeaseRequest \<Rightarrow> 's \<Rightarrow> 't \<Rightarrow> (flow_error + renewingLease) \<times> 's \<times> 't" where
  "adapter_Acquire zo ho c config newLeaseID request s t =
    (if lq_ExecutionID request = uuid_nil then (Inl (ErrCoordinationFailed ''execution id is required''), s, t)
     else
       let credentialCapacity = effectiveCredentialCapacity config (lq_RPMLimit request) (lq_TPMLimit request) (lq_Concurrency request) in
       case requestDimensions request config credentialCapacity of
         Inl err \<Rightarrow> (Inl (ErrCoordinationFailed ''shared upstream capacity''), s, t)
       | Inr dims \<Rightarrow>
           (case newLeaseID of
              None \<Rightarrow> (Inl (ErrCoordinationFailed ''generate concurrency lease id''), s, t)
            | Some leaseID \<Rightarrow>
                let (leaseResult, s) = AcquireLease zo c leaseID (cn_LeaseTTL config) (concurrency_limits dims) s in
                case leaseResult of
                  Inl err \<Rightarrow> (Inl (ErrCoordinationFailed ''acquire concurrency''), s, t)
                | Inr leaseDecision \<Rightarrow>
                    if \<not> ld_Granted leaseDecision then (Inl (CapacityError (ld_RetryAt leaseDecision)), s, t)
                    else
                      let rateLimits = concat (map (fst \<circ> dimension_rates (lq_EstimatedTokens request)) dims);
                          tokenRateLimits = concat (map (snd \<circ> dimension_rates (lq_EstimatedTokens request)) dims);
                          (rateResult, t) = AcquireRate ho c rateLimits t
                      in case rateResult of
                           Inl err \<Rightarrow> (Inl (ErrCoordinationFailed ''acquire rate''), snd (ReleaseLease zo c (ld_Lease leaseDecision) s), t)
                         | Inr rateDecision \<Rightarrow>
                             if \<not> ra_Granted rateDecision then
                               (Inl (CapacityError (ra_RetryAt rateDecision)), snd (ReleaseLease zo c (ld_Lease leaseDecision) s), t)
                             else
                               (Inr \<lparr>rl_reference = ld_Lease leaseDecision, rl_tokenRateLimits = tokenRateLimits,
                                  rl_estimatedTokens = lq_EstimatedTokens request, rl_rateRefundReference = lr_ID (ld_Lease leaseDecision),
                                  rl_ttl = cn_LeaseTTL config\<rparr>, s, t)))"

subsection \<open>The lease's life\<close>

definition Reconcile :: "'t hops \<Rightarrow> Coordinator \<Rightarrow> renewingLease \<Rightarrow> int \<Rightarrow> 't \<Rightarrow> string option \<times> 't" where
  "Reconcile ho c l actualTokens t =
    (if actualTokens < 0 \<or> actualTokens \<ge> rl_estimatedTokens l then (None, t)
     else
       let refund = rl_estimatedTokens l - actualTokens;
           limits = map (\<lambda>b. b\<lparr>bl_RequestedTokens := refund\<rparr>) (rl_tokenRateLimits l);
           (result, t) = RefundRate ho c (rl_rateRefundReference l) limits t
       in (case result of Inl err \<Rightarrow> Some ''reconcile request tokens'' | Inr d \<Rightarrow> None, t))"

text \<open>
  The goroutine \<open>renew\<close> and \<open>Release\<close> share the channels \<open>done\<close> and \<open>stopped\<close> and the lease's context. Between the
  waits the steps are these: a tick renews and, when that fails, cancels the context and ends; the
  goroutine ends when it sees \<open>done\<close> or the canceled context; \<open>Release\<close> closes \<open>done\<close> and cancels once, and gives
  the lease back when it has seen \<open>stopped\<close>.
\<close>

record lease_run =
  lu_done :: bool
  lu_canceled :: bool
  lu_stopped :: bool

definition renew_tick :: "'s zops \<Rightarrow> Coordinator \<Rightarrow> renewingLease \<Rightarrow> lease_run \<Rightarrow> 's \<Rightarrow> lease_run \<times> 's" where
  "renew_tick zo c l u s =
    (case RenewLease zo c (rl_reference l) (rl_ttl l) s of
       (Inl err, s) \<Rightarrow> (u\<lparr>lu_canceled := True, lu_stopped := True\<rparr>, s)
     | (Inr expiresAt, s) \<Rightarrow> (u, s))"

definition renew_stop :: "lease_run \<Rightarrow> lease_run" where
  "renew_stop u = (if lu_done u \<or> lu_canceled u then u\<lparr>lu_stopped := True\<rparr> else u)"

definition release_start :: "lease_run \<Rightarrow> lease_run" where
  "release_start u = (if lu_done u then u else u\<lparr>lu_done := True, lu_canceled := True\<rparr>)"

definition release_finish :: "'s zops \<Rightarrow> Coordinator \<Rightarrow> renewingLease \<Rightarrow> lease_run \<Rightarrow> 's \<Rightarrow> string option \<times> 's" where
  "release_finish zo c l u s =
    (if lu_stopped u then
       (case ReleaseLease zo c (rl_reference l) s of (Some err, s) \<Rightarrow> (Some ''release request capacity'', s) | (None, s) \<Rightarrow> (None, s))
     else (Some ''context done'', s))"

subsection \<open>Inspection\<close>

definition inspectCapacity :: "'s zops \<Rightarrow> 't hops \<Rightarrow> Coordinator \<Rightarrow> Dimension \<Rightarrow> Capacity \<Rightarrow> 's \<Rightarrow> 't \<Rightarrow> (flow_error + CapacityObservation) \<times> 's \<times> 't" where
  "inspectCapacity zo ho c dimension capacity s t =
    (let rateLimits = [minuteBucket dimension MetricRequests (cy_RequestsPerMinute capacity) 1, minuteBucket dimension MetricTokens (cy_TokensPerMinute capacity) 1] @
           (if cy_DailyTokens capacity > 0 then [dailyTokenBucket dimension (cy_DailyTokens capacity) (cy_DailyResetMinuteUTC capacity) 1] else []);
         (rates, t) = InspectRate ho c rateLimits t
     in case rates of
          Inl err \<Rightarrow> (Inl (ErrCoordinationFailed ''inspect gateway rates''), s, t)
        | Inr observation \<Rightarrow>
            let (leases, s) = CleanupExpiredLeases zo c [\<lparr>cl_Dimension = dimension, cl_MaxInFlight = cy_Concurrency capacity\<rparr>] s
            in case leases of
                 Inl err \<Rightarrow> (Inl (ErrCoordinationFailed ''inspect gateway concurrency''), s, t)
               | Inr cleanup \<Rightarrow>
                   if length (ro_Buckets observation) \<noteq> length rateLimits \<or> length (cr_InUse cleanup) \<noteq> 1 then
                     (Inl (ErrCoordinationFailed ''inspect gateway capacity returned incomplete state''), s, t)
                   else
                     let result = \<lparr>ob_ObservedAt = ro_ObservedAt observation, ob_RequestsPerMinuteLimit = cy_RequestsPerMinute capacity,
                           ob_RequestsPerMinuteRemain = bs_RemainingTokens (ro_Buckets observation ! 0), ob_TokensPerMinuteLimit = cy_TokensPerMinute capacity,
                           ob_TokensPerMinuteRemain = bs_RemainingTokens (ro_Buckets observation ! 1), ob_DailyTokenLimit = 0, ob_DailyTokenRemain = 0,
                           ob_DailyTokenResetAt = None, ob_ConcurrencyLimit = cy_Concurrency capacity, ob_ConcurrencyInUse = cs_InUse (cr_InUse cleanup ! 0)\<rparr>
                     in (Inr (if cy_DailyTokens capacity > 0 then
                                result\<lparr>ob_DailyTokenLimit := cy_DailyTokens capacity, ob_DailyTokenRemain := bs_RemainingTokens (ro_Buckets observation ! 2),
                                  ob_DailyTokenResetAt := Some (nextDailyReset (ro_ObservedAt observation) (cy_DailyResetMinuteUTC capacity))\<rparr>
                              else result), s, t))"

definition InspectCredential :: "'s zops \<Rightarrow> 't hops \<Rightarrow> Coordinator \<Rightarrow> CoordinationConfig \<Rightarrow> CredentialCapacityInput \<Rightarrow> 's \<Rightarrow> 't \<Rightarrow> (flow_error + CredentialCapacity) \<times> 's \<times> 't" where
  "InspectCredential zo ho c config input s t =
    (if ki_CredentialID input = uuid_nil then (Inl (ErrCoordinationFailed ''credential id is required''), s, t)
     else
       let capacity = effectiveCredentialCapacity config (ki_RPMLimit input) (ki_TPMLimit input) (ki_ConcurrencyLimit input);
           (r, s, t) = inspectCapacity zo ho c \<lparr>dm_Scope = ScopeCredential, dm_SubjectID = ki_CredentialID input\<rparr> capacity s t
       in case r of
            Inl err \<Rightarrow> (Inl err, s, t)
          | Inr local \<Rightarrow>
              (case sharedUpstreamCapacity (ki_ProviderID input) (ki_SharedCapacityScope input) (ki_SharedRPMLimit input) (ki_SharedTPMLimit input)
                   (ki_SharedConcurrencyLimit input) (ki_SharedDailyTokenLimit input) (ki_SharedDailyResetMinuteUTC input) of
                 Inl err \<Rightarrow> (Inl (ErrCoordinationFailed ''inspect shared upstream capacity''), s, t)
               | Inr None \<Rightarrow> (Inr \<lparr>kc_Local = local, kc_Shared = None\<rparr>, s, t)
               | Inr (Some (sharedDimension, sharedCapacity)) \<Rightarrow>
                   (case inspectCapacity zo ho c sharedDimension sharedCapacity s t of
                      (Inl err, s, t) \<Rightarrow> (Inl err, s, t)
                    | (Inr shared, s, t) \<Rightarrow> (Inr \<lparr>kc_Local = local, kc_Shared = Some shared\<rparr>, s, t))))"

subsection \<open>Admission across instances\<close>

definition NewAdmissionAdapter :: "bool \<Rightarrow> bool \<Rightarrow> AdmissionCoordinationConfig \<Rightarrow> string option" where
  [validators]: "NewAdmissionAdapter has_gate has_coordinator config =
    (if \<not> has_gate \<or> \<not> has_coordinator \<or> an_MaxActive config < 1 \<or> an_MaxQueueWait config \<le> 0 \<or> an_RetryInterval config < 10 * ms \<or>
       an_RetryInterval config > second \<or> an_LeaseTTL config < 3 * second \<or> an_LeaseTTL config > hour
     then Some ''admission coordination configuration is invalid'' else None)"

text \<open>How a wait on the gate can end: with a local permit, with a context error, with the queue's timeout, or with another error of the queue.\<close>

datatype gate_outcome = GotPermit | ContextEnded | QueueTimeout | QueueError admission_error

definition admissionGateError :: "gate_outcome \<Rightarrow> flow_error" where
  "admissionGateError outcome = (case outcome of
     ContextEnded \<Rightarrow> ErrAdmissionCanceled ''''
   | QueueTimeout \<Rightarrow> ErrAdmissionTimedOut ''''
   | QueueError (AdmissionError kind m ticket) \<Rightarrow> (if kind = ErrorQueueFull then ErrAdmissionQueueFull '''' else ErrCoordinationFailed '''')
   | GotPermit \<Rightarrow> ErrCoordinationFailed '''')"

text \<open>
  One round of the loop of \<open>AdmissionAdapter.Acquire\<close> sees: the outcome of the gate; whether by then the wait's deadline has passed while the
  caller's context lives; and, after a denial, how the wait for the timer ended (\<open>None\<close> when the timer fired,
  otherwise whether it was the deadline with the caller's context alive). The store is the one the round finds.
\<close>

record 's admission_round =
  ar_gate :: gate_outcome
  ar_deadline :: bool
  ar_wait :: "bool option"
  ar_others :: "'s \<Rightarrow> 's"

text \<open>
  The loop over the rounds, with the number of local permits taken and not given back; \<open>None\<close> is a caller that still waits
  when the rounds end. A granted caller holds its local permit and the shared lease.
\<close>

fun admission_loop ::
  "'s zops \<Rightarrow> Coordinator \<Rightarrow> AdmissionCoordinationConfig \<Rightarrow> string \<Rightarrow> 's admission_round list \<Rightarrow> nat \<Rightarrow> 's \<Rightarrow> (flow_error + LeaseRef) option \<times> nat \<times> 's" where
  "admission_loop zo c config requestID [] permits s = (None, permits, s)"
| "admission_loop zo c config requestID (r # rs) permits s =
    (let s = ar_others r s in
     if ar_gate r \<noteq> GotPermit then
       (Some (Inl (if ar_deadline r then ErrAdmissionTimedOut ''shared admission wait timed out'' else admissionGateError (ar_gate r))), permits, s)
     else
       let permits = permits + 1;
           (result, s) = AcquireLease zo c requestID (an_LeaseTTL config) [\<lparr>cl_Dimension = GlobalDimension, cl_MaxInFlight = an_MaxActive config\<rparr>] s
       in case result of
            Inl err \<Rightarrow> (Some (Inl (ErrCoordinationFailed ''acquire shared admission'')), permits - 1, s)
          | Inr decision \<Rightarrow>
              if ld_Granted decision then (Some (Inr (ld_Lease decision)), permits, s)
              else
                let permits = permits - 1
                in case ar_wait r of
                     Some deadline \<Rightarrow>
                       (Some (Inl (if deadline then ErrAdmissionTimedOut ''shared admission wait timed out'' else ErrAdmissionCanceled '''')), permits, s)
                   | None \<Rightarrow> admission_loop zo c config requestID rs permits s)"

definition admission_Acquire ::
  "'s zops \<Rightarrow> Coordinator \<Rightarrow> AdmissionCoordinationConfig \<Rightarrow> uuid \<Rightarrow> uuid \<Rightarrow> 's admission_round list \<Rightarrow> 's \<Rightarrow> (flow_error + LeaseRef) option \<times> nat \<times> 's" where
  "admission_Acquire zo c config requestID userID rounds s =
    (if requestID = uuid_nil \<or> userID = uuid_nil then (Some (Inl (ErrCoordinationFailed ''admission identity is required'')), 0, s)
     else admission_loop zo c config requestID rounds 0 s)"

text \<open>The wait before the next round: the configured interval, or less when the denial says so.\<close>

definition admission_delay :: "AdmissionCoordinationConfig \<Rightarrow> gotime \<Rightarrow> gotime \<Rightarrow> duration" where
  "admission_delay config now retryAt =
    (let untilRetry = time_sub retryAt now
     in if untilRetry > 0 \<and> untilRetry < an_RetryInterval config then untilRetry else an_RetryInterval config)"

text \<open>\<open>sharedAdmissionPermit.Release\<close>: once, the lease and then the local permit.\<close>

definition shared_permit_release :: "'s zops \<Rightarrow> Coordinator \<Rightarrow> LeaseRef \<Rightarrow> bool \<Rightarrow> nat \<Rightarrow> 's \<Rightarrow> bool \<times> nat \<times> 's" where
  "shared_permit_release zo c reference released permits s =
    (if released then (True, permits, s) else (True, permits - 1, snd (ReleaseLease zo c reference s)))"

end
