(* ===== verification/CapacitySafety.thy ===== *)
theory CapacitySafety
  imports CapacityAdapter LeaseSafety RateGuarantees
begin

text \<open>
  What the capacity adapters promise on top of the leases: no capacity stays taken when a request is turned away,
  the admission loop gives back what it took, and the reset time shown for a daily quota is the instant at which the limiter opens the next window.
\<close>

subsection \<open>Leases of a decision\<close>

lemma scan_limits_dimensions:
  "scan_limits c seen limits = Inr keys \<Longrightarrow> scan_dimensions c seen (map cl_Dimension limits) = Inr keys"
proof (induction limits arbitrary: seen keys)
  case (Cons l limits)
  then show ?case by (auto simp: Let_def bindR_Inr_iff split: option.splits if_splits)
qed simp

lemma prepared_reference:
  assumes "prepareLeaseAcquire c leaseID ttl limits = Inr keys"
  shows "prepareLeaseRef c \<lparr>lr_ID = leaseID, lr_Dimensions = map cl_Dimension limits\<rparr> millisecond = Inr keys"
proof -
  have "validateLeaseIDAndTTL leaseID ttl = None" "prepareConcurrencyLimits c limits = Inr keys"
    using assms by (auto simp: prepareLeaseAcquire_def split: option.splits)
  moreover then have "validateLeaseIDAndTTL leaseID millisecond = None" by (simp add: validateLeaseIDAndTTL_def split: if_splits)
  ultimately show ?thesis
    using scan_limits_dimensions [of c "[]" limits keys] by (auto simp: prepareLeaseRef_def prepareConcurrencyLimits_def split: if_splits)
qed

text \<open>A fresh lease is either refused, leaving nothing behind, or granted everywhere; releasing it then leaves nothing behind either.\<close>

lemma fresh_lease:
  assumes store: "zset_store ops z deadline elapse" and pos: "0 < now_ms ops s" and fresh: "\<forall>k. z s k (leaseMember c leaseID) = None"
    and run: "AcquireLease ops c leaseID ttl limits s = (res, s')"
  shows "(\<exists>d. res = Inr d \<and> ld_Granted d \<and> ld_Lease d = \<lparr>lr_ID = leaseID, lr_Dimensions = map cl_Dimension limits\<rparr> \<and>
      (\<forall>l \<in> set limits. z s' (leaseKey c (cl_Dimension l)) (leaseMember c leaseID) = Some (now_ms ops s + ttl div millisecond)) \<and>
      (\<forall>k. z (snd (ReleaseLease ops c (ld_Lease d) s')) k (leaseMember c leaseID) = None)) \<or>
    (\<forall>d. res = Inr d \<longrightarrow> \<not> ld_Granted d) \<and> (\<forall>k. z s' k (leaseMember c leaseID) = None) \<and> now_ms ops s' = now_ms ops s"
proof (cases "prepareLeaseAcquire c leaseID ttl limits")
  case (Inl e)
  then show ?thesis using run fresh by (auto simp: AcquireLease_def)
next
  case (Inr keys)
  let ?n = "now_ms ops s" and ?m = "leaseMember c leaseID"
  have K: "set keys = (\<lambda>l. leaseKey c (cl_Dimension l)) ` set limits" using prepareLeaseAcquire_Inr [OF Inr] by (auto simp: o_def)
  show ?thesis
  proof (cases "\<forall>kl \<in> set (limit_keys c limits). \<not> blocked ?n ?m (z s) kl")
    case True
    obtain d where d: "res = Inr d" "ld_Granted d" "ld_Lease d = \<lparr>lr_ID = leaseID, lr_Dimensions = map cl_Dimension limits\<rparr>"
        "z s' = zadd_all (?n + ttl div millisecond) ?m (set keys) (zlive ?n (set keys) (z s))" and now: "now_ms ops s' = ?n"
      by (rule zset_store.AcquireLease_granted [OF store Inr pos True]) (use run in auto)
    have rel: "z (snd (ReleaseLease ops c (ld_Lease d) s')) = zrem_all ?m (set keys) (zlive (now_ms ops s') (set keys) (z s'))"
      using zset_store.ReleaseLease_result(2) [OF store prepared_reference [OF Inr], of s'] pos now d(3) by simp
    have "z (snd (ReleaseLease ops c (ld_Lease d) s')) k ?m = None" for k
      unfolding rel d(4) using fresh by (auto simp: zrem_all_def zadd_all_def zlive_def live_def)
    then show ?thesis using d K by (auto simp: zadd_all_def)
  next
    case False
    then have full: "\<exists>kl \<in> set (limit_keys c limits). blocked ?n ?m (z s) kl" by blast
    obtain d where "res = Inr d" "\<not> ld_Granted d" "z s' = zlive ?n (set keys) (z s)" "now_ms ops s' = ?n"
      by (rule zset_store.AcquireLease_denied [OF store Inr pos full]) (use run in auto)
    then show ?thesis using fresh by (auto simp: zlive_def live_def)
  qed
qed

subsection \<open>The workflow's capacity\<close>


text \<open>An estimate beyond a per-minute token limit is not reported as exhausted capacity but as a failure of the coordination itself.\<close>

lemma scan_buckets_oversized:
  "l \<in> set ls \<Longrightarrow> bl_RequestedTokens l > bl_CapacityTokens l \<Longrightarrow> \<exists>e. scan_buckets c seen ls = Inl e"
proof (induction ls arbitrary: seen)
  case (Cons b ls)
  show ?case
  proof (cases "l = b")
    case True
    then have "\<exists>e. bucket_arguments b = Inl e" using Cons.prems(2) by (auto simp: bucket_arguments_def Let_def split: option.splits)
    then show ?thesis by auto
  next
    case False
    then obtain e where "scan_buckets c (rateKey c b # seen) ls = Inl e" using Cons by auto
    then show ?thesis by (cases "bucket_arguments b") (auto simp: Let_def)
  qed
qed simp

lemma AcquireRate_oversized: "l \<in> set ls \<Longrightarrow> bl_RequestedTokens l > bl_CapacityTokens l \<Longrightarrow> \<exists>e. AcquireRate ho c ls t = (Inl e, t)"
  using scan_buckets_oversized [of l ls c "[]"] by (auto simp: AcquireRate_def prepareRateLimits_def split: sum.splits)

lemma oversized_estimate_not_capacity:
  assumes "requestDimensions request config (effectiveCredentialCapacity config (lq_RPMLimit request) (lq_TPMLimit request) (lq_Concurrency request)) = Inr dims"
    and "(d, cap) \<in> set dims" "lq_EstimatedTokens request > cy_TokensPerMinute cap"
    and "fst (AcquireLease zo c leaseID (cn_LeaseTTL config) (concurrency_limits dims) s) = Inr decision" "ld_Granted decision" "lq_ExecutionID request \<noteq> uuid_nil"
  shows "fst (adapter_Acquire zo ho c config (Some leaseID) request s t) = Inl (ErrCoordinationFailed ''acquire rate'')"
proof -
  let ?ls = "concat (map (fst \<circ> dimension_rates (lq_EstimatedTokens request)) dims)"
  have "minuteBucket d MetricTokens (cy_TokensPerMinute cap) (lq_EstimatedTokens request) \<in> set ?ls"
    using assms(2) by (force simp: dimension_rates_def Let_def)
  from AcquireRate_oversized [OF this, of ho c t] obtain e where "AcquireRate ho c ?ls t = (Inl e, t)" using assms(3) by (auto simp: minuteBucket_def)
  then show ?thesis using assms(1,4-6) by (auto simp: adapter_Acquire_def Let_def split: prod.splits)
qed

subsection \<open>Daily quotas\<close>

text \<open>
  The reset time reported for a daily token quota is the instant at which the limiter itself opens the next window: for a server time in
  the range of exact arithmetic, nextDailyReset of the observed time is the server time plus the script's time until reset of the quota's bucket.
\<close>

theorem daily_reset_agrees:
  assumes "bucket_arguments (dailyTokenBucket dimension capacity resetMinute requested) = Inr a"
    and "0 \<le> resetMinute" "resetMinute < 1440" "86400000 \<le> now" "now < 1000000000000000"
  shows "nextDailyReset (unix_ms now) resetMinute = unix_ms (now + until_reset now a)"
proof -
  have a: "ba_window a = 86400000" "ba_offset a = resetMinute * 60000"
    using assms(1,2,3) by (auto simp: bucket_arguments_def dailyTokenBucket_def Let_def split: option.splits if_splits)
  define off where "off = resetMinute * 60000"
  have off: "0 \<le> off" "off < 86400000" using assms(2,3) by (auto simp: off_def)
  have idx: "window_index now a = (now - off) div 86400000"
    using floor_fl_div [of "now - off" 86400000] off assms(4,5) a by (simp add: window_index_def off_def)
  define q r where "q = (now - off) div 86400000" and "r = (now - off) mod 86400000"
  have qr: "now = q * 86400000 + r + off" "0 \<le> r" "r < 86400000" unfolding q_def r_def by (simp_all add: div_mult_mod_eq)
  have u: "now + until_reset now a = (q + 1) * 86400000 + off"
    using qr unfolding until_reset_def idx a q_def [symmetric] off_def [symmetric] by simp
  have d: "unix_ms now mod (24 * hour) = (now mod 86400000) * 1000000"
  proof -
    define k m where "k = now div 86400000" and "m = now mod 86400000"
    have km: "now = k * 86400000 + m" "0 \<le> m" "m < 86400000" unfolding k_def m_def by (simp_all add: div_mult_mod_eq)
    have "unix_ms now = m * 1000000 + (719162 + k) * (24 * hour)" unfolding km(1) by simp
    then have "unix_ms now mod (24 * hour) = m * 1000000 mod (24 * hour)" by (simp only: mod_mult_self1)
    also have "\<dots> = m * 1000000" using km(2,3) by (intro mod_pos_pos_trivial) auto
    finally show ?thesis by (simp only: m_def)
  qed
  define M where "M = now mod 86400000"
  have M: "M = (if r + off < 86400000 then r + off else r + off - 86400000)"
  proof -
    have "M = (r + off) mod 86400000" unfolding M_def using qr(1) by (metis add.assoc mod_mult_self3)
    then show ?thesis
      using qr off minus_mod_self2 [of "r + off" 86400000] mod_pos_pos_trivial [of "r + off" 86400000] mod_pos_pos_trivial [of "r + off - 86400000" 86400000] by auto
  qed
  have o: "resetMinute * minute = off * 1000000" by (simp add: off_def)
  have "nextDailyReset (unix_ms now) resetMinute =
      (if off \<le> M then unix_ms now - M * 1000000 + off * 1000000 + 24 * hour else unix_ms now - M * 1000000 + off * 1000000)"
    unfolding nextDailyReset_def Let_def d M_def [symmetric] o by auto
  also have "\<dots> = unix_ms ((q + 1) * 86400000 + off)"
    using M qr off by (auto split: if_splits)
  finally show ?thesis unfolding u .
qed

subsection \<open>Admission across instances\<close>

text \<open>Other callers leave the lease of this request alone.\<close>

definition leaves_alone :: "'s zops \<Rightarrow> ('s \<Rightarrow> zview) \<Rightarrow> string \<Rightarrow> ('s \<Rightarrow> 's) \<Rightarrow> bool" where
  "leaves_alone zo z m f \<longleftrightarrow> (\<forall>s. 0 < now_ms zo s \<and> (\<forall>k. z s k m = None) \<longrightarrow> 0 < now_ms zo (f s) \<and> (\<forall>k. z (f s) k m = None))"

definition admission_outcome_ok :: "'s zops \<Rightarrow> ('s \<Rightarrow> zview) \<Rightarrow> Coordinator \<Rightarrow> string \<Rightarrow> nat \<Rightarrow> (flow_error + LeaseRef) option \<times> nat \<times> 's \<Rightarrow> bool" where
  "admission_outcome_ok zo z c requestID permits r \<longleftrightarrow> (case r of
     (Some (Inr reference), permits', s') \<Rightarrow> permits' = permits + 1 \<and> reference = \<lparr>lr_ID = requestID, lr_Dimensions = [GlobalDimension]\<rparr> \<and>
       (\<exists>v. z s' (leaseKey c GlobalDimension) (leaseMember c requestID) = Some v) \<and>
       (\<forall>k. z (snd (ReleaseLease zo c reference s')) k (leaseMember c requestID) = None)
   | (_, permits', s') \<Rightarrow> permits' = permits \<and> (\<forall>k. z s' k (leaseMember c requestID) = None))"

lemma admission_loop_ok:
  assumes "zset_store zo z deadline elapse"
  shows "\<forall>r \<in> set rounds. leaves_alone zo z (leaseMember c requestID) (ar_others r) \<Longrightarrow> 0 < now_ms zo s \<Longrightarrow>
    \<forall>k. z s k (leaseMember c requestID) = None \<Longrightarrow>
    admission_outcome_ok zo z c requestID permits (admission_loop zo c config requestID rounds permits s)"
proof (induction rounds arbitrary: s)
  case (Cons r rounds)
  define s0 where "s0 = ar_others r s"
  have s0: "0 < now_ms zo s0" "\<forall>k. z s0 k (leaseMember c requestID) = None" using Cons.prems by (auto simp: leaves_alone_def s0_def)
  obtain res s1 where run: "AcquireLease zo c requestID (an_LeaseTTL config) [\<lparr>cl_Dimension = GlobalDimension, cl_MaxInFlight = an_MaxActive config\<rparr>] s0 = (res, s1)"
    by fastforce
  show ?case
  proof (cases "ar_gate r = GotPermit")
    case False
    then show ?thesis using s0 by (simp add: admission_outcome_ok_def s0_def)
  next
    case True
    from fresh_lease [OF assms s0 run] show ?thesis
    proof (elim disjE exE conjE)
      fix d assume "res = Inr d" "ld_Granted d" "ld_Lease d = \<lparr>lr_ID = requestID, lr_Dimensions = map cl_Dimension [\<lparr>cl_Dimension = GlobalDimension, cl_MaxInFlight = an_MaxActive config\<rparr>]\<rparr>"
        "\<forall>l \<in> set [\<lparr>cl_Dimension = GlobalDimension, cl_MaxInFlight = an_MaxActive config\<rparr>]. z s1 (leaseKey c (cl_Dimension l)) (leaseMember c requestID) = Some (now_ms zo s0 + an_LeaseTTL config div millisecond)"
        "\<forall>k. z (snd (ReleaseLease zo c (ld_Lease d) s1)) k (leaseMember c requestID) = None"
      then show ?thesis using True run by (simp add: admission_outcome_ok_def s0_def)
    next
      assume n: "\<forall>d. res = Inr d \<longrightarrow> \<not> ld_Granted d" "\<forall>k. z s1 k (leaseMember c requestID) = None" "now_ms zo s1 = now_ms zo s0"
      have "admission_outcome_ok zo z c requestID permits (admission_loop zo c config requestID rounds permits s1)"
        using Cons.IH [of s1] Cons.prems(1) n s0 by simp
      then show ?thesis using True run n by (auto simp: admission_outcome_ok_def s0_def split: sum.splits option.splits)
    qed
  qed
qed (simp add: admission_outcome_ok_def)


subsection \<open>Witnesses\<close>

definition sample_capacity :: Capacity where
  "sample_capacity = \<lparr>cy_RequestsPerMinute = 10, cy_TokensPerMinute = 100, cy_DailyTokens = 0, cy_DailyResetMinuteUTC = 0, cy_Concurrency = 2\<rparr>"

definition sample_config :: CoordinationConfig where
  "sample_config = \<lparr>cn_Global = sample_capacity, cn_ResourcePool = sample_capacity, cn_Model = sample_capacity, cn_Provider = sample_capacity,
     cn_DefaultCredential = sample_capacity, cn_LeaseTTL = 5 * second\<rparr>"

definition sample_request :: LeaseRequest where
  "sample_request = \<lparr>lq_RequestID = ''q'', lq_ExecutionID = ''x'', lq_ModelID = ''m'', lq_ProviderID = ''p'', lq_CredentialID = ''k'', lq_ResourcePoolID = ''r'',
     lq_EstimatedTokens = 500, lq_RPMLimit = None, lq_TPMLimit = None, lq_Concurrency = None, lq_SharedCapacityScope = None, lq_SharedRPMLimit = None,
     lq_SharedTPMLimit = None, lq_SharedConcurrency = None, lq_SharedDailyTokenLimit = None, lq_SharedDailyResetMinuteUTC = None\<rparr>"


theorem daily_reset_agrees_witness:
  "nextDailyReset (unix_ms 1700000000000) 90 = unix_ms (1700000000000 + until_reset 1700000000000
     \<lparr>ba_capacity = 1000, ba_refill = 0, ba_interval = 0, ba_requested = 1, ba_idle_ttl = 0, ba_window = 86400000, ba_offset = 5400000\<rparr>)"
  by (rule daily_reset_agrees [of GlobalDimension 1000 90 1])
    (simp_all add: bucket_arguments_def dailyTokenBucket_def GlobalDimension_def validateDimension_def Let_def)

definition sample_round :: "zstore admission_round" where
  "sample_round = \<lparr>ar_gate = GotPermit, ar_deadline = False, ar_wait = None, ar_others = id\<rparr>"


end
