(* ===== verification/FlowMonad.thy ===== *)
theory FlowMonad
  imports Prelude "HOL-Library.State_Monad"
begin

text \<open>
  Stateful code that talks to its environment. A computation runs on a pair of the state of the environment (any
  type) and the log of the effects so far; \<open>ask\<close> makes one call, which reads and changes the state of the environment and appends
  to the log. \<open>always m Q l\<close> says that the computation \<open>m\<close>, started with the log \<open>l\<close> in any state of the environment,
  ends with a result and a log that satisfy \<open>Q\<close>; its rules follow the structure of the computation.
\<close>

named_theorems flow_intro \<open>rules for always, one per construct\<close>

type_synonym ('w, 'e, 'a) flow = "('w \<times> 'e list, 'a) state"

abbreviation ret :: "'a \<Rightarrow> ('w, 'e, 'a) flow" where
  "ret \<equiv> State_Monad.return"

definition ask :: "('w \<Rightarrow> 'a \<times> 'w) \<Rightarrow> ('a \<Rightarrow> 'e list) \<Rightarrow> ('w, 'e, 'a) flow" where
  "ask query effects = State (\<lambda>(w, l). case query w of (r, w') \<Rightarrow> (r, (w', l @ effects r)))"

definition note_effect :: "'e \<Rightarrow> ('w, 'e, unit) flow" where
  "note_effect e = State (\<lambda>(w, l). ((), (w, l @ [e])))"

definition always :: "('w, 'e, 'a) flow \<Rightarrow> ('a \<Rightarrow> 'e list \<Rightarrow> bool) \<Rightarrow> 'e list \<Rightarrow> bool" where
  "always m Q l = (\<forall>w. case run_state m (w, l) of (a, w', l') \<Rightarrow> Q a l')"

lemma always_return [flow_intro]: "Q a l \<Longrightarrow> always (ret a) Q l"
  by (simp add: always_def)

lemma always_bind [flow_intro]: "always m (\<lambda>a. always (f a) Q) l \<Longrightarrow> always (State_Monad.bind m f) Q l"
  unfolding always_def by (fastforce split: prod.splits)

lemma always_ask [flow_intro]: "(\<And>w r w'. query w = (r, w') \<Longrightarrow> Q r (l @ effects r)) \<Longrightarrow> always (ask query effects) Q l"
  by (simp add: always_def ask_def split: prod.splits)

lemma always_note [flow_intro]: "Q () (l @ [e]) \<Longrightarrow> always (note_effect e) Q l"
  by (simp add: always_def note_effect_def)

lemma always_if [flow_intro]: "(b \<Longrightarrow> always m Q l) \<Longrightarrow> (\<not> b \<Longrightarrow> always n Q l) \<Longrightarrow> always (if b then m else n) Q l"
  by simp

lemma always_sum [flow_intro]:
  "(\<And>e. r = Inl e \<Longrightarrow> always (f e) Q l) \<Longrightarrow> (\<And>x. r = Inr x \<Longrightarrow> always (g x) Q l) \<Longrightarrow> always (case r of Inl e \<Rightarrow> f e | Inr x \<Rightarrow> g x) Q l"
  by (cases r) auto

lemma always_option [flow_intro]:
  "(r = None \<Longrightarrow> always m Q l) \<Longrightarrow> (\<And>x. r = Some x \<Longrightarrow> always (f x) Q l) \<Longrightarrow> always (case r of None \<Rightarrow> m | Some x \<Rightarrow> f x) Q l"
  by (cases r) auto

lemma always_pair [flow_intro]:
  "(\<And>x y. p = (x, y) \<Longrightarrow> always (f x y) Q l) \<Longrightarrow> always (case p of (x, y) \<Rightarrow> f x y) Q l"
  by (cases p) auto

lemma always_let [flow_intro]: "always (f x) Q l \<Longrightarrow> always (let y = x in f y) Q l"
  by simp

lemma always_mono: "always m P l \<Longrightarrow> (\<And>a l'. P a l' \<Longrightarrow> Q a l') \<Longrightarrow> always m Q l"
  unfolding always_def by (fastforce split: prod.splits)

lemma always_conj: "always m P l \<Longrightarrow> always m Q l \<Longrightarrow> always m (\<lambda>a l'. P a l' \<and> Q a l') l"
  unfolding always_def by (fastforce split: prod.splits)

lemma always_run: "always m Q l \<Longrightarrow> run_state m (w, l) = (a, w', l') \<Longrightarrow> Q a l'"
  unfolding always_def by (metis case_prod_conv)

end
