(* ===== verification/FlowTypes.thy ===== *)
theory FlowTypes
  imports CapacityAdapter Resilience FlowMonad
begin

text \<open>
  The types of the request workflow (\<open>internal/requestflow/types.go\<close>, \<open>internal/execution/types.go\<close>), and its environment. The interfaces
  the service is given (repository, accounting, admitter, coordinator, adapter factory, HTTP client, sinks, clock, random
  sources) are the fields of \<open>env\<close>: each is a function of the state of the environment, of any type, so that an answer
  may depend on all that happened before. Every call that changes something outside the service is an entry of the log. The body of
  an HTTP response is the finite list of the pieces in which it arrives.
\<close>

subsection \<open>types.go, execution/types.go\<close>

record Upstream =
  up_ID :: uuid
  up_RPMLimit :: "int option"
  up_TPMLimit :: "int option"
  up_ConcurrencyLimit :: "int option"
  up_Priority :: int
  up_Weight :: int
  up_SharedCapacityScope :: "string option"
  up_SharedRPMLimit :: "int option"
  up_SharedTPMLimit :: "int option"
  up_SharedConcurrencyLimit :: "int option"
  up_SharedDailyTokenLimit :: "int option"
  up_SharedDailyResetMinuteUTC :: "int option"
  up_ConsecutiveFailures :: int
  up_LastSuccessAt :: "gotime option"
  up_CooldownUntil :: "gotime option"
  up_HealthGeneration :: int

record Usage =
  us_InputTokens :: int
  us_OutputTokens :: int
  us_Source :: UsageSource

datatype CredentialObservationKind = CredentialSucceeded | CredentialFailed

record CredentialObservation =
  co_Kind :: CredentialObservationKind
  co_HealthGeneration :: int
  co_ObservedAt :: gotime
  co_ErrorKind :: string
  co_CooldownUntil :: "gotime option"

record AttemptUpdate =
  au_Status :: string
  au_HTTPStatus :: "int option"
  au_UpstreamRequestID :: "string option"
  au_ErrorKind :: "string option"
  au_RetryAfterAt :: "gotime option"
  au_SentAt :: "gotime option"
  au_FirstByteAt :: "gotime option"
  au_CompletedAt :: "gotime option"
  au_Usage :: "Usage option"
  au_Credential :: "CredentialObservation option"

definition attempt_update :: "string \<Rightarrow> AttemptUpdate" where
  "attempt_update status = \<lparr>au_Status = status, au_HTTPStatus = None, au_UpstreamRequestID = None, au_ErrorKind = None, au_RetryAfterAt = None,
     au_SentAt = None, au_FirstByteAt = None, au_CompletedAt = None, au_Usage = None, au_Credential = None\<rparr>"

record Claim =
  cl_RequestID :: uuid
  cl_ExecutionID :: uuid
  cl_Generation :: int

definition Valid :: "Claim \<Rightarrow> bool" where
  "Valid c = (cl_RequestID c \<noteq> uuid_nil \<and> cl_ExecutionID c \<noteq> uuid_nil \<and> cl_Generation c > 0)"

record RecoverableCompletion =
  rv_Claim :: Claim
  rv_Usage :: Usage

record RecoveryResult =
  rr_Completed :: int
  rr_FailedAccepted :: int
  rr_Uncertain :: int

record Accepted =
  ac_RequestID :: uuid
  ac_ResourcePoolID :: uuid
  ac_Existing :: bool

record AdmissionRequest =
  ar_RequestID :: uuid
  ar_UserID :: uuid

record AcceptCommand =
  am_RequestID :: uuid
  am_UserID :: uuid
  am_GatewayKeyID :: uuid
  am_ModelID :: uuid
  am_IdempotencyKey :: "string option"
  am_RequestDigest :: string
  am_Stream :: bool

text \<open>The principal of a command is given by its two identifiers, a sink by whether it is set.\<close>

record ChatCommand =
  cm_UserID :: uuid
  cm_KeyID :: uuid
  cm_Request :: ChatRequest
  cm_RequestDigest :: string
  cm_IdempotencyKey :: "string option"
  cm_RequestID :: uuid
  cm_AcceptedSink :: bool
  cm_ResultSink :: bool

record ChatResult =
  ct_RequestID :: uuid
  ct_Response :: ChatResponse

record workflowRun =
  wr_command :: ChatCommand
  wr_model :: Model
  wr_request :: ChatRequest
  wr_accepted :: Accepted
  wr_claim :: Claim
  wr_admissionPermit :: bool
  wr_candidates :: "Upstream list"
  wr_estimatedTokens :: int

record FlowConfig =
  fc_MaxResponseBytes :: int
  fc_ExecutionHeartbeatInterval :: duration
  fc_OpenDuration :: duration

definition NewService :: "bool \<Rightarrow> FlowConfig \<Rightarrow> string option" where
  [validators]: "NewService dependencies config =
    (if \<not> dependencies then Some ''request workflow dependencies are required''
     else if fc_MaxResponseBytes config < 1024 then Some ''maximum provider response size must be at least 1024 bytes''
     else if fc_ExecutionHeartbeatInterval config \<le> 0 then Some ''execution heartbeat interval must be positive''
     else if fc_OpenDuration config \<le> 0 then Some ''request workflow circuit configuration is invalid''
     else None)"

text \<open>Errors of an adapter, which may be canonical, and of the HTTP client, which may come from a canceled context.\<close>

datatype adapter_error = CanonicalError CError | PlainError string

datatype call_error = CallCanceled | CallFailed string

datatype read_outcome = MoreToRead | ReadEOF | ReadFailure call_error

type_synonym body = "(string \<times> read_outcome) list"

record HTTPResponse =
  hr_StatusCode :: int
  hr_Header :: "(string \<times> string) list"
  hr_Body :: body

subsection \<open>The environment\<close>

record Resolved =
  rs_RequestID :: uuid
  rs_ResourcePoolID :: uuid
  rs_Replayed :: bool

datatype usage_error = UsageInvalidInput | UsageForbidden | UsageNotFound | UsageConflict | UsageModelNotAuthorized | UsageUnknownError
  | UsageOutcomeUnknown | UsageInvariant | UsageFenced | UsageOther string

text \<open>
  The effects in the log: what was called, with the arguments and the outcome that matter. An entry of the ledger (\<open>Ledger...\<close>) is
  a call of the usage repository.
\<close>

datatype effect =
    AdmissionTaken | AdmissionReleased
  | LedgerAccepted uuid bool | LedgerCompleted uuid Usage "usage_error option" | LedgerFailed uuid string string "usage_error option"
  | LedgerAcceptedFailed uuid string string "usage_error option" | LedgerFailedWithUsage uuid Usage string string "usage_error option"
  | AcceptedSinkCalled uuid "string option"
  | ExecutionClaimed Claim | HeartbeatStarted | HeartbeatStopped
  | HealthPermitAsked uuid bool
  | LeaseTaken uuid uuid | LeaseReconciled uuid int | LeaseReleased uuid
  | AttemptCreated uuid uuid int | AttemptUpdated uuid AttemptUpdate "flow_error option"
  | UpstreamCalled uuid | UpstreamRefused int CError
  | StreamingMarked uuid AttemptUpdate "flow_error option" | UncertainMarked Claim uuid AttemptUpdate "flow_error option"
  | ResultSinkCalled ChatResult "string option" | EventSent uuid StreamEvent "string option"
  | AttemptObserved Kind string string

text \<open>
  Calls of the environment. \<open>ev_Canceled\<close> is \<open>ctx.Err() != nil\<close>; \<open>ev_Wait\<close> is the wait of a timer, which reports whether the
  context ended first; \<open>ev_Intn\<close> and \<open>ev_Jitter\<close> give the next draw of the two random sources. The state of a stream
  parser belongs to the environment.
\<close>

record 'w env =
  ev_Now :: "'w \<Rightarrow> gotime \<times> 'w"
  ev_Canceled :: "'w \<Rightarrow> bool \<times> 'w"
  ev_Wait :: "duration \<Rightarrow> 'w \<Rightarrow> bool \<times> 'w"
  ev_NewUUID :: "'w \<Rightarrow> uuid \<times> 'w"
  ev_Intn :: "'w \<Rightarrow> (int \<Rightarrow> int) \<times> 'w"
  ev_Jitter :: "'w \<Rightarrow> (int \<Rightarrow> int) \<times> 'w"
  ev_ResolveModel :: "uuid \<Rightarrow> string \<Rightarrow> 'w \<Rightarrow> (flow_error + Model) \<times> 'w"
  ev_Admit :: "AdmissionRequest \<Rightarrow> 'w \<Rightarrow> (flow_error + bool) \<times> 'w"
  ev_RepoAccept :: "AcceptCommand \<Rightarrow> 'w \<Rightarrow> (usage_error + Resolved) \<times> 'w"
  ev_RepoComplete :: "uuid \<Rightarrow> Claim \<Rightarrow> Usage \<Rightarrow> 'w \<Rightarrow> usage_error option \<times> 'w"
  ev_RepoFail :: "uuid \<Rightarrow> Claim \<Rightarrow> string \<Rightarrow> string \<Rightarrow> 'w \<Rightarrow> usage_error option \<times> 'w"
  ev_RepoFailAccepted :: "uuid \<Rightarrow> string \<Rightarrow> string \<Rightarrow> 'w \<Rightarrow> usage_error option \<times> 'w"
  ev_RepoFailWithUsage :: "uuid \<Rightarrow> Claim \<Rightarrow> Usage \<Rightarrow> string \<Rightarrow> string \<Rightarrow> 'w \<Rightarrow> usage_error option \<times> 'w"
  ev_ListCandidates :: "uuid \<Rightarrow> uuid \<Rightarrow> 'w \<Rightarrow> (flow_error + Upstream list) \<times> 'w"
  ev_AcceptedSink :: "uuid \<Rightarrow> 'w \<Rightarrow> string option \<times> 'w"
  ev_ClaimExecution :: "uuid \<Rightarrow> uuid \<Rightarrow> 'w \<Rightarrow> (flow_error + Claim) \<times> 'w"
  ev_HealthPermit :: "uuid \<Rightarrow> 'w \<Rightarrow> (flow_error + int) \<times> 'w"
  ev_AcquireLease :: "LeaseRequest \<Rightarrow> 'w \<Rightarrow> (flow_error + uuid) \<times> 'w"
  ev_ReconcileLease :: "uuid \<Rightarrow> int \<Rightarrow> 'w \<Rightarrow> string option \<times> 'w"
  ev_ReleaseLease :: "uuid \<Rightarrow> 'w \<Rightarrow> string option \<times> 'w"
  ev_CreateAttempt :: "Claim \<Rightarrow> uuid \<Rightarrow> int \<Rightarrow> 'w \<Rightarrow> (flow_error + uuid) \<times> 'w"
  ev_UpdateAttempt :: "Claim \<Rightarrow> uuid \<Rightarrow> AttemptUpdate \<Rightarrow> 'w \<Rightarrow> flow_error option \<times> 'w"
  ev_MarkStreaming :: "Claim \<Rightarrow> uuid \<Rightarrow> AttemptUpdate \<Rightarrow> 'w \<Rightarrow> flow_error option \<times> 'w"
  ev_MarkUncertain :: "Claim \<Rightarrow> uuid \<Rightarrow> AttemptUpdate \<Rightarrow> string \<Rightarrow> string \<Rightarrow> 'w \<Rightarrow> flow_error option \<times> 'w"
  ev_Adapter :: "Model \<Rightarrow> 'w \<Rightarrow> string option \<times> 'w"
  ev_Secret :: "uuid \<Rightarrow> 'w \<Rightarrow> (string + string) \<times> 'w"
  ev_BuildRequest :: "string \<Rightarrow> ChatRequest \<Rightarrow> 'w \<Rightarrow> (adapter_error + string) \<times> 'w"
  ev_Client :: "'w \<Rightarrow> string option \<times> 'w"
  ev_Do :: "string \<Rightarrow> 'w \<Rightarrow> (call_error + HTTPResponse) \<times> 'w"
  ev_ClassifyError :: "int \<Rightarrow> (string \<times> string) list \<Rightarrow> string \<Rightarrow> 'w \<Rightarrow> CError \<times> 'w"
  ev_ParseResponse :: "int \<Rightarrow> (string \<times> string) list \<Rightarrow> string \<Rightarrow> 'w \<Rightarrow> (adapter_error + ChatResponse) \<times> 'w"
  ev_Feed :: "string \<Rightarrow> 'w \<Rightarrow> (adapter_error + StreamEvent list) \<times> 'w"
  ev_CloseParser :: "'w \<Rightarrow> (adapter_error + StreamEvent list) \<times> 'w"
  ev_ResultSink :: "ChatResult \<Rightarrow> 'w \<Rightarrow> string option \<times> 'w"
  ev_Sink :: "uuid \<Rightarrow> StreamEvent \<Rightarrow> 'w \<Rightarrow> string option \<times> 'w"
  ev_ListCompletions :: "gotime \<Rightarrow> int \<Rightarrow> 'w \<Rightarrow> (flow_error + RecoverableCompletion list) \<times> 'w"
  ev_ListQueued :: "gotime \<Rightarrow> int \<Rightarrow> 'w \<Rightarrow> (flow_error + uuid list) \<times> 'w"
  ev_RecoverStale :: "gotime \<Rightarrow> int \<Rightarrow> 'w \<Rightarrow> (int \<times> flow_error option) \<times> 'w"

type_synonym ('w, 'a) work = "('w, effect, 'a) flow"

text \<open>A call that leaves no trace in the log.\<close>

abbreviation silent :: "('w \<Rightarrow> 'a \<times> 'w) \<Rightarrow> ('w, 'a) work" where
  "silent query \<equiv> ask query (\<lambda>_. [])"

end
