(* ===== verification/UsageService.thy ===== *)
theory UsageService
  imports FlowTypes
begin

text \<open>
  The accounting of a request: \<open>internal/usage/service.go\<close>, which checks its input and calls the usage repository, and
  \<open>internal/requestflow/usage_adapter.go\<close>, through which the workflow uses it. Strings are byte strings; the two library functions that look at
  runes, \<open>strings.TrimSpace\<close> and \<open>utf8.RuneCountInString\<close>, are written on the bytes.
\<close>

subsection \<open>Runes\<close>

definition byte_in :: "nat \<Rightarrow> nat \<Rightarrow> char \<Rightarrow> bool" where
  "byte_in lo hi c = (lo \<le> of_char c \<and> of_char c \<le> hi)"

text \<open>The length of the first rune; a byte that starts no valid encoding is a rune of its own.\<close>

definition rune_len :: "string \<Rightarrow> nat" where
  "rune_len s = (case s of
     a # b # c # d # _ \<Rightarrow>
       if byte_in 194 223 a \<and> byte_in 128 191 b then 2
       else if (byte_in 224 224 a \<and> byte_in 160 191 b \<or> (byte_in 225 236 a \<or> byte_in 238 239 a) \<and> byte_in 128 191 b \<or> byte_in 237 237 a \<and> byte_in 128 159 b)
         \<and> byte_in 128 191 c then 3
       else if (byte_in 240 240 a \<and> byte_in 144 191 b \<or> byte_in 241 243 a \<and> byte_in 128 191 b \<or> byte_in 244 244 a \<and> byte_in 128 143 b)
         \<and> byte_in 128 191 c \<and> byte_in 128 191 d then 4
       else 1
   | [a, b, c] \<Rightarrow>
       if byte_in 194 223 a \<and> byte_in 128 191 b then 2
       else if (byte_in 224 224 a \<and> byte_in 160 191 b \<or> (byte_in 225 236 a \<or> byte_in 238 239 a) \<and> byte_in 128 191 b \<or> byte_in 237 237 a \<and> byte_in 128 159 b)
         \<and> byte_in 128 191 c then 3
       else 1
   | [a, b] \<Rightarrow> if byte_in 194 223 a \<and> byte_in 128 191 b then 2 else 1
   | _ \<Rightarrow> 1)"

lemma rune_len_pos: "0 < rune_len s"
  unfolding rune_len_def by (auto split: list.splits)

function RuneCountInString :: "string \<Rightarrow> nat" where
  "RuneCountInString s = (if s = [] then 0 else Suc (RuneCountInString (drop (rune_len s) s)))"
  by auto
termination
  by (relation "measure length") (auto simp: rune_len_pos)

declare RuneCountInString.simps [simp del]

text \<open>The encodings of the runes for which \<open>unicode.IsSpace\<close> holds.\<close>

definition space_encodings :: "string list" where
  "space_encodings = map (map char_of) ([[9], [10], [11], [12], [13], [32], [194, 133], [194, 160], [225, 154, 128]] @
     map (\<lambda>k. [226, 128, k]) [128 ..< 139] @ [[226, 128, 168], [226, 128, 169], [226, 128, 175], [226, 129, 159], [227, 128, 128::nat]])"

fun drop_one :: "string list \<Rightarrow> string \<Rightarrow> string option" where
  "drop_one [] s = None"
| "drop_one (e # es) s = (if take (length e) s = e \<and> e \<noteq> [] then Some (drop (length e) s) else drop_one es s)"

lemma drop_one_shorter: "drop_one es s = Some t \<Longrightarrow> length t < length s"
  by (induction es; cases s) (auto split: if_splits)

function trim_left :: "string list \<Rightarrow> string \<Rightarrow> string" where
  "trim_left es s = (case drop_one es s of None \<Rightarrow> s | Some t \<Rightarrow> trim_left es t)"
  by auto
termination
  by (relation "measure (\<lambda>(es, s). length s)") (auto dest: drop_one_shorter)

declare trim_left.simps [simp del]

definition TrimSpace :: "string \<Rightarrow> string" where
  "TrimSpace s = rev (trim_left (map rev space_encodings) (rev (trim_left space_encodings s)))"

subsection \<open>usage/service.go\<close>

definition validKnownUsage :: "Usage \<Rightarrow> bool" where
  "validKnownUsage u = (us_InputTokens u \<ge> 0 \<and> us_OutputTokens u \<ge> 0 \<and> us_InputTokens u \<le> max_int64 - us_OutputTokens u \<and>
     (us_Source u = UsageAuthoritative \<or> us_Source u = UsageEstimated))"

definition normalizeFailure :: "string \<Rightarrow> string \<Rightarrow> string \<times> string" where
  "normalizeFailure kind detail =
    (let kind = TrimSpace kind; detail = TrimSpace detail in
     if RuneCountInString kind > 100 \<or> RuneCountInString detail > 2000 then ('''', '''') else (kind, detail))"

definition usage_AcceptRequest :: "'w env \<Rightarrow> AcceptCommand \<Rightarrow> ('w, usage_error + Resolved) work" where
  "usage_AcceptRequest env command =
    (if am_RequestID command = uuid_nil \<or> am_UserID command = uuid_nil \<or> am_GatewayKeyID command = uuid_nil \<or> am_ModelID command = uuid_nil \<or>
        length (am_RequestDigest command) \<noteq> 32 then ret (Inl UsageInvalidInput)
     else
       let store = (\<lambda>command. ask (ev_RepoAccept env command) (\<lambda>r. case r of Inl _ \<Rightarrow> [] | Inr a \<Rightarrow> [LedgerAccepted (rs_RequestID a) (rs_Replayed a)])) in
       case am_IdempotencyKey command of
         None \<Rightarrow> store command
       | Some key \<Rightarrow>
           let value = TrimSpace key in
           if value = '''' \<or> RuneCountInString value > 200 then ret (Inl UsageInvalidInput)
           else store (command\<lparr>am_IdempotencyKey := Some value\<rparr>))"

definition usage_Complete :: "'w env \<Rightarrow> uuid \<Rightarrow> Claim \<Rightarrow> Usage \<Rightarrow> ('w, usage_error option) work" where
  "usage_Complete env requestID claim u =
    (if us_Source u = UsageUnknown \<and> us_InputTokens u = 0 \<and> us_OutputTokens u = 0 then ret (Some UsageUnknownError)
     else if requestID = uuid_nil \<or> cl_RequestID claim \<noteq> requestID \<or> \<not> Valid claim \<or> \<not> validKnownUsage u then ret (Some UsageInvalidInput)
     else ask (ev_RepoComplete env requestID claim u) (\<lambda>r. [LedgerCompleted requestID u r]))"

definition usage_Fail :: "'w env \<Rightarrow> uuid \<Rightarrow> Claim \<Rightarrow> string \<Rightarrow> string \<Rightarrow> ('w, usage_error option) work" where
  "usage_Fail env requestID claim kind0 detail0 =
    (case normalizeFailure kind0 detail0 of (kind, detail) \<Rightarrow>
     if requestID = uuid_nil \<or> cl_RequestID claim \<noteq> requestID \<or> \<not> Valid claim \<or> kind = '''' then ret (Some UsageInvalidInput)
     else ask (ev_RepoFail env requestID claim kind detail) (\<lambda>r. [LedgerFailed requestID kind detail r]))"

definition usage_FailAccepted :: "'w env \<Rightarrow> uuid \<Rightarrow> string \<Rightarrow> string \<Rightarrow> ('w, usage_error option) work" where
  "usage_FailAccepted env requestID kind0 detail0 =
    (case normalizeFailure kind0 detail0 of (kind, detail) \<Rightarrow>
     if requestID = uuid_nil \<or> kind = '''' then ret (Some UsageInvalidInput)
     else ask (ev_RepoFailAccepted env requestID kind detail) (\<lambda>r. [LedgerAcceptedFailed requestID kind detail r]))"

definition usage_FailWithUsage :: "'w env \<Rightarrow> uuid \<Rightarrow> Claim \<Rightarrow> Usage \<Rightarrow> string \<Rightarrow> string \<Rightarrow> ('w, usage_error option) work" where
  "usage_FailWithUsage env requestID claim u kind0 detail0 =
    (case normalizeFailure kind0 detail0 of (kind, detail) \<Rightarrow>
     if us_Source u = UsageUnknown \<and> us_InputTokens u = 0 \<and> us_OutputTokens u = 0 then ret (Some UsageUnknownError)
     else if requestID = uuid_nil \<or> cl_RequestID claim \<noteq> requestID \<or> \<not> Valid claim \<or> kind = '''' \<or> \<not> validKnownUsage u then ret (Some UsageInvalidInput)
     else ask (ev_RepoFailWithUsage env requestID claim u kind detail) (\<lambda>r. [LedgerFailedWithUsage requestID u kind detail r]))"

subsection \<open>requestflow/usage\_adapter.go\<close>

definition accountingError :: "usage_error \<Rightarrow> flow_error" where
  "accountingError err = (case err of
     UsageModelNotAuthorized \<Rightarrow> ErrModelNotAuthorized
   | UsageConflict \<Rightarrow> ErrIdempotencyConflict
   | UsageInvalidInput \<Rightarrow> ErrInvalidAccounting
   | UsageUnknownError \<Rightarrow> ErrInvalidAccounting
   | UsageFenced \<Rightarrow> ErrFenced
   | UsageForbidden \<Rightarrow> OtherError ''usage operation forbidden''
   | UsageNotFound \<Rightarrow> OtherError ''usage record not found''
   | UsageOutcomeUnknown \<Rightarrow> OtherError ''usage operation outcome is unknown''
   | UsageInvariant \<Rightarrow> OtherError ''usage invariant violated''
   | UsageOther e \<Rightarrow> OtherError e)"

definition accounting_AcceptRequest :: "'w env \<Rightarrow> AcceptCommand \<Rightarrow> ('w, flow_error + Accepted) work" where
  "accounting_AcceptRequest env command = do {
     r \<leftarrow> usage_AcceptRequest env command;
     ret (case r of
        Inl e \<Rightarrow> Inl (accountingError e)
      | Inr a \<Rightarrow> Inr \<lparr>ac_RequestID = rs_RequestID a, ac_ResourcePoolID = rs_ResourcePoolID a, ac_Existing = rs_Replayed a\<rparr>)
   }"

definition accounting_Complete :: "'w env \<Rightarrow> Claim \<Rightarrow> Usage \<Rightarrow> ('w, flow_error option) work" where
  "accounting_Complete env claim u = do { r \<leftarrow> usage_Complete env (cl_RequestID claim) claim u; ret (map_option accountingError r) }"

definition accounting_Fail :: "'w env \<Rightarrow> Claim \<Rightarrow> string \<Rightarrow> string \<Rightarrow> ('w, flow_error option) work" where
  "accounting_Fail env claim kind detail = do { r \<leftarrow> usage_Fail env (cl_RequestID claim) claim kind detail; ret (map_option accountingError r) }"

definition accounting_FailAccepted :: "'w env \<Rightarrow> uuid \<Rightarrow> string \<Rightarrow> string \<Rightarrow> ('w, flow_error option) work" where
  "accounting_FailAccepted env requestID kind detail = do { r \<leftarrow> usage_FailAccepted env requestID kind detail; ret (map_option accountingError r) }"

definition accounting_FailWithUsage :: "'w env \<Rightarrow> Claim \<Rightarrow> Usage \<Rightarrow> string \<Rightarrow> ('w, flow_error option) work" where
  "accounting_FailWithUsage env claim u detail = do {
     r \<leftarrow> usage_FailWithUsage env (cl_RequestID claim) claim u (kind_string ErrorUncertain) detail;
     ret (map_option accountingError r) }"

end
