(* ===== verification/Database.thy ===== *)
theory Database
  imports UsageService "HOL-Library.Product_Lexorder" "HOL-Library.List_Lexorder" "HOL-Library.Char_ord"
begin

text \<open>
  The tables of the request ledger and the SQL statements on them (\<open>internal/store/db\<close>, the schema of \<open>migrations/00001\_baseline.sql\<close>). A table is the
  list of its rows; of the tables that the request statements only read, the columns they read are kept. A statement is a function of the
  transaction's \<open>now()\<close>, its parameters and the database; it returns its rows or an error, with the database after it. A nullable column is an
  option and equality with it is \<open>sql_eq\<close>, which is not true for \<open>NULL\<close>. A UUID is its text, whose lexicographic order is that of its bytes. The
  constraints of a table are checked by the statements that could break them, in the order in which PostgreSQL reports them.
\<close>

subsection \<open>models.go\<close>

datatype RequestStatus = RqQueued | RqDispatching | RqStreaming | RqCompleted | RqFailed | RqCanceled | RqUncertain

datatype AttemptStatus = AtCreated | AtSending | AtStreaming | AtCompleted | AtFailed | AtUncertain

datatype CredentialStatus = CredentialActive | CredentialDisabled | CredentialRetired

datatype CredentialHealthStatus = HealthHealthy | HealthCooling | HealthProbing | HealthRepairRequired

datatype UserRole = RoleAdministrator | RoleMember

datatype UserStatus = UserActive | UserDisabled | UserDeleted

datatype ResourcePoolStatus = PoolActive | PoolDisabled | PoolRetired

datatype SubscriptionStatus = SubScheduled | SubActive | SubSuspended | SubCanceled | SubExpired

record request_row =
  q_ID :: uuid
  q_IdempotencyKey :: "string option"
  q_RequestDigest :: string
  q_UserID :: uuid
  q_GatewayKeyID :: uuid
  q_ModelID :: uuid
  q_SubscriptionID :: "uuid option"
  q_ResourcePoolID :: uuid
  q_Status :: RequestStatus
  q_Stream :: bool
  q_ExecutionID :: "uuid option"
  q_ExecutionGeneration :: int
  q_ExecutionClaimedAt :: "gotime option"
  q_ExecutionHeartbeatAt :: "gotime option"
  q_InputTokens :: "int option"
  q_OutputTokens :: "int option"
  q_UsageSource :: UsageSource
  q_ErrorKind :: "string option"
  q_ErrorDetail :: "string option"
  q_AcceptedAt :: gotime
  q_CompletedAt :: "gotime option"
  q_UpdatedAt :: gotime

record attempt_row =
  atm_ID :: uuid
  atm_RequestID :: uuid
  atm_ExecutionID :: uuid
  atm_ExecutionGeneration :: int
  atm_CredentialID :: uuid
  atm_Sequence :: int
  atm_Status :: AttemptStatus
  atm_UpstreamRequestID :: "string option"
  atm_HttpStatus :: "int option"
  atm_ErrorKind :: "string option"
  atm_RetryAfterAt :: "gotime option"
  atm_SentAt :: "gotime option"
  atm_FirstByteAt :: "gotime option"
  atm_CompletedAt :: "gotime option"
  atm_InputTokens :: "int option"
  atm_OutputTokens :: "int option"
  atm_UsageSource :: UsageSource
  atm_CreatedAt :: gotime

record credential_row =
  pc_ID :: uuid
  pc_ResourcePoolID :: uuid
  pc_Status :: CredentialStatus
  pc_HealthStatus :: CredentialHealthStatus
  pc_HealthGeneration :: int
  pc_RpmLimit :: "int option"
  pc_TpmLimit :: "int option"
  pc_ConcurrencyLimit :: "int option"
  pc_Priority :: int
  pc_Weight :: int
  pc_SharedCapacityScopeID :: "uuid option"
  pc_CooldownUntil :: "gotime option"
  pc_ConsecutiveFailures :: int
  pc_LastSuccessAt :: "gotime option"
  pc_LastErrorKind :: "string option"
  pc_UpdatedAt :: gotime

record scope_row =
  sc_ID :: uuid
  sc_Name :: string
  sc_RpmLimit :: int
  sc_TpmLimit :: int
  sc_ConcurrencyLimit :: int
  sc_DailyTokenLimit :: "int option"
  sc_DailyResetMinuteUtc :: "int option"

record user_row =
  u_ID :: uuid
  u_Role :: UserRole
  u_Status :: UserStatus

record key_row =
  gk_ID :: uuid
  gk_UserID :: uuid
  gk_ExpiresAt :: "gotime option"
  gk_DeletedAt :: "gotime option"

record key_model_row =
  gm_GatewayKeyID :: uuid
  gm_ModelID :: uuid
  gm_ResourcePoolID :: uuid

record provider_row =
  pv_ID :: uuid
  pv_Slug :: string
  pv_Kind :: Kind
  pv_BaseUrl :: string

text \<open>The JSON document of the capabilities is kept as what \<open>decodeCapabilities\<close> makes of it: an error or the contract.\<close>

record model_row =
  ml_ID :: uuid
  ml_ProviderID :: uuid
  ml_PublicName :: string
  ml_UpstreamName :: string
  ml_Capabilities :: "string + ModelCapabilities"
  ml_CreatedAt :: gotime

record subscription_row =
  sb_ID :: uuid
  sb_UserID :: uuid
  sb_ServicePlanVersionID :: uuid
  sb_Status :: SubscriptionStatus
  sb_StartsAt :: gotime
  sb_ExpiresAt :: "gotime option"
  sb_CreatedAt :: gotime

record plan_route_row =
  pr_ServicePlanVersionID :: uuid
  pr_ModelID :: uuid
  pr_ResourcePoolID :: uuid

record pg =
  pg_requests :: "request_row list"
  pg_attempts :: "attempt_row list"
  pg_credentials :: "credential_row list"
  pg_bindings :: "(uuid \<times> uuid) list"
  pg_scopes :: "scope_row list"
  pg_pools :: "(uuid \<times> ResourcePoolStatus) list"
  pg_users :: "user_row list"
  pg_keys :: "key_row list"
  pg_key_models :: "key_model_row list"
  pg_providers :: "provider_row list"
  pg_models :: "model_row list"
  pg_subscriptions :: "subscription_row list"
  pg_plan_routes :: "plan_route_row list"

subsection \<open>Statements\<close>

datatype pg_error = PgNoRows | PgCode string | PgConnection string

definition sql_eq :: "'a option \<Rightarrow> 'a option \<Rightarrow> bool" where
  "sql_eq a b = (a \<noteq> None \<and> a = b)"

definition sql_update :: "('r \<Rightarrow> bool) \<Rightarrow> ('r \<Rightarrow> 'r) \<Rightarrow> 'r list \<Rightarrow> 'r list" where
  "sql_update p f rows = map (\<lambda>r. if p r then f r else r) rows"

text \<open>A condition on a nullable column.\<close>

definition has :: "('a \<Rightarrow> bool) \<Rightarrow> 'a option \<Rightarrow> bool" where
  "has p v = (case v of None \<Rightarrow> False | Some x \<Rightarrow> p x)"

text \<open>The row that a statement marked \<open>:one\<close> returns.\<close>

definition sql_one :: "'r list \<Rightarrow> pg_error + 'r" where
  "sql_one rows = (case rows of [] \<Rightarrow> Inl PgNoRows | r # _ \<Rightarrow> Inr r)"

text \<open>\<open>ORDER BY\<close> a nullable time: \<open>NULLS FIRST\<close> and \<open>NULLS LAST\<close>.\<close>

definition nulls_first :: "int option \<Rightarrow> int \<times> int" where
  "nulls_first v = (case v of None \<Rightarrow> (0, 0) | Some t \<Rightarrow> (1, t))"

definition nulls_last :: "int option \<Rightarrow> int \<times> int" where
  "nulls_last v = (case v of None \<Rightarrow> (1, 0) | Some t \<Rightarrow> (0, t))"

text \<open>A time sent to PostgreSQL is cut to microseconds.\<close>

definition pg_time :: "gotime \<Rightarrow> gotime" where
  "pg_time t = t div 1000 * 1000"

definition wrap32 :: "int \<Rightarrow> int" where
  [go_arith]: "wrap32 x = (x + 2147483648) mod 4294967296 - 2147483648"

lemma has_simps [simp]: "has p None = False" "has p (Some x) = p x"
  by (simp_all add: has_def)

lemma sql_eq_Some [simp]: "sql_eq a (Some b) \<longleftrightarrow> a = Some b" "\<not> sql_eq a None"
  by (auto simp: sql_eq_def)

subsection \<open>requests.sql.go: the execution of a request\<close>

definition running :: "RequestStatus \<Rightarrow> bool" where
  "running s = (s = RqDispatching \<or> s = RqStreaming)"

definition executed_by :: "uuid \<Rightarrow> uuid option \<Rightarrow> int \<Rightarrow> request_row \<Rightarrow> bool" where
  "executed_by i executionID generation r = (q_ID r = i \<and> sql_eq (q_ExecutionID r) executionID \<and> q_ExecutionGeneration r = generation \<and> running (q_Status r))"

definition update_request :: "(request_row \<Rightarrow> bool) \<Rightarrow> (request_row \<Rightarrow> request_row) \<Rightarrow> pg \<Rightarrow> (pg_error + request_row) \<times> pg" where
  "update_request p f db = (sql_one (map f (filter p (pg_requests db))), db\<lparr>pg_requests := sql_update p f (pg_requests db)\<rparr>)"

definition claimable :: "uuid \<Rightarrow> uuid option \<Rightarrow> request_row \<Rightarrow> bool" where
  "claimable i executionID r = (q_ID r = i \<and>
     (q_Status r = RqQueued \<and> q_ExecutionID r = None \<or> q_Status r = RqDispatching \<and> sql_eq (q_ExecutionID r) executionID))"

definition ClaimRequestExecution :: "gotime \<Rightarrow> uuid option \<Rightarrow> uuid \<Rightarrow> pg \<Rightarrow> (pg_error + request_row) \<times> pg" where
  "ClaimRequestExecution now executionID i = update_request (claimable i executionID)
     (\<lambda>r. r\<lparr>q_Status := RqDispatching, q_ExecutionID := executionID,
        q_ExecutionGeneration := (if q_ExecutionID r = None then q_ExecutionGeneration r + 1 else q_ExecutionGeneration r),
        q_ExecutionClaimedAt := (if q_ExecutionID r = None then Some now else q_ExecutionClaimedAt r),
        q_ExecutionHeartbeatAt := Some now, q_UpdatedAt := now\<rparr>)"

definition HeartbeatRequestExecution :: "gotime \<Rightarrow> uuid \<Rightarrow> uuid option \<Rightarrow> int \<Rightarrow> pg \<Rightarrow> (pg_error + request_row) \<times> pg" where
  "HeartbeatRequestExecution now i executionID generation = update_request (executed_by i executionID generation)
     (\<lambda>r. r\<lparr>q_ExecutionHeartbeatAt := Some now, q_UpdatedAt := now\<rparr>)"

definition MarkRequestExecutionStreaming :: "gotime \<Rightarrow> uuid \<Rightarrow> uuid option \<Rightarrow> int \<Rightarrow> pg \<Rightarrow> (pg_error + request_row) \<times> pg" where
  "MarkRequestExecutionStreaming now i executionID generation = update_request (executed_by i executionID generation)
     (\<lambda>r. r\<lparr>q_Status := RqStreaming, q_ExecutionHeartbeatAt := Some now, q_UpdatedAt := now\<rparr>)"

definition MarkRequestExecutionUncertain ::
  "gotime \<Rightarrow> uuid \<Rightarrow> uuid option \<Rightarrow> int \<Rightarrow> string option \<Rightarrow> string option \<Rightarrow> pg \<Rightarrow> (pg_error + request_row) \<times> pg" where
  "MarkRequestExecutionUncertain now i executionID generation errorKind errorDetail = update_request (executed_by i executionID generation)
     (\<lambda>r. r\<lparr>q_Status := RqUncertain, q_ErrorKind := errorKind, q_ErrorDetail := errorDetail, q_CompletedAt := Some now, q_UpdatedAt := now\<rparr>)"

definition CompleteRequest ::
  "gotime \<Rightarrow> int option \<Rightarrow> int option \<Rightarrow> UsageSource \<Rightarrow> uuid \<Rightarrow> uuid option \<Rightarrow> int \<Rightarrow> pg \<Rightarrow> (pg_error + request_row) \<times> pg" where
  "CompleteRequest now inputTokens outputTokens source i executionID generation db =
    (if source = UsageUnset then (Inl (PgCode ''22P02''), db)
     else update_request (executed_by i executionID generation)
       (\<lambda>r. r\<lparr>q_Status := RqCompleted, q_InputTokens := inputTokens, q_OutputTokens := outputTokens, q_UsageSource := source,
          q_ErrorKind := None, q_ErrorDetail := None, q_CompletedAt := Some now, q_UpdatedAt := now\<rparr>) db)"

definition failable :: "uuid \<Rightarrow> uuid option \<Rightarrow> int \<Rightarrow> request_row \<Rightarrow> bool" where
  "failable i executionID generation r = (q_ID r = i \<and> (q_Status r = RqQueued \<or> running (q_Status r)) \<and>
     (executionID = None \<and> q_ExecutionID r = None \<and> q_ExecutionGeneration r = 0 \<or>
      sql_eq (q_ExecutionID r) executionID \<and> q_ExecutionGeneration r = generation))"

definition FailRequest ::
  "gotime \<Rightarrow> string option \<Rightarrow> string option \<Rightarrow> uuid \<Rightarrow> uuid option \<Rightarrow> int \<Rightarrow> pg \<Rightarrow> (pg_error + request_row) \<times> pg" where
  "FailRequest now errorKind errorDetail i executionID generation = update_request (failable i executionID generation)
     (\<lambda>r. r\<lparr>q_Status := RqFailed, q_ErrorKind := errorKind, q_ErrorDetail := errorDetail, q_CompletedAt := Some now, q_UpdatedAt := now\<rparr>)"

definition FailRequestWithUsage ::
  "gotime \<Rightarrow> int option \<Rightarrow> int option \<Rightarrow> UsageSource \<Rightarrow> string option \<Rightarrow> string option \<Rightarrow> uuid \<Rightarrow> uuid option \<Rightarrow> int \<Rightarrow> pg \<Rightarrow> (pg_error + request_row) \<times> pg" where
  "FailRequestWithUsage now inputTokens outputTokens source errorKind errorDetail i executionID generation db =
    (if source = UsageUnset then (Inl (PgCode ''22P02''), db)
     else update_request (executed_by i executionID generation)
       (\<lambda>r. r\<lparr>q_Status := RqFailed, q_InputTokens := inputTokens, q_OutputTokens := outputTokens, q_UsageSource := source,
          q_ErrorKind := errorKind, q_ErrorDetail := errorDetail, q_CompletedAt := Some now, q_UpdatedAt := now\<rparr>) db)"

definition GetRequestForUpdate :: "uuid \<Rightarrow> pg \<Rightarrow> pg_error + request_row" where
  "GetRequestForUpdate i db = sql_one (filter (\<lambda>r. q_ID r = i) (pg_requests db))"

definition GetRequestByIdempotencyKey :: "uuid \<Rightarrow> string option \<Rightarrow> pg \<Rightarrow> pg_error + request_row" where
  "GetRequestByIdempotencyKey keyID key db = sql_one (filter (\<lambda>r. q_GatewayKeyID r = keyID \<and> sql_eq (q_IdempotencyKey r) key) (pg_requests db))"

text \<open>
  \<open>CreateRequest\<close>: the checks of the columns, then the primary key and the unique idempotency key, then the referenced rows.
\<close>

definition CreateRequest ::
  "gotime \<Rightarrow> uuid \<Rightarrow> string option \<Rightarrow> string \<Rightarrow> uuid \<Rightarrow> uuid \<Rightarrow> uuid \<Rightarrow> uuid option \<Rightarrow> uuid \<Rightarrow> RequestStatus \<Rightarrow> bool \<Rightarrow> pg \<Rightarrow>
   (pg_error + request_row) \<times> pg" where
  "CreateRequest now i key requestDigest userID keyID modelID subscriptionID poolID status stream db =
    (let row = \<lparr>q_ID = i, q_IdempotencyKey = key, q_RequestDigest = requestDigest, q_UserID = userID, q_GatewayKeyID = keyID, q_ModelID = modelID,
           q_SubscriptionID = subscriptionID, q_ResourcePoolID = poolID, q_Status = status, q_Stream = stream, q_ExecutionID = None,
           q_ExecutionGeneration = 0, q_ExecutionClaimedAt = None, q_ExecutionHeartbeatAt = None, q_InputTokens = None, q_OutputTokens = None,
           q_UsageSource = UsageUnknown, q_ErrorKind = None, q_ErrorDetail = None, q_AcceptedAt = now, q_CompletedAt = None, q_UpdatedAt = now\<rparr> in
     if length requestDigest \<noteq> 32 \<or> has (\<lambda>k. RuneCountInString k < 1 \<or> RuneCountInString k > 200) key then (Inl (PgCode ''23514''), db)
     else if \<exists>r \<in> set (pg_requests db). q_ID r = i \<or> q_GatewayKeyID r = keyID \<and> sql_eq (q_IdempotencyKey r) key then (Inl (PgCode ''23505''), db)
     else if (\<forall>u \<in> set (pg_users db). u_ID u \<noteq> userID) \<or> (\<forall>k \<in> set (pg_keys db). gk_ID k \<noteq> keyID) \<or> (\<forall>m \<in> set (pg_models db). ml_ID m \<noteq> modelID) \<or>
       has (\<lambda>s. \<forall>r \<in> set (pg_subscriptions db). sb_ID r \<noteq> s) subscriptionID \<or> (\<forall>p \<in> set (pg_pools db). fst p \<noteq> poolID)
     then (Inl (PgCode ''23503''), db)
     else (Inr row, db\<lparr>pg_requests := pg_requests db @ [row]\<rparr>))"

subsection \<open>requests.sql.go: attempts\<close>

definition CreateAttempt :: "gotime \<Rightarrow> uuid \<Rightarrow> uuid \<Rightarrow> uuid \<Rightarrow> int \<Rightarrow> uuid \<Rightarrow> int \<Rightarrow> AttemptStatus \<Rightarrow> pg \<Rightarrow> (pg_error + attempt_row) \<times> pg" where
  "CreateAttempt now newID requestID executionID generation credentialID sequence status db =
    (let row = \<lparr>atm_ID = newID, atm_RequestID = requestID, atm_ExecutionID = executionID, atm_ExecutionGeneration = generation,
           atm_CredentialID = credentialID, atm_Sequence = sequence, atm_Status = status, atm_UpstreamRequestID = None, atm_HttpStatus = None,
           atm_ErrorKind = None, atm_RetryAfterAt = None, atm_SentAt = None, atm_FirstByteAt = None, atm_CompletedAt = None,
           atm_InputTokens = None, atm_OutputTokens = None, atm_UsageSource = UsageUnknown, atm_CreatedAt = now\<rparr> in
     if filter (executed_by requestID (Some executionID) generation) (pg_requests db) = [] then (Inl PgNoRows, db)
     else if generation \<le> 0 then (Inl (PgCode ''23514''), db)
     else if \<exists>a \<in> set (pg_attempts db). atm_ID a = newID \<or> atm_RequestID a = requestID \<and> atm_Sequence a = sequence then (Inl (PgCode ''23505''), db)
     else if \<forall>c \<in> set (pg_credentials db). pc_ID c \<noteq> credentialID then (Inl (PgCode ''23503''), db)
     else (Inr row, db\<lparr>pg_attempts := pg_attempts db @ [row]\<rparr>))"

record UpdateAttemptParams =
  ua_ID :: uuid
  ua_RequestID :: uuid
  ua_ExecutionID :: uuid
  ua_ExecutionGeneration :: int
  ua_Status :: "AttemptStatus option"
  ua_HttpStatus :: "int option"
  ua_UpstreamRequestID :: "string option"
  ua_ErrorKind :: "string option"
  ua_RetryAfterAt :: "gotime option"
  ua_SentAt :: "gotime option"
  ua_FirstByteAt :: "gotime option"
  ua_CompletedAt :: "gotime option"
  ua_InputTokens :: "int option"
  ua_OutputTokens :: "int option"
  ua_UsageSource :: UsageSource

text \<open>The states from which an attempt may move to the given one.\<close>

fun attempt_moves :: "AttemptStatus \<Rightarrow> AttemptStatus \<Rightarrow> bool" where
  "attempt_moves s AtSending = (s = AtCreated)"
| "attempt_moves s AtStreaming = (s = AtSending \<or> s = AtStreaming)"
| "attempt_moves s AtCompleted = (s = AtSending \<or> s = AtStreaming)"
| "attempt_moves s AtFailed = (s = AtCreated \<or> s = AtSending \<or> s = AtStreaming)"
| "attempt_moves s AtUncertain = (s = AtCreated \<or> s = AtSending \<or> s = AtStreaming)"
| "attempt_moves s AtCreated = False"

definition coalesce :: "'a option \<Rightarrow> 'a option \<Rightarrow> 'a option" where
  "coalesce a b = (case a of None \<Rightarrow> b | Some _ \<Rightarrow> a)"

definition updatable :: "pg \<Rightarrow> UpdateAttemptParams \<Rightarrow> AttemptStatus \<Rightarrow> attempt_row \<Rightarrow> bool" where
  "updatable db arg status a = (atm_ID a = ua_ID arg \<and> atm_RequestID a = ua_RequestID arg \<and> atm_ExecutionID a = ua_ExecutionID arg \<and>
     atm_ExecutionGeneration a = ua_ExecutionGeneration arg \<and>
     (\<exists>r \<in> set (pg_requests db). executed_by (atm_RequestID a) (Some (atm_ExecutionID a)) (atm_ExecutionGeneration a) r) \<and>
     attempt_moves (atm_Status a) status)"

definition UpdateAttempt :: "UpdateAttemptParams \<Rightarrow> pg \<Rightarrow> (pg_error + attempt_row) \<times> pg" where
  "UpdateAttempt arg db =
    (case ua_Status arg of
       None \<Rightarrow> (Inl (PgCode ''22P02''), db)
     | Some status \<Rightarrow>
         if ua_UsageSource arg = UsageUnset then (Inl (PgCode ''22P02''), db)
         else
           let f = (\<lambda>a. a\<lparr>atm_Status := status, atm_UpstreamRequestID := ua_UpstreamRequestID arg, atm_HttpStatus := ua_HttpStatus arg,
                 atm_ErrorKind := ua_ErrorKind arg, atm_RetryAfterAt := ua_RetryAfterAt arg, atm_SentAt := coalesce (atm_SentAt a) (ua_SentAt arg),
                 atm_FirstByteAt := coalesce (atm_FirstByteAt a) (ua_FirstByteAt arg), atm_CompletedAt := ua_CompletedAt arg,
                 atm_InputTokens := ua_InputTokens arg, atm_OutputTokens := ua_OutputTokens arg, atm_UsageSource := ua_UsageSource arg\<rparr>)
           in (case map f (filter (updatable db arg status) (pg_attempts db)) of
                 [] \<Rightarrow> (Inl PgNoRows, db)
               | a # _ \<Rightarrow>
                   if has (\<lambda>n. n < 0) (ua_InputTokens arg) \<or> has (\<lambda>n. n < 0) (ua_OutputTokens arg) \<or>
                     (ua_InputTokens arg = None) \<noteq> (ua_OutputTokens arg = None) \<or> ua_InputTokens arg = None \<and> ua_UsageSource arg \<noteq> UsageUnknown
                   then (Inl (PgCode ''23514''), db)
                   else (Inr a, db\<lparr>pg_attempts := sql_update (updatable db arg status) f (pg_attempts db)\<rparr>)))"

subsection \<open>requests.sql.go: recovery\<close>

text \<open>An attempt of the current execution that settles its request.\<close>

definition settles :: "request_row \<Rightarrow> attempt_row \<Rightarrow> bool" where
  "settles r a = (atm_RequestID a = q_ID r \<and> q_ExecutionID r = Some (atm_ExecutionID a) \<and> atm_ExecutionGeneration a = q_ExecutionGeneration r \<and>
     atm_Status a = AtCompleted \<and> atm_InputTokens a \<noteq> None \<and> atm_OutputTokens a \<noteq> None \<and> (atm_UsageSource a = UsageAuthoritative \<or> atm_UsageSource a = UsageEstimated))"

definition stale :: "gotime \<Rightarrow> request_row \<Rightarrow> bool" where
  "stale staleBefore r = has (\<lambda>t. t < staleBefore) (q_ExecutionHeartbeatAt r)"

definition heartbeat_order :: "request_row \<Rightarrow> int \<times> uuid" where
  "heartbeat_order r = (case q_ExecutionHeartbeatAt r of None \<Rightarrow> 0 | Some t \<Rightarrow> t, q_ID r)"

definition stale_executions :: "(uuid \<Rightarrow> bool) \<Rightarrow> gotime \<Rightarrow> int \<Rightarrow> pg \<Rightarrow> request_row list" where
  "stale_executions locked staleBefore batchSize db = take (nat batchSize) (filter (\<lambda>r. \<not> locked (q_ID r)) (sort_key heartbeat_order
     (filter (\<lambda>r. running (q_Status r) \<and> stale staleBefore r \<and> (\<forall>a \<in> set (pg_attempts db). \<not> settles r a)) (pg_requests db))))"

text \<open>\<open>RecoverStaleRequestExecutions\<close>; \<open>locked\<close> are the rows that \<open>SKIP LOCKED\<close> passes over.\<close>

definition RecoverStaleRequestExecutions :: "gotime \<Rightarrow> (uuid \<Rightarrow> bool) \<Rightarrow> gotime \<Rightarrow> int \<Rightarrow> pg \<Rightarrow> (pg_error + int) \<times> pg" where
  "RecoverStaleRequestExecutions now locked staleBefore batchSize db =
    (let rows = stale_executions locked staleBefore batchSize db;
         fenced = (\<lambda>a. \<exists>r \<in> set rows. atm_RequestID a = q_ID r \<and> q_ExecutionID r = Some (atm_ExecutionID a) \<and>
           atm_ExecutionGeneration a = q_ExecutionGeneration r \<and> (atm_Status a = AtCreated \<or> atm_Status a = AtSending \<or> atm_Status a = AtStreaming));
         lost = (\<lambda>q. \<exists>r \<in> set rows. q_ID q = q_ID r \<and> sql_eq (q_ExecutionID q) (q_ExecutionID r) \<and>
           q_ExecutionGeneration q = q_ExecutionGeneration r \<and> running (q_Status q))
     in (Inr (int (length (filter lost (pg_requests db)))),
         db\<lparr>pg_attempts := sql_update fenced (\<lambda>a. a\<lparr>atm_Status := AtUncertain, atm_ErrorKind := Some ''uncertain'', atm_CompletedAt := Some now\<rparr>) (pg_attempts db),
            pg_requests := sql_update lost (\<lambda>q. q\<lparr>q_Status := RqUncertain, q_ErrorKind := Some ''uncertain'',
              q_ErrorDetail := Some ''request execution heartbeat expired; upstream outcome requires recovery'', q_CompletedAt := Some now, q_UpdatedAt := now\<rparr>)
              (pg_requests db)\<rparr>))"

text \<open>The attempt that the lateral join selects: the last that settles the request.\<close>

definition settling_attempt :: "pg \<Rightarrow> request_row \<Rightarrow> attempt_row option" where
  "settling_attempt db r = (case rev (sort_key atm_Sequence (filter (settles r) (pg_attempts db))) of [] \<Rightarrow> None | a # _ \<Rightarrow> Some a)"

definition ListRecoverableRequestCompletions :: "gotime \<Rightarrow> int \<Rightarrow> pg \<Rightarrow> (request_row \<times> attempt_row) list" where
  "ListRecoverableRequestCompletions staleBefore batchSize db = take (nat batchSize)
     (concat (map (\<lambda>r. case settling_attempt db r of None \<Rightarrow> [] | Some a \<Rightarrow> [(r, a)])
       (sort_key heartbeat_order (filter (\<lambda>r. running (q_Status r) \<and> q_ExecutionID r \<noteq> None \<and> stale staleBefore r) (pg_requests db)))))"

definition ListStaleQueuedRequests :: "gotime \<Rightarrow> int \<Rightarrow> pg \<Rightarrow> uuid list" where
  "ListStaleQueuedRequests staleBefore batchSize db = take (nat batchSize) (map q_ID (sort_key (\<lambda>r. (q_UpdatedAt r, q_ID r))
     (filter (\<lambda>r. q_Status r = RqQueued \<and> q_ExecutionID r = None \<and> q_ExecutionGeneration r = 0 \<and> q_UpdatedAt r < staleBefore) (pg_requests db))))"

subsection \<open>providers.sql.go: the health of credentials\<close>

definition usable :: "gotime \<Rightarrow> credential_row \<Rightarrow> bool" where
  "usable now c = (pc_HealthStatus c = HealthHealthy \<or> pc_HealthStatus c = HealthCooling \<and> has (\<lambda>t. t \<le> now) (pc_CooldownUntil c))"

definition AcquireCredentialHealthPermit :: "gotime \<Rightarrow> uuid \<Rightarrow> pg \<Rightarrow> (pg_error + int) \<times> pg" where
  "AcquireCredentialHealthPermit now i db =
    (let p = (\<lambda>c. pc_ID c = i \<and> pc_Status c = CredentialActive \<and> usable now c);
         f = (\<lambda>c. if pc_HealthStatus c = HealthCooling
           then c\<lparr>pc_HealthStatus := HealthProbing, pc_HealthGeneration := pc_HealthGeneration c + 1, pc_UpdatedAt := now\<rparr> else c)
     in case map f (filter p (pg_credentials db)) of
          [] \<Rightarrow> (Inl PgNoRows, db)
        | c # _ \<Rightarrow>
            if pc_HealthGeneration c > max_int64 then (Inl (PgCode ''22003''), db)
            else (Inr (pc_HealthGeneration c), db\<lparr>pg_credentials := sql_update p f (pg_credentials db)\<rparr>))"

definition observed :: "uuid \<Rightarrow> int \<Rightarrow> credential_row \<Rightarrow> bool" where
  "observed i generation c = (pc_ID c = i \<and> pc_Status c = CredentialActive \<and> pc_HealthGeneration c = generation)"

definition RecordCredentialRuntimeSuccess :: "gotime option \<Rightarrow> uuid \<Rightarrow> int \<Rightarrow> pg \<Rightarrow> pg_error option \<times> pg" where
  "RecordCredentialRuntimeSuccess observedAt i generation db =
    (None, db\<lparr>pg_credentials := sql_update (observed i generation) (\<lambda>c. c\<lparr>pc_HealthStatus := HealthHealthy, pc_CooldownUntil := None, pc_ConsecutiveFailures := 0,
       pc_LastSuccessAt := observedAt, pc_LastErrorKind := None\<rparr>) (pg_credentials db)\<rparr>)"

definition RecordCredentialRuntimeFailure ::
  "CredentialHealthStatus \<Rightarrow> gotime option \<Rightarrow> string option \<Rightarrow> uuid \<Rightarrow> int \<Rightarrow> pg \<Rightarrow> pg_error option \<times> pg" where
  "RecordCredentialRuntimeFailure healthStatus cooldownUntil errorKind i generation db =
    (if \<exists>c \<in> set (pg_credentials db). observed i generation c \<and> pc_ConsecutiveFailures c \<ge> 2147483647 then (Some (PgCode ''22003''), db)
     else (None, db\<lparr>pg_credentials := sql_update (observed i generation) (\<lambda>c. c\<lparr>pc_HealthStatus := healthStatus, pc_CooldownUntil := cooldownUntil,
       pc_ConsecutiveFailures := pc_ConsecutiveFailures c + 1, pc_LastErrorKind := errorKind\<rparr>) (pg_credentials db)\<rparr>))"

subsection \<open>providers.sql.go, identity.sql.go, subscriptions.sql.go: routes\<close>

definition pool_active :: "pg \<Rightarrow> uuid \<Rightarrow> bool" where
  "pool_active db i = (\<exists>p \<in> set (pg_pools db). p = (i, PoolActive))"

definition candidate_order :: "credential_row \<Rightarrow> int \<times> (int \<times> int) \<times> uuid" where
  "candidate_order c = (pc_Priority c, nulls_first (pc_LastSuccessAt c), pc_ID c)"

definition shared_scope :: "pg \<Rightarrow> credential_row \<Rightarrow> scope_row option" where
  "shared_scope db c = (case pc_SharedCapacityScopeID c of None \<Rightarrow> None | Some i \<Rightarrow> find (\<lambda>s. sc_ID s = i) (pg_scopes db))"

definition ListResourcePoolCandidates :: "gotime \<Rightarrow> uuid \<Rightarrow> uuid \<Rightarrow> pg \<Rightarrow> (credential_row \<times> scope_row option) list" where
  "ListResourcePoolCandidates now poolID modelID db = map (\<lambda>c. (c, shared_scope db c)) (sort_key candidate_order
     (filter (\<lambda>c. pc_ResourcePoolID c = poolID \<and> (pc_ID c, modelID) \<in> set (pg_bindings db) \<and> pool_active db (pc_ResourcePoolID c) \<and>
        pc_Status c = CredentialActive \<and> usable now c) (pg_credentials db)))"

definition unexpired :: "gotime \<Rightarrow> gotime option \<Rightarrow> bool" where
  "unexpired now expiry = (case expiry of None \<Rightarrow> True | Some t \<Rightarrow> t > now)"

definition GetActiveGatewayKeyForRequest :: "gotime \<Rightarrow> uuid \<Rightarrow> uuid \<Rightarrow> pg \<Rightarrow> pg_error + UserRole" where
  "GetActiveGatewayKeyForRequest now keyID userID db = sql_one
     [u_Role u. k \<leftarrow> pg_keys db, u \<leftarrow> pg_users db, u_ID u = gk_UserID k \<and> gk_ID k = keyID \<and> gk_UserID k = userID \<and> gk_DeletedAt k = None \<and>
        unexpired now (gk_ExpiresAt k) \<and> u_Status u = UserActive]"

definition GetGatewayKeyRoute :: "uuid \<Rightarrow> uuid \<Rightarrow> pg \<Rightarrow> pg_error + uuid" where
  "GetGatewayKeyRoute keyID modelID db = sql_one [gm_ResourcePoolID m. m \<leftarrow> pg_key_models db, gm_GatewayKeyID m = keyID \<and> gm_ModelID m = modelID]"

definition subscription_order :: "subscription_row \<times> uuid \<Rightarrow> (int \<times> int) \<times> int \<times> uuid" where
  "subscription_order s = (nulls_last (sb_ExpiresAt (fst s)), sb_CreatedAt (fst s), sb_ID (fst s))"

definition GetApplicableSubscriptionRoutesForUpdate :: "gotime \<Rightarrow> uuid \<Rightarrow> uuid \<Rightarrow> pg \<Rightarrow> (subscription_row \<times> uuid) list" where
  "GetApplicableSubscriptionRoutesForUpdate now userID modelID db = sort_key subscription_order
     [(s, pr_ResourcePoolID r). s \<leftarrow> pg_subscriptions db, r \<leftarrow> pg_plan_routes db, pr_ServicePlanVersionID r = sb_ServicePlanVersionID s \<and>
        sb_UserID s = userID \<and> pr_ModelID r = modelID \<and> (sb_Status s = SubScheduled \<or> sb_Status s = SubActive) \<and> sb_StartsAt s \<le> now \<and>
        unexpired now (sb_ExpiresAt s) \<and> pool_active db (pr_ResourcePoolID r)]"

definition ResolveAvailableModelForKey :: "uuid \<Rightarrow> string \<Rightarrow> pg \<Rightarrow> pg_error + (model_row \<times> provider_row \<times> bool)" where
  "ResolveAvailableModelForKey keyID publicName db = sql_one
     [(m, p, \<exists>k \<in> set (pg_key_models db). gm_GatewayKeyID k = keyID \<and> gm_ModelID k = ml_ID m). m \<leftarrow> pg_models db, p \<leftarrow> pg_providers db,
        pv_ID p = ml_ProviderID m \<and> ml_PublicName m = publicName]"

end
