(* ===== verification/RequestFlow.thy ===== *)
theory RequestFlow
  imports UsageService Routing
begin

text \<open>
  The request workflow of \<open>internal/requestflow\<close>: \<open>service.go\<close> (preparation, selection of a candidate, errors), \<open>chat.go\<close>,
  \<open>stream.go\<close> and \<open>recovery.go\<close>. The \<open>Complete\<close> method of a health permit does nothing and is left out.
\<close>

subsection \<open>service.go: errors\<close>

definition admissionError :: "flow_error \<Rightarrow> CError" where
  "admissionError err = (case err of
     CapacityError retryAt \<Rightarrow> (new_error ErrorRateLimit ''admission_capacity_exhausted'' ''request capacity is exhausted; retry after the reported time'')
       \<lparr>ce_RetryAfter := Some \<lparr>rh_DelaySeconds = None, rh_At = Some retryAt\<rparr>\<rparr>
   | ErrAdmissionQueueFull _ \<Rightarrow> (new_error ErrorRateLimit ''admission_queue_full'' ''the request queue is full'')\<lparr>ce_HTTPStatus := 429\<rparr>
   | ErrAdmissionTimedOut _ \<Rightarrow> (new_error ErrorRateLimit ''admission_timeout'' ''the request waited too long for capacity'')\<lparr>ce_HTTPStatus := 429\<rparr>
   | ErrAdmissionCanceled _ \<Rightarrow> (new_error Canonical.ErrorInvalidRequest ''request_canceled'' ''the request was canceled while waiting for capacity'')\<lparr>ce_HTTPStatus := 408\<rparr>
   | ErrCoordinationFailed _ \<Rightarrow> (new_error ErrorStorageUnavailable ''admission_unavailable'' ''request coordination is temporarily unavailable'')\<lparr>ce_HTTPStatus := 503\<rparr>
   | _ \<Rightarrow> new_error ErrorInternalInvariant ''admission_failed'' ''request admission failed'')"

definition workflowError :: "flow_error \<Rightarrow> CError" where
  "workflowError err = (case err of
     ErrModelNotFound \<Rightarrow> (new_error Canonical.ErrorInvalidRequest ''model_not_found'' ''model was not found'')\<lparr>ce_Parameter := ''model'', ce_HTTPStatus := 404\<rparr>
   | ErrModelNotAuthorized \<Rightarrow> (new_error ErrorPermission ''model_not_authorized'' ''model is not authorized for this key'')\<lparr>ce_Parameter := ''model'', ce_HTTPStatus := 403\<rparr>
   | ErrIdempotencyConflict \<Rightarrow> (new_error Canonical.ErrorInvalidRequest ''idempotency_conflict'' ''idempotency key was reused with a different request'')\<lparr>ce_HTTPStatus := 409\<rparr>
   | ErrInvalidAccounting \<Rightarrow> (new_error Canonical.ErrorInvalidRequest ''invalid_request_accounting'' ''request usage could not be recorded'')\<lparr>ce_HTTPStatus := 400\<rparr>
   | _ \<Rightarrow> new_error ErrorStorageUnavailable ''request_state_unavailable'' ''request state could not be persisted'')"

definition poolUnavailableCode :: string where
  "poolUnavailableCode = ''resource_pool_unavailable''"

definition storageError :: "string \<Rightarrow> CError" where
  "storageError code = new_error ErrorStorageUnavailable code ''request state could not be persisted''"

definition asCanonical :: "adapter_error \<Rightarrow> string \<Rightarrow> CError" where
  "asCanonical err fallbackCode = (case err of
     CanonicalError e \<Rightarrow> e
   | PlainError _ \<Rightarrow> new_error ErrorProviderPermanent fallbackCode ''provider returned an invalid response'')"

definition valueOrNow :: "gotime option \<Rightarrow> gotime \<Rightarrow> gotime" where
  "valueOrNow v now = (case v of None \<Rightarrow> now | Some t \<Rightarrow> if is_zero t then now else t)"

definition earlierRetryAt :: "gotime option \<Rightarrow> gotime option \<Rightarrow> gotime option" where
  "earlierRetryAt left right = (case left of
     None \<Rightarrow> right
   | Some l \<Rightarrow> if is_zero l then right else (case right of None \<Rightarrow> left | Some r \<Rightarrow> if is_zero r \<or> l < r then left else right))"

definition circuitUnavailableError :: "gotime option \<Rightarrow> CError" where
  "circuitUnavailableError retryAt =
    (let e = new_error ErrorProviderTemporary ''upstream_circuit_open'' ''all eligible upstream credentials are cooling down'' in
     case retryAt of
       None \<Rightarrow> e
     | Some t \<Rightarrow> if is_zero t then e else e\<lparr>ce_RetryAfter := Some \<lparr>rh_DelaySeconds = None, rh_At = Some t\<rparr>\<rparr>)"

subsection \<open>chat.go: pure parts\<close>

definition retryAfter :: "RetryAfterHint option \<Rightarrow> RetryAfter option" where
  "retryAfter hint = map_option (\<lambda>h. \<lparr>ra_Delay = (case rh_DelaySeconds h of None \<Rightarrow> 0 | Some d \<Rightarrow> wrap64 (d * second)),
     ra_At = (case rh_At h of None \<Rightarrow> 0 | Some t \<Rightarrow> t)\<rparr>) hint"

definition retryAfterAt :: "RetryAfterHint option \<Rightarrow> gotime \<Rightarrow> gotime option" where
  "retryAfterAt hint now = (case hint of
     None \<Rightarrow> None
   | Some h \<Rightarrow> (case rh_At h of
       Some t \<Rightarrow> Some t
     | None \<Rightarrow> map_option (\<lambda>d. now + wrap64 (d * second)) (rh_DelaySeconds h)))"

fun failureClass :: "Canonical.ErrorKind \<Rightarrow> FailureClass" where
  "failureClass ErrorAuthentication = FailureAuthentication"
| "failureClass ErrorPermission = FailurePermission"
| "failureClass ErrorQuota = FailureQuota"
| "failureClass ErrorRateLimit = FailureRateLimit"
| "failureClass ErrorProviderTemporary = FailureProviderTemporary"
| "failureClass ErrorProviderPermanent = FailureProviderPermanent"
| "failureClass ErrorProviderConfiguration = FailureProviderPermanent"
| "failureClass ErrorStreamInterrupted = FailureStreamInterrupted"
| "failureClass ErrorStorageUnavailable = FailureStorage"
| "failureClass ErrorUncertain = FailureUncertain"
| "failureClass _ = FailureInvalidRequest"

definition shouldTryNextCandidate :: "CError \<Rightarrow> bool" where
  "shouldTryNextCandidate e = (ce_ReplaySafe e \<and>
     (case ce_Kind e of ErrorAuthentication \<Rightarrow> True | ErrorPermission \<Rightarrow> True | ErrorQuota \<Rightarrow> True | ErrorRateLimit \<Rightarrow> True
      | ErrorProviderTemporary \<Rightarrow> True | _ \<Rightarrow> False))"

definition tripsCircuit :: "Canonical.ErrorKind \<Rightarrow> bool" where
  "tripsCircuit kind = (kind = ErrorRateLimit \<or> kind = ErrorProviderTemporary \<or> kind = ErrorStreamInterrupted)"

definition optionalString :: "string \<Rightarrow> string option" where
  "optionalString s = (if s = '''' then None else Some s)"

definition credentialSuccess :: "gotime \<Rightarrow> int \<Rightarrow> CredentialObservation" where
  "credentialSuccess observedAt healthGeneration =
    \<lparr>co_Kind = CredentialSucceeded, co_HealthGeneration = healthGeneration, co_ObservedAt = observedAt, co_ErrorKind = '''', co_CooldownUntil = None\<rparr>"

definition credentialFailure :: "FlowConfig \<Rightarrow> CError \<Rightarrow> gotime \<Rightarrow> bool \<Rightarrow> int \<Rightarrow> CredentialObservation option" where
  "credentialFailure config e observedAt canceledLocally healthGeneration =
    (if canceledLocally \<or> ce_Code e = ''client_stream_interrupted'' then None
     else
       let observation = \<lparr>co_Kind = CredentialFailed, co_HealthGeneration = healthGeneration, co_ObservedAt = observedAt,
             co_ErrorKind = kind_string (ce_Kind e), co_CooldownUntil = None\<rparr>
       in if ce_Kind e \<in> {ErrorRateLimit, ErrorProviderTemporary, ErrorStreamInterrupted, ErrorUncertain} then
            let cooldownUntil = observedAt + fc_OpenDuration config in
            Some (observation\<lparr>co_CooldownUntil := Some (case retryAfterAt (ce_RetryAfter e) observedAt of
                None \<Rightarrow> cooldownUntil
              | Some retryAt \<Rightarrow> if retryAt > cooldownUntil then retryAt else cooldownUntil)\<rparr>)
          else if ce_Kind e \<in> {ErrorAuthentication, ErrorPermission, ErrorQuota, ErrorProviderConfiguration, ErrorProviderPermanent,
              ErrorUnsupportedCapability} then Some observation
          else None)"

definition ensureClientRetryAfter :: "FlowConfig \<Rightarrow> gotime \<Rightarrow> CError \<Rightarrow> CError" where
  "ensureClientRetryAfter config now e =
    (if ce_RetryAfter e = None \<and> (ce_Kind e = ErrorRateLimit \<or> ce_Kind e = ErrorProviderTemporary) then
       e\<lparr>ce_RetryAfter := Some \<lparr>rh_DelaySeconds = None, rh_At = Some (now + fc_OpenDuration config)\<rparr>\<rparr>
     else e)"

text \<open>The tokens of one choice, four bytes to a token, each text rounded up.\<close>

definition choice_tokens :: "ChatChoice \<Rightarrow> int" where
  "choice_tokens choice =
    (\<Sum>part \<leftarrow> me_Content (cc_Message choice). (int (length (cp_Text part)) + 3) div 4) +
    (case me_Reasoning (cc_Message choice) of None \<Rightarrow> 0 | Some r \<Rightarrow> (int (length (rt_Text r)) + 3) div 4) +
    (\<Sum>call \<leftarrow> me_ToolCalls (cc_Message choice). (int (length (tf_Name (tc_Function call)) + length (tf_Arguments (tc_Function call))) + 3) div 4)"

definition responseUsage :: "ChatRequest \<Rightarrow> ChatResponse \<Rightarrow> Usage" where
  "responseUsage request response =
    (let usage = \<lparr>us_InputTokens = EstimateInputTokens request, us_OutputTokens = (\<Sum>choice \<leftarrow> cs_Choices response. choice_tokens choice),
           us_Source = UsageEstimated\<rparr> in
     case cs_Usage response of
       None \<Rightarrow> usage
     | Some u \<Rightarrow> \<lparr>us_InputTokens = (case tu_InputTokens u of None \<Rightarrow> us_InputTokens usage | Some n \<Rightarrow> n),
         us_OutputTokens = (case tu_OutputTokens u of None \<Rightarrow> us_OutputTokens usage | Some n \<Rightarrow> n), us_Source = tu_Source u\<rparr>)"

definition publicCompletionID :: "uuid \<Rightarrow> string" where
  "publicCompletionID requestID = ''chatcmpl_'' @ filter (\<lambda>c. c \<noteq> CHR ''-'') requestID"

definition requiredCapabilities :: "ChatRequest \<Rightarrow> Capability list" where
  "requiredCapabilities request = [''chat''] @ (if cq_Stream request then [''streaming''] else []) @
    (if cq_Tools request \<noteq> [] then [''tools''] else []) @ (if cq_Reasoning request \<noteq> None then [''reasoning''] else []) @
    (case cq_ResponseFormat request of None \<Rightarrow> [] | Some f \<Rightarrow> if rf_Type f \<noteq> ResponseFormatText then [''structured_output''] else [])"

definition timeOrZero :: "gotime option \<Rightarrow> gotime" where
  "timeOrZero v = (case v of None \<Rightarrow> 0 | Some t \<Rightarrow> t)"

definition leaseRequest :: "Claim \<Rightarrow> workflowRun \<Rightarrow> Upstream \<Rightarrow> LeaseRequest" where
  "leaseRequest claim run candidate = \<lparr>lq_RequestID = cl_RequestID claim, lq_ExecutionID = cl_ExecutionID claim,
     lq_ModelID = md_ID (wr_model run), lq_ProviderID = md_ProviderID (wr_model run), lq_CredentialID = up_ID candidate,
     lq_ResourcePoolID = ac_ResourcePoolID (wr_accepted run), lq_EstimatedTokens = wr_estimatedTokens run,
     lq_RPMLimit = up_RPMLimit candidate, lq_TPMLimit = up_TPMLimit candidate, lq_Concurrency = up_ConcurrencyLimit candidate,
     lq_SharedCapacityScope = up_SharedCapacityScope candidate, lq_SharedRPMLimit = up_SharedRPMLimit candidate,
     lq_SharedTPMLimit = up_SharedTPMLimit candidate, lq_SharedConcurrency = up_SharedConcurrencyLimit candidate,
     lq_SharedDailyTokenLimit = up_SharedDailyTokenLimit candidate, lq_SharedDailyResetMinuteUTC = up_SharedDailyResetMinuteUTC candidate\<rparr>"

text \<open>
  \<open>readResponse\<close>: \<open>io.ReadAll\<close> on a reader limited to one byte more than the limit. The limited reader reports the
  end once its bytes are used up, without another read, and a piece longer than what is left is cut before its outcome is seen.
\<close>

fun read_all :: "nat \<Rightarrow> body \<Rightarrow> call_error + string" where
  "read_all n [] = Inr []"
| "read_all n ((bytes, out) # rest) =
    (if n = 0 then Inr []
     else if n < length bytes then Inr (take n bytes)
     else (case out of
         ReadFailure e \<Rightarrow> Inl e
       | ReadEOF \<Rightarrow> Inr bytes
       | MoreToRead \<Rightarrow> map_sum id (\<lambda>tail. bytes @ tail) (read_all (n - length bytes) rest)))"

definition readResponse :: "HTTPResponse \<Rightarrow> int \<Rightarrow> call_error + string" where
  "readResponse response limit = (case read_all (nat (limit + 1)) (hr_Body response) of
     Inl e \<Rightarrow> Inl e
   | Inr body \<Rightarrow> if int (length body) > limit then Inl (CallFailed ''provider response exceeds the limit'') else Inr body)"

subsection \<open>service.go: selection of a candidate\<close>

definition zero_upstream :: Upstream where
  "zero_upstream = \<lparr>up_ID = uuid_nil, up_RPMLimit = None, up_TPMLimit = None, up_ConcurrencyLimit = None, up_Priority = 0, up_Weight = 0,
     up_SharedCapacityScope = None, up_SharedRPMLimit = None, up_SharedTPMLimit = None, up_SharedConcurrencyLimit = None, up_SharedDailyTokenLimit = None,
     up_SharedDailyResetMinuteUTC = None, up_ConsecutiveFailures = 0, up_LastSuccessAt = None, up_CooldownUntil = None, up_HealthGeneration = 0\<rparr>"

definition route_candidate :: "workflowRun \<Rightarrow> Upstream \<Rightarrow> Candidate" where
  "route_candidate run candidate = \<lparr>ca_ID = up_ID candidate, ca_ModelID = md_ID (wr_model run), ca_ResourcePoolID = ac_ResourcePoolID (wr_accepted run),
     ca_ModelPublished = True, ca_CredentialAuthorized = True, ca_CredentialActive = True, ca_Capabilities = requiredCapabilities (wr_request run),
     ca_CooldownUntil = timeOrZero (up_CooldownUntil candidate), ca_Priority = up_Priority candidate, ca_Weight = up_Weight candidate\<rparr>"

definition route_requirements :: "workflowRun \<Rightarrow> CandidateID list \<Rightarrow> gotime \<Rightarrow> Requirements" where
  "route_requirements run excluded now = \<lparr>rq_ModelID = md_ID (wr_model run), rq_ResourcePoolID = ac_ResourcePoolID (wr_accepted run),
     rq_Capabilities = requiredCapabilities (wr_request run), rq_ExcludedCandidates = excluded, rq_At = now\<rparr>"

definition upstream_by_id :: "Upstream list \<Rightarrow> CandidateID \<Rightarrow> Upstream" where
  "upstream_by_id candidates i = (case map_of (rev (map (\<lambda>c. (up_ID c, c)) candidates)) i of None \<Rightarrow> zero_upstream | Some c \<Rightarrow> c)"

definition selectCandidate :: "'w env \<Rightarrow> workflowRun \<Rightarrow> CandidateID list \<Rightarrow> ('w, CError + Upstream) work" where
  "selectCandidate env run excluded = do {
     now \<leftarrow> silent (ev_Now env);
     intn \<leftarrow> silent (ev_Intn env);
     ret (case Select intn (route_requirements run excluded now) (map (route_candidate run) (wr_candidates run)) of
        Inl _ \<Rightarrow> Inl (new_error ErrorInternalInvariant ''routing_failed'' ''upstream routing failed'')
      | Inr decision \<Rightarrow>
          if de_SelectedCandidateID decision = '''' then
            let e = new_error ErrorProviderTemporary poolUnavailableCode ''no eligible upstream credential is available'' in
            Inl (if is_zero (de_NextAvailableAt decision) then e
                 else e\<lparr>ce_RetryAfter := Some \<lparr>rh_DelaySeconds = None, rh_At = Some (de_NextAvailableAt decision)\<rparr>\<rparr>)
          else Inr (upstream_by_id (wr_candidates run) (de_SelectedCandidateID decision)))
   }"

text \<open>
  \<open>candidateDecision\<close>: candidates without a health permit are excluded until one has it. The first argument bounds the number of rounds;
  the result is \<open>None\<close> when it is used up. The list of excluded candidates, a pointer in the code, is returned.
\<close>

fun candidateDecision ::
  "nat \<Rightarrow> 'w env \<Rightarrow> workflowRun \<Rightarrow> CandidateID list \<Rightarrow> CandidateID list \<Rightarrow> gotime option \<Rightarrow> bool \<Rightarrow> ('w, (CandidateID list \<times> (CError + Upstream)) option) work" where
  "candidateDecision 0 env run selectionExcluded excluded earliestRetryAt circuitUnavailable = ret None"
| "candidateDecision (Suc rounds) env run selectionExcluded excluded earliestRetryAt circuitUnavailable = do {
     selection \<leftarrow> selectCandidate env run selectionExcluded;
     (case selection of
        Inl e \<Rightarrow>
          if \<not> circuitUnavailable then ret (Some (excluded, Inl e))
          else do {
            now \<leftarrow> silent (ev_Now env);
            ret (Some (excluded, Inl (circuitUnavailableError (earlierRetryAt earliestRetryAt (retryAfterAt (ce_RetryAfter e) now)))))
          }
      | Inr candidate \<Rightarrow> do {
          health \<leftarrow> ask (ev_HealthPermit env (up_ID candidate)) (\<lambda>r. [HealthPermitAsked (up_ID candidate) (\<not> isl r)]);
          (case health of
             Inl _ \<Rightarrow> candidateDecision rounds env run (selectionExcluded @ [up_ID candidate]) (excluded @ [up_ID candidate]) earliestRetryAt True
           | Inr generation \<Rightarrow> ret (Some (excluded, Inr (candidate\<lparr>up_HealthGeneration := generation\<rparr>))))
        })
   }"

definition acquire_lease :: "'w env \<Rightarrow> workflowRun \<Rightarrow> Upstream \<Rightarrow> ('w, flow_error + uuid) work" where
  "acquire_lease env run candidate = ask (ev_AcquireLease env (leaseRequest (wr_claim run) run candidate))
     (\<lambda>r. case r of Inl _ \<Rightarrow> [] | Inr lease \<Rightarrow> [LeaseTaken (up_ID candidate) lease])"

definition as_capacity :: "flow_error \<Rightarrow> gotime option" where
  "as_capacity err = (case err of CapacityError retryAt \<Rightarrow> Some retryAt | _ \<Rightarrow> None)"

fun attemptDecision ::
  "nat \<Rightarrow> 'w env \<Rightarrow> workflowRun \<Rightarrow> CandidateID list \<Rightarrow> gotime option \<Rightarrow> bool \<Rightarrow> ('w, (CandidateID list \<times> (CError + Upstream \<times> uuid)) option) work" where
  "attemptDecision 0 env run excluded earliestCapacityRetryAt capacityUnavailable = ret None"
| "attemptDecision (Suc rounds) env run excluded earliestCapacityRetryAt capacityUnavailable = do {
     decision \<leftarrow> candidateDecision (Suc (length (wr_candidates run))) env run excluded excluded None False;
     (case decision of
        None \<Rightarrow> ret None
      | Some (excluded, Inl e) \<Rightarrow>
          if capacityUnavailable then do {
            now \<leftarrow> silent (ev_Now env);
            ret (Some (excluded, Inl (admissionError (CapacityError (valueOrNow earliestCapacityRetryAt now)))))
          }
          else ret (Some (excluded, Inl e))
      | Some (excluded, Inr candidate) \<Rightarrow> do {
          lease \<leftarrow> acquire_lease env run candidate;
          (case lease of
             Inr l \<Rightarrow> ret (Some (excluded, Inr (candidate, l)))
           | Inl err \<Rightarrow> (case as_capacity err of
               None \<Rightarrow> ret (Some (excluded, Inl (admissionError err)))
             | Some retryAt \<Rightarrow>
                 attemptDecision rounds env run (excluded @ [up_ID candidate]) (earlierRetryAt earliestCapacityRetryAt (Some retryAt)) True))
        })
   }"

subsection \<open>chat.go: one attempt\<close>

definition observeAttempt :: "Kind \<Rightarrow> CError option \<Rightarrow> ('w, unit) work" where
  "observeAttempt kind err = (case err of
     None \<Rightarrow> note_effect (AttemptObserved kind ''succeeded'' ''none'')
   | Some e \<Rightarrow> note_effect (AttemptObserved kind (if ce_Kind e = ErrorUncertain \<or> ce_Kind e = ErrorStreamInterrupted then ''uncertain'' else ''failed'')
       (kind_string (ce_Kind e))))"

definition update_attempt :: "'w env \<Rightarrow> Claim \<Rightarrow> uuid \<Rightarrow> AttemptUpdate \<Rightarrow> ('w, flow_error option) work" where
  "update_attempt env claim attemptID update = ask (ev_UpdateAttempt env claim attemptID update) (\<lambda>r. [AttemptUpdated attemptID update r])"

definition failAttempt :: "'w env \<Rightarrow> FlowConfig \<Rightarrow> Claim \<Rightarrow> uuid \<Rightarrow> CError \<Rightarrow> int option \<Rightarrow> int \<Rightarrow> ('w, flow_error option) work" where
  "failAttempt env config claim attemptID e status healthGeneration = do {
     completedAt \<leftarrow> silent (ev_Now env);
     update_attempt env claim attemptID ((attempt_update ''failed'')\<lparr>au_HTTPStatus := status, au_ErrorKind := Some (kind_string (ce_Kind e)),
       au_RetryAfterAt := retryAfterAt (ce_RetryAfter e) completedAt, au_CompletedAt := Some completedAt,
       au_Credential := credentialFailure config e completedAt False healthGeneration\<rparr>)
   }"

definition mark_uncertain :: "'w env \<Rightarrow> Claim \<Rightarrow> uuid \<Rightarrow> AttemptUpdate \<Rightarrow> string \<Rightarrow> string \<Rightarrow> ('w, flow_error option) work" where
  "mark_uncertain env claim attemptID update kind detail =
    ask (ev_MarkUncertain env claim attemptID update kind detail) (\<lambda>r. [UncertainMarked claim attemptID update r])"

definition uncertain_error :: CError where
  "uncertain_error = new_error ErrorUncertain ''upstream_outcome_uncertain'' ''upstream request outcome is uncertain''"

definition markNonStreamUncertain ::
  "'w env \<Rightarrow> FlowConfig \<Rightarrow> workflowRun \<Rightarrow> Upstream \<Rightarrow> uuid \<Rightarrow> int option \<Rightarrow> bool \<Rightarrow> ('w, CError) work" where
  "markNonStreamUncertain env config run candidate attemptID status causeCanceled = do {
     now \<leftarrow> silent (ev_Now env);
     let e = uncertain_error\<lparr>ce_RetryAfter := Some \<lparr>rh_DelaySeconds = None, rh_At = Some (now + fc_OpenDuration config)\<rparr>\<rparr>;
     completedAt \<leftarrow> silent (ev_Now env);
     ended \<leftarrow> silent (ev_Canceled env);
     stateErr \<leftarrow> mark_uncertain env (wr_claim run) attemptID ((attempt_update ''uncertain'')\<lparr>au_HTTPStatus := status,
       au_ErrorKind := Some (kind_string (ce_Kind e)), au_CompletedAt := Some completedAt,
       au_Credential := credentialFailure config e completedAt (ended \<or> causeCanceled) (up_HealthGeneration candidate)\<rparr>) (kind_string (ce_Kind e)) (ce_Message e);
     ret (if stateErr \<noteq> None \<and> stateErr \<noteq> Some ErrFenced then storageError ''uncertain_state_failed'' else e)
   }"

definition buildUpstream :: "'w env \<Rightarrow> workflowRun \<Rightarrow> Upstream \<Rightarrow> ('w, CError + string) work" where
  "buildUpstream env run candidate = do {
     adapter \<leftarrow> silent (ev_Adapter env (wr_model run));
     (case adapter of
        Some _ \<Rightarrow> ret (Inl (new_error ErrorProviderConfiguration ''adapter_configuration'' ''provider adapter is invalid''))
      | None \<Rightarrow> do {
          secret \<leftarrow> silent (ev_Secret env (up_ID candidate));
          (case secret of
             Inl _ \<Rightarrow> ret (Inl (new_error ErrorProviderConfiguration ''credential_decryption_failed'' ''provider credential is unavailable''))
           | Inr key \<Rightarrow> do {
               request \<leftarrow> silent (ev_BuildRequest env key (wr_request run));
               (case request of
                  Inl err \<Rightarrow> ret (Inl (asCanonical err ''provider_request_invalid''))
                | Inr request \<Rightarrow> do {
                    client \<leftarrow> silent (ev_Client env);
                    ret (case client of
                       Some _ \<Rightarrow> Inl (new_error ErrorProviderConfiguration ''provider_transport_invalid'' ''provider transport is unavailable'')
                     | None \<Rightarrow> Inr request)
                  })
             })
        })
   }"

definition reconcileLease :: "'w env \<Rightarrow> uuid \<Rightarrow> int \<Rightarrow> Usage \<Rightarrow> ('w, unit) work" where
  "reconcileLease env lease estimatedTokens usage =
    (if us_Source usage \<noteq> UsageAuthoritative \<or> estimatedTokens < 1 then ret ()
     else
       let actualTokens = wrap64 (us_InputTokens usage + us_OutputTokens usage) in
       if actualTokens < 0 \<or> actualTokens \<ge> estimatedTokens then ret ()
       else do { ask (ev_ReconcileLease env lease actualTokens) (\<lambda>_. [LeaseReconciled lease actualTokens]); ret () })"

definition call_upstream :: "'w env \<Rightarrow> uuid \<Rightarrow> string \<Rightarrow> ('w, call_error + HTTPResponse) work" where
  "call_upstream env attemptID request = ask (ev_Do env request) (\<lambda>_. [UpstreamCalled attemptID])"

definition classify_error :: "'w env \<Rightarrow> HTTPResponse \<Rightarrow> string \<Rightarrow> ('w, CError) work" where
  "classify_error env response bytes =
    ask (ev_ClassifyError env (hr_StatusCode response) (hr_Header response) bytes) (\<lambda>e. [UpstreamRefused (hr_StatusCode response) e])"

text \<open>The end of a successful non-stream attempt: the result is published, the attempt and the request are completed.\<close>

definition complete_non_stream ::
  "'w env \<Rightarrow> FlowConfig \<Rightarrow> workflowRun \<Rightarrow> Upstream \<Rightarrow> uuid \<Rightarrow> uuid \<Rightarrow> int \<Rightarrow> ChatResponse \<Rightarrow> ('w, CError + ChatResult) work" where
  "complete_non_stream env config run candidate attemptID lease status parsed0 = do {
     completedAt \<leftarrow> silent (ev_Now env);
     let usage = responseUsage (wr_request run) parsed0;
     let parsed = parsed0\<lparr>cs_ID := publicCompletionID (ac_RequestID (wr_accepted run)), cs_Model := md_PublicName (wr_model run)\<rparr>;
     let result = \<lparr>ct_RequestID = ac_RequestID (wr_accepted run), ct_Response = parsed\<rparr>;
     persistence \<leftarrow> (if cm_ResultSink (wr_command run) then ask (ev_ResultSink env result) (\<lambda>r. [ResultSinkCalled result r]) else ret None);
     updated \<leftarrow> update_attempt env (wr_claim run) attemptID ((attempt_update ''completed'')\<lparr>au_HTTPStatus := Some status,
       au_UpstreamRequestID := optionalString (cs_RequestID parsed), au_FirstByteAt := Some completedAt, au_CompletedAt := Some completedAt,
       au_Usage := Some usage, au_Credential := Some (credentialSuccess completedAt (up_HealthGeneration candidate))\<rparr>);
     (case updated of
        Some _ \<Rightarrow> ret (Inl (storageError ''attempt_completion_failed''))
      | None \<Rightarrow> do {
          completed \<leftarrow> accounting_Complete env (wr_claim run) usage;
          (case completed of
             Some _ \<Rightarrow> ret (Inl (storageError ''usage_completion_failed''))
           | None \<Rightarrow> do {
               reconcileLease env lease (wr_estimatedTokens run) usage;
               ret (case persistence of Some _ \<Rightarrow> Inl (storageError ''result_persistence_failed'') | None \<Rightarrow> Inr result)
             })
        })
   }"

text \<open>The body of \<open>nonStreamAttempt\<close> between the acquisition and the deferred release of its lease.\<close>

definition non_stream_body ::
  "'w env \<Rightarrow> FlowConfig \<Rightarrow> workflowRun \<Rightarrow> Upstream \<Rightarrow> int \<Rightarrow> uuid \<Rightarrow> ('w, CError + ChatResult) work" where
  "non_stream_body env config run candidate sequence lease = do {
     created \<leftarrow> ask (ev_CreateAttempt env (wr_claim run) (up_ID candidate) sequence)
       (\<lambda>r. case r of Inl _ \<Rightarrow> [] | Inr attemptID \<Rightarrow> [AttemptCreated attemptID (up_ID candidate) sequence]);
     (case created of
        Inl _ \<Rightarrow> ret (Inl (storageError ''attempt_create_failed''))
      | Inr attemptID \<Rightarrow> do {
          built \<leftarrow> buildUpstream env run candidate;
          (case built of
             Inl e \<Rightarrow> do { failAttempt env config (wr_claim run) attemptID e None (up_HealthGeneration candidate); ret (Inl e) }
           | Inr request \<Rightarrow> do {
               sentAt \<leftarrow> silent (ev_Now env);
               sending \<leftarrow> update_attempt env (wr_claim run) attemptID ((attempt_update ''sending'')\<lparr>au_SentAt := Some sentAt\<rparr>);
               (case sending of
                  Some _ \<Rightarrow> ret (Inl (storageError ''attempt_state_failed''))
                | None \<Rightarrow> do {
                    reply \<leftarrow> call_upstream env attemptID request;
                    (case reply of
                       Inl err \<Rightarrow> do { e \<leftarrow> markNonStreamUncertain env config run candidate attemptID None (err = CallCanceled); ret (Inl e) }
                     | Inr response \<Rightarrow>
                         (case readResponse response (fc_MaxResponseBytes config) of
                            Inl err \<Rightarrow> do {
                              e \<leftarrow> markNonStreamUncertain env config run candidate attemptID (Some (hr_StatusCode response)) (err = CallCanceled);
                              ret (Inl e)
                            }
                          | Inr bytes \<Rightarrow>
                              if hr_StatusCode response < 200 \<or> hr_StatusCode response > 299 then do {
                                e \<leftarrow> classify_error env response bytes;
                                if hr_StatusCode response \<ge> 500 \<and> \<not> ce_ReplaySafe e then do {
                                  e \<leftarrow> markNonStreamUncertain env config run candidate attemptID (Some (hr_StatusCode response)) False;
                                  ret (Inl e)
                                }
                                else do {
                                  failAttempt env config (wr_claim run) attemptID e (Some (hr_StatusCode response)) (up_HealthGeneration candidate);
                                  ret (Inl e)
                                }
                              }
                              else do {
                                parsed \<leftarrow> silent (ev_ParseResponse env (hr_StatusCode response) (hr_Header response) bytes);
                                (case parsed of
                                   Inl _ \<Rightarrow> do {
                                     e \<leftarrow> markNonStreamUncertain env config run candidate attemptID (Some (hr_StatusCode response)) False;
                                     ret (Inl e)
                                   }
                                 | Inr parsed \<Rightarrow> complete_non_stream env config run candidate attemptID lease (hr_StatusCode response) parsed)
                              }))
                  })
             })
        })
   }"

text \<open>
  The frame of both attempts: a lease is acquired when none is given, and released when the body returns.
\<close>

definition with_lease ::
  "'w env \<Rightarrow> workflowRun \<Rightarrow> Upstream \<Rightarrow> uuid option \<Rightarrow> (CError \<Rightarrow> 'a) \<Rightarrow> (uuid \<Rightarrow> ('w, 'a) work) \<Rightarrow> ('w, 'a) work" where
  "with_lease env run candidate lease refuse attempt_body = do {
     held \<leftarrow> (case lease of Some l \<Rightarrow> ret (Inr l) | None \<Rightarrow> acquire_lease env run candidate);
     (case held of
        Inl err \<Rightarrow> ret (refuse (admissionError err))
      | Inr l \<Rightarrow> do {
          result \<leftarrow> attempt_body l;
          ask (ev_ReleaseLease env l) (\<lambda>_. [LeaseReleased l]);
          ret result
        })
   }"

definition nonStreamAttempt ::
  "'w env \<Rightarrow> FlowConfig \<Rightarrow> workflowRun \<Rightarrow> Upstream \<Rightarrow> int \<Rightarrow> uuid option \<Rightarrow> ('w, CError + ChatResult) work" where
  "nonStreamAttempt env config run candidate sequence lease =
    with_lease env run candidate lease Inl (non_stream_body env config run candidate sequence)"

subsection \<open>stream.go: one attempt\<close>

text \<open>\<open>done\<close> and \<open>doneEvent\<close>, which is only read when \<open>done\<close> is set, are one optional event.\<close>

record streamState =
  st_committed :: bool
  st_doneEvent :: "StreamEvent option"
  st_firstByteAt :: "gotime option"
  st_inputTokens :: int
  st_outputTokens :: int
  st_usageSource :: UsageSource

definition stream_state0 :: streamState where
  "stream_state0 = \<lparr>st_committed = False, st_doneEvent = None, st_firstByteAt = None, st_inputTokens = 0, st_outputTokens = 0, st_usageSource = UsageUnset\<rparr>"

definition stream_usage :: "streamState \<Rightarrow> Usage" where
  "stream_usage state = \<lparr>us_InputTokens = st_inputTokens state, us_OutputTokens = st_outputTokens state,
     us_Source = (if st_usageSource state = UsageUnset then UsageUnknown else st_usageSource state)\<rparr>"

definition count_event :: "StreamEvent \<Rightarrow> streamState \<Rightarrow> streamState" where
  "count_event event state = (case se_Usage event of
     Some u \<Rightarrow> state\<lparr>st_inputTokens := (case tu_InputTokens u of None \<Rightarrow> st_inputTokens state | Some n \<Rightarrow> n),
         st_outputTokens := (case tu_OutputTokens u of None \<Rightarrow> st_outputTokens state | Some n \<Rightarrow> n), st_usageSource := tu_Source u\<rparr>
   | None \<Rightarrow> state\<lparr>st_outputTokens := wrap64 (st_outputTokens state + EstimatedOutputTokens [event])\<rparr>)"

definition send_event :: "'w env \<Rightarrow> uuid \<Rightarrow> StreamEvent \<Rightarrow> ('w, string option) work" where
  "send_event env requestID event = ask (ev_Sink env requestID event) (\<lambda>r. [EventSent requestID event r])"

definition mark_streaming :: "'w env \<Rightarrow> Claim \<Rightarrow> uuid \<Rightarrow> AttemptUpdate \<Rightarrow> ('w, flow_error option) work" where
  "mark_streaming env claim attemptID update = ask (ev_MarkStreaming env claim attemptID update) (\<lambda>r. [StreamingMarked attemptID update r])"

text \<open>The first event that is no error commits the stream before anything reaches the client.\<close>

definition commit_stream :: "'w env \<Rightarrow> workflowRun \<Rightarrow> uuid \<Rightarrow> int \<Rightarrow> streamState \<Rightarrow> ('w, CError + streamState) work" where
  "commit_stream env run attemptID status state =
    (if st_committed state then ret (Inr state)
     else do {
       now \<leftarrow> silent (ev_Now env);
       marked \<leftarrow> mark_streaming env (wr_claim run) attemptID ((attempt_update ''streaming'')\<lparr>au_HTTPStatus := Some status, au_FirstByteAt := Some now\<rparr>);
       ret (case marked of
          Some _ \<Rightarrow> Inl (storageError ''stream_commit_failed'')
        | None \<Rightarrow> Inr (state\<lparr>st_firstByteAt := Some now, st_committed := True\<rparr>))
     })"

fun emitEvents :: "'w env \<Rightarrow> workflowRun \<Rightarrow> uuid \<Rightarrow> int \<Rightarrow> streamState \<Rightarrow> StreamEvent list \<Rightarrow> ('w, streamState \<times> CError option) work" where
  "emitEvents env run attemptID status state [] = ret (state, None)"
| "emitEvents env run attemptID status state (event0 # events) =
    (let event = event0\<lparr>se_CompletionID := publicCompletionID (ac_RequestID (wr_accepted run)), se_Model := md_PublicName (wr_model run)\<rparr> in
     if se_Type event = StreamError then
       ret (state, Some (case se_Error event of
          Some e \<Rightarrow> e
        | None \<Rightarrow> new_error ErrorStreamInterrupted ''provider_stream_error'' ''provider stream failed''))
     else do {
       committed \<leftarrow> commit_stream env run attemptID status state;
       (case committed of
          Inl e \<Rightarrow> ret (state, Some e)
        | Inr state \<Rightarrow>
            let state = count_event event state in
            if se_Type event = StreamDone then emitEvents env run attemptID status (state\<lparr>st_doneEvent := Some event\<rparr>) events
            else if se_Type event = StreamUsage \<and> cq_StreamUsage (wr_request run) \<noteq> Some True then emitEvents env run attemptID status state events
            else do {
              sent \<leftarrow> send_event env (cl_RequestID (wr_claim run)) event;
              (case sent of
                 Some _ \<Rightarrow> ret (state, Some (new_error ErrorStreamInterrupted ''client_stream_interrupted'' ''client stopped receiving the stream''))
               | None \<Rightarrow> emitEvents env run attemptID status state events)
            })
     })"

text \<open>One \<open>Body.Read\<close> into a buffer of \<open>n\<close> bytes; a longer piece takes several reads.\<close>

definition next_read :: "nat \<Rightarrow> body \<Rightarrow> (string \<times> read_outcome) \<times> body" where
  "next_read n body = (case body of
     [] \<Rightarrow> (([], ReadEOF), [])
   | (bytes, out) # rest \<Rightarrow> if length bytes \<le> n then ((bytes, out), rest) else ((take n bytes, MoreToRead), (drop n bytes, out) # rest))"

definition body_size :: "body \<Rightarrow> nat" where
  "body_size body = (\<Sum>piece \<leftarrow> body. Suc (length (fst piece)))"

lemma next_read_smaller: "0 < n \<Longrightarrow> next_read n body = ((bytes, MoreToRead), rest) \<Longrightarrow> body_size rest < body_size body"
  by (auto simp: next_read_def body_size_def split: list.splits if_splits)

function stream_loop :: "'w env \<Rightarrow> workflowRun \<Rightarrow> uuid \<Rightarrow> int \<Rightarrow> streamState \<Rightarrow> body \<Rightarrow> ('w, streamState \<times> CError option) work" where
  "stream_loop env run attemptID status state body = (case next_read 32768 body of ((bytes, out), rest) \<Rightarrow> do {
     step \<leftarrow> (if bytes \<noteq> [] then do {
         fed \<leftarrow> silent (ev_Feed env bytes);
         (case fed of
            Inl err \<Rightarrow> ret (state, Some (asCanonical err ''malformed_provider_stream''))
          | Inr events \<Rightarrow> emitEvents env run attemptID status state events)
       } else ret (state, None));
     (case snd step of
        Some e \<Rightarrow> ret (fst step, Some e)
      | None \<Rightarrow> (case out of
          ReadEOF \<Rightarrow> ret (fst step, None)
        | ReadFailure _ \<Rightarrow> ret (fst step, Some (new_error ErrorStreamInterrupted ''provider_stream_read_failed'' ''provider stream was interrupted''))
        | MoreToRead \<Rightarrow> stream_loop env run attemptID status (fst step) rest))
   })"
  by pat_completeness auto
termination
  by (relation "measure (\<lambda>(env, run, attemptID, status, state, body). body_size body)") (auto intro: next_read_smaller [of 32768, OF _ sym])

declare stream_loop.simps [simp del]

definition finishBrokenStream ::
  "'w env \<Rightarrow> FlowConfig \<Rightarrow> workflowRun \<Rightarrow> Upstream \<Rightarrow> uuid \<Rightarrow> streamState \<Rightarrow> CError \<Rightarrow> ('w, bool \<times> (CError + unit)) work" where
  "finishBrokenStream env config run candidate attemptID state providerError = do {
     completedAt \<leftarrow> silent (ev_Now env);
     let e = (if st_committed state then providerError\<lparr>ce_Kind := ErrorStreamInterrupted\<rparr>
       else providerError\<lparr>ce_Kind := ErrorUncertain, ce_Code := ''upstream_outcome_uncertain'', ce_Message := ''upstream request outcome is uncertain'',
         ce_HTTPStatus := 0, ce_RetryAfter := Some \<lparr>rh_DelaySeconds = None, rh_At = Some (completedAt + fc_OpenDuration config)\<rparr>\<rparr>);
     let usage = stream_usage state;
     ended \<leftarrow> silent (ev_Canceled env);
     stateErr \<leftarrow> mark_uncertain env (wr_claim run) attemptID ((attempt_update ''uncertain'')\<lparr>au_ErrorKind := Some (kind_string (ce_Kind e)),
       au_FirstByteAt := st_firstByteAt state, au_CompletedAt := Some completedAt,
       au_Credential := credentialFailure config e completedAt (ended \<or> ce_Code e = ''client_stream_interrupted'') (up_HealthGeneration candidate),
       au_Usage := (if us_Source usage \<noteq> UsageUnknown then Some usage else None)\<rparr>) (kind_string (ce_Kind e)) (ce_Message e);
     ret (st_committed state, Inl (if stateErr \<noteq> None \<and> stateErr \<noteq> Some ErrFenced then storageError ''uncertain_state_failed'' else e))
   }"

text \<open>The end of a stream that arrived whole.\<close>

definition complete_stream ::
  "'w env \<Rightarrow> FlowConfig \<Rightarrow> workflowRun \<Rightarrow> Upstream \<Rightarrow> uuid \<Rightarrow> uuid \<Rightarrow> int \<Rightarrow> streamState \<Rightarrow> StreamEvent \<Rightarrow> ('w, bool \<times> (CError + unit)) work" where
  "complete_stream env config run candidate attemptID lease status state doneEvent = do {
     completedAt \<leftarrow> silent (ev_Now env);
     let usage = stream_usage state;
     updated \<leftarrow> update_attempt env (wr_claim run) attemptID ((attempt_update ''completed'')\<lparr>au_HTTPStatus := Some status,
       au_FirstByteAt := st_firstByteAt state, au_CompletedAt := Some completedAt, au_Usage := Some usage,
       au_Credential := Some (credentialSuccess completedAt (up_HealthGeneration candidate))\<rparr>);
     (case updated of
        Some _ \<Rightarrow> ret (st_committed state, Inl (storageError ''attempt_completion_failed''))
      | None \<Rightarrow> do {
          completed \<leftarrow> accounting_Complete env (wr_claim run) usage;
          (case completed of
             Some _ \<Rightarrow> ret (st_committed state, Inl (storageError ''usage_completion_failed''))
           | None \<Rightarrow> do {
               reconcileLease env lease (wr_estimatedTokens run) usage;
               sent \<leftarrow> send_event env (ac_RequestID (wr_accepted run)) doneEvent;
               ret (case sent of
                  Some _ \<Rightarrow> (True, Inl (new_error ErrorStreamInterrupted ''client_stream_interrupted'' ''client stopped receiving the stream completion''))
                | None \<Rightarrow> (st_committed state, Inr ()))
             })
        })
   }"

definition read_stream ::
  "'w env \<Rightarrow> FlowConfig \<Rightarrow> workflowRun \<Rightarrow> Upstream \<Rightarrow> uuid \<Rightarrow> uuid \<Rightarrow> HTTPResponse \<Rightarrow> ('w, bool \<times> (CError + unit)) work" where
  "read_stream env config run candidate attemptID lease response = do {
     let state = stream_state0\<lparr>st_inputTokens := EstimateInputTokens (wr_request run), st_usageSource := UsageEstimated\<rparr>;
     streamed \<leftarrow> stream_loop env run attemptID (hr_StatusCode response) state (hr_Body response);
     (case snd streamed of
        Some e \<Rightarrow> finishBrokenStream env config run candidate attemptID (fst streamed) e
      | None \<Rightarrow> do {
          closing \<leftarrow> silent (ev_CloseParser env);
          (case closing of
             Inl err \<Rightarrow> finishBrokenStream env config run candidate attemptID (fst streamed) (asCanonical err ''malformed_provider_stream'')
           | Inr events \<Rightarrow> do {
               closed \<leftarrow> emitEvents env run attemptID (hr_StatusCode response) (fst streamed) events;
               (case snd closed of
                  Some e \<Rightarrow> finishBrokenStream env config run candidate attemptID (fst closed) e
                | None \<Rightarrow> (case st_doneEvent (fst closed) of
                    None \<Rightarrow> finishBrokenStream env config run candidate attemptID (fst closed)
                      (new_error ErrorStreamInterrupted ''provider_stream_incomplete'' ''provider stream ended without completion'')
                  | Some doneEvent \<Rightarrow> complete_stream env config run candidate attemptID lease (hr_StatusCode response) (fst closed) doneEvent))
             })
        })
   }"

definition stream_body ::
  "'w env \<Rightarrow> FlowConfig \<Rightarrow> workflowRun \<Rightarrow> Upstream \<Rightarrow> int \<Rightarrow> uuid \<Rightarrow> ('w, bool \<times> (CError + unit)) work" where
  "stream_body env config run candidate sequence lease = do {
     created \<leftarrow> ask (ev_CreateAttempt env (wr_claim run) (up_ID candidate) sequence)
       (\<lambda>r. case r of Inl _ \<Rightarrow> [] | Inr attemptID \<Rightarrow> [AttemptCreated attemptID (up_ID candidate) sequence]);
     (case created of
        Inl _ \<Rightarrow> ret (False, Inl (storageError ''attempt_create_failed''))
      | Inr attemptID \<Rightarrow> do {
          built \<leftarrow> buildUpstream env run candidate;
          (case built of
             Inl e \<Rightarrow> do { failAttempt env config (wr_claim run) attemptID e None (up_HealthGeneration candidate); ret (False, Inl e) }
           | Inr request \<Rightarrow> do {
               sentAt \<leftarrow> silent (ev_Now env);
               sending \<leftarrow> update_attempt env (wr_claim run) attemptID ((attempt_update ''sending'')\<lparr>au_SentAt := Some sentAt\<rparr>);
               (case sending of
                  Some _ \<Rightarrow> ret (False, Inl (storageError ''attempt_state_failed''))
                | None \<Rightarrow> do {
                    reply \<leftarrow> call_upstream env attemptID request;
                    (case reply of
                       Inl _ \<Rightarrow> finishBrokenStream env config run candidate attemptID stream_state0 uncertain_error
                     | Inr response \<Rightarrow>
                         if hr_StatusCode response < 200 \<or> hr_StatusCode response > 299 then
                           (case readResponse response (fc_MaxResponseBytes config) of
                              Inl _ \<Rightarrow> finishBrokenStream env config run candidate attemptID stream_state0
                                (new_error ErrorProviderTemporary ''provider_response_read_failed'' ''provider response could not be read'')
                            | Inr bytes \<Rightarrow> do {
                                e \<leftarrow> classify_error env response bytes;
                                if hr_StatusCode response \<ge> 500 \<and> \<not> ce_ReplaySafe e then
                                  finishBrokenStream env config run candidate attemptID stream_state0 e
                                else do {
                                  failAttempt env config (wr_claim run) attemptID e (Some (hr_StatusCode response)) (up_HealthGeneration candidate);
                                  ret (False, Inl e)
                                }
                              })
                         else read_stream env config run candidate attemptID lease response)
                  })
             })
        })
   }"

definition streamAttempt ::
  "'w env \<Rightarrow> FlowConfig \<Rightarrow> workflowRun \<Rightarrow> Upstream \<Rightarrow> int \<Rightarrow> uuid option \<Rightarrow> ('w, bool \<times> (CError + unit)) work" where
  "streamAttempt env config run candidate sequence lease =
    with_lease env run candidate lease (\<lambda>e. (False, Inl e)) (stream_body env config run candidate sequence)"

subsection \<open>chat.go, stream.go: the loop over attempts\<close>

definition waitUntil :: "'w env \<Rightarrow> gotime \<Rightarrow> gotime \<Rightarrow> ('w, bool) work" where
  "waitUntil env until now = (let delay = time_sub until now in if delay \<le> 0 then ret False else silent (ev_Wait env delay))"

definition retry_input :: "int \<Rightarrow> gotime \<Rightarrow> CError \<Rightarrow> RetryInput" where
  "retry_input attemptNumber startedAt e = \<lparr>ri_Attempt = attemptNumber, ri_RequestStartedAt = startedAt, ri_Failure = failureClass (ce_Kind e),
     ri_SendBoundary = SendRejected, ri_ClientBoundary = ClientUncommitted, ri_IdempotencyGuaranteed = False, ri_RetryAfter = retryAfter (ce_RetryAfter e)\<rparr>"

definition schedules :: "rerror + RetryDecision \<Rightarrow> gotime option" where
  "schedules decision = (case decision of Inl _ \<Rightarrow> None | Inr d \<Rightarrow> if rd_Action d = RetrySchedule then Some (rd_NextAttemptAt d) else None)"

text \<open>
  The loop that \<open>Chat\<close> and \<open>Stream\<close> share; they differ in the attempt and in which of its errors are \<open>final\<close>, returned without another
  attempt and without a record of the accounting. The first argument bounds the number of attempts, as above.
\<close>

fun attempt_loop ::
  "nat \<Rightarrow> 'w env \<Rightarrow> FlowConfig \<Rightarrow> 'c RetryPolicy \<Rightarrow> workflowRun \<Rightarrow> (Upstream \<Rightarrow> int \<Rightarrow> uuid option \<Rightarrow> ('w, bool \<times> (CError + 'a)) work) \<Rightarrow>
   (bool \<Rightarrow> CError \<Rightarrow> bool) \<Rightarrow> gotime \<Rightarrow> CandidateID list \<Rightarrow> int \<Rightarrow> ('w, (CError + 'a) option) work" where
  "attempt_loop 0 env config retry run attempt final startedAt excluded attemptNumber = ret None"
| "attempt_loop (Suc rounds) env config retry run attempt final startedAt excluded attemptNumber = do {
     decision \<leftarrow> attemptDecision (Suc (length (wr_candidates run))) env run excluded None False;
     (case decision of
        None \<Rightarrow> ret None
      | Some (excluded, Inl e) \<Rightarrow> do { accounting_Fail env (wr_claim run) (ce_Code e) (ce_Message e); ret (Some (Inl e)) }
      | Some (excluded, Inr (candidate, lease)) \<Rightarrow> do {
          outcome \<leftarrow> attempt candidate attemptNumber (Some lease);
          observeAttempt (md_ProviderKind (wr_model run)) (case snd outcome of Inl e \<Rightarrow> Some e | Inr _ \<Rightarrow> None);
          (case snd outcome of
             Inr result \<Rightarrow> ret (Some (Inr result))
           | Inl e \<Rightarrow>
               if final (fst outcome) e then ret (Some (Inl e))
               else if shouldTryNextCandidate e \<and> length excluded + 1 < length (wr_candidates run) then
                 attempt_loop rounds env config retry run attempt final startedAt (excluded @ [up_ID candidate]) (attemptNumber + 1)
               else do {
                 now \<leftarrow> silent (ev_Now env);
                 draw \<leftarrow> silent (ev_Jitter env);
                 (case schedules (Decide (retry\<lparr>rp_random := map_option (\<lambda>_. draw) (rp_random retry)\<rparr>) now (retry_input attemptNumber startedAt e)) of
                    None \<Rightarrow> do {
                      now \<leftarrow> silent (ev_Now env);
                      let e = ensureClientRetryAfter config now e;
                      accounting_Fail env (wr_claim run) (ce_Code e) (ce_Message e);
                      ret (Some (Inl e))
                    }
                  | Some nextAttemptAt \<Rightarrow> do {
                      let excluded = excluded @ [up_ID candidate];
                      let excluded = (if length excluded = length (wr_candidates run) then [] else excluded);
                      now \<leftarrow> silent (ev_Now env);
                      canceled \<leftarrow> waitUntil env nextAttemptAt now;
                      if canceled then do {
                        accounting_Fail env (wr_claim run) ''canceled'' ''request canceled during retry wait'';
                        ret (Some (Inl (new_error Canonical.ErrorInvalidRequest ''request_canceled'' ''request was canceled'')))
                      }
                      else attempt_loop rounds env config retry run attempt final startedAt excluded (attemptNumber + 1)
                    })
               })
        })
   }"

subsection \<open>service.go: preparation\<close>

definition release_admission :: "bool \<Rightarrow> ('w, unit) work" where
  "release_admission permit = (if permit then note_effect AdmissionReleased else ret ())"

definition prepare_refusal :: "'w env \<Rightarrow> bool \<Rightarrow> uuid \<Rightarrow> string \<Rightarrow> string \<Rightarrow> CError \<Rightarrow> ('w, CError + workflowRun) work" where
  "prepare_refusal env permit requestID code detail e = do {
     release_admission permit;
     accounting_FailAccepted env requestID code detail;
     ret (Inl e)
   }"

text \<open>\<open>prepare\<close> once the request is accepted: candidates, the link to the caller, the claim.\<close>

definition prepare_execution ::
  "'w env \<Rightarrow> ChatCommand \<Rightarrow> Model \<Rightarrow> bool \<Rightarrow> Accepted \<Rightarrow> ('w, CError + workflowRun) work" where
  "prepare_execution env command model permit accepted = do {
     listed \<leftarrow> silent (ev_ListCandidates env (ac_ResourcePoolID accepted) (md_ID model));
     (case listed of
        Inl _ \<Rightarrow> prepare_refusal env permit (ac_RequestID accepted) ''candidate_lookup_failed'' ''upstream candidates could not be read''
          (new_error ErrorStorageUnavailable ''candidate_lookup_failed'' ''upstream candidates could not be read'')
      | Inr candidates \<Rightarrow>
          if candidates = [] then
            prepare_refusal env permit (ac_RequestID accepted) ''resource_pool_unavailable'' ''no eligible upstream credential is available''
              (new_error ErrorProviderTemporary poolUnavailableCode ''no eligible upstream credential is available'')
          else do {
            linked \<leftarrow> (if cm_AcceptedSink command
              then ask (ev_AcceptedSink env (ac_RequestID accepted)) (\<lambda>r. [AcceptedSinkCalled (ac_RequestID accepted) r]) else ret None);
            (case linked of
               Some _ \<Rightarrow> prepare_refusal env permit (ac_RequestID accepted) ''acceptance_persistence_failed''
                 ''accepted request could not be linked to its caller'' (storageError ''acceptance_persistence_failed'')
             | None \<Rightarrow> do {
                 executionID \<leftarrow> silent (ev_NewUUID env);
                 claimed \<leftarrow> ask (ev_ClaimExecution env (ac_RequestID accepted) executionID) (\<lambda>r. case r of Inl _ \<Rightarrow> [] | Inr claim \<Rightarrow> [ExecutionClaimed claim]);
                 (case claimed of
                    Inl _ \<Rightarrow> prepare_refusal env permit (ac_RequestID accepted) ''execution_claim_failed'' ''request execution could not be claimed''
                      (storageError ''execution_claim_failed'')
                  | Inr claim \<Rightarrow> do {
                      note_effect HeartbeatStarted;
                      ret (Inr \<lparr>wr_command = command, wr_model = model, wr_request = (cm_Request command)\<lparr>cq_Model := md_UpstreamName model\<rparr>,
                        wr_accepted = accepted, wr_claim = claim, wr_admissionPermit = permit, wr_candidates = candidates,
                        wr_estimatedTokens = EstimateTokens (cm_Request command)\<rparr>)
                    })
               })
          })
   }"

definition prepare_accept :: "'w env \<Rightarrow> ChatCommand \<Rightarrow> Model \<Rightarrow> uuid \<Rightarrow> bool \<Rightarrow> ('w, CError + workflowRun) work" where
  "prepare_accept env command model requestID permit = do {
     accept \<leftarrow> accounting_AcceptRequest env \<lparr>am_RequestID = requestID, am_UserID = cm_UserID command, am_GatewayKeyID = cm_KeyID command,
       am_ModelID = md_ID model, am_IdempotencyKey = cm_IdempotencyKey command, am_RequestDigest = cm_RequestDigest command,
       am_Stream = cq_Stream (cm_Request command)\<rparr>;
     (case accept of
        Inl err \<Rightarrow> do { release_admission permit; ret (Inl (workflowError err)) }
      | Inr accepted \<Rightarrow>
          if ac_Existing accepted then do {
            release_admission permit;
            ret (Inl ((new_error Canonical.ErrorInvalidRequest ''request_already_accepted'' ''idempotent request already exists'')\<lparr>ce_HTTPStatus := 409\<rparr>))
          }
          else if ac_RequestID accepted \<noteq> requestID \<or> ac_ResourcePoolID accepted = uuid_nil then do {
            release_admission permit;
            (if ac_RequestID accepted \<noteq> uuid_nil
             then accounting_FailAccepted env (ac_RequestID accepted) ''invalid_acceptance'' ''accepted request is missing its coordination capacity''
             else ret None);
            ret (Inl (new_error ErrorInternalInvariant ''invalid_acceptance'' ''accepted request is missing required execution capacity''))
          }
          else prepare_execution env command model permit accepted)
   }"

definition prepare :: "'w env \<Rightarrow> ChatCommand \<Rightarrow> ('w, CError + workflowRun) work" where
  "prepare env command = do {
     resolved \<leftarrow> silent (ev_ResolveModel env (cm_KeyID command) (cq_Model (cm_Request command)));
     (case resolved of
        Inl err \<Rightarrow> ret (Inl (workflowError err))
      | Inr model \<Rightarrow>
          (case validateCapabilities model (cm_Request command) of
             Some e \<Rightarrow> ret (Inl e)
           | None \<Rightarrow>
               if mc_ContextTokens (md_Capabilities model) > 0 \<and> EstimateTokens (cm_Request command) > mc_ContextTokens (md_Capabilities model) then
                 ret (Inl ((new_error Canonical.ErrorInvalidRequest ''context_length_exceeded'' ''request exceeds the configured model context'')
                   \<lparr>ce_Parameter := ''messages'', ce_HTTPStatus := 400\<rparr>))
               else do {
                 fresh \<leftarrow> (if cm_RequestID command = uuid_nil then silent (ev_NewUUID env) else ret (cm_RequestID command));
                 admitted \<leftarrow> ask (ev_Admit env \<lparr>ar_RequestID = fresh, ar_UserID = cm_UserID command\<rparr>)
                   (\<lambda>r. case r of Inl _ \<Rightarrow> [] | Inr permit \<Rightarrow> if permit then [AdmissionTaken] else []);
                 (case admitted of
                    Inl err \<Rightarrow> ret (Inl (admissionError err))
                  | Inr permit \<Rightarrow> prepare_accept env command model fresh permit)
               }))
   }"

subsection \<open>chat.go, stream.go: the two entry points\<close>

text \<open>The errors of an attempt that each entry point returns at once.\<close>

definition chat_final :: "bool \<Rightarrow> CError \<Rightarrow> bool" where
  "chat_final committed e = (ce_Kind e = ErrorUncertain)"

definition stream_final :: "bool \<Rightarrow> CError \<Rightarrow> bool" where
  "stream_final committed e = (committed \<or> ce_Kind e = ErrorUncertain \<or> ce_Kind e = ErrorStreamInterrupted)"

definition chat_attempt :: "'w env \<Rightarrow> FlowConfig \<Rightarrow> workflowRun \<Rightarrow> Upstream \<Rightarrow> int \<Rightarrow> uuid option \<Rightarrow> ('w, bool \<times> (CError + ChatResult)) work" where
  "chat_attempt env config run candidate sequence lease = do { r \<leftarrow> nonStreamAttempt env config run candidate sequence lease; ret (False, r) }"

definition attempt_bound :: "'c RetryPolicy \<Rightarrow> workflowRun \<Rightarrow> nat" where
  "attempt_bound retry run = nat (rc_MaxAttempts (rp_config retry)) + length (wr_candidates run)"

definition run_execution :: "workflowRun \<Rightarrow> ('w, 'a) work \<Rightarrow> ('w, 'a) work" where
  "run_execution run execution = do {
     result \<leftarrow> execution;
     note_effect HeartbeatStopped;
     release_admission (wr_admissionPermit run);
     ret result
   }"

definition Chat :: "'w env \<Rightarrow> FlowConfig \<Rightarrow> 'c RetryPolicy \<Rightarrow> ChatCommand \<Rightarrow> ('w, (CError + ChatResult) option) work" where
  "Chat env config retry command = do {
     prepared \<leftarrow> prepare env command;
     (case prepared of
        Inl e \<Rightarrow> ret (Some (Inl e))
      | Inr run \<Rightarrow> run_execution run (
          if cq_Stream (wr_request run) then do {
            accounting_Fail env (wr_claim run) ''invalid_request'' ''stream request used non-stream workflow'';
            ret (Some (Inl ((new_error Canonical.ErrorInvalidRequest ''stream_requires_stream_endpoint'' ''streaming request requires a stream sink'')
              \<lparr>ce_Parameter := ''stream'', ce_HTTPStatus := 400\<rparr>)))
          }
          else do {
            startedAt \<leftarrow> silent (ev_Now env);
            attempt_loop (attempt_bound retry run) env config retry run (chat_attempt env config run) chat_final startedAt [] 1
          }))
   }"

definition Stream :: "'w env \<Rightarrow> FlowConfig \<Rightarrow> 'c RetryPolicy \<Rightarrow> ChatCommand \<Rightarrow> bool \<Rightarrow> ('w, (CError + unit) option) work" where
  "Stream env config retry command sink =
    (if \<not> sink then ret (Some (Inl (new_error ErrorInternalInvariant ''missing_stream_sink'' ''stream sink is required'')))
     else do {
       prepared \<leftarrow> prepare env command;
       (case prepared of
          Inl e \<Rightarrow> ret (Some (Inl e))
        | Inr run \<Rightarrow> run_execution run (
            if \<not> cq_Stream (wr_request run) then do {
              accounting_Fail env (wr_claim run) ''invalid_request'' ''non-stream request used stream workflow'';
              ret (Some (Inl ((new_error Canonical.ErrorInvalidRequest ''stream_not_enabled'' ''stream must be true'')
                \<lparr>ce_Parameter := ''stream'', ce_HTTPStatus := 400\<rparr>)))
            }
            else do {
              startedAt \<leftarrow> silent (ev_Now env);
              attempt_loop (attempt_bound retry run) env config retry run (streamAttempt env config run)
                stream_final startedAt [] 1
            }))
     })"

subsection \<open>recovery.go\<close>

fun recover_completions :: "'w env \<Rightarrow> RecoverableCompletion list \<Rightarrow> int \<Rightarrow> flow_error list \<Rightarrow> ('w, int \<times> flow_error list) work" where
  "recover_completions env [] completed errs = ret (completed, errs)"
| "recover_completions env (c # cs) completed errs = do {
     r \<leftarrow> accounting_Complete env (rv_Claim c) (rv_Usage c);
     (case r of
        None \<Rightarrow> recover_completions env cs (completed + 1) errs
      | Some err \<Rightarrow> recover_completions env cs completed (if err = ErrFenced then errs else errs @ [err]))
   }"

fun recover_queued :: "'w env \<Rightarrow> uuid list \<Rightarrow> int \<Rightarrow> flow_error list \<Rightarrow> ('w, int \<times> flow_error list) work" where
  "recover_queued env [] failed errs = ret (failed, errs)"
| "recover_queued env (requestID # rest) failed errs = do {
     r \<leftarrow> accounting_FailAccepted env requestID ''execution_abandoned'' ''request was accepted but no execution claimed it'';
     (case r of
        None \<Rightarrow> recover_queued env rest (failed + 1) errs
      | Some err \<Rightarrow> recover_queued env rest failed (if err = ErrFenced then errs else errs @ [err]))
   }"

definition RecoverOnce :: "'w env \<Rightarrow> gotime \<Rightarrow> int \<Rightarrow> ('w, RecoveryResult \<times> flow_error list) work" where
  "RecoverOnce env staleBefore batchSize =
    (if is_zero staleBefore \<or> batchSize < 1 \<or> batchSize > 1000 then
       ret (\<lparr>rr_Completed = 0, rr_FailedAccepted = 0, rr_Uncertain = 0\<rparr>, [OtherError ''invalid request recovery input''])
     else do {
       listed \<leftarrow> silent (ev_ListCompletions env staleBefore batchSize);
       (case listed of
          Inl err \<Rightarrow> ret (\<lparr>rr_Completed = 0, rr_FailedAccepted = 0, rr_Uncertain = 0\<rparr>, [err])
        | Inr completions \<Rightarrow> do {
            completed \<leftarrow> recover_completions env completions 0 [];
            queued \<leftarrow> silent (ev_ListQueued env staleBefore batchSize);
            (case queued of
               Inl err \<Rightarrow> ret (\<lparr>rr_Completed = fst completed, rr_FailedAccepted = 0, rr_Uncertain = 0\<rparr>, snd completed @ [err])
             | Inr requests \<Rightarrow> do {
                 failed \<leftarrow> recover_queued env requests 0 (snd completed);
                 stale \<leftarrow> silent (ev_RecoverStale env staleBefore batchSize);
                 ret (\<lparr>rr_Completed = fst completed, rr_FailedAccepted = fst failed, rr_Uncertain = fst stale\<rparr>,
                   snd failed @ (case snd stale of None \<Rightarrow> [] | Some err \<Rightarrow> [err]))
               })
          })
     })"

end
