(* ===== verification/Ledger.thy ===== *)
theory Ledger
  imports Database RequestFlow
begin

text \<open>
  The repositories of the request workflow: \<open>internal/store/request\_repository.go\<close>, \<open>request\_acceptance.go\<close>, \<open>request\_resolution.go\<close> and the errors of
  \<open>usage\_repository.go\<close>. A transaction is atomic: the statements lock the rows they depend on. What can go wrong outside the statements is its \<open>fate\<close>: the
  connection fails before it starts, the commit is refused, or the answer to a commit that happened is lost.
\<close>

subsection \<open>Transactions\<close>

datatype fate = Runs | BeginFails pg_error | CommitRefused pg_error | CommitLost string

definition transact :: "fate \<Rightarrow> (pg_error \<Rightarrow> 'e) \<Rightarrow> (pg \<Rightarrow> ('e + 'a) \<times> pg) \<Rightarrow> pg \<Rightarrow> ('e + 'a) \<times> pg" where
  "transact fate failure body db =
    (case fate of
       BeginFails e \<Rightarrow> (Inl (failure e), db)
     | _ \<Rightarrow> (case body db of
         (Inl e, _) \<Rightarrow> (Inl e, db)
       | (Inr a, db') \<Rightarrow> (case fate of
           CommitRefused e \<Rightarrow> (Inl (failure e), db)
         | CommitLost text \<Rightarrow> (Inl (failure (PgConnection text)), db')
         | _ \<Rightarrow> (Inr a, db'))))"

text \<open>A statement and what follows it in the transaction.\<close>

definition query :: "('d + 'a) \<times> pg \<Rightarrow> ('d \<Rightarrow> 'e) \<Rightarrow> ('a \<Rightarrow> pg \<Rightarrow> ('e + 'b) \<times> pg) \<Rightarrow> ('e + 'b) \<times> pg" where
  "query statement failure rest = (case statement of (Inl e, db) \<Rightarrow> (Inl (failure e), db) | (Inr a, db) \<Rightarrow> rest a db)"

definition pg_text :: "pg_error \<Rightarrow> string" where
  "pg_text e = (case e of PgNoRows \<Rightarrow> ''no rows in result set'' | PgCode code \<Rightarrow> code | PgConnection text \<Rightarrow> text)"

definition plain :: "pg_error \<Rightarrow> flow_error" where
  "plain e = OtherError (pg_text e)"

definition executionWriteError :: "pg_error \<Rightarrow> flow_error" where
  "executionWriteError e = (if e = PgNoRows then ErrFenced else plain e)"

subsection \<open>request\_repository.go: reading\<close>

definition ResolveAvailableModel :: "uuid \<Rightarrow> string \<Rightarrow> pg \<Rightarrow> flow_error + Model" where
  "ResolveAvailableModel keyID publicName db =
    (case ResolveAvailableModelForKey keyID publicName db of
       Inl e \<Rightarrow> Inl (if e = PgNoRows then ErrModelNotFound else plain e)
     | Inr (m, p, authorized) \<Rightarrow>
         if \<not> authorized then Inl ErrModelNotAuthorized
         else (case ml_Capabilities m of
           Inl e \<Rightarrow> Inl (OtherError (''decode model capabilities: '' @ e))
         | Inr capabilities \<Rightarrow> Inr \<lparr>md_ID = ml_ID m, md_PublicName = ml_PublicName m, md_UpstreamName = ml_UpstreamName m, md_ProviderID = pv_ID p,
             md_ProviderSlug = pv_Slug p, md_ProviderKind = pv_Kind p, md_ProviderBaseURL = pv_BaseUrl p, md_Capabilities = capabilities,
             md_CreatedAt = ml_CreatedAt m\<rparr>))"

definition candidate_of :: "credential_row \<times> scope_row option \<Rightarrow> Upstream" where
  "candidate_of row = (case row of (c, scope) \<Rightarrow>
     \<lparr>up_ID = pc_ID c, up_RPMLimit = pc_RpmLimit c, up_TPMLimit = pc_TpmLimit c, up_ConcurrencyLimit = pc_ConcurrencyLimit c, up_Priority = pc_Priority c,
      up_Weight = pc_Weight c, up_SharedCapacityScope = map_option sc_Name scope, up_SharedRPMLimit = map_option sc_RpmLimit scope,
      up_SharedTPMLimit = map_option sc_TpmLimit scope, up_SharedConcurrencyLimit = map_option sc_ConcurrencyLimit scope,
      up_SharedDailyTokenLimit = Option.bind scope sc_DailyTokenLimit, up_SharedDailyResetMinuteUTC = Option.bind scope sc_DailyResetMinuteUtc,
      up_ConsecutiveFailures = pc_ConsecutiveFailures c, up_LastSuccessAt = pc_LastSuccessAt c, up_CooldownUntil = pc_CooldownUntil c,
      up_HealthGeneration = pc_HealthGeneration c\<rparr>)"

definition ListCandidates :: "gotime \<Rightarrow> uuid \<Rightarrow> uuid \<Rightarrow> pg \<Rightarrow> Upstream list" where
  "ListCandidates now poolID modelID db = map candidate_of (ListResourcePoolCandidates now poolID modelID db)"

definition ListRecoverableCompletions :: "gotime \<Rightarrow> int \<Rightarrow> pg \<Rightarrow> flow_error + RecoverableCompletion list" where
  "ListRecoverableCompletions staleBefore batchSize db =
    (if is_zero staleBefore \<or> batchSize < 1 \<or> batchSize > 1000 then Inl (OtherError ''invalid recoverable completion input'')
     else
       let rows = ListRecoverableRequestCompletions (pg_time staleBefore) batchSize db in
       case find (\<lambda>(r, a). q_ExecutionID r = None \<or> atm_InputTokens a = None \<or> atm_OutputTokens a = None \<or> q_ExecutionGeneration r < 1) rows of
         Some (r, a) \<Rightarrow> Inl (OtherError (''recoverable completion for request '' @ q_ID r @ '' is incomplete''))
       | None \<Rightarrow> Inr (map (\<lambda>(r, a). \<lparr>rv_Claim = \<lparr>cl_RequestID = q_ID r, cl_ExecutionID = the (q_ExecutionID r), cl_Generation = q_ExecutionGeneration r\<rparr>,
             rv_Usage = \<lparr>us_InputTokens = the (atm_InputTokens a), us_OutputTokens = the (atm_OutputTokens a), us_Source = atm_UsageSource a\<rparr>\<rparr>) rows))"

definition ListStaleQueued :: "gotime \<Rightarrow> int \<Rightarrow> pg \<Rightarrow> flow_error + uuid list" where
  "ListStaleQueued staleBefore batchSize db =
    (if is_zero staleBefore \<or> batchSize < 1 \<or> batchSize > 1000 then Inl (OtherError ''invalid stale queued request input'')
     else Inr (ListStaleQueuedRequests (pg_time staleBefore) batchSize db))"

subsection \<open>request\_repository.go: executions\<close>

definition AcquireHealthPermit :: "gotime \<Rightarrow> fate \<Rightarrow> uuid \<Rightarrow> pg \<Rightarrow> (flow_error + int) \<times> pg" where
  "AcquireHealthPermit now fate i = transact fate plain (\<lambda>db.
     query (AcquireCredentialHealthPermit now i db) (\<lambda>e. if e = PgNoRows then ErrNoEligibleUpstream else plain e) (\<lambda>generation db. (Inr generation, db)))"

definition ClaimExecution :: "gotime \<Rightarrow> fate \<Rightarrow> uuid \<Rightarrow> uuid \<Rightarrow> pg \<Rightarrow> (flow_error + Claim) \<times> pg" where
  "ClaimExecution now fate requestID executionID db =
    (if requestID = uuid_nil \<or> executionID = uuid_nil then (Inl ErrNotClaimable, db)
     else
       case transact fate plain (\<lambda>db. query (ClaimRequestExecution now (Some executionID) requestID db)
           (\<lambda>e. if e = PgNoRows then ErrNotClaimable else plain e) (\<lambda>row db. (Inr row, db))) db of
         (Inl e, db) \<Rightarrow> (Inl e, db)
       | (Inr row, db) \<Rightarrow>
           if q_ExecutionID row \<noteq> Some executionID \<or> q_ExecutionGeneration row < 1 then (Inl ErrFenced, db)
           else (Inr \<lparr>cl_RequestID = requestID, cl_ExecutionID = executionID, cl_Generation = q_ExecutionGeneration row\<rparr>, db))"

definition HeartbeatExecution :: "gotime \<Rightarrow> fate \<Rightarrow> Claim \<Rightarrow> pg \<Rightarrow> (flow_error + unit) \<times> pg" where
  "HeartbeatExecution now fate claim db =
    (if \<not> Valid claim then (Inl ErrFenced, db)
     else transact fate plain (\<lambda>db. query (HeartbeatRequestExecution now (cl_RequestID claim) (Some (cl_ExecutionID claim)) (cl_Generation claim) db)
       executionWriteError (\<lambda>_ db. (Inr (), db))) db)"

fun attemptStatus :: "string \<Rightarrow> AttemptStatus option" where
  "attemptStatus s =
    (if s = ''created'' then Some AtCreated else if s = ''sending'' then Some AtSending else if s = ''streaming'' then Some AtStreaming
     else if s = ''completed'' then Some AtCompleted else if s = ''failed'' then Some AtFailed else if s = ''uncertain'' then Some AtUncertain else None)"

declare attemptStatus.simps [simp del]

definition attemptUpdateParams :: "Claim \<Rightarrow> uuid \<Rightarrow> AttemptUpdate \<Rightarrow> UpdateAttemptParams" where
  "attemptUpdateParams claim attemptID update =
    \<lparr>ua_ID = attemptID, ua_RequestID = cl_RequestID claim, ua_ExecutionID = cl_ExecutionID claim, ua_ExecutionGeneration = cl_Generation claim,
     ua_Status = attemptStatus (au_Status update), ua_HttpStatus = map_option wrap32 (au_HTTPStatus update), ua_UpstreamRequestID = au_UpstreamRequestID update,
     ua_ErrorKind = au_ErrorKind update, ua_RetryAfterAt = map_option pg_time (au_RetryAfterAt update), ua_SentAt = map_option pg_time (au_SentAt update),
     ua_FirstByteAt = map_option pg_time (au_FirstByteAt update), ua_CompletedAt = map_option pg_time (au_CompletedAt update),
     ua_InputTokens = map_option us_InputTokens (au_Usage update), ua_OutputTokens = map_option us_OutputTokens (au_Usage update),
     ua_UsageSource = (case au_Usage update of None \<Rightarrow> UsageUnknown | Some u \<Rightarrow> us_Source u)\<rparr>"

definition recordCredentialObservation :: "uuid \<Rightarrow> CredentialObservation option \<Rightarrow> pg \<Rightarrow> flow_error option \<times> pg" where
  "recordCredentialObservation credentialID observation db =
    (case observation of
       None \<Rightarrow> (None, db)
     | Some ob \<Rightarrow>
         if credentialID = uuid_nil \<or> is_zero (co_ObservedAt ob) then (Some (OtherError ''invalid credential observation''), db)
         else (case co_Kind ob of
           CredentialSucceeded \<Rightarrow> (case RecordCredentialRuntimeSuccess (Some (pg_time (co_ObservedAt ob))) credentialID (co_HealthGeneration ob) db of
               (e, db) \<Rightarrow> (map_option plain e, db))
         | CredentialFailed \<Rightarrow>
             if co_ErrorKind ob = '''' then (Some (OtherError ''credential failure requires an error kind''), db)
             else (case RecordCredentialRuntimeFailure (if co_CooldownUntil ob = None then HealthRepairRequired else HealthCooling)
                 (map_option pg_time (co_CooldownUntil ob)) (Some (co_ErrorKind ob)) credentialID (co_HealthGeneration ob) db of
               (e, db) \<Rightarrow> (map_option plain e, db))))"

definition observing :: "uuid \<Rightarrow> CredentialObservation option \<Rightarrow> (pg \<Rightarrow> (flow_error + 'a) \<times> pg) \<Rightarrow> pg \<Rightarrow> (flow_error + 'a) \<times> pg" where
  "observing credentialID observation rest db =
    (case recordCredentialObservation credentialID observation db of (Some e, db) \<Rightarrow> (Inl e, db) | (None, db) \<Rightarrow> rest db)"

definition CreateAttemptFor :: "gotime \<Rightarrow> fate \<Rightarrow> uuid \<Rightarrow> Claim \<Rightarrow> uuid \<Rightarrow> int \<Rightarrow> pg \<Rightarrow> (flow_error + uuid) \<times> pg" where
  "CreateAttemptFor now fate newID claim credentialID sequence db =
    (if \<not> Valid claim \<or> credentialID = uuid_nil \<or> sequence < 1 then (Inl ErrFenced, db)
     else transact fate plain (\<lambda>db. query (CreateAttempt now newID (cl_RequestID claim) (cl_ExecutionID claim) (cl_Generation claim) credentialID
         (wrap32 sequence) AtCreated db) executionWriteError (\<lambda>a db. (Inr (atm_ID a), db))) db)"

definition UpdateAttemptBy :: "fate \<Rightarrow> Claim \<Rightarrow> uuid \<Rightarrow> AttemptUpdate \<Rightarrow> pg \<Rightarrow> (flow_error + unit) \<times> pg" where
  "UpdateAttemptBy fate claim attemptID update db =
    (if \<not> Valid claim \<or> attemptID = uuid_nil then (Inl ErrFenced, db)
     else if attemptStatus (au_Status update) = None then (Inl (OtherError (''invalid attempt status '' @ au_Status update)), db)
     else transact fate plain (\<lambda>db. query (UpdateAttempt (attemptUpdateParams claim attemptID update) db) executionWriteError
       (\<lambda>a. observing (atm_CredentialID a) (au_Credential update) (\<lambda>db. (Inr (), db)))) db)"

definition MarkExecutionStreaming :: "gotime \<Rightarrow> fate \<Rightarrow> Claim \<Rightarrow> uuid \<Rightarrow> AttemptUpdate \<Rightarrow> pg \<Rightarrow> (flow_error + unit) \<times> pg" where
  "MarkExecutionStreaming now fate claim attemptID update db =
    (if \<not> Valid claim \<or> attemptID = uuid_nil \<or> au_Status update \<noteq> ''streaming'' then (Inl ErrFenced, db)
     else transact fate plain (\<lambda>db. query (UpdateAttempt (attemptUpdateParams claim attemptID update) db) executionWriteError
       (\<lambda>a. observing (atm_CredentialID a) (au_Credential update) (\<lambda>db.
         query (MarkRequestExecutionStreaming now (cl_RequestID claim) (Some (cl_ExecutionID claim)) (cl_Generation claim) db) executionWriteError
           (\<lambda>_ db. (Inr (), db))))) db)"

definition MarkExecutionUncertain :: "gotime \<Rightarrow> fate \<Rightarrow> Claim \<Rightarrow> uuid \<Rightarrow> AttemptUpdate \<Rightarrow> string \<Rightarrow> string \<Rightarrow> pg \<Rightarrow> (flow_error + unit) \<times> pg" where
  "MarkExecutionUncertain now fate claim attemptID update errorKind errorDetail db =
    (if \<not> Valid claim \<or> attemptID = uuid_nil then (Inl ErrFenced, db)
     else transact fate plain (\<lambda>db. query (UpdateAttempt (attemptUpdateParams claim attemptID update) db) executionWriteError
       (\<lambda>_ db. query (MarkRequestExecutionUncertain now (cl_RequestID claim) (Some (cl_ExecutionID claim)) (cl_Generation claim) (Some errorKind)
           (optionalString errorDetail) db) executionWriteError (\<lambda>_ db. (Inr (), db)))) db)"

definition RecoverStaleExecutions :: "gotime \<Rightarrow> fate \<Rightarrow> (uuid \<Rightarrow> bool) \<Rightarrow> gotime \<Rightarrow> int \<Rightarrow> pg \<Rightarrow> (flow_error + int) \<times> pg" where
  "RecoverStaleExecutions now fate locked staleBefore batchSize db =
    (if is_zero staleBefore \<or> batchSize < 1 \<or> batchSize > 1000 then (Inl (OtherError ''invalid stale execution recovery input''), db)
     else transact fate plain (\<lambda>db. query (RecoverStaleRequestExecutions now locked (pg_time staleBefore) batchSize db) plain
       (\<lambda>n db. (Inr n, db))) db)"

subsection \<open>usage\_repository.go: errors\<close>

text \<open>An error inside a transaction is one of the database or one of the domain, which \<open>translateUsageError\<close> wraps and so keeps.\<close>

datatype store_error = StorePg pg_error | StoreUsage usage_error

definition translateUsageError :: "store_error \<Rightarrow> usage_error" where
  "translateUsageError err = (case err of
     StoreUsage e \<Rightarrow> e
   | StorePg PgNoRows \<Rightarrow> UsageNotFound
   | StorePg (PgCode code) \<Rightarrow>
       if code = ''23503'' then UsageNotFound
       else if code \<in> {''23505'', ''40001'', ''40P01''} then UsageConflict
       else if code \<in> {''23514'', ''23502'', ''22P02''} then UsageInvalidInput
       else UsageOther (''usage store: '' @ code)
   | StorePg (PgConnection text) \<Rightarrow> UsageOther (''usage store: '' @ text))"

definition retryableTransaction :: "store_error \<Rightarrow> bool" where
  "retryableTransaction err = (err = StorePg (PgCode ''40001'') \<or> err = StorePg (PgCode ''40P01''))"

subsection \<open>request\_acceptance.go\<close>

definition replayAcceptedRequest :: "AcceptCommand \<Rightarrow> request_row \<Rightarrow> pg \<Rightarrow> (store_error + request_row \<times> bool) \<times> pg" where
  "replayAcceptedRequest input existing db =
    (if q_UserID existing \<noteq> am_UserID input \<or> q_GatewayKeyID existing \<noteq> am_GatewayKeyID input \<or> q_ModelID existing \<noteq> am_ModelID input \<or>
        q_Stream existing \<noteq> am_Stream input \<or> q_RequestDigest existing \<noteq> am_RequestDigest input then (Inl (StoreUsage UsageConflict), db)
     else (Inr (existing, True), db))"

definition accept_new :: "gotime \<Rightarrow> AcceptCommand \<Rightarrow> pg \<Rightarrow> (store_error + request_row \<times> bool) \<times> pg" where
  "accept_new now input db =
    (case GetActiveGatewayKeyForRequest now (am_GatewayKeyID input) (am_UserID input) db of
       Inl e \<Rightarrow> (Inl (if e = PgNoRows then StoreUsage UsageForbidden else StorePg e), db)
     | Inr role \<Rightarrow> (case GetGatewayKeyRoute (am_GatewayKeyID input) (am_ModelID input) db of
         Inl e \<Rightarrow> (Inl (if e = PgNoRows then StoreUsage UsageModelNotAuthorized else StorePg e), db)
       | Inr poolID \<Rightarrow>
           let assigned = find (\<lambda>s. snd s = poolID) (GetApplicableSubscriptionRoutesForUpdate now (am_UserID input) (am_ModelID input) db);
               subscriptionID = (if role = RoleMember then map_option (\<lambda>s. sb_ID (fst s)) assigned else None) in
           if role = RoleMember \<and> subscriptionID = None then (Inl (StoreUsage UsageModelNotAuthorized), db)
           else query (CreateRequest now (am_RequestID input) (am_IdempotencyKey input) (am_RequestDigest input) (am_UserID input) (am_GatewayKeyID input)
             (am_ModelID input) subscriptionID poolID RqQueued (am_Stream input) db) StorePg (\<lambda>row db. (Inr (row, False), db))))"

definition acceptRequestOnce :: "gotime \<Rightarrow> fate \<Rightarrow> AcceptCommand \<Rightarrow> pg \<Rightarrow> (store_error + request_row \<times> bool) \<times> pg" where
  "acceptRequestOnce now fate input = transact fate StorePg (\<lambda>db.
     case am_IdempotencyKey input of
       None \<Rightarrow> accept_new now input db
     | Some key \<Rightarrow> (case GetRequestByIdempotencyKey (am_GatewayKeyID input) (Some key) db of
         Inr existing \<Rightarrow> replayAcceptedRequest input existing db
       | Inl e \<Rightarrow> if e = PgNoRows then accept_new now input db else (Inl (StorePg e), db)))"

text \<open>The loop of \<open>AcceptRequest\<close>: the fates of the attempts that are left, of which there are \<open>requestTransactionAttempts\<close> at first.\<close>

fun accept_attempts :: "gotime \<Rightarrow> AcceptCommand \<Rightarrow> fate list \<Rightarrow> store_error \<Rightarrow> pg \<Rightarrow> (usage_error + request_row \<times> bool) \<times> pg" where
  "accept_attempts now input [] lastErr db = (Inl (translateUsageError lastErr), db)"
| "accept_attempts now input (fate # fates) lastErr db =
    (case acceptRequestOnce now fate input db of
       (Inr accepted, db) \<Rightarrow> (Inr accepted, db)
     | (Inl err, db) \<Rightarrow> if retryableTransaction err then accept_attempts now input fates err db else (Inl (translateUsageError err), db))"

definition requestTransactionAttempts :: nat where
  "requestTransactionAttempts = 4"

definition AcceptRequest :: "gotime \<Rightarrow> (nat \<Rightarrow> fate) \<Rightarrow> AcceptCommand \<Rightarrow> pg \<Rightarrow> (usage_error + request_row \<times> bool) \<times> pg" where
  "AcceptRequest now fates input = accept_attempts now input (map fates [0 ..< requestTransactionAttempts]) (StoreUsage UsageInvariant)"

subsection \<open>request\_resolution.go\<close>

definition validateRequestFence :: "request_row \<Rightarrow> Claim option \<Rightarrow> usage_error option" where
  "validateRequestFence r claim =
    (case claim of
       None \<Rightarrow> if q_ExecutionID r \<noteq> None \<or> q_ExecutionGeneration r \<noteq> 0 \<or> q_Status r \<noteq> RqQueued then Some UsageFenced else None
     | Some c \<Rightarrow>
         if \<not> Valid c \<or> cl_RequestID c \<noteq> q_ID r \<or> q_ExecutionID r \<noteq> Some (cl_ExecutionID c) \<or> q_ExecutionGeneration r \<noteq> cl_Generation c \<or>
           q_Status r \<noteq> RqDispatching \<and> q_Status r \<noteq> RqStreaming then Some UsageFenced else None)"

datatype resolutionKind = resolutionComplete | resolutionFail | resolutionFailWithUsage

record resolutionCommand =
  rc_requestID :: uuid
  rc_claim :: "Claim option"
  rc_kind :: resolutionKind
  rc_inputTokens :: int
  rc_outputTokens :: int
  rc_usageSource :: UsageSource
  rc_errorKind :: string
  rc_errorDetail :: string

definition resolve :: "gotime \<Rightarrow> fate \<Rightarrow> resolutionCommand \<Rightarrow> pg \<Rightarrow> (usage_error + request_row) \<times> pg" where
  "resolve now fate command = transact fate (\<lambda>e. case fate of BeginFails _ \<Rightarrow> UsageOther (pg_text e) | _ \<Rightarrow> translateUsageError (StorePg e)) (\<lambda>db.
     case GetRequestForUpdate (rc_requestID command) db of
       Inl e \<Rightarrow> (Inl (translateUsageError (StorePg e)), db)
     | Inr request \<Rightarrow> (case validateRequestFence request (rc_claim command) of
         Some e \<Rightarrow> (Inl e, db)
       | None \<Rightarrow>
           let executionID = map_option cl_ExecutionID (rc_claim command);
               generation = (case rc_claim command of None \<Rightarrow> 0 | Some c \<Rightarrow> cl_Generation c);
               statement = (case rc_kind command of
                   resolutionComplete \<Rightarrow> CompleteRequest now (Some (rc_inputTokens command)) (Some (rc_outputTokens command)) (rc_usageSource command)
                     (rc_requestID command) executionID generation
                 | resolutionFail \<Rightarrow> FailRequest now (Some (rc_errorKind command)) (optionalString (rc_errorDetail command)) (rc_requestID command)
                     executionID generation
                 | resolutionFailWithUsage \<Rightarrow> FailRequestWithUsage now (Some (rc_inputTokens command)) (Some (rc_outputTokens command)) (rc_usageSource command)
                     (Some (rc_errorKind command)) (optionalString (rc_errorDetail command)) (rc_requestID command) executionID generation)
           in query (statement db) (\<lambda>e. translateUsageError (StorePg e)) (\<lambda>row db. (Inr row, db))))"

definition Complete :: "gotime \<Rightarrow> fate \<Rightarrow> uuid \<Rightarrow> Claim \<Rightarrow> Usage \<Rightarrow> pg \<Rightarrow> (usage_error + request_row) \<times> pg" where
  "Complete now fate requestID claim u = resolve now fate \<lparr>rc_requestID = requestID, rc_claim = Some claim, rc_kind = resolutionComplete,
     rc_inputTokens = us_InputTokens u, rc_outputTokens = us_OutputTokens u, rc_usageSource = us_Source u, rc_errorKind = '''', rc_errorDetail = ''''\<rparr>"

definition Fail :: "gotime \<Rightarrow> fate \<Rightarrow> uuid \<Rightarrow> Claim \<Rightarrow> string \<Rightarrow> string \<Rightarrow> pg \<Rightarrow> (usage_error + request_row) \<times> pg" where
  "Fail now fate requestID claim errorKind errorDetail = resolve now fate \<lparr>rc_requestID = requestID, rc_claim = Some claim, rc_kind = resolutionFail,
     rc_inputTokens = 0, rc_outputTokens = 0, rc_usageSource = UsageUnknown, rc_errorKind = errorKind, rc_errorDetail = errorDetail\<rparr>"

definition FailAccepted :: "gotime \<Rightarrow> fate \<Rightarrow> uuid \<Rightarrow> string \<Rightarrow> string \<Rightarrow> pg \<Rightarrow> (usage_error + request_row) \<times> pg" where
  "FailAccepted now fate requestID errorKind errorDetail = resolve now fate \<lparr>rc_requestID = requestID, rc_claim = None, rc_kind = resolutionFail,
     rc_inputTokens = 0, rc_outputTokens = 0, rc_usageSource = UsageUnknown, rc_errorKind = errorKind, rc_errorDetail = errorDetail\<rparr>"

definition FailWithUsage :: "gotime \<Rightarrow> fate \<Rightarrow> uuid \<Rightarrow> Claim \<Rightarrow> Usage \<Rightarrow> string \<Rightarrow> string \<Rightarrow> pg \<Rightarrow> (usage_error + request_row) \<times> pg" where
  "FailWithUsage now fate requestID claim u errorKind errorDetail = resolve now fate \<lparr>rc_requestID = requestID, rc_claim = Some claim,
     rc_kind = resolutionFailWithUsage, rc_inputTokens = us_InputTokens u, rc_outputTokens = us_OutputTokens u, rc_usageSource = us_Source u,
     rc_errorKind = errorKind, rc_errorDetail = errorDetail\<rparr>"

end
