(* ===== verification/LedgerSafety.thy ===== *)
theory LedgerSafety
  imports Ledger
begin

text \<open>
  The life cycle of a request in the ledger. Every operation of the repositories, whatever its arguments, the time and the fate of its transaction, moves each
  row of the requests along the states queued, dispatching, streaming and one of the final ones, and keeps the invariant of the tables. The
  operations are interleaved in any order (\<open>ledger_reach\<close>).
\<close>

subsection \<open>Rows and their moves\<close>

definition finished :: "RequestStatus \<Rightarrow> bool" where
  "finished s = (s \<in> {RqCompleted, RqFailed, RqCanceled, RqUncertain})"

lemma status_cases: "finished s \<longleftrightarrow> s \<noteq> RqQueued \<and> \<not> running s"
  by (cases s) (auto simp: finished_def running_def)

definition row_ok :: "request_row \<Rightarrow> bool" where
  "row_ok r = ((q_ExecutionGeneration r = 0 \<and> q_ExecutionID r = None \<and> q_ExecutionClaimedAt r = None \<and> q_ExecutionHeartbeatAt r = None \<or>
      q_ExecutionGeneration r = 1 \<and> q_ExecutionID r \<noteq> None \<and> q_ExecutionClaimedAt r \<noteq> None \<and> q_ExecutionHeartbeatAt r \<noteq> None) \<and>
     (q_Status r = RqQueued \<longrightarrow> q_ExecutionID r = None) \<and> (running (q_Status r) \<or> q_Status r = RqCompleted \<or> q_Status r = RqUncertain \<longrightarrow> q_ExecutionID r \<noteq> None) \<and>
     (q_CompletedAt r \<noteq> None \<longleftrightarrow> finished (q_Status r)) \<and> q_Status r \<noteq> RqCanceled \<and>
     (q_Status r = RqCompleted \<longrightarrow> q_InputTokens r \<noteq> None \<and> q_OutputTokens r \<noteq> None \<and> q_ErrorKind r = None) \<and> q_UsageSource r \<noteq> UsageUnset)"

definition identity :: "request_row \<Rightarrow> uuid \<times> string option \<times> string \<times> uuid \<times> uuid \<times> uuid \<times> uuid option \<times> uuid \<times> bool \<times> gotime" where
  "identity r = (q_ID r, q_IdempotencyKey r, q_RequestDigest r, q_UserID r, q_GatewayKeyID r, q_ModelID r, q_SubscriptionID r, q_ResourcePoolID r, q_Stream r, q_AcceptedAt r)"

definition moves :: "request_row \<Rightarrow> request_row \<Rightarrow> bool" where
  "moves r r' = (identity r' = identity r \<and> (finished (q_Status r) \<longrightarrow> r' = r) \<and> (q_Status r \<noteq> RqQueued \<longrightarrow> q_Status r' \<noteq> RqQueued) \<and>
     (q_Status r = RqStreaming \<longrightarrow> q_Status r' \<noteq> RqDispatching) \<and>
     (q_ExecutionID r \<noteq> None \<longrightarrow> q_ExecutionID r' = q_ExecutionID r \<and> q_ExecutionGeneration r' = q_ExecutionGeneration r \<and>
        q_ExecutionClaimedAt r' = q_ExecutionClaimedAt r) \<and> (row_ok r \<longrightarrow> row_ok r'))"

lemma moves_refl [simp]: "moves r r"
  by (simp add: moves_def)

lemma moves_trans: "moves r s \<Longrightarrow> moves s t \<Longrightarrow> moves r t"
  unfolding moves_def by (smt (verit) status_cases running_def)

lemmas running_simps [simp] = running_def [of RqQueued, simplified] running_def [of RqDispatching, simplified] running_def [of RqStreaming, simplified]
  running_def [of RqCompleted, simplified] running_def [of RqFailed, simplified] running_def [of RqUncertain, simplified]

lemmas move_defs = moves_def identity_def row_ok_def finished_def

subsection \<open>The invariant of the tables\<close>

definition attempt_row_ok :: "request_row list \<Rightarrow> attempt_row \<Rightarrow> bool" where
  "attempt_row_ok rows a = ((\<exists>r \<in> set rows. q_ID r = atm_RequestID a \<and> q_ExecutionID r = Some (atm_ExecutionID a) \<and> q_ExecutionGeneration r = atm_ExecutionGeneration a) \<and>
     (atm_InputTokens a = None \<longleftrightarrow> atm_OutputTokens a = None) \<and> (atm_InputTokens a = None \<longrightarrow> atm_UsageSource a = UsageUnknown) \<and>
     has (\<lambda>n. n < 0) (atm_InputTokens a) = False \<and> has (\<lambda>n. n < 0) (atm_OutputTokens a) = False \<and> atm_UsageSource a \<noteq> UsageUnset)"

definition unique_keys :: "request_row list \<Rightarrow> bool" where
  "unique_keys rows = (\<forall>r \<in> set rows. \<forall>r' \<in> set rows. q_GatewayKeyID r = q_GatewayKeyID r' \<and> sql_eq (q_IdempotencyKey r) (q_IdempotencyKey r') \<longrightarrow> r = r')"

definition ledger_ok :: "pg \<Rightarrow> bool" where
  "ledger_ok db = (distinct (map q_ID (pg_requests db)) \<and> (\<forall>r \<in> set (pg_requests db). row_ok r) \<and>
     distinct (map atm_ID (pg_attempts db)) \<and> distinct (map (\<lambda>a. (atm_RequestID a, atm_Sequence a)) (pg_attempts db)) \<and>
     (\<forall>a \<in> set (pg_attempts db). attempt_row_ok (pg_requests db) a) \<and>
     unique_keys (pg_requests db))"

text \<open>What an operation does to the requests: it moves the rows in place and may add one.\<close>

definition kept :: "request_row list \<Rightarrow> request_row list \<Rightarrow> bool" where
  "kept rs rs' = (\<exists>ms new. rs' = ms @ new \<and> list_all2 moves rs ms)"

lemma kept_refl [simp]: "kept rs rs"
  unfolding kept_def by (rule exI [of _ rs]) (simp add: list.rel_refl)

lemma kept_trans: assumes "kept rs ss" and "kept ss ts" shows "kept rs ts"
proof -
  obtain ms new ns more where s: "ss = ms @ new" "list_all2 moves rs ms" and t: "ts = ns @ more" "list_all2 moves (ms @ new) ns"
    using assms by (auto simp: kept_def)
  obtain ns1 ns2 where n: "ns = ns1 @ ns2" "list_all2 moves ms ns1"
    using t(2) by (auto simp: list_all2_append1)
  have "list_all2 moves rs ns1"
    by (rule list_all2_trans [OF _ s(2) n(2)]) (rule moves_trans)
  then show ?thesis using t(1) n(1) by (auto simp: kept_def)
qed

definition advances :: "pg \<Rightarrow> pg \<Rightarrow> bool" where
  "advances db db' = (kept (pg_requests db) (pg_requests db') \<and> (ledger_ok db \<longrightarrow> ledger_ok db'))"

lemma advances_refl [simp]: "advances db db"
  by (simp add: advances_def)

lemma advances_trans: "advances a b \<Longrightarrow> advances b c \<Longrightarrow> advances a c"
  unfolding advances_def using kept_trans by blast

subsection \<open>Relations that transactions keep\<close>

text \<open>A preorder of databases that statements keep is kept by what the repositories make of them.\<close>

locale database_relation =
  fixes R :: "pg \<Rightarrow> pg \<Rightarrow> bool"
  assumes rel_refl: "R db db" and rel_trans: "R a b \<Longrightarrow> R b c \<Longrightarrow> R a c"
begin

lemma rel_transact:
  assumes "\<And>db. R db (snd (body db))"
  shows "R db (snd (transact fate failure body db))"
  using assms [of db] rel_refl by (cases fate) (auto simp: transact_def split: prod.splits sum.splits)

lemma rel_query:
  assumes "R db (snd statement)" and "\<And>a db. R db (snd (rest a db))"
  shows "R db (snd (query statement failure rest))"
  using assms(1) rel_trans [OF assms(1) assms(2)] by (cases statement) (auto simp: query_def split: sum.splits)

lemma rel_observing:
  assumes "R db (snd (recordCredentialObservation credentialID observation db))" and "\<And>db. R db (snd (rest db))"
  shows "R db (snd (observing credentialID observation rest db))"
  using assms(1) rel_trans [OF assms(1) assms(2)]
  by (cases "recordCredentialObservation credentialID observation db") (auto simp: observing_def split: option.splits)

lemmas rel_rules = rel_refl rel_transact rel_query rel_observing

end

interpretation adv: database_relation advances
  by unfold_locales (simp, rule advances_trans)

subsection \<open>Statements move rows\<close>

lemma list_all2_sql_update: "(\<And>r. p r \<Longrightarrow> moves r (f r)) \<Longrightarrow> list_all2 moves rs (sql_update p f rs)"
  by (induction rs) (auto simp: sql_update_def)

lemma kept_sql_update: "(\<And>r. p r \<Longrightarrow> moves r (f r)) \<Longrightarrow> kept rs (sql_update p f rs)"
  unfolding kept_def using list_all2_sql_update by (metis append_Nil2)

lemma moves_execution: "moves r r' \<Longrightarrow> q_ID r' = q_ID r \<and> (q_ExecutionID r = Some e \<longrightarrow> q_ExecutionID r' = Some e \<and> q_ExecutionGeneration r' = q_ExecutionGeneration r)"
  by (auto simp: moves_def identity_def)

lemma set_sql_update: "set (sql_update p f rs) = (\<lambda>r. if p r then f r else r) ` set rs"
  by (auto simp: sql_update_def)

lemma map_sql_update: "(\<And>r. p r \<Longrightarrow> g (f r) = g r) \<Longrightarrow> map g (sql_update p f rs) = map g rs"
  by (auto simp: sql_update_def)

lemma attempt_row_ok_update:
  assumes "\<And>r. p r \<Longrightarrow> moves r (f r)" and "attempt_row_ok rs a"
  shows "attempt_row_ok (sql_update p f rs) a"
proof -
  from assms(2) obtain r where r: "r \<in> set rs" "q_ID r = atm_RequestID a" "q_ExecutionID r = Some (atm_ExecutionID a)" "q_ExecutionGeneration r = atm_ExecutionGeneration a"
    by (auto simp: attempt_row_ok_def)
  let ?r = "if p r then f r else r"
  have "moves r ?r" using assms(1) by simp
  from moves_execution [OF this] r have "?r \<in> set (sql_update p f rs)" "q_ID ?r = atm_RequestID a" "q_ExecutionID ?r = Some (atm_ExecutionID a)"
    "q_ExecutionGeneration ?r = atm_ExecutionGeneration a"
    by (auto simp: set_sql_update)
  then show ?thesis using assms(2) unfolding attempt_row_ok_def by blast
qed

lemma advances_requests:
  assumes "\<And>r. p r \<Longrightarrow> moves r (f r)"
  shows "advances db (db\<lparr>pg_requests := sql_update p f (pg_requests db)\<rparr>)"
proof -
  define g where "g = (\<lambda>r. if p r then f r else r)"
  have moves_g: "moves r (g r)" for r
    using assms [of r] by (simp add: g_def)
  then have key: "q_ID (g r) = q_ID r" "q_GatewayKeyID (g r) = q_GatewayKeyID r" "q_IdempotencyKey (g r) = q_IdempotencyKey r" "row_ok r \<Longrightarrow> row_ok (g r)" for r
    by (simp_all add: moves_def identity_def)
  have rows: "sql_update p f rs = map g rs" for rs
    by (simp add: sql_update_def g_def)
  have "ledger_ok (db\<lparr>pg_requests := map g (pg_requests db)\<rparr>)" if ok: "ledger_ok db"
  proof -
    have "attempt_row_ok (map g (pg_requests db)) a" if "a \<in> set (pg_attempts db)" for a
      unfolding rows [symmetric] by (rule attempt_row_ok_update [OF assms]) (use ok that in \<open>auto simp: ledger_ok_def\<close>)
    moreover have "map q_ID (map g (pg_requests db)) = map q_ID (pg_requests db)" by (simp add: key)
    moreover have "unique_keys (map g (pg_requests db))" using ok by (auto simp: ledger_ok_def unique_keys_def key)
    ultimately show ?thesis using ok unfolding ledger_ok_def by (simp add: key del: map_map)
  qed
  moreover have "kept (pg_requests db) (map g (pg_requests db))" unfolding rows [symmetric] by (rule kept_sql_update) (rule assms)
  ultimately show ?thesis by (simp add: advances_def rows)
qed

lemma advances_update_request [intro]:
  "(\<And>r. p r \<Longrightarrow> moves r (f r)) \<Longrightarrow> advances db (snd (update_request p f db))"
  by (simp add: update_request_def advances_requests)

lemma executed_byD: "executed_by i e g r \<Longrightarrow> (q_Status r = RqDispatching \<or> q_Status r = RqStreaming) \<and> q_ExecutionID r \<noteq> None"
  by (auto simp: executed_by_def sql_eq_def running_def)

text \<open>A row that is not final moves when the new values keep its identity, its execution and its form.\<close>

lemma moves_open:
  assumes "\<not> finished (q_Status r)" and "identity r' = identity r" and "q_Status r' \<noteq> RqQueued"
    and "q_Status r = RqStreaming \<longrightarrow> q_Status r' \<noteq> RqDispatching"
    and "q_ExecutionID r \<noteq> None \<longrightarrow> q_ExecutionID r' = q_ExecutionID r \<and> q_ExecutionGeneration r' = q_ExecutionGeneration r \<and> q_ExecutionClaimedAt r' = q_ExecutionClaimedAt r"
    and "row_ok r \<Longrightarrow> row_ok r'"
  shows "moves r r'"
  using assms by (simp add: moves_def)

lemma advances_request_statements:
  "advances db (snd (HeartbeatRequestExecution now i e g db))"
  "advances db (snd (MarkRequestExecutionStreaming now i e g db))"
  "advances db (snd (MarkRequestExecutionUncertain now i e g kind detail db))"
  "advances db (snd (CompleteRequest now (Some input) (Some output) source i e g db))"
  "advances db (snd (FailRequestWithUsage now (Some input) (Some output) source kind detail i e g db))"
  unfolding HeartbeatRequestExecution_def MarkRequestExecutionStreaming_def MarkRequestExecutionUncertain_def CompleteRequest_def FailRequestWithUsage_def
  by (auto dest!: executed_byD intro!: advances_update_request moves_open simp: identity_def row_ok_def finished_def)

lemma advances_FailRequest: "advances db (snd (FailRequest now kind detail i e g db))"
  unfolding FailRequest_def
proof (intro advances_update_request moves_open)
  show "\<not> finished (q_Status r)" if "failable i e g r" for r
    using that by (auto simp: failable_def finished_def running_def)
qed (auto simp: identity_def row_ok_def finished_def)

lemma advances_ClaimRequestExecution: "advances db (snd (ClaimRequestExecution now (Some e) i db))"
  unfolding ClaimRequestExecution_def
proof (intro advances_update_request moves_open)
  fix r assume "claimable i (Some e) r"
  then consider "q_Status r = RqQueued" "q_ExecutionID r = None" | "q_Status r = RqDispatching" "q_ExecutionID r = Some e"
    by (auto simp: claimable_def)
  note status = this
  show "\<not> finished (q_Status r)" "q_Status r = RqStreaming \<longrightarrow> q_Status (r\<lparr>q_Status := RqDispatching, q_ExecutionID := Some e,
      q_ExecutionGeneration := (if q_ExecutionID r = None then q_ExecutionGeneration r + 1 else q_ExecutionGeneration r),
      q_ExecutionClaimedAt := (if q_ExecutionID r = None then Some now else q_ExecutionClaimedAt r), q_ExecutionHeartbeatAt := Some now, q_UpdatedAt := now\<rparr>) \<noteq> RqDispatching"
    by (cases rule: status; simp add: finished_def)+
  show "row_ok (r\<lparr>q_Status := RqDispatching, q_ExecutionID := Some e,
      q_ExecutionGeneration := (if q_ExecutionID r = None then q_ExecutionGeneration r + 1 else q_ExecutionGeneration r),
      q_ExecutionClaimedAt := (if q_ExecutionID r = None then Some now else q_ExecutionClaimedAt r), q_ExecutionHeartbeatAt := Some now, q_UpdatedAt := now\<rparr>)" if "row_ok r"
    using that by (cases rule: status) (simp_all add: row_ok_def finished_def)
qed (auto simp: identity_def claimable_def)

lemma unique_keys_snoc:
  assumes "unique_keys rows" and "\<forall>r \<in> set rows. \<not> (q_GatewayKeyID r = q_GatewayKeyID row \<and> sql_eq (q_IdempotencyKey r) (q_IdempotencyKey row))"
  shows "unique_keys (rows @ [row])"
proof -
  have "sql_eq a b = sql_eq b a" for a b :: "string option" by (auto simp: sql_eq_def)
  then show ?thesis using assms unfolding unique_keys_def by (metis Un_iff empty_iff insert_iff list.set set_append)
qed

lemma advances_CreateRequest: "advances db (snd (CreateRequest now i key d u k m sub pool RqQueued stream db))"
proof (cases "\<exists>row. CreateRequest now i key d u k m sub pool RqQueued stream db = (Inr row, db\<lparr>pg_requests := pg_requests db @ [row]\<rparr>)")
  case True
  then obtain row where row: "CreateRequest now i key d u k m sub pool RqQueued stream db = (Inr row, db\<lparr>pg_requests := pg_requests db @ [row]\<rparr>)" by blast
  then have new: "\<forall>r \<in> set (pg_requests db). q_ID r \<noteq> q_ID row \<and> \<not> (q_GatewayKeyID r = q_GatewayKeyID row \<and> sql_eq (q_IdempotencyKey r) (q_IdempotencyKey row))"
    "row_ok row"
    by (auto simp: CreateRequest_def Let_def row_ok_def finished_def split: if_splits)
  have "attempt_row_ok (rs @ [row]) a" if "attempt_row_ok rs a" for rs a
    using that by (auto simp: attempt_row_ok_def)
  moreover have "unique_keys (pg_requests db) \<Longrightarrow> unique_keys (pg_requests db @ [row])"
    by (rule unique_keys_snoc) (use new(1) in blast)+
  moreover have "q_ID row \<notin> q_ID ` set (pg_requests db)" using new(1) by force
  ultimately have "ledger_ok db \<Longrightarrow> ledger_ok (db\<lparr>pg_requests := pg_requests db @ [row]\<rparr>)"
    using new(2) by (simp add: ledger_ok_def)
  moreover have "kept (pg_requests db) (pg_requests db @ [row])"
    unfolding kept_def by (rule exI [of _ "pg_requests db"]) (simp add: list.rel_refl)
  ultimately show ?thesis by (simp add: row advances_def)
next
  case False
  then show ?thesis by (auto simp: CreateRequest_def Let_def split: if_splits)
qed

lemma advances_attempts:
  assumes "ledger_ok db \<Longrightarrow> distinct (map atm_ID rows) \<and> distinct (map (\<lambda>a. (atm_RequestID a, atm_Sequence a)) rows) \<and> (\<forall>a \<in> set rows. attempt_row_ok (pg_requests db) a)"
  shows "advances db (db\<lparr>pg_attempts := rows\<rparr>)"
  using assms by (simp add: advances_def ledger_ok_def)

lemma advances_CreateAttempt: "advances db (snd (CreateAttempt now newID i e g credentialID sequence AtCreated db))"
  unfolding CreateAttempt_def Let_def
  by (auto simp: ledger_ok_def attempt_row_ok_def executed_by_def filter_empty_conv image_iff intro!: advances_attempts) blast+

lemma advances_attempt_update:
  assumes same: "\<And>a. p a \<Longrightarrow> atm_ID (f a) = atm_ID a \<and> atm_RequestID (f a) = atm_RequestID a \<and> atm_Sequence (f a) = atm_Sequence a"
    and ok: "\<And>rows a. p a \<Longrightarrow> attempt_row_ok rows a \<Longrightarrow> attempt_row_ok rows (f a)"
  shows "advances db (db\<lparr>pg_attempts := sql_update p f (pg_attempts db)\<rparr>)"
proof (rule advances_attempts, intro conjI ballI)
  assume ledger: "ledger_ok db"
  have "map atm_ID (sql_update p f (pg_attempts db)) = map atm_ID (pg_attempts db)"
    "map (\<lambda>a. (atm_RequestID a, atm_Sequence a)) (sql_update p f (pg_attempts db)) = map (\<lambda>a. (atm_RequestID a, atm_Sequence a)) (pg_attempts db)"
    using same by (auto intro!: map_sql_update)
  then show "distinct (map atm_ID (sql_update p f (pg_attempts db)))" "distinct (map (\<lambda>a. (atm_RequestID a, atm_Sequence a)) (sql_update p f (pg_attempts db)))"
    using ledger by (simp_all add: ledger_ok_def)
  show "attempt_row_ok (pg_requests db) a" if "a \<in> set (sql_update p f (pg_attempts db))" for a
    using that ledger ok by (auto simp: set_sql_update ledger_ok_def)
qed

lemma advances_UpdateAttempt: "advances db (snd (UpdateAttempt arg db))"
  unfolding UpdateAttempt_def Let_def
  by (auto split: option.split list.split intro!: advances_attempt_update simp: attempt_row_ok_def)

lemma advances_credentials [simp]: "advances db (db\<lparr>pg_credentials := rows\<rparr>)"
  by (simp add: advances_def ledger_ok_def)

lemma advances_health:
  "advances db (snd (AcquireCredentialHealthPermit now i db))" "advances db (snd (RecordCredentialRuntimeSuccess t i g db))"
  "advances db (snd (RecordCredentialRuntimeFailure status until kind i g db))"
  by (auto simp: AcquireCredentialHealthPermit_def RecordCredentialRuntimeSuccess_def RecordCredentialRuntimeFailure_def Let_def split: list.split)

lemma advances_observation: "advances db (snd (recordCredentialObservation credentialID observation db))"
  using advances_health(2,3)
  by (auto simp: recordCredentialObservation_def split: option.split CredentialObservationKind.split prod.split) (metis snd_conv)+

lemma advances_RecoverStale: "advances db (snd (RecoverStaleRequestExecutions now locked before batch db))"
proof -
  define fenced where "fenced = (\<lambda>a::attempt_row. \<exists>r \<in> set (stale_executions locked before batch db). atm_RequestID a = q_ID r \<and> q_ExecutionID r = Some (atm_ExecutionID a) \<and>
     atm_ExecutionGeneration a = q_ExecutionGeneration r \<and> (atm_Status a = AtCreated \<or> atm_Status a = AtSending \<or> atm_Status a = AtStreaming))"
  define lost where "lost = (\<lambda>q::request_row. \<exists>r \<in> set (stale_executions locked before batch db). q_ID q = q_ID r \<and> sql_eq (q_ExecutionID q) (q_ExecutionID r) \<and>
     q_ExecutionGeneration q = q_ExecutionGeneration r \<and> running (q_Status q))"
  let ?mid = "db\<lparr>pg_attempts := sql_update fenced (\<lambda>a. a\<lparr>atm_Status := AtUncertain, atm_ErrorKind := Some ''uncertain'', atm_CompletedAt := Some now\<rparr>) (pg_attempts db)\<rparr>"
  let ?f = "\<lambda>q. q\<lparr>q_Status := RqUncertain, q_ErrorKind := Some ''uncertain'',
     q_ErrorDetail := Some ''request execution heartbeat expired; upstream outcome requires recovery'', q_CompletedAt := Some now, q_UpdatedAt := now\<rparr>"
  have "advances db ?mid" by (rule advances_attempt_update) (simp_all add: attempt_row_ok_def)
  moreover have "advances ?mid (?mid\<lparr>pg_requests := sql_update lost ?f (pg_requests ?mid)\<rparr>)"
  proof (rule advances_requests, rule moves_open)
    show "\<not> finished (q_Status q)" if "lost q" for q using that by (auto simp: lost_def running_def finished_def)
    show "row_ok (?f q)" if "lost q" "row_ok q" for q using that by (auto simp: lost_def row_ok_def finished_def sql_eq_def)
  qed (simp_all add: identity_def)
  ultimately show ?thesis
    by (simp add: RecoverStaleRequestExecutions_def Let_def fenced_def [symmetric] lost_def [symmetric]) (rule advances_trans)
qed

subsection \<open>Operations in any order\<close>

datatype ledger_op =
    OpAccept "nat \<Rightarrow> fate" AcceptCommand | OpClaim fate uuid uuid | OpHeartbeat fate Claim | OpPermit fate uuid
  | OpCreateAttempt fate uuid Claim uuid int | OpUpdateAttempt fate Claim uuid AttemptUpdate | OpStreaming fate Claim uuid AttemptUpdate
  | OpUncertain fate Claim uuid AttemptUpdate string string | OpResolve fate resolutionCommand | OpRecover fate "uuid \<Rightarrow> bool" gotime int

fun ledger_step :: "gotime \<Rightarrow> ledger_op \<Rightarrow> pg \<Rightarrow> pg" where
  "ledger_step now (OpAccept fates input) db = snd (AcceptRequest now fates input db)"
| "ledger_step now (OpClaim fate i e) db = snd (ClaimExecution now fate i e db)"
| "ledger_step now (OpHeartbeat fate claim) db = snd (HeartbeatExecution now fate claim db)"
| "ledger_step now (OpPermit fate i) db = snd (AcquireHealthPermit now fate i db)"
| "ledger_step now (OpCreateAttempt fate newID claim credentialID sequence) db = snd (CreateAttemptFor now fate newID claim credentialID sequence db)"
| "ledger_step now (OpUpdateAttempt fate claim a update) db = snd (UpdateAttemptBy fate claim a update db)"
| "ledger_step now (OpStreaming fate claim a update) db = snd (MarkExecutionStreaming now fate claim a update db)"
| "ledger_step now (OpUncertain fate claim a update kind detail) db = snd (MarkExecutionUncertain now fate claim a update kind detail db)"
| "ledger_step now (OpResolve fate command) db = snd (resolve now fate command db)"
| "ledger_step now (OpRecover fate locked staleBefore batchSize) db = snd (RecoverStaleExecutions now fate locked staleBefore batchSize db)"

inductive ledger_reach :: "pg \<Rightarrow> pg \<Rightarrow> bool" for start where
  here: "ledger_reach start start"
| step: "ledger_reach start db \<Longrightarrow> ledger_reach start (ledger_step now op db)"

lemma advances_resolve: "advances db (snd (resolve now fate command db))"
  unfolding resolve_def Let_def
  by (auto intro!: adv.rel_rules advances_request_statements advances_FailRequest split: sum.split option.split resolutionKind.split)

lemma advances_acceptRequestOnce: "advances db (snd (acceptRequestOnce now fate input db))"
  unfolding acceptRequestOnce_def accept_new_def replayAcceptedRequest_def Let_def
  by (rule adv.rel_transact) (auto intro!: adv.rel_rules advances_CreateRequest split: sum.split option.split)

lemma advances_accept_attempts: "advances db (snd (accept_attempts now input fates e db))"
proof (induction fates arbitrary: e db)
  case (Cons fate fates)
  then show ?case using advances_acceptRequestOnce [of db now fate input]
    by (auto split: sum.split prod.split intro: advances_trans)
qed simp

lemma advances_claim: "advances db (snd (ClaimExecution now fate i e db))"
proof -
  have "advances db (snd (transact fate plain (\<lambda>db. query (ClaimRequestExecution now (Some e) i db)
      (\<lambda>e. if e = PgNoRows then ErrNotClaimable else plain e) (\<lambda>row db. (Inr row, db))) db))"
    by (intro adv.rel_rules) (auto intro: advances_ClaimRequestExecution)
  then show ?thesis by (auto simp: ClaimExecution_def split: sum.split prod.split)
qed

lemma advances_step: "advances db (ledger_step now op db)"
proof (cases op)
  case (OpAccept fates input)
  then show ?thesis using advances_accept_attempts by (simp add: AcceptRequest_def)
next
  case (OpClaim fate i e)
  then show ?thesis using advances_claim by simp
next
  case (OpResolve fate command)
  then show ?thesis using advances_resolve by simp
qed (auto simp: HeartbeatExecution_def AcquireHealthPermit_def CreateAttemptFor_def UpdateAttemptBy_def MarkExecutionStreaming_def
    MarkExecutionUncertain_def RecoverStaleExecutions_def intro!: adv.rel_rules advances_request_statements advances_health advances_CreateAttempt
    advances_UpdateAttempt advances_observation advances_RecoverStale)

lemma reach_advances: "ledger_reach a b \<Longrightarrow> advances a b"
  by (induction rule: ledger_reach.induct) (auto intro: advances_trans advances_step)

lemma reach_trans: "ledger_reach b c \<Longrightarrow> ledger_reach a b \<Longrightarrow> ledger_reach a c"
  by (induction rule: ledger_reach.induct) (auto intro: ledger_reach.step)

lemma reach_row:
  assumes "ledger_reach a b" and "r \<in> set (pg_requests a)"
  shows "\<exists>r' \<in> set (pg_requests b). moves r r'"
proof -
  obtain ms new where b: "pg_requests b = ms @ new" and moved: "list_all2 moves (pg_requests a) ms"
    using reach_advances [OF assms(1)] by (auto simp: advances_def kept_def)
  from moved assms(2) have "\<exists>r' \<in> set ms. moves r r'"
    by (induction rule: list_all2_induct) auto
  then show ?thesis by (auto simp: b)
qed

lemma filter_key: "x \<in> set xs \<Longrightarrow> distinct (map f xs) \<Longrightarrow> filter (\<lambda>y. f y = f x) xs = [x]"
  by (induction xs) (auto simp: filter_empty_conv image_iff)

lemma unique_row: "ledger_ok db \<Longrightarrow> r \<in> set (pg_requests db) \<Longrightarrow> r' \<in> set (pg_requests db) \<Longrightarrow> q_ID r = q_ID r' \<Longrightarrow> r = r'"
  by (auto simp: ledger_ok_def distinct_map inj_on_def)

end
