(* ===== verification/LedgerGuarantees.thy ===== *)
theory LedgerGuarantees
  imports LedgerSafety
begin

text \<open>
  What the ledger guarantees over every sequence of operations of its repositories: its invariant, the finality of outcomes, the fence around an execution,
  idempotent acceptance, and the health of credentials.
\<close>

subsection \<open>A small ledger\<close>

definition sample_pg :: pg where
  "sample_pg = \<lparr>pg_requests = [], pg_attempts = [],
     pg_credentials = [\<lparr>pc_ID = ''cred'', pc_ResourcePoolID = ''pool'', pc_Status = CredentialActive, pc_HealthStatus = HealthCooling, pc_HealthGeneration = 4,
       pc_RpmLimit = None, pc_TpmLimit = None, pc_ConcurrencyLimit = Some 1, pc_Priority = 100, pc_Weight = 1, pc_SharedCapacityScopeID = None,
       pc_CooldownUntil = Some 5000, pc_ConsecutiveFailures = 1, pc_LastSuccessAt = None, pc_LastErrorKind = Some ''rate_limit'', pc_UpdatedAt = 0\<rparr>],
     pg_bindings = [(''cred'', ''model'')], pg_scopes = [], pg_pools = [(''pool'', PoolActive)],
     pg_users = [\<lparr>u_ID = ''user'', u_Role = RoleMember, u_Status = UserActive\<rparr>],
     pg_keys = [\<lparr>gk_ID = ''key'', gk_UserID = ''user'', gk_ExpiresAt = None, gk_DeletedAt = None\<rparr>],
     pg_key_models = [\<lparr>gm_GatewayKeyID = ''key'', gm_ModelID = ''model'', gm_ResourcePoolID = ''pool''\<rparr>],
     pg_providers = [], pg_models = [\<lparr>ml_ID = ''model'', ml_ProviderID = ''provider'', ml_PublicName = ''m'', ml_UpstreamName = ''m'',
       ml_Capabilities = Inl ''unused'', ml_CreatedAt = 0\<rparr>],
     pg_subscriptions = [\<lparr>sb_ID = ''sub'', sb_UserID = ''user'', sb_ServicePlanVersionID = ''plan'', sb_Status = SubActive, sb_StartsAt = 0,
       sb_ExpiresAt = None, sb_CreatedAt = 0\<rparr>],
     pg_plan_routes = [\<lparr>pr_ServicePlanVersionID = ''plan'', pr_ModelID = ''model'', pr_ResourcePoolID = ''pool''\<rparr>]\<rparr>"

definition sample_accept :: AcceptCommand where
  "sample_accept = \<lparr>am_RequestID = ''req'', am_UserID = ''user'', am_GatewayKeyID = ''key'', am_ModelID = ''model'', am_IdempotencyKey = Some ''idem'',
     am_RequestDigest = replicate 32 CHR ''d'', am_Stream = False\<rparr>"

definition sample_claim :: Claim where
  "sample_claim = \<lparr>cl_RequestID = ''req'', cl_ExecutionID = ''exec'', cl_Generation = 1\<rparr>"

definition accepted_pg :: pg where
  "accepted_pg = snd (AcceptRequest 1000 (\<lambda>_. Runs) sample_accept sample_pg)"

definition claimed_pg :: pg where
  "claimed_pg = snd (ClaimExecution 2000 Runs ''req'' ''exec'' accepted_pg)"

definition completed_pg :: pg where
  "completed_pg = snd (Complete 3000 Runs ''req'' sample_claim \<lparr>us_InputTokens = 3, us_OutputTokens = 5, us_Source = UsageEstimated\<rparr> claimed_pg)"

lemma sample_states:
  "map (\<lambda>r. (q_ID r, q_Status r, q_ExecutionID r)) (pg_requests accepted_pg) = [(''req'', RqQueued, None)]"
  "fst (ClaimExecution 2000 Runs ''req'' ''exec'' accepted_pg) = Inr sample_claim"
  "map (\<lambda>r. (q_ID r, q_Status r, q_ExecutionID r)) (pg_requests claimed_pg) = [(''req'', RqDispatching, Some ''exec'')]"
  "map (\<lambda>r. (q_ID r, q_Status r, q_ExecutionID r)) (pg_requests completed_pg) = [(''req'', RqCompleted, Some ''exec'')]"
  by code_simp+

lemma sample_ok: "ledger_ok sample_pg"
  by (simp add: sample_pg_def ledger_ok_def unique_keys_def)

lemma sample_reach: "ledger_reach sample_pg accepted_pg" "ledger_reach accepted_pg claimed_pg" "ledger_reach claimed_pg completed_pg"
proof -
  show "ledger_reach sample_pg accepted_pg" unfolding accepted_pg_def using ledger_reach.step [OF ledger_reach.here, of _ 1000 "OpAccept (\<lambda>_. Runs) sample_accept"] by simp
  show "ledger_reach accepted_pg claimed_pg" unfolding claimed_pg_def using ledger_reach.step [OF ledger_reach.here, of _ 2000 "OpClaim Runs ''req'' ''exec''"] by simp
  show "ledger_reach claimed_pg completed_pg" unfolding completed_pg_def Complete_def
    using ledger_reach.step [OF ledger_reach.here, of _ 3000 "OpResolve Runs c" for c] by simp
qed

subsection \<open>The invariant and final outcomes\<close>

text \<open>
  C6. The ledger stays well formed: from a well-formed ledger, every sequence of repository operations, with any arguments, times and failures of transactions,
  leads to one in which identifiers and idempotency keys are unique, each request has the columns that its status demands (one
  execution of generation 1 exactly when it was claimed, an end time exactly when it is final, usage when it is completed) and each attempt belongs to the
  execution of its request, with consistent usage.
\<close>

theorem ledger_invariant:
  assumes "ledger_ok start" and "ledger_reach start db"
  shows "ledger_ok db"
  using reach_advances [OF assms(2)] assms(1) by (simp add: advances_def)

theorem ledger_invariant_witness: "ledger_ok completed_pg \<and> pg_requests completed_pg \<noteq> []"
proof -
  have "ledger_reach sample_pg completed_pg" by (intro reach_trans [OF sample_reach(3)] reach_trans [OF sample_reach(2)] sample_reach(1))
  then show ?thesis using ledger_invariant [OF sample_ok] sample_states(4) by auto
qed

text \<open>
  C7. An outcome is final: a request that is completed, failed or uncertain keeps its row, every column of it, under every further sequence of
  operations; it is the only row with its identifier.
\<close>

theorem outcome_is_final:
  assumes "ledger_ok start" and "ledger_reach start db" and "r \<in> set (pg_requests start)" and "finished (q_Status r)"
  shows "filter (\<lambda>r'. q_ID r' = q_ID r) (pg_requests db) = [r]"
proof -
  have ok: "ledger_ok db" using reach_advances [OF assms(2)] assms(1) by (simp add: advances_def)
  have "r \<in> set (pg_requests db)" using reach_row [OF assms(2,3)] assms(4) by (auto simp: moves_def)
  moreover from ok have "distinct (map q_ID (pg_requests db))" by (simp add: ledger_ok_def)
  ultimately show ?thesis by (rule filter_key)
qed

theorem outcome_is_final_witness:
  "\<exists>r. pg_requests completed_pg = [r] \<and> q_Status r = RqCompleted \<and>
     filter (\<lambda>r'. q_ID r' = q_ID r) (pg_requests (snd (RecoverStaleExecutions 9000 Runs (\<lambda>_. False) 8000 10 completed_pg))) = [r]"
proof -
  obtain r where r: "pg_requests completed_pg = [r]" "q_Status r = RqCompleted"
    using sample_states(4) by (auto simp: map_eq_Cons_conv)
  have ok: "ledger_ok completed_pg"
    using sample_ok reach_advances [OF reach_trans [OF sample_reach(3) reach_trans [OF sample_reach(2,1)]]] by (simp add: advances_def)
  have "ledger_reach completed_pg (snd (RecoverStaleExecutions 9000 Runs (\<lambda>_. False) 8000 10 completed_pg))"
    using ledger_reach.step [OF ledger_reach.here, of _ 9000 "OpRecover Runs (\<lambda>_. False) 8000 10"] by simp
  from outcome_is_final [OF ok this, of r] r show ?thesis by (auto simp: finished_def)
qed

subsection \<open>One execution per request\<close>

lemma transact_Inr: "transact fate failure body db = (Inr a, db') \<Longrightarrow> body db = (Inr a, db')"
  by (auto simp: transact_def split: fate.splits prod.splits sum.splits)

lemma transact_refused: "body db = (Inl e, db) \<Longrightarrow> \<exists>e'. transact fate failure body db = (Inl e', db)"
  by (cases fate) (auto simp: transact_def)

lemma query_Inr: "query statement failure rest = (Inr b, db') \<Longrightarrow> \<exists>a db. statement = (Inr a, db) \<and> rest a db = (Inr b, db')"
  by (auto simp: query_def split: prod.splits sum.splits)

lemma sql_one_Inr: "sql_one rows = Inr r \<Longrightarrow> r \<in> set rows"
  by (auto simp: sql_one_def split: list.splits)

lemma update_request_Inr: "update_request p f db = (Inr r, db') \<Longrightarrow> \<exists>q \<in> set (pg_requests db). p q \<and> r = f q \<and> r \<in> set (pg_requests db')"
  by (force simp: update_request_def set_sql_update dest!: sql_one_Inr)

lemma update_request_none: "\<forall>r \<in> set (pg_requests db). \<not> p r \<Longrightarrow> update_request p f db = (Inl PgNoRows, db)"
  by (auto simp: update_request_def sql_update_def sql_one_def filter_empty_conv map_idI)

lemma claim_row:
  assumes "ClaimExecution now fate i e db = (Inr c, db')"
  shows "(\<exists>r \<in> set (pg_requests db). claimable i (Some e) r \<and> (q_ExecutionID r \<noteq> None \<longrightarrow> q_ExecutionGeneration r = cl_Generation c)) \<and>
    (\<exists>r \<in> set (pg_requests db'). q_ID r = i \<and> q_ExecutionID r = Some e \<and> q_ExecutionGeneration r = cl_Generation c \<and> q_Status r = RqDispatching) \<and>
    cl_RequestID c = i \<and> cl_ExecutionID c = e \<and> Valid c"
proof -
  from assms obtain row where ids: "i \<noteq> uuid_nil" "e \<noteq> uuid_nil" and body: "transact fate plain (\<lambda>db. query (ClaimRequestExecution now (Some e) i db)
      (\<lambda>e. if e = PgNoRows then ErrNotClaimable else plain e) (\<lambda>row db. (Inr row, db))) db = (Inr row, db')"
    and c: "q_ExecutionGeneration row \<ge> 1" "c = \<lparr>cl_RequestID = i, cl_ExecutionID = e, cl_Generation = q_ExecutionGeneration row\<rparr>"
    by (auto simp: ClaimExecution_def split: if_splits prod.splits sum.splits)
  from transact_Inr [OF body] have "ClaimRequestExecution now (Some e) i db = (Inr row, db')"
    by (auto dest!: query_Inr)
  then obtain q where q: "q \<in> set (pg_requests db)" "claimable i (Some e) q" "row \<in> set (pg_requests db')"
    "row = q\<lparr>q_Status := RqDispatching, q_ExecutionID := Some e,
        q_ExecutionGeneration := (if q_ExecutionID q = None then q_ExecutionGeneration q + 1 else q_ExecutionGeneration q),
        q_ExecutionClaimedAt := (if q_ExecutionID q = None then Some now else q_ExecutionClaimedAt q),
        q_ExecutionHeartbeatAt := Some now, q_UpdatedAt := now\<rparr>"
    unfolding ClaimRequestExecution_def by (blast dest: update_request_Inr)
  have "q_ExecutionID q \<noteq> None \<longrightarrow> q_ExecutionGeneration q = cl_Generation c" "q_ID row = i \<and> q_ExecutionID row = Some e \<and> q_ExecutionGeneration row = cl_Generation c \<and> q_Status row = RqDispatching"
    using q(2,4) c(2) by (auto simp: claimable_def)
  moreover have "cl_RequestID c = i \<and> cl_ExecutionID c = e \<and> Valid c" using ids c by (simp add: Valid_def)
  ultimately show ?thesis using q(1-3) by blast
qed

text \<open>
  C8. A request is executed once: after a claim of a request was granted, no sequence of operations leads to a state in which another claim of it is granted; a
  repetition of the same claim gives the same generation.
\<close>

theorem one_execution:
  assumes "ledger_ok start" and "ClaimExecution now fate i e start = (Inr claim, db)" and "ledger_reach db db'"
    and "ClaimExecution now' fate' i e' db' = (Inr claim', db'')"
  shows "claim' = claim"
proof -
  from claim_row [OF assms(2)] obtain r where r: "r \<in> set (pg_requests db)" "q_ID r = i" "q_ExecutionID r = Some e" "q_ExecutionGeneration r = cl_Generation claim"
    and c: "cl_RequestID claim = i" "cl_ExecutionID claim = e" by blast
  from reach_row [OF assms(3) r(1)] obtain s where s: "s \<in> set (pg_requests db')" "moves r s" by blast
  have "ledger_ok db" using advances_claim [of start now fate i e] assms(1,2) by (simp add: advances_def)
  then have ok: "ledger_ok db'" using reach_advances [OF assms(3)] by (simp add: advances_def)
  from claim_row [OF assms(4)] obtain t where t: "t \<in> set (pg_requests db')" "claimable i (Some e') t" "q_ExecutionID t \<noteq> None \<longrightarrow> q_ExecutionGeneration t = cl_Generation claim'"
    and c': "cl_RequestID claim' = i" "cl_ExecutionID claim' = e'" by blast
  have "t = s" using unique_row [OF ok t(1) s(1)] moves_execution [OF s(2)] t(2) r(2) by (simp add: claimable_def)
  then show ?thesis using moves_execution [OF s(2), of e] r t c c' by (auto simp: claimable_def intro: Claim.equality)
qed

theorem one_execution_witness:
  "\<exists>db claim. ClaimExecution 2000 Runs ''req'' ''exec'' accepted_pg = (Inr claim, db) \<and> ClaimExecution 2500 Runs ''req'' ''exec'' db = (Inr claim, snd (ClaimExecution 2500 Runs ''req'' ''exec'' db))"
proof -
  have ok: "ledger_ok accepted_pg" using sample_ok reach_advances [OF sample_reach(1)] by (simp add: advances_def)
  have first: "ClaimExecution 2000 Runs ''req'' ''exec'' accepted_pg = (Inr sample_claim, claimed_pg)"
    unfolding claimed_pg_def using sample_states(2) by (metis prod.collapse)
  have "\<not> isl (fst (ClaimExecution 2500 Runs ''req'' ''exec'' claimed_pg))" by code_simp
  then obtain claim' where second: "ClaimExecution 2500 Runs ''req'' ''exec'' claimed_pg = (Inr claim', snd (ClaimExecution 2500 Runs ''req'' ''exec'' claimed_pg))"
    by (metis prod.collapse sum.collapse(2))
  from one_execution [OF ok first ledger_reach.here second] first second show ?thesis by metis
qed

text \<open>A refused write leaves the database as it was.\<close>

definition unwritten :: "('e + 'a) \<times> pg \<Rightarrow> pg \<Rightarrow> bool" where
  "unwritten result db = (isl (fst result) \<and> snd result = db)"

lemma unwritten_Inl [simp]: "unwritten (Inl e, db) db"
  by (simp add: unwritten_def)

lemma unwritten_transact: "unwritten (body db) db \<Longrightarrow> unwritten (transact fate failure body db) db"
  by (cases fate) (auto simp: unwritten_def transact_def split: prod.splits sum.splits)

lemma unwritten_query: "unwritten statement db \<Longrightarrow> unwritten (query statement failure rest) db"
  by (auto simp: unwritten_def query_def split: prod.splits sum.splits)

lemma unwritten_update_request: "\<forall>r \<in> set (pg_requests db). \<not> p r \<Longrightarrow> unwritten (update_request p f db) db"
  by (simp add: unwritten_def update_request_none)

lemma unwritten_attempts:
  assumes "\<forall>r \<in> set (pg_requests db). \<not> executed_by i (Some e) g r"
  shows "unwritten (CreateAttempt now newID i e g credentialID sequence status db) db"
    "ua_RequestID arg = i \<Longrightarrow> ua_ExecutionID arg = e \<Longrightarrow> ua_ExecutionGeneration arg = g \<Longrightarrow> unwritten (UpdateAttempt arg db) db"
  using assms by (auto simp: CreateAttempt_def UpdateAttempt_def unwritten_def updatable_def filter_empty_conv Let_def split: option.splits list.splits)

lemma unwritten_resolve:
  assumes "\<forall>r \<in> set (pg_requests db). \<not> executed_by (cl_RequestID claim) (Some (cl_ExecutionID claim)) (cl_Generation claim) r" and "rc_claim command = Some claim"
  shows "unwritten (resolve now fate command db) db"
proof -
  have "validateRequestFence r (Some claim) = Some UsageFenced" if "r \<in> set (pg_requests db)" for r
    using assms(1) that by (auto simp: validateRequestFence_def executed_by_def running_def)
  moreover have "GetRequestForUpdate i db = Inr r \<Longrightarrow> r \<in> set (pg_requests db)" for i r
    by (auto simp: GetRequestForUpdate_def dest: sql_one_Inr)
  ultimately show ?thesis unfolding resolve_def Let_def assms(2)
    by (intro unwritten_transact) (auto simp: unwritten_def split: sum.splits)
qed

text \<open>
  C9. Only the current execution writes: when the claim that a call carries is not the one of a running request (it was never granted, belongs to another execution, or the
  request has ended), then the heartbeat, the creation and the update of attempts, the marks as streaming and as uncertain, the completion
  and both kinds of failure return an error and leave the database unchanged.
\<close>

theorem stale_claims_write_nothing:
  assumes "\<forall>r \<in> set (pg_requests db). \<not> executed_by (cl_RequestID claim) (Some (cl_ExecutionID claim)) (cl_Generation claim) r"
  shows "unwritten (HeartbeatExecution now fate claim db) db \<and> unwritten (CreateAttemptFor now fate newID claim credentialID sequence db) db \<and>
    unwritten (UpdateAttemptBy fate claim attemptID update db) db \<and> unwritten (MarkExecutionStreaming now fate claim attemptID update db) db \<and>
    unwritten (MarkExecutionUncertain now fate claim attemptID update kind detail db) db \<and> unwritten (Complete now fate i claim usage db) db \<and>
    unwritten (Fail now fate i claim kind detail db) db \<and> unwritten (FailWithUsage now fate i claim usage kind detail db) db"
proof (intro conjI)
  note rules = unwritten_transact unwritten_query unwritten_update_request [OF assms] unwritten_attempts [OF assms] unwritten_resolve [OF assms]
  show "unwritten (HeartbeatExecution now fate claim db) db" "unwritten (CreateAttemptFor now fate newID claim credentialID sequence db) db"
    "unwritten (UpdateAttemptBy fate claim attemptID update db) db" "unwritten (MarkExecutionStreaming now fate claim attemptID update db) db"
    "unwritten (MarkExecutionUncertain now fate claim attemptID update kind detail db) db"
    unfolding HeartbeatExecution_def CreateAttemptFor_def UpdateAttemptBy_def MarkExecutionStreaming_def MarkExecutionUncertain_def HeartbeatRequestExecution_def
    by (auto intro!: rules simp: attemptUpdateParams_def)
  show "unwritten (Complete now fate i claim usage db) db" "unwritten (Fail now fate i claim kind detail db) db" "unwritten (FailWithUsage now fate i claim usage kind detail db) db"
    unfolding Complete_def Fail_def FailWithUsage_def by (auto intro!: rules)
qed

theorem stale_claims_write_nothing_witness:
  "unwritten (Complete 4000 Runs ''req'' sample_claim \<lparr>us_InputTokens = 9, us_OutputTokens = 9, us_Source = UsageEstimated\<rparr> completed_pg) completed_pg"
proof -
  have "\<forall>r \<in> set (pg_requests completed_pg). \<not> executed_by (cl_RequestID sample_claim) (Some (cl_ExecutionID sample_claim)) (cl_Generation sample_claim) r"
    using sample_states(4) by (auto simp: map_eq_Cons_conv executed_by_def)
  from stale_claims_write_nothing [OF this] show ?thesis by blast
qed

subsection \<open>Acceptance\<close>

lemma accept_retry_unwritten:
  assumes "acceptRequestOnce now fate input db = (Inl err, mid)" and "retryableTransaction err"
  shows "mid = db"
  using assms by (auto simp: acceptRequestOnce_def transact_def retryableTransaction_def split: fate.splits prod.splits sum.splits)

lemma accept_attempts_Inr: "accept_attempts now input fates e db = (Inr a, db') \<Longrightarrow> \<exists>fate. acceptRequestOnce now fate input db = (Inr a, db')"
proof (induction fates arbitrary: e)
  case (Cons fate fates)
  show ?case
  proof (cases "fst (acceptRequestOnce now fate input db)")
    case (Inl err)
    then obtain mid where mid: "acceptRequestOnce now fate input db = (Inl err, mid)" by (metis prod.collapse)
    with Cons.prems have "retryableTransaction err" "accept_attempts now input fates err mid = (Inr a, db')" by (auto split: if_splits)
    then show ?thesis using Cons.IH accept_retry_unwritten [OF mid] by blast
  next
    case (Inr b)
    then have "acceptRequestOnce now fate input db = (Inr a, db')" using Cons.prems by (auto split: prod.splits sum.splits)
    then show ?thesis by blast
  qed
qed simp

text \<open>What an accepted row has of its command.\<close>

definition row_of :: "AcceptCommand \<Rightarrow> request_row \<Rightarrow> bool" where
  "row_of input r = (q_UserID r = am_UserID input \<and> q_GatewayKeyID r = am_GatewayKeyID input \<and> q_ModelID r = am_ModelID input \<and> q_Stream r = am_Stream input \<and>
     q_RequestDigest r = am_RequestDigest input \<and> q_IdempotencyKey r = am_IdempotencyKey input)"

lemma accept_new_Inr:
  assumes "accept_new now input db = (Inr (row, replayed), db')"
  shows "\<not> replayed \<and> row_of input row \<and> q_ID row = am_RequestID input \<and> q_Status row = RqQueued \<and> pg_requests db' = pg_requests db @ [row] \<and>
    GetGatewayKeyRoute (am_GatewayKeyID input) (am_ModelID input) db = Inr (q_ResourcePoolID row) \<and>
    (\<exists>role. GetActiveGatewayKeyForRequest now (am_GatewayKeyID input) (am_UserID input) db = Inr role \<and>
      (role = RoleMember \<longrightarrow> (\<exists>s \<in> set (GetApplicableSubscriptionRoutesForUpdate now (am_UserID input) (am_ModelID input) db).
         snd s = q_ResourcePoolID row \<and> q_SubscriptionID row = Some (sb_ID (fst s)))))"
proof -
  from assms obtain role poolID where role: "GetActiveGatewayKeyForRequest now (am_GatewayKeyID input) (am_UserID input) db = Inr role"
    and route: "GetGatewayKeyRoute (am_GatewayKeyID input) (am_ModelID input) db = Inr poolID"
    by (auto simp: accept_new_def split: sum.splits)
  define assigned where "assigned = find (\<lambda>s. snd s = poolID) (GetApplicableSubscriptionRoutesForUpdate now (am_UserID input) (am_ModelID input) db)"
  define sub where "sub = (if role = RoleMember then map_option (\<lambda>s. sb_ID (fst s)) assigned else None)"
  from assms role route have known: "\<not> (role = RoleMember \<and> sub = None)"
    and create: "query (CreateRequest now (am_RequestID input) (am_IdempotencyKey input) (am_RequestDigest input) (am_UserID input) (am_GatewayKeyID input)
        (am_ModelID input) sub poolID RqQueued (am_Stream input) db) StorePg (\<lambda>row db. (Inr (row, False), db)) = (Inr (row, replayed), db')"
    by (auto simp: accept_new_def Let_def assigned_def [symmetric] sub_def [symmetric] split: if_splits)
  from query_Inr [OF create] have row: "\<not> replayed \<and> row_of input row \<and> q_ID row = am_RequestID input \<and> q_Status row = RqQueued \<and> pg_requests db' = pg_requests db @ [row] \<and>
      q_ResourcePoolID row = poolID \<and> q_SubscriptionID row = sub"
    by (auto simp: CreateRequest_def Let_def row_of_def split: if_splits)
  have "\<exists>s \<in> set (GetApplicableSubscriptionRoutesForUpdate now (am_UserID input) (am_ModelID input) db). snd s = poolID \<and> sub = Some (sb_ID (fst s))" if "role = RoleMember"
    using known that by (auto simp: sub_def assigned_def find_Some_iff split: if_splits) (metis nth_mem fst_conv snd_conv)
  then show ?thesis using row role route by auto
qed

lemma acceptRequestOnce_Inr:
  assumes "acceptRequestOnce now fate input db = (Inr (row, replayed), db')"
  shows "row_of input row \<and> row \<in> set (pg_requests db') \<and> (replayed \<longrightarrow> db' = db) \<and> (\<not> replayed \<longrightarrow> accept_new now input db = (Inr (row, replayed), db'))"
proof -
  from transact_Inr [OF assms [unfolded acceptRequestOnce_def]]
  consider "accept_new now input db = (Inr (row, replayed), db')" |
    key existing where "am_IdempotencyKey input = Some key" "GetRequestByIdempotencyKey (am_GatewayKeyID input) (Some key) db = Inr existing"
      "replayAcceptedRequest input existing db = (Inr (row, replayed), db')"
    by (auto split: option.splits sum.splits if_splits)
  then show ?thesis
  proof cases
    case 1
    then show ?thesis using accept_new_Inr [OF 1] by simp
  next
    case 2
    then show ?thesis
      by (auto simp: GetRequestByIdempotencyKey_def replayAcceptedRequest_def row_of_def split: if_splits dest!: sql_one_Inr)
  qed
qed

text \<open>
  C10. Only an entitled caller gets a new request: a request is newly accepted only when its key is live and belongs to the active user, the key routes the model to the
  pool recorded with the request, and a member has a subscription that has started, has not expired and routes the model to that pool, which is active. The ledger
  gains exactly the queued row of the command.
\<close>

theorem accepted_only_if_entitled:
  assumes "AcceptRequest now fates input db = (Inr (row, False), db')"
  shows "row_of input row \<and> q_ID row = am_RequestID input \<and> q_Status row = RqQueued \<and> pg_requests db' = pg_requests db @ [row] \<and>
    (\<exists>k \<in> set (pg_keys db). gk_ID k = am_GatewayKeyID input \<and> gk_UserID k = am_UserID input \<and> gk_DeletedAt k = None \<and> unexpired now (gk_ExpiresAt k)) \<and>
    (\<exists>m \<in> set (pg_key_models db). gm_GatewayKeyID m = am_GatewayKeyID input \<and> gm_ModelID m = am_ModelID input \<and> gm_ResourcePoolID m = q_ResourcePoolID row) \<and>
    (\<exists>u \<in> set (pg_users db). u_ID u = am_UserID input \<and> u_Status u = UserActive \<and>
       (u_Role u = RoleMember \<longrightarrow> (\<exists>s \<in> set (pg_subscriptions db). \<exists>r \<in> set (pg_plan_routes db). q_SubscriptionID row = Some (sb_ID s) \<and> sb_UserID s = am_UserID input \<and>
          (sb_Status s = SubScheduled \<or> sb_Status s = SubActive) \<and> sb_StartsAt s \<le> now \<and> unexpired now (sb_ExpiresAt s) \<and>
          pr_ServicePlanVersionID r = sb_ServicePlanVersionID s \<and> pr_ModelID r = am_ModelID input \<and> pr_ResourcePoolID r = q_ResourcePoolID row \<and>
          pool_active db (q_ResourcePoolID row))))"
proof -
  from accept_attempts_Inr [OF assms [unfolded AcceptRequest_def]] obtain fate where "acceptRequestOnce now fate input db = (Inr (row, False), db')" by blast
  from acceptRequestOnce_Inr [OF this] have "accept_new now input db = (Inr (row, False), db')" by simp
  note new = accept_new_Inr [OF this]
  then obtain role where role: "GetActiveGatewayKeyForRequest now (am_GatewayKeyID input) (am_UserID input) db = Inr role"
    and member: "role = RoleMember \<longrightarrow> (\<exists>s \<in> set (GetApplicableSubscriptionRoutesForUpdate now (am_UserID input) (am_ModelID input) db).
       snd s = q_ResourcePoolID row \<and> q_SubscriptionID row = Some (sb_ID (fst s)))" by blast
  from role have "\<exists>k \<in> set (pg_keys db). \<exists>u \<in> set (pg_users db). gk_ID k = am_GatewayKeyID input \<and> gk_UserID k = am_UserID input \<and> gk_DeletedAt k = None \<and>
      unexpired now (gk_ExpiresAt k) \<and> u_ID u = am_UserID input \<and> u_Status u = UserActive \<and> u_Role u = role"
    by (auto simp: GetActiveGatewayKeyForRequest_def dest!: sql_one_Inr split: if_splits) blast
  moreover have "\<exists>m \<in> set (pg_key_models db). gm_GatewayKeyID m = am_GatewayKeyID input \<and> gm_ModelID m = am_ModelID input \<and> gm_ResourcePoolID m = q_ResourcePoolID row"
    using new by (auto simp: GetGatewayKeyRoute_def dest!: sql_one_Inr split: if_splits) blast+
  moreover have "\<exists>s \<in> set (pg_subscriptions db). \<exists>r \<in> set (pg_plan_routes db). q_SubscriptionID row = Some (sb_ID s) \<and> sb_UserID s = am_UserID input \<and>
      (sb_Status s = SubScheduled \<or> sb_Status s = SubActive) \<and> sb_StartsAt s \<le> now \<and> unexpired now (sb_ExpiresAt s) \<and>
      pr_ServicePlanVersionID r = sb_ServicePlanVersionID s \<and> pr_ModelID r = am_ModelID input \<and> pr_ResourcePoolID r = q_ResourcePoolID row \<and>
      pool_active db (q_ResourcePoolID row)" if "role = RoleMember"
    using member that by (auto simp: GetApplicableSubscriptionRoutesForUpdate_def split: if_splits) blast+
  ultimately show ?thesis using new by blast
qed

theorem accepted_only_if_entitled_witness:
  "\<exists>row. AcceptRequest 1000 (\<lambda>_. Runs) sample_accept sample_pg = (Inr (row, False), accepted_pg) \<and> q_Status row = RqQueued \<and> pg_requests accepted_pg = [row]"
proof -
  have "map_sum (\<lambda>_. ()) snd (fst (AcceptRequest 1000 (\<lambda>_. Runs) sample_accept sample_pg)) = Inr False" by code_simp
  then obtain row where "AcceptRequest 1000 (\<lambda>_. Runs) sample_accept sample_pg = (Inr (row, False), accepted_pg)"
    unfolding accepted_pg_def by (cases "AcceptRequest 1000 (\<lambda>_. Runs) sample_accept sample_pg"; cases "fst (AcceptRequest 1000 (\<lambda>_. Runs) sample_accept sample_pg)") auto
  note accepted = this
  from accepted_only_if_entitled [OF this] have row: "q_Status row = RqQueued" "pg_requests accepted_pg = pg_requests sample_pg @ [row]" by blast+
  from row(2) have "pg_requests accepted_pg = [row]" by (simp add: sample_pg_def)
  show ?thesis by (rule exI [of _ row], intro conjI; fact)
qed

lemma sql_one_unique:
  assumes "x \<in> set xs" and "\<And>y. y \<in> set xs \<Longrightarrow> y = x"
  shows "sql_one xs = Inr x"
proof (cases xs)
  case (Cons y ys)
  then show ?thesis using assms(2) [of y] by (simp add: sql_one_def)
qed (use assms(1) in simp)

lemma keyed_row:
  assumes "ledger_ok db" and "r \<in> set (pg_requests db)" and "q_IdempotencyKey r = Some key"
  shows "GetRequestByIdempotencyKey (q_GatewayKeyID r) (Some key) db = Inr r"
proof -
  let ?rows = "filter (\<lambda>s. q_GatewayKeyID s = q_GatewayKeyID r \<and> sql_eq (q_IdempotencyKey s) (Some key)) (pg_requests db)"
  have "r \<in> set ?rows" using assms by simp
  moreover have "s = r" if "s \<in> set ?rows" for s
    using that assms by (auto simp: ledger_ok_def unique_keys_def sql_eq_def)
  ultimately show ?thesis
    unfolding GetRequestByIdempotencyKey_def by (rule sql_one_unique)
qed

lemma accept_replay:
  assumes "fates 0 = Runs" and "ledger_ok db" and "r \<in> set (pg_requests db)" and "q_IdempotencyKey r = Some key" and "am_IdempotencyKey input = Some key"
    and "am_GatewayKeyID input = q_GatewayKeyID r"
  shows "AcceptRequest now fates input db = (if row_of input r then Inr (r, True) else Inl UsageConflict, db)"
proof -
  have "GetRequestByIdempotencyKey (am_GatewayKeyID input) (Some key) db = Inr r" using keyed_row [OF assms(2-4)] assms(6) by simp
  then have "acceptRequestOnce now Runs input db = (if row_of input r then Inr (r, True) else Inl (StoreUsage UsageConflict), db)"
    using assms(4-6) by (auto simp: acceptRequestOnce_def transact_def replayAcceptedRequest_def row_of_def)
  then show ?thesis
    using assms(1) by (simp add: AcceptRequest_def requestTransactionAttempts_def upt_conv_Cons retryableTransaction_def translateUsageError_def)
qed

text \<open>
  C11. An idempotency key names one request: after a command with a key was accepted, whatever happens to the ledger in between, the same command gets the same request
  back as a replay and the ledger does not change; a command that reuses the key for another model, stream flag, user or body gets a conflict and changes nothing.
\<close>

theorem acceptance_is_idempotent:
  assumes "ledger_ok start" and "AcceptRequest now fates input start = (Inr (row, replayed), db)" and "am_IdempotencyKey input = Some key"
    and "ledger_reach db db'" and "fates' 0 = Runs"
  shows "\<exists>row'. moves row row' \<and> AcceptRequest now' fates' input db' = (Inr (row', True), db') \<and>
    (\<forall>other. am_GatewayKeyID other = am_GatewayKeyID input \<and> am_IdempotencyKey other = Some key \<and> \<not> row_of other row \<longrightarrow>
       AcceptRequest now' fates' other db' = (Inl UsageConflict, db'))"
proof -
  from accept_attempts_Inr [OF assms(2) [unfolded AcceptRequest_def]] obtain fate where once: "acceptRequestOnce now fate input start = (Inr (row, replayed), db)" by blast
  from acceptRequestOnce_Inr [OF once] have row: "row_of input row" "row \<in> set (pg_requests db)" by simp_all
  have "advances start db" using advances_acceptRequestOnce [of start now fate input] once by simp
  then have ok: "ledger_ok db'" using reach_advances [OF assms(4)] assms(1) by (simp add: advances_def)
  from reach_row [OF assms(4) row(2)] obtain row' where row': "row' \<in> set (pg_requests db')" "moves row row'" by blast
  then have same: "row_of c row' = row_of c row" "q_IdempotencyKey row' = Some key" "q_GatewayKeyID row' = am_GatewayKeyID input" for c
    using row(1) assms(3) by (auto simp: moves_def identity_def row_of_def)
  show ?thesis
    using accept_replay [where fates = fates', OF assms(5) ok row'(1) same(2)] row(1) row'(2) same(1,3) assms(3) by (auto intro!: exI [of _ row'])
qed

theorem acceptance_is_idempotent_witness:
  "\<exists>row. AcceptRequest 9000 (\<lambda>_. Runs) sample_accept completed_pg = (Inr (row, True), completed_pg) \<and>
     AcceptRequest 9000 (\<lambda>_. Runs) (sample_accept\<lparr>am_Stream := True\<rparr>) completed_pg = (Inl UsageConflict, completed_pg)"
proof -
  have "map_sum (\<lambda>_. ()) snd (fst (AcceptRequest 1000 (\<lambda>_. Runs) sample_accept sample_pg)) = Inr False" by code_simp
  then obtain row where row: "AcceptRequest 1000 (\<lambda>_. Runs) sample_accept sample_pg = (Inr (row, False), accepted_pg)"
    unfolding accepted_pg_def by (cases "AcceptRequest 1000 (\<lambda>_. Runs) sample_accept sample_pg"; cases "fst (AcceptRequest 1000 (\<lambda>_. Runs) sample_accept sample_pg)") auto
  have "q_Stream row = False"
    using acceptRequestOnce_Inr accept_attempts_Inr [OF row [unfolded AcceptRequest_def]] by (fastforce simp: row_of_def sample_accept_def)
  then have other: "\<not> row_of (sample_accept\<lparr>am_Stream := True\<rparr>) row" by (simp add: row_of_def)
  have "am_IdempotencyKey sample_accept = Some ''idem''" by (simp add: sample_accept_def)
  from acceptance_is_idempotent [where fates' = "\<lambda>_. Runs" and now' = 9000, OF sample_ok row this reach_trans [OF sample_reach(3,2)] refl] other this
  show ?thesis by fastforce
qed

end
