(* ===== verification/FlowSafety.thy ===== *)
theory FlowSafety
  imports RequestFlow
begin

text \<open>
  What the request workflow guarantees whatever its environment answers: an upstream is called again only after it rejected the
  request, every lease, permit and heartbeat is given up, an accepted request ends in the ledger, and the loops end.
\<close>

subsection \<open>Reading the log\<close>

text \<open>An answer that tells that the upstream did not execute the request.\<close>

definition rejection :: "int \<Rightarrow> CError \<Rightarrow> bool" where
  "rejection status e = ((status < 200 \<or> status > 299) \<and> (status < 500 \<or> ce_ReplaySafe e))"

text \<open>
  \<open>sending log\<close> is \<open>Some True\<close> while the upstream may be executing the last call, \<open>Some False\<close> before the first call and after a
  rejection, and \<open>None\<close> when the upstream was called again in the first situation.
\<close>

fun watch_send :: "bool option \<Rightarrow> effect \<Rightarrow> bool option" where
  "watch_send (Some executing) (UpstreamCalled _) = (if executing then None else Some True)"
| "watch_send (Some executing) (UpstreamRefused status e) = Some (executing \<and> \<not> rejection status e)"
| "watch_send s _ = s"

definition sending :: "effect list \<Rightarrow> bool option" where
  "sending l = foldl watch_send (Some False) l"

fun is_call :: "effect \<Rightarrow> bool" where
  "is_call (UpstreamCalled _) = True"
| "is_call _ = False"

definition calls :: "effect list \<Rightarrow> nat" where
  "calls l = length (filter is_call l)"

datatype resource = TheAdmission | TheHeartbeat | TheLease uuid

fun held_change :: "resource \<Rightarrow> effect \<Rightarrow> int" where
  "held_change r AdmissionTaken = of_bool (r = TheAdmission)"
| "held_change r AdmissionReleased = - of_bool (r = TheAdmission)"
| "held_change r HeartbeatStarted = of_bool (r = TheHeartbeat)"
| "held_change r HeartbeatStopped = - of_bool (r = TheHeartbeat)"
| "held_change r (LeaseTaken _ l) = of_bool (r = TheLease l)"
| "held_change r (LeaseReleased l) = - of_bool (r = TheLease l)"
| "held_change r _ = 0"

definition held :: "resource \<Rightarrow> effect list \<Rightarrow> int" where
  "held r l = (\<Sum>e \<leftarrow> l. held_change r e)"

text \<open>The entries that end a request: the ledger was asked to, or the outcome was recorded as uncertain.\<close>

fun ends_request :: "uuid \<Rightarrow> effect \<Rightarrow> bool" where
  "ends_request i (LedgerCompleted j _ None) = (i = j)"
| "ends_request i (LedgerFailed j _ _ _) = (i = j)"
| "ends_request i (LedgerAcceptedFailed j _ _ _) = (i = j)"
| "ends_request i (UncertainMarked claim _ _ r) = (i = cl_RequestID claim \<and> (r = None \<or> r = Some ErrFenced))"
| "ends_request i _ = False"

definition ended :: "uuid \<Rightarrow> effect list \<Rightarrow> bool" where
  "ended i l = (\<exists>e \<in> set l. ends_request i e)"

text \<open>The requests accepted for the first time.\<close>

fun accepted_by :: "effect \<Rightarrow> uuid set" where
  "accepted_by (LedgerAccepted i replayed) = (if replayed then {} else {i})"
| "accepted_by _ = {}"

definition accepts :: "effect list \<Rightarrow> uuid set" where
  "accepts l = (\<Union>e \<in> set l. accepted_by e)"

lemma accepts_append [simp]: "accepts (l @ l') = accepts l \<union> (\<Union>e \<in> set l'. accepted_by e)"
  by (simp add: accepts_def)

lemma sending_append [simp]: "sending (l @ l') = foldl watch_send (sending l) l'"
  by (simp add: sending_def)

lemma calls_append [simp]: "calls (l @ l') = calls l + length (filter is_call l')"
  by (simp add: calls_def)

lemma held_append [simp]: "held r (l @ l') = held r l + (\<Sum>e \<leftarrow> l'. held_change r e)"
  by (simp add: held_def)

lemma ended_append [simp]: "ended i (l @ l') = (ended i l \<or> (\<exists>e \<in> set l'. ends_request i e))"
  by (auto simp: ended_def)

lemma reading_Nil [simp]: "sending [] = Some False" "calls [] = 0" "held r [] = 0" "\<not> ended i []" "accepts [] = {}"
  by (simp_all add: sending_def calls_def held_def ended_def accepts_def)

text \<open>Steps that none of these readings notices.\<close>

definition quiet :: "effect list \<Rightarrow> effect list \<Rightarrow> bool" where
  "quiet l l' = (sending l' = sending l \<and> calls l' = calls l \<and> accepts l' = accepts l \<and> (\<forall>r. held r l' = held r l) \<and> (\<forall>i. ended i l' = ended i l))"

lemma quiet_refl [simp]: "quiet l l"
  by (simp add: quiet_def)

lemma quiet_trans: "quiet l m \<Longrightarrow> quiet m l' \<Longrightarrow> quiet l l'"
  by (simp add: quiet_def)

subsection \<open>One attempt\<close>

text \<open>Errors of an adapter that never claim an outcome which the workflow alone decides.\<close>

definition plain_kind :: "CError \<Rightarrow> bool" where
  "plain_kind e = (ce_Kind e \<noteq> ErrorUncertain \<and> ce_Kind e \<noteq> ErrorStreamInterrupted)"

definition adapter_contract :: "'w env \<Rightarrow> bool" where
  "adapter_contract env = ((\<forall>status header bytes w. plain_kind (fst (ev_ClassifyError env status header bytes w))) \<and>
     (\<forall>key request w e w'. ev_BuildRequest env key request w = (Inl (CanonicalError e), w') \<longrightarrow> plain_kind e))"

lemma adapter_contractD:
  "adapter_contract env \<Longrightarrow> ev_ClassifyError env status header bytes w = (e, w') \<Longrightarrow> plain_kind e"
  "adapter_contract env \<Longrightarrow> ev_BuildRequest env key request w = (Inl (CanonicalError e), w') \<Longrightarrow> plain_kind e"
  unfolding adapter_contract_def by (metis fst_conv) blast

lemma plain_kind_new [simp]: "plain_kind (new_error k c m) \<longleftrightarrow> k \<noteq> ErrorUncertain \<and> k \<noteq> ErrorStreamInterrupted"
  by (simp add: plain_kind_def)

text \<open>
  What an attempt guarantees: it calls the upstream at most \<open>k\<close> times, and unless it was rejected its error is final or one of
  storage, for which there is no retry; when it is final or a success, and the adapter keeps its contract, the request is ended or its
  state could not be persisted. It gives up what it takes.
\<close>

definition attempt_post :: "(bool \<Rightarrow> CError \<Rightarrow> bool) \<Rightarrow> nat \<Rightarrow> uuid \<Rightarrow> effect list \<Rightarrow> bool \<times> (CError + 'a) \<Rightarrow> effect list \<Rightarrow> bool" where
  "attempt_post final k i l outcome l' = (calls l' \<le> calls l + k \<and> accepts l' = accepts l \<and> (ended i l \<longrightarrow> ended i l') \<and>
     (case outcome of
        (committed, Inr _) \<Rightarrow> sending l' \<noteq> None
      | (committed, Inl e) \<Rightarrow> sending l' = Some False \<or> sending l' \<noteq> None \<and> (final committed e \<or> ce_Kind e = ErrorStorageUnavailable)))"

definition attempt_ends :: "(bool \<Rightarrow> CError \<Rightarrow> bool) \<Rightarrow> uuid \<Rightarrow> bool \<times> (CError + 'a) \<Rightarrow> effect list \<Rightarrow> bool" where
  "attempt_ends final i outcome l' = (case outcome of
     (committed, Inr _) \<Rightarrow> ended i l'
   | (committed, Inl e) \<Rightarrow> final committed e \<longrightarrow> ended i l' \<or> ce_Kind e = ErrorStorageUnavailable)"

definition attempt_ok ::
  "'w env \<Rightarrow> (bool \<Rightarrow> CError \<Rightarrow> bool) \<Rightarrow> nat \<Rightarrow> uuid \<Rightarrow> effect list \<Rightarrow> bool \<times> (CError + 'a) \<Rightarrow> effect list \<Rightarrow> bool" where
  "attempt_ok env final k i l outcome l' = (attempt_post final k i l outcome l' \<and> (adapter_contract env \<longrightarrow> attempt_ends final i outcome l') \<and>
     (\<forall>r. held r l' = held r l))"

lemmas attempt_ok_defs = attempt_ok_def attempt_post_def attempt_ends_def plain_kind_def chat_final_def stream_final_def

lemmas accounting_defs = accounting_Complete_def accounting_Fail_def accounting_FailAccepted_def usage_Complete_def usage_Fail_def usage_FailAccepted_def

lemmas attempt_defs = update_attempt_def failAttempt_def mark_uncertain_def markNonStreamUncertain_def buildUpstream_def reconcileLease_def
  call_upstream_def classify_error_def

lemma storageError_Kind [simp]: "ce_Kind (storageError code) = ErrorStorageUnavailable"
  by (simp add: storageError_def)

lemma uncertain_error_Kind [simp]: "ce_Kind uncertain_error = ErrorUncertain"
  by (simp add: uncertain_error_def)

lemma complete_non_stream_ok:
  assumes "sending l = Some True"
  shows "always (complete_non_stream env config run candidate attemptID lease status parsed)
     (\<lambda>r. attempt_ok env chat_final 0 (cl_RequestID (wr_claim run)) l (False, r)) l"
  using assms unfolding complete_non_stream_def attempt_defs accounting_defs Let_def
  by (intro flow_intro) (auto simp: attempt_ok_defs split: option.splits)

lemma markNonStreamUncertain_ok:
  assumes "sending l \<noteq> None"
  shows "always (markNonStreamUncertain env config run candidate attemptID status canceled)
     (\<lambda>e. attempt_ok env chat_final 0 (cl_RequestID (wr_claim run)) l (False, Inl e)) l"
  using assms unfolding markNonStreamUncertain_def mark_uncertain_def Let_def
  by (intro flow_intro) (auto simp: attempt_ok_defs split: option.splits)

text \<open>The request an adapter could not build fails with an error of the service or of the adapter's contract.\<close>

lemma buildUpstream_ok:
  "always (buildUpstream env run candidate) (\<lambda>r l'. l' = l \<and> (\<forall>e. r = Inl e \<and> adapter_contract env \<longrightarrow> plain_kind e)) l"
  unfolding buildUpstream_def
  by (intro flow_intro) (auto simp: asCanonical_def dest: adapter_contractD(2) split: option.splits adapter_error.splits)

lemma failAttempt_ok:
  "always (failAttempt env config claim attemptID e status generation)
     (\<lambda>_. quiet l) l"
  unfolding failAttempt_def update_attempt_def by (intro flow_intro) (auto simp: quiet_def)

lemma classify_error_ok:
  "always (classify_error env response bytes)
     (\<lambda>e l'. l' = l @ [UpstreamRefused (hr_StatusCode response) e] \<and> (adapter_contract env \<longrightarrow> plain_kind e)) l"
  unfolding classify_error_def by (intro flow_intro) (auto dest: adapter_contractD(1))

lemma non_stream_body_ok:
  assumes "sending l = Some False"
  shows "always (non_stream_body env config run candidate sequence lease) (\<lambda>r. attempt_ok env chat_final 1 (cl_RequestID (wr_claim run)) l (False, r)) l"
  unfolding non_stream_body_def update_attempt_def call_upstream_def
  apply (intro flow_intro always_mono [OF buildUpstream_ok] always_mono [OF failAttempt_ok] always_mono [OF classify_error_ok]
      always_mono [OF markNonStreamUncertain_ok] always_mono [OF complete_non_stream_ok])
  using assms by (auto simp: attempt_ok_defs quiet_def rejection_def split: sum.splits)

lemma commit_stream_ok: "always (commit_stream env run attemptID status state) (\<lambda>_. quiet l) l"
  unfolding commit_stream_def mark_streaming_def by (intro flow_intro) (auto simp: quiet_def)

lemma emitEvents_ok: "always (emitEvents env run attemptID status state events) (\<lambda>_. quiet l) l"
proof (induction events arbitrary: state l)
  case Nil
  show ?case by (auto intro: flow_intro)
next
  case (Cons event events)
  show ?case
    unfolding emitEvents.simps send_event_def Let_def
    by (intro flow_intro always_mono [OF commit_stream_ok] always_mono [OF Cons.IH]) (auto simp: quiet_def)
qed

lemma stream_loop_ok: "always (stream_loop env run attemptID status state body) (\<lambda>_. quiet l) l"
proof (induction "body_size body" arbitrary: state body l rule: less_induct)
  case less
  obtain bytes out rest where read: "next_read 32768 body = ((bytes, out), rest)"
    by (metis surj_pair)
  have more: "always (stream_loop env run attemptID status st rest) (\<lambda>_. quiet l) m" if "quiet l m" "out = MoreToRead" for st m
  proof (rule always_mono [OF less])
    show "body_size rest < body_size body"
      using next_read_smaller [of 32768 body bytes rest] read that(2) by simp
  qed (use that(1) quiet_trans in blast)
  have step: "always (case out of MoreToRead \<Rightarrow> stream_loop env run attemptID status st rest
        | ReadEOF \<Rightarrow> ret (st, None)
        | ReadFailure _ \<Rightarrow> ret (st, Some (new_error ErrorStreamInterrupted ''provider_stream_read_failed'' ''provider stream was interrupted'')))
      (\<lambda>_. quiet l) m" if "quiet l m" for st m
    using that more by (cases out) (auto intro!: flow_intro)
  show ?case
    unfolding stream_loop.simps [of env run attemptID status state body] read prod.case
    by (intro flow_intro always_mono [OF emitEvents_ok]) (auto intro!: step flow_intro simp: quiet_def)
qed

lemma finishBrokenStream_ok:
  assumes "sending l \<noteq> None"
  shows "always (finishBrokenStream env config run candidate attemptID state e) (attempt_ok env stream_final 0 (cl_RequestID (wr_claim run)) l) l"
  using assms unfolding finishBrokenStream_def mark_uncertain_def Let_def
  by (intro flow_intro) (auto simp: attempt_ok_defs)

lemma complete_stream_ok:
  assumes "sending l = Some True"
  shows "always (complete_stream env config run candidate attemptID lease status state doneEvent) (attempt_ok env stream_final 0 (cl_RequestID (wr_claim run)) l) l"
  using assms unfolding complete_stream_def update_attempt_def accounting_defs reconcileLease_def send_event_def Let_def
  by (intro flow_intro) (auto simp: attempt_ok_defs split: option.splits)

lemma attempt_ok_quiet: "attempt_ok env final k i m outcome l' \<Longrightarrow> quiet l m \<Longrightarrow> attempt_ok env final k i l outcome l'"
  by (simp add: attempt_ok_def attempt_post_def quiet_def del: not_None_eq)

lemma read_stream_ok:
  assumes "sending l = Some True"
  shows "always (read_stream env config run candidate attemptID lease response) (attempt_ok env stream_final 0 (cl_RequestID (wr_claim run)) l) l"
  unfolding read_stream_def Let_def
  by (intro flow_intro always_mono [OF stream_loop_ok] always_mono [OF emitEvents_ok] always_mono [OF finishBrokenStream_ok] always_mono [OF complete_stream_ok])
    (use assms in \<open>auto simp: quiet_def elim!: attempt_ok_quiet\<close>)

lemma stream_body_ok:
  assumes "sending l = Some False"
  shows "always (stream_body env config run candidate sequence lease) (attempt_ok env stream_final 1 (cl_RequestID (wr_claim run)) l) l"
  unfolding stream_body_def update_attempt_def call_upstream_def
  apply (intro flow_intro always_mono [OF buildUpstream_ok] always_mono [OF failAttempt_ok] always_mono [OF classify_error_ok]
      always_mono [OF finishBrokenStream_ok] always_mono [OF read_stream_ok])
  using assms by (auto simp: attempt_ok_defs quiet_def rejection_def split: sum.splits)

subsection \<open>Selection of a candidate\<close>

abbreviation candidate_ids :: "workflowRun \<Rightarrow> uuid set" where
  "candidate_ids run \<equiv> up_ID ` set (wr_candidates run)"

text \<open>The number of rounds a selection may still take.\<close>

definition unexcluded :: "workflowRun \<Rightarrow> CandidateID list \<Rightarrow> nat" where
  "unexcluded run excluded = card (candidate_ids run - set excluded)"

lemma unexcluded_le: "unexcluded run excluded \<le> length (wr_candidates run)"
proof -
  have "unexcluded run excluded \<le> card (candidate_ids run)"
    unfolding unexcluded_def by (intro card_mono) auto
  also have "\<dots> \<le> length (wr_candidates run)"
    using card_length [of "map up_ID (wr_candidates run)"] by simp
  finally show ?thesis .
qed

lemma unexcluded_append: "i \<in> candidate_ids run \<Longrightarrow> i \<notin> set excluded \<Longrightarrow> unexcluded run (excluded @ [i]) < unexcluded run excluded"
  unfolding unexcluded_def by (intro psubset_card_mono) auto

lemma unexcluded_more: "n \<le> unexcluded run (excluded @ is) \<Longrightarrow> n \<le> unexcluded run excluded"
  unfolding unexcluded_def by (erule order_trans, intro card_mono) auto

lemma upstream_by_id_ID: "i \<in> up_ID ` set cs \<Longrightarrow> up_ID (upstream_by_id cs i) = i"
proof -
  assume "i \<in> up_ID ` set cs"
  then obtain c where c: "map_of (rev (map (\<lambda>c. (up_ID c, c)) cs)) i = Some c"
    using map_of_eq_None_iff [of "rev (map (\<lambda>c. (up_ID c, c)) cs)" i] by (auto simp: image_iff)
  then have "up_ID c = i" by (auto dest: map_of_SomeD)
  then show ?thesis using c by (simp add: upstream_by_id_def)
qed

lemma Select_selected:
  assumes "Select intn (route_requirements run excluded now) (map (route_candidate run) (wr_candidates run)) = Inr d" and "de_SelectedCandidateID d \<noteq> []"
  shows "de_SelectedCandidateID d \<in> candidate_ids run" and "de_SelectedCandidateID d \<notin> set excluded"
proof -
  note facts = Select_sound_facts [OF assms(1)]
  have "de_Mode d = SelectionPriorityWeighted" using facts(3) assms(2) by (cases "de_Mode d") auto
  then obtain c where "best_candidate (route_requirements run excluded now) (map (route_candidate run) (wr_candidates run)) c"
      "ca_ID c = de_SelectedCandidateID d"
    using facts(4) by auto
  then obtain x where "x \<in> set (wr_candidates run)" "de_SelectedCandidateID d = up_ID x" "eligible (route_requirements run excluded now) (route_candidate run x)"
    by (auto simp: best_candidate_def route_candidate_def)
  then show "de_SelectedCandidateID d \<in> candidate_ids run" and "de_SelectedCandidateID d \<notin> set excluded"
    by (auto simp: eligible_def route_candidate_def route_requirements_def)
qed

lemma selectCandidate_ok:
  "always (selectCandidate env run excluded)
     (\<lambda>r l'. l' = l \<and> (\<forall>c. r = Inr c \<longrightarrow> up_ID c \<in> candidate_ids run \<and> up_ID c \<notin> set excluded)) l"
  unfolding selectCandidate_def
  by (intro flow_intro)
    (auto simp: Let_def upstream_by_id_ID [OF Select_selected(1)] dest: Select_selected split: sum.splits if_splits)

text \<open>A selection ends within as many rounds as there are candidates not yet excluded, and only adds to the excluded ones.\<close>

lemma candidateDecision_ok:
  "unexcluded run excluded < rounds \<Longrightarrow>
   always (candidateDecision rounds env run excluded excluded earliest flag)
     (\<lambda>r l'. quiet l l' \<and> (\<exists>excluded' res. r = Some (excluded', res) \<and> length excluded \<le> length excluded' \<and>
        unexcluded run excluded' \<le> unexcluded run excluded \<and> (\<forall>c. res = Inr c \<longrightarrow> up_ID c \<in> candidate_ids run \<and> up_ID c \<notin> set excluded'))) l"
proof (induction rounds arbitrary: excluded flag l)
  case 0
  then show ?case by simp
next
  case (Suc rounds)
  have less: "unexcluded run (excluded @ [up_ID c]) < rounds"
    if "up_ID c \<in> candidate_ids run" "up_ID c \<notin> set excluded" for c
    using unexcluded_append [OF that] Suc.prems by simp
  show ?case
    unfolding candidateDecision.simps
    by (intro flow_intro always_mono [OF selectCandidate_ok] always_mono [OF Suc.IH]) (use less in \<open>auto simp: quiet_def dest: unexcluded_more\<close>)
qed

lemma acquire_lease_ok:
  "always (acquire_lease env run candidate) (\<lambda>r l'. sending l' = sending l \<and> calls l' = calls l \<and> accepts l' = accepts l \<and> (\<forall>i. ended i l' = ended i l) \<and>
     (\<forall>x. held x l' = held x l + (case r of Inl _ \<Rightarrow> 0 | Inr lease \<Rightarrow> of_bool (x = TheLease lease)))) l"
  unfolding acquire_lease_def by (intro flow_intro) (auto split: sum.splits)

lemma attemptDecision_ok:
  "unexcluded run excluded < rounds \<Longrightarrow>
   always (attemptDecision rounds env run excluded earliest flag)
     (\<lambda>r l'. sending l' = sending l \<and> calls l' = calls l \<and> accepts l' = accepts l \<and> (\<forall>i. ended i l' = ended i l) \<and> (\<exists>excluded' res. r = Some (excluded', res) \<and>
        length excluded \<le> length excluded' \<and>
        (\<forall>x. held x l' = held x l + (case res of Inl _ \<Rightarrow> 0 | Inr (c, lease) \<Rightarrow> of_bool (x = TheLease lease))))) l"
proof (induction rounds arbitrary: excluded earliest flag l)
  case 0
  then show ?case by simp
next
  case (Suc rounds)
  have le: "unexcluded run excluded < Suc (length (wr_candidates run))"
    using unexcluded_le [of run excluded] by simp
  have less: "unexcluded run (excluded' @ [up_ID c]) < rounds"
    if "up_ID c \<in> candidate_ids run" "up_ID c \<notin> set excluded'" "unexcluded run excluded' \<le> unexcluded run excluded" for c excluded'
    using unexcluded_append [OF that(1,2)] that(3) Suc.prems by simp
  show ?case
    unfolding attemptDecision.simps
    apply (intro flow_intro always_mono [OF candidateDecision_ok [OF le]] always_mono [OF acquire_lease_ok] always_mono [OF Suc.IH])
    using less by (auto simp: quiet_def split: sum.splits)
qed

subsection \<open>The accounting of a failure\<close>

text \<open>The usage service records a failure when its kind is not empty and neither text is too long.\<close>

definition recordable :: "string \<Rightarrow> string \<Rightarrow> bool" where
  "recordable kind detail = (fst (normalizeFailure kind detail) \<noteq> [])"

lemma accounting_Fail_ok:
  "always (accounting_Fail env claim kind detail) (\<lambda>_ l'. sending l' = sending l \<and> calls l' = calls l \<and> accepts l' = accepts l \<and> (\<forall>r. held r l' = held r l) \<and>
     (\<forall>i. ended i l \<longrightarrow> ended i l') \<and> (Valid claim \<and> recordable kind detail \<longrightarrow> ended (cl_RequestID claim) l')) l"
  unfolding accounting_Fail_def usage_Fail_def by (intro flow_intro) (auto simp: Valid_def recordable_def)

lemma drop_one_prefix: "drop_one es s = Some t \<Longrightarrow> \<exists>e \<in> set es. s = e @ t"
  by (induction es) (auto split: if_splits, metis append_take_drop_id)

text \<open>Trimming removes bytes of the encodings of spaces only.\<close>

lemma trim_left_keeps: "c \<in> set s \<Longrightarrow> c \<notin> \<Union> (set ` set es) \<Longrightarrow> c \<in> set (trim_left es s)"
proof (induction es s rule: trim_left.induct)
  case (1 es s)
  show ?case
  proof (cases "drop_one es s")
    case None
    then show ?thesis using 1 by (subst trim_left.simps) simp
  next
    case (Some t)
    then have "c \<in> set t" using drop_one_prefix [OF Some] 1 by auto
    then show ?thesis using 1 Some by (subst trim_left.simps) simp
  qed
qed

lemma trim_left_length: "length (trim_left es s) \<le> length s"
proof (induction es s rule: trim_left.induct)
  case (1 es s)
  show ?case
  proof (cases "drop_one es s")
    case None
    then show ?thesis by (subst trim_left.simps) simp
  next
    case (Some t)
    then have "length (trim_left es t) \<le> length s" using 1 [OF Some] drop_one_shorter [OF Some] by simp
    then show ?thesis using Some by (subst trim_left.simps) simp
  qed
qed

lemma space_bytes: "c \<in> \<Union> (set ` set space_encodings) \<Longrightarrow> of_char c \<le> (32::nat) \<or> of_char c \<ge> (128::nat)"
  by (auto simp: space_encodings_def)

lemma TrimSpace_nonempty:
  assumes "c \<in> set s" and "33 \<le> (of_char c :: nat)" and "of_char c \<le> (127::nat)"
  shows "TrimSpace s \<noteq> []"
proof -
  have c: "c \<notin> \<Union> (set ` set space_encodings)" using space_bytes [of c] assms(2,3) by auto
  then have "c \<in> set (trim_left (map rev space_encodings) (rev (trim_left space_encodings s)))"
    by (intro trim_left_keeps) (auto intro: trim_left_keeps assms(1))
  then show ?thesis unfolding TrimSpace_def by auto
qed

lemma RuneCount_length: "RuneCountInString s \<le> length s"
proof (induction s rule: RuneCountInString.induct)
  case (1 s)
  have "RuneCountInString (drop (rune_len s) s) < length s" if "s \<noteq> []"
    using 1 [OF that] rune_len_pos [of s] that by (simp add: diff_less order.strict_trans1)
  then show ?case by (subst RuneCountInString.simps) (simp add: Suc_le_eq)
qed

lemma TrimSpace_length: "length (TrimSpace s) \<le> length s"
  unfolding TrimSpace_def
  using trim_left_length [of space_encodings s] trim_left_length [of "map rev space_encodings" "rev (trim_left space_encodings s)"] by simp

lemma recordableI:
  assumes "c \<in> set kind" and "33 \<le> (of_char c :: nat)" and "of_char c \<le> (127::nat)" and "length kind \<le> 100" and "length detail \<le> 2000"
  shows "recordable kind detail"
proof -
  have "RuneCountInString (TrimSpace kind) \<le> 100" "RuneCountInString (TrimSpace detail) \<le> 2000"
    using assms(4,5) RuneCount_length TrimSpace_length by (meson order_trans)+
  then show ?thesis
    using TrimSpace_nonempty [OF assms(1-3)] by (simp add: recordable_def normalizeFailure_def Let_def)
qed

lemma recordable_canceled: "recordable ''canceled'' ''request canceled during retry wait''"
  by (rule recordableI [of "CHR ''c''"]) simp_all

subsection \<open>The loop over attempts\<close>

text \<open>There is no retry beyond the attempt budget, and none of an error of storage.\<close>

lemma schedules_retryable:
  assumes "schedules (Decide p now (retry_input attemptNumber startedAt e)) = Some t"
  shows "retryableFailure (failureClass (ce_Kind e))" and "attemptNumber < rc_MaxAttempts (rp_config p)"
  using assms
  by (auto simp: schedules_def Decide_def stopRetry_def retry_input_def Let_def split: sum.splits if_splits option.splits)

lemma schedules_budget:
  "schedules (Decide (p\<lparr>rp_random := draw\<rparr>) now (retry_input attemptNumber startedAt e)) = Some t \<Longrightarrow> attemptNumber < rc_MaxAttempts (rp_config p)"
  using schedules_retryable(2) by fastforce

lemma schedules_storage:
  "schedules (Decide p now (retry_input attemptNumber startedAt e)) = Some t \<Longrightarrow> ce_Kind e \<noteq> ErrorStorageUnavailable"
  using schedules_retryable(1) by fastforce

lemma shouldTryNextCandidate_storage: "shouldTryNextCandidate e \<Longrightarrow> ce_Kind e \<noteq> ErrorStorageUnavailable"
  by (auto simp: shouldTryNextCandidate_def)

text \<open>The number of attempts that may follow, with \<open>k\<close> candidates excluded at the attempt \<open>a\<close>.\<close>

definition attempts_left :: "int \<Rightarrow> nat \<Rightarrow> int \<Rightarrow> nat \<Rightarrow> nat" where
  "attempts_left budget n a k = (if a < budget then nat (budget - a) + max 1 n else max 1 (n - k))"

lemma attempts_left_next: "k \<le> k' \<Longrightarrow> k' + 1 < n \<Longrightarrow> Suc (attempts_left budget n (a + 1) (k' + 1)) \<le> attempts_left budget n a k"
  by (auto simp: attempts_left_def)

lemma attempts_left_retry: "a < budget \<Longrightarrow> Suc (attempts_left budget n (a + 1) k') \<le> attempts_left budget n a k"
  by (auto simp: attempts_left_def)

text \<open>The postcondition of the loop, started with the log \<open>l\<close> and \<open>n\<close> attempts left.\<close>

definition loop_post :: "'w env \<Rightarrow> workflowRun \<Rightarrow> (bool \<Rightarrow> CError \<Rightarrow> bool) \<Rightarrow> nat \<Rightarrow> effect list \<Rightarrow> (CError + 'a) option \<Rightarrow> effect list \<Rightarrow> bool" where
  "loop_post env run final n l result l' = (sending l' \<noteq> None \<and> calls l' \<le> calls l + n \<and> accepts l' = accepts l \<and> (\<forall>r. held r l' = held r l) \<and>
     (case result of
        None \<Rightarrow> False
      | Some (Inr _) \<Rightarrow> adapter_contract env \<longrightarrow> ended (cl_RequestID (wr_claim run)) l'
      | Some (Inl e) \<Rightarrow> adapter_contract env \<and> Valid (wr_claim run) \<and> recordable (ce_Code e) (ce_Message e) \<longrightarrow>
          ended (cl_RequestID (wr_claim run)) l' \<or> ce_Kind e = ErrorStorageUnavailable \<and> (\<exists>committed. final committed e)))"

text \<open>What the loop relies on in an attempt: its postcondition, and that it releases the lease it is given.\<close>

locale upstream_attempt =
  fixes env :: "'w env" and run :: workflowRun
    and attempt :: "Upstream \<Rightarrow> int \<Rightarrow> uuid option \<Rightarrow> ('w, bool \<times> (CError + 'a)) work" and final :: "bool \<Rightarrow> CError \<Rightarrow> bool"
  assumes attempt_ok: "sending l = Some False \<Longrightarrow> always (attempt candidate sequence (Some lease))
    (\<lambda>outcome l'. attempt_post final 1 (cl_RequestID (wr_claim run)) l outcome l' \<and>
       (adapter_contract env \<longrightarrow> attempt_ends final (cl_RequestID (wr_claim run)) outcome l') \<and> (\<forall>r. held r l' = held r l - of_bool (r = TheLease lease))) l"
begin

lemma loop_ok:
  assumes "sending l = Some False" and "attempts_left (rc_MaxAttempts (rp_config retry)) (length (wr_candidates run)) attemptNumber (length excluded) \<le> rounds"
  shows "always (attempt_loop rounds env config retry run attempt final startedAt excluded attemptNumber)
    (loop_post env run final (attempts_left (rc_MaxAttempts (rp_config retry)) (length (wr_candidates run)) attemptNumber (length excluded)) l) l"
  using assms
proof (induction rounds arbitrary: l excluded attemptNumber)
  case 0
  then show ?case by (auto simp: attempts_left_def split: if_splits)
next
  case (Suc rounds)
  let ?left = "attempts_left (rc_MaxAttempts (rp_config retry)) (length (wr_candidates run))"
  let ?post = "loop_post env run final (?left attemptNumber (length excluded)) l"
  have le: "unexcluded run excluded < Suc (length (wr_candidates run))"
    using unexcluded_le [of run excluded] by simp
  have some: "1 \<le> ?left attemptNumber (length excluded)"
    by (auto simp: attempts_left_def)
  have fail: "always (accounting_Fail env (wr_claim run) (ce_Code e) (ce_Message e) \<bind> (\<lambda>_. ret (Some (Inl e)))) ?post m"
    if "sending m \<noteq> None" "calls m \<le> calls l + 1" "accepts m = accepts l" "\<forall>r. held r m = held r l" for m e
    using that some by (intro flow_intro always_mono [OF accounting_Fail_ok]) (auto simp: loop_post_def)
  have canceled: "always (accounting_Fail env (wr_claim run) ''canceled'' ''request canceled during retry wait'' \<bind> (\<lambda>_. ret (Some (Inl e)))) ?post m"
    if "sending m \<noteq> None" "calls m \<le> calls l + 1" "accepts m = accepts l" "\<forall>r. held r m = held r l" for m e
    using that some recordable_canceled by (intro flow_intro always_mono [OF accounting_Fail_ok]) (auto simp: loop_post_def)
  have again: "always (attempt_loop rounds env config retry run attempt final startedAt excluded' (attemptNumber + 1)) ?post m"
    if "sending m = Some False" "calls m \<le> calls l + 1" "accepts m = accepts l" "\<forall>r. held r m = held r l"
      "Suc (?left (attemptNumber + 1) (length excluded')) \<le> ?left attemptNumber (length excluded)" for m excluded'
    using that Suc.prems(2) by (intro always_mono [OF Suc.IH]) (auto simp: loop_post_def)
  have observe: "always (observeAttempt kind e) (\<lambda>_. quiet m) m" for kind e m
    unfolding observeAttempt_def by (intro flow_intro) (auto simp: quiet_def)
  show ?case
    unfolding attempt_loop.simps waitUntil_def Let_def
    apply (intro always_mono [OF attemptDecision_ok [OF le]] always_mono [OF attempt_ok] fail canceled again always_mono [OF observe] flow_intro)
    using Suc.prems(1) some
    by (auto simp: attempt_post_def attempt_ends_def quiet_def loop_post_def split: prod.splits
        dest: schedules_budget schedules_storage shouldTryNextCandidate_storage intro: attempts_left_next [simplified] attempts_left_retry)
qed

end

text \<open>Both kinds of attempt keep the contract.\<close>

interpretation chat_attempts: upstream_attempt env run "chat_attempt env config run" chat_final
  for env :: "'w env" and run and config
proof (unfold_locales, goal_cases)
  case (1 l candidate sequence lease)
  then show ?case
    unfolding chat_attempt_def nonStreamAttempt_def with_lease_def
    by (intro flow_intro always_mono [OF non_stream_body_ok]) (auto simp: attempt_ok_def attempt_post_def attempt_ends_def split: sum.splits)
qed

interpretation stream_attempts: upstream_attempt env run "streamAttempt env config run" stream_final
  for env :: "'w env" and run and config
proof (unfold_locales, goal_cases)
  case (1 l candidate sequence lease)
  then show ?case
    unfolding streamAttempt_def with_lease_def
    by (intro flow_intro always_mono [OF stream_body_ok]) (auto simp: attempt_ok_def attempt_post_def attempt_ends_def split: sum.splits)
qed

subsection \<open>Preparation\<close>

text \<open>A claim that the repository grants is for the request it was asked for, and valid.\<close>

definition claim_contract :: "'w env \<Rightarrow> bool" where
  "claim_contract env = (\<forall>i x w c w'. ev_ClaimExecution env i x w = (Inr c, w') \<longrightarrow> cl_RequestID c = i \<and> Valid c)"

lemma claim_contractD:
  "claim_contract env \<Longrightarrow> ev_ClaimExecution env i x w = (Inr c, w') \<Longrightarrow> cl_RequestID c = i \<and> Valid c"
  unfolding claim_contract_def by blast

lemma accounting_FailAccepted_ok:
  "always (accounting_FailAccepted env i kind detail) (\<lambda>_ l'. sending l' = sending l \<and> calls l' = calls l \<and> accepts l' = accepts l \<and> (\<forall>r. held r l' = held r l) \<and>
     (\<forall>j. ended j l \<longrightarrow> ended j l') \<and>
     (i \<noteq> uuid_nil \<and> recordable kind detail \<longrightarrow> ended i l')) l"
  unfolding accounting_FailAccepted_def usage_FailAccepted_def by (intro flow_intro) (auto simp: recordable_def)

text \<open>The numbers of candidates the repository may list.\<close>

definition listed :: "'w env \<Rightarrow> nat \<Rightarrow> bool" where
  "listed env n = (\<exists>pool model w cs w'. ev_ListCandidates env pool model w = (Inr cs, w') \<and> length cs = n)"

lemma listedI: "ev_ListCandidates env pool model w = (Inr cs, w') \<Longrightarrow> listed env (length cs)"
  unfolding listed_def by blast

text \<open>What a preparation leaves: nothing when it refuses, and otherwise the permit and the heartbeat of the run.\<close>

definition prepare_post :: "'w env \<Rightarrow> CError + workflowRun \<Rightarrow> effect list \<Rightarrow> bool" where
  "prepare_post env result l = (sending l = Some False \<and> calls l = 0 \<and>
     (case result of
        Inl e \<Rightarrow> (\<forall>r. held r l = 0) \<and> (\<forall>i \<in> accepts l. i \<noteq> uuid_nil \<longrightarrow> ended i l)
      | Inr run \<Rightarrow> (\<forall>r. held r l = of_bool (r = TheHeartbeat) + of_bool (r = TheAdmission \<and> wr_admissionPermit run)) \<and>
          (claim_contract env \<longrightarrow> Valid (wr_claim run) \<and> accepts l \<subseteq> {cl_RequestID (wr_claim run)}) \<and>
          wr_candidates run \<noteq> [] \<and> listed env (length (wr_candidates run))))"

lemma recordable_prepare:
  "recordable ''candidate_lookup_failed'' ''upstream candidates could not be read''"
  "recordable ''resource_pool_unavailable'' ''no eligible upstream credential is available''"
  "recordable ''acceptance_persistence_failed'' ''accepted request could not be linked to its caller''"
  "recordable ''execution_claim_failed'' ''request execution could not be claimed''"
  "recordable ''invalid_acceptance'' ''accepted request is missing its coordination capacity''"
  by (rule recordableI [of "CHR ''a''"]; simp)+

definition accepted_log :: "bool \<Rightarrow> uuid \<Rightarrow> effect list \<Rightarrow> bool" where
  "accepted_log permit i l = (sending l = Some False \<and> calls l = 0 \<and> (\<forall>r. held r l = of_bool (r = TheAdmission \<and> permit)) \<and>
     accepts l \<subseteq> {i})"

lemma prepare_refusal_ok:
  assumes "accepted_log permit i l" and "recordable code detail"
  shows "always (prepare_refusal env permit i code detail e) (prepare_post env') l"
  using assms unfolding prepare_refusal_def release_admission_def
  by (intro flow_intro always_mono [OF accounting_FailAccepted_ok]) (auto simp: prepare_post_def accepted_log_def)

lemma prepare_execution_ok:
  assumes "accepted_log permit (ac_RequestID accepted) l"
  shows "always (prepare_execution env command model permit accepted) (prepare_post env) l"
  unfolding prepare_execution_def
  by (intro prepare_refusal_ok recordable_prepare flow_intro)
    (use assms in \<open>auto simp: prepare_post_def accepted_log_def dest: claim_contractD listedI split: sum.splits\<close>)

lemma prepare_accept_ok:
  assumes "accepted_log permit i l" and "accepts l = {}"
  shows "always (prepare_accept env command model requestID permit) (prepare_post env) l"
  unfolding prepare_accept_def accounting_AcceptRequest_def usage_AcceptRequest_def release_admission_def Let_def
  apply (intro prepare_execution_ok always_mono [OF accounting_FailAccepted_ok] flow_intro)
  using assms recordable_prepare by (auto simp: prepare_post_def accepted_log_def split: sum.splits)

lemma prepare_ok: "always (prepare env command) (prepare_post env) []"
  unfolding prepare_def
  by (intro prepare_accept_ok flow_intro) (auto simp: prepare_post_def accepted_log_def sending_def calls_def held_def accepts_def split: sum.splits if_splits)

subsection \<open>The two entry points\<close>

text \<open>The postcondition of \<open>Chat\<close> and \<open>Stream\<close>, started with an empty log.\<close>

definition flow_post :: "'w env \<Rightarrow> int \<Rightarrow> (bool \<Rightarrow> CError \<Rightarrow> bool) \<Rightarrow> (CError + 'a) option \<Rightarrow> effect list \<Rightarrow> bool" where
  "flow_post env budget final result l = (sending l \<noteq> None \<and> (\<forall>r. held r l = 0) \<and>
     (calls l = 0 \<or> (\<exists>n. listed env n \<and> calls l \<le> attempts_left budget n 1 0)) \<and>
     (case result of
        None \<Rightarrow> False
      | Some r \<Rightarrow> adapter_contract env \<and> claim_contract env \<and> (\<forall>e. r = Inl e \<longrightarrow> recordable (ce_Code e) (ce_Message e)) \<longrightarrow>
          (\<forall>i \<in> accepts l. i \<noteq> uuid_nil \<longrightarrow> ended i l \<or> (\<exists>e committed. r = Inl e \<and> ce_Kind e = ErrorStorageUnavailable \<and> final committed e))))"

lemma attempt_bound_enough:
  "attempts_left (rc_MaxAttempts (rp_config retry)) (length (wr_candidates run)) 1 0 \<le> attempt_bound retry run" if "wr_candidates run \<noteq> []"
  using that by (cases "wr_candidates run") (auto simp: attempts_left_def attempt_bound_def)

text \<open>An execution that keeps the postcondition of the loop, between the start and the end of its run.\<close>

lemma run_execution_ok:
  assumes "prepare_post env (Inr run) l"
    and "always execution (loop_post env run final (attempts_left budget (length (wr_candidates run)) 1 0) l) l"
  shows "always (run_execution run execution) (flow_post env budget final) l"
  unfolding run_execution_def release_admission_def
  apply (intro flow_intro always_mono [OF assms(2)])
  using assms(1) by (auto simp: loop_post_def prepare_post_def flow_post_def split: option.splits sum.splits)


lemma recordable_entry:
  "recordable ''invalid_request'' ''stream request used non-stream workflow''"
  "recordable ''invalid_request'' ''non-stream request used stream workflow''"
  by (rule recordableI [of "CHR ''i''"]; simp)+

lemma flow_ok:
  assumes "prepare_post env result l"
    and "\<And>run. result = Inr run \<Longrightarrow> sending l = Some False \<Longrightarrow>
      attempts_left (rc_MaxAttempts (rp_config retry)) (length (wr_candidates run)) 1 0 \<le> attempt_bound retry run \<Longrightarrow>
      always (execution run) (loop_post env run final (attempts_left (rc_MaxAttempts (rp_config retry)) (length (wr_candidates run)) 1 0) l) l"
  shows "always (case result of Inl e \<Rightarrow> ret (Some (Inl e)) | Inr run \<Rightarrow> run_execution run (execution run))
    (flow_post env (rc_MaxAttempts (rp_config retry)) final) l"
proof (intro flow_intro, goal_cases)
  case (1 e)
  then show ?case using assms(1) by (auto simp: flow_post_def prepare_post_def)
next
  case (2 run)
  then have "sending l = Some False" "wr_candidates run \<noteq> []"
    using assms(1) by (auto simp: prepare_post_def)
  then show ?case using assms(1) 2 by (auto intro!: run_execution_ok assms(2) attempt_bound_enough)
qed

lemma Chat_ok: "always (Chat env config retry command) (flow_post env (rc_MaxAttempts (rp_config retry)) chat_final) []"
  unfolding Chat_def
proof (intro always_bind always_mono [OF prepare_ok] flow_ok flow_intro always_mono [OF accounting_Fail_ok], goal_cases)
  case (2 prepared l run startedAt)
  then show ?case using recordable_entry(1) by (auto simp: loop_post_def)
next
  case (3 prepared l run)
  then show ?case by (auto intro: chat_attempts.loop_ok [where excluded = "[]", simplified])
qed

lemma Stream_ok: "always (Stream env config retry command sink) (flow_post env (rc_MaxAttempts (rp_config retry)) stream_final) []"
  unfolding Stream_def
proof (intro always_if always_bind always_mono [OF prepare_ok] flow_ok flow_intro always_mono [OF accounting_Fail_ok], goal_cases)
  case 1
  then show ?case by (auto simp: flow_post_def)
next
  case (3 prepared l run startedAt)
  then show ?case using recordable_entry(2) by (auto simp: loop_post_def)
next
  case (4 prepared l run)
  then show ?case by (auto intro: stream_attempts.loop_ok [where excluded = "[]", simplified])
qed

end
