(* ===== verification/FlowGuarantees.thy ===== *)
theory FlowGuarantees
  imports FlowSafety
begin

text \<open>
  The guarantees of the two entry points of the request workflow, \<open>Chat\<close> and \<open>Stream\<close>, in any environment, and runs in concrete environments.
\<close>

subsection \<open>Runs in a sample environment\<close>

definition flow_config :: FlowConfig where
  "flow_config = \<lparr>fc_MaxResponseBytes = 4096, fc_ExecutionHeartbeatInterval = 1000, fc_OpenDuration = 500\<rparr>"

definition flow_policy :: "unit RetryPolicy" where
  "flow_policy = \<lparr>rp_config = \<lparr>rc_MaxAttempts = 2, rc_MaxElapsed = 10000,
     rc_Backoff = \<lparr>bc_Initial = 100, bc_Maximum = 1000, bc_MultiplierNumerator = 2, bc_MultiplierDenominator = 1, bc_JitterPermille = 0\<rparr>\<rparr>,
     rp_clock = (), rp_random = None\<rparr>"

definition sample_command :: ChatCommand where
  "sample_command = \<lparr>cm_UserID = ''user'', cm_KeyID = ''key'', cm_Request = (plain_request [user_message ''hi''] None)\<lparr>cq_Model := ''kimi-k3''\<rparr>,
     cm_RequestDigest = replicate 32 CHR ''d'', cm_IdempotencyKey = None, cm_RequestID = ''req'', cm_AcceptedSink = False, cm_ResultSink = False\<rparr>"

definition sample_response :: ChatResponse where
  "sample_response = \<lparr>cs_ID = ''up'', cs_RequestID = '''', cs_Model = ''m'', cs_CreatedAt = 7, cs_Choices = [], cs_Usage = None\<rparr>"

text \<open>An environment whose upstream answers with the given responses in turn; its state is the number of calls so far.\<close>

definition sample_env :: "HTTPResponse list \<Rightarrow> CError \<Rightarrow> nat env" where
  "sample_env answers refusal = \<lparr>
     ev_Now = (\<lambda>w. (1000, w)), ev_Canceled = (\<lambda>w. (False, w)), ev_Wait = (\<lambda>_ w. (False, w)), ev_NewUUID = (\<lambda>w. (''exec'', w)),
     ev_Intn = (\<lambda>w. (\<lambda>_. 0, w)), ev_Jitter = (\<lambda>w. (\<lambda>_. 0, w)),
     ev_ResolveModel = (\<lambda>_ _ w. (Inr kimi_k3_model, w)), ev_Admit = (\<lambda>_ w. (Inr True, w)),
     ev_RepoAccept = (\<lambda>c w. (Inr \<lparr>rs_RequestID = am_RequestID c, rs_ResourcePoolID = ''pool'', rs_Replayed = False\<rparr>, w)),
     ev_RepoComplete = (\<lambda>_ _ _ w. (None, w)), ev_RepoFail = (\<lambda>_ _ _ _ w. (None, w)), ev_RepoFailAccepted = (\<lambda>_ _ _ w. (None, w)),
     ev_RepoFailWithUsage = (\<lambda>_ _ _ _ _ w. (None, w)),
     ev_ListCandidates = (\<lambda>_ _ w. (Inr [zero_upstream\<lparr>up_ID := ''a''\<rparr>, zero_upstream\<lparr>up_ID := ''b''\<rparr>], w)),
     ev_AcceptedSink = (\<lambda>_ w. (None, w)), ev_ClaimExecution = (\<lambda>i x w. (if i = uuid_nil \<or> x = uuid_nil then Inl (OtherError ''not claimable'') else Inr \<lparr>cl_RequestID = i, cl_ExecutionID = x, cl_Generation = 1\<rparr>, w)),
     ev_HealthPermit = (\<lambda>_ w. (Inr 1, w)), ev_AcquireLease = (\<lambda>r w. (Inr (lq_CredentialID r), w)), ev_ReconcileLease = (\<lambda>_ _ w. (None, w)),
     ev_ReleaseLease = (\<lambda>_ w. (None, w)), ev_CreateAttempt = (\<lambda>_ c _ w. (Inr c, w)), ev_UpdateAttempt = (\<lambda>_ _ _ w. (None, w)),
     ev_MarkStreaming = (\<lambda>_ _ _ w. (None, w)), ev_MarkUncertain = (\<lambda>_ _ _ _ _ w. (None, w)), ev_Adapter = (\<lambda>_ w. (None, w)),
     ev_Secret = (\<lambda>_ w. (Inr ''secret'', w)), ev_BuildRequest = (\<lambda>_ _ w. (Inr ''POST'', w)), ev_Client = (\<lambda>w. (None, w)),
     ev_Do = (\<lambda>_ w. (if w < length answers then Inr (answers ! w) else Inl (CallFailed ''down''), Suc w)),
     ev_ClassifyError = (\<lambda>_ _ _ w. (refusal, w)), ev_ParseResponse = (\<lambda>_ _ _ w. (Inr sample_response, w)),
     ev_Feed = (\<lambda>_ w. (Inr [], w)), ev_CloseParser = (\<lambda>w. (Inr [], w)), ev_ResultSink = (\<lambda>_ w. (None, w)), ev_Sink = (\<lambda>_ _ w. (None, w)),
     ev_ListCompletions = (\<lambda>_ _ w. (Inr [], w)), ev_ListQueued = (\<lambda>_ _ w. (Inr [], w)), ev_RecoverStale = (\<lambda>_ _ w. ((0, None), w))\<rparr>"

definition busy :: HTTPResponse where "busy = \<lparr>hr_StatusCode = 429, hr_Header = [], hr_Body = []\<rparr>"
definition fine :: HTTPResponse where "fine = \<lparr>hr_StatusCode = 200, hr_Header = [], hr_Body = [(''ok'', ReadEOF)]\<rparr>"

definition retryable_refusal :: CError where
  "retryable_refusal = (new_error ErrorRateLimit ''busy'' ''try later'')\<lparr>ce_ReplaySafe := True\<rparr>"

definition refused :: HTTPResponse where
  "refused = \<lparr>hr_StatusCode = 400, hr_Header = [], hr_Body = [(''{\"error\":{\"message\":\"bad\"}}'', ReadEOF)]\<rparr>"

definition codeless_refusal :: CError where
  "codeless_refusal = (new_error Canonical.ErrorInvalidRequest '''' ''bad'')\<lparr>ce_Provider := ''kimi'', ce_HTTPStatus := 400\<rparr>"

lemma sample_env_simps [simp]:
  "ev_Now (sample_env answers refusal) = (\<lambda>w. (1000, w))"
  "ev_Canceled (sample_env answers refusal) = (\<lambda>w. (False, w))"
  "ev_Wait (sample_env answers refusal) = (\<lambda>_ w. (False, w))"
  "ev_NewUUID (sample_env answers refusal) = (\<lambda>w. (''exec'', w))"
  "ev_Intn (sample_env answers refusal) = (\<lambda>w. (\<lambda>_. 0, w))"
  "ev_Jitter (sample_env answers refusal) = (\<lambda>w. (\<lambda>_. 0, w))"
  "ev_ResolveModel (sample_env answers refusal) = (\<lambda>_ _ w. (Inr kimi_k3_model, w))"
  "ev_Admit (sample_env answers refusal) = (\<lambda>_ w. (Inr True, w))"
  "ev_RepoAccept (sample_env answers refusal) = (\<lambda>c w. (Inr \<lparr>rs_RequestID = am_RequestID c, rs_ResourcePoolID = ''pool'', rs_Replayed = False\<rparr>, w))"
  "ev_RepoComplete (sample_env answers refusal) = (\<lambda>_ _ _ w. (None, w))"
  "ev_RepoFail (sample_env answers refusal) = (\<lambda>_ _ _ _ w. (None, w))"
  "ev_RepoFailAccepted (sample_env answers refusal) = (\<lambda>_ _ _ w. (None, w))"
  "ev_RepoFailWithUsage (sample_env answers refusal) = (\<lambda>_ _ _ _ _ w. (None, w))"
  "ev_ListCandidates (sample_env answers refusal) = (\<lambda>_ _ w. (Inr [zero_upstream\<lparr>up_ID := ''a''\<rparr>, zero_upstream\<lparr>up_ID := ''b''\<rparr>], w))"
  "ev_AcceptedSink (sample_env answers refusal) = (\<lambda>_ w. (None, w))"
  "ev_ClaimExecution (sample_env answers refusal) = (\<lambda>i x w. (if i = uuid_nil \<or> x = uuid_nil then Inl (OtherError ''not claimable'') else Inr \<lparr>cl_RequestID = i, cl_ExecutionID = x, cl_Generation = 1\<rparr>, w))"
  "ev_HealthPermit (sample_env answers refusal) = (\<lambda>_ w. (Inr 1, w))"
  "ev_AcquireLease (sample_env answers refusal) = (\<lambda>r w. (Inr (lq_CredentialID r), w))"
  "ev_ReconcileLease (sample_env answers refusal) = (\<lambda>_ _ w. (None, w))"
  "ev_ReleaseLease (sample_env answers refusal) = (\<lambda>_ w. (None, w))"
  "ev_CreateAttempt (sample_env answers refusal) = (\<lambda>_ c _ w. (Inr c, w))"
  "ev_UpdateAttempt (sample_env answers refusal) = (\<lambda>_ _ _ w. (None, w))"
  "ev_MarkStreaming (sample_env answers refusal) = (\<lambda>_ _ _ w. (None, w))"
  "ev_MarkUncertain (sample_env answers refusal) = (\<lambda>_ _ _ _ _ w. (None, w))"
  "ev_Adapter (sample_env answers refusal) = (\<lambda>_ w. (None, w))"
  "ev_Secret (sample_env answers refusal) = (\<lambda>_ w. (Inr ''secret'', w))"
  "ev_BuildRequest (sample_env answers refusal) = (\<lambda>_ _ w. (Inr ''POST'', w))"
  "ev_Client (sample_env answers refusal) = (\<lambda>w. (None, w))"
  "ev_Do (sample_env answers refusal) = (\<lambda>_ w. (if w < length answers then Inr (answers ! w) else Inl (CallFailed ''down''), Suc w))"
  "ev_ClassifyError (sample_env answers refusal) = (\<lambda>_ _ _ w. (refusal, w))"
  "ev_ParseResponse (sample_env answers refusal) = (\<lambda>_ _ _ w. (Inr sample_response, w))"
  "ev_Feed (sample_env answers refusal) = (\<lambda>_ w. (Inr [], w))"
  "ev_CloseParser (sample_env answers refusal) = (\<lambda>w. (Inr [], w))"
  "ev_ResultSink (sample_env answers refusal) = (\<lambda>_ w. (None, w))"
  "ev_Sink (sample_env answers refusal) = (\<lambda>_ _ w. (None, w))"
  "ev_ListCompletions (sample_env answers refusal) = (\<lambda>_ _ w. (Inr [], w))"
  "ev_ListQueued (sample_env answers refusal) = (\<lambda>_ _ w. (Inr [], w))"
  "ev_RecoverStale (sample_env answers refusal) = (\<lambda>_ _ w. ((0, None), w))"
  by (simp_all add: sample_env_def)


lemma run_ask [simp]: "run_state (ask query effects) (w, l) = (case query w of (r, w') \<Rightarrow> (r, w', l @ effects r))"
  by (simp add: ask_def)

lemma run_note [simp]: "run_state (note_effect e) (w, l) = ((), w, l @ [e])"
  by (simp add: note_effect_def)

lemma sample_valid: "validateCapabilities kimi_k3_model (cm_Request sample_command) = None"
    by (simp add: validateCapabilities_def first_failure_None guard_None check_tools_def check_parameters_def kimi_k3_model_def plain_request_def
        user_message_def TextContent_def ModelCapabilitiesFromProfile_def kimiK3Model_def kimiK3Capabilities_def no_capabilities_def no_parameters_def Let_def
        validateIntegerParameter_def validateNumberParameter_def integerAtLeast_def no_integer_def below_def above_def sample_command_def)

lemma sample_tokens: "EstimateTokens (cm_Request sample_command) = 1027"
  by code_simp

lemma sample_context: "mc_ContextTokens (md_Capabilities kimi_k3_model) = 0 \<or> 1027 \<le> mc_ContextTokens (md_Capabilities kimi_k3_model)"
  by code_simp

definition sample_run :: workflowRun where
  "sample_run = \<lparr>wr_command = sample_command, wr_model = kimi_k3_model, wr_request = (cm_Request sample_command)\<lparr>cq_Model := md_UpstreamName kimi_k3_model\<rparr>,
     wr_accepted = \<lparr>ac_RequestID = ''req'', ac_ResourcePoolID = ''pool'', ac_Existing = False\<rparr>,
     wr_claim = \<lparr>cl_RequestID = ''req'', cl_ExecutionID = ''exec'', cl_Generation = 1\<rparr>, wr_admissionPermit = True,
     wr_candidates = [zero_upstream\<lparr>up_ID := ''a''\<rparr>, zero_upstream\<lparr>up_ID := ''b''\<rparr>], wr_estimatedTokens = 1027\<rparr>"

lemma sample_run_simps:
  "wr_claim sample_run = \<lparr>cl_RequestID = ''req'', cl_ExecutionID = ''exec'', cl_Generation = 1\<rparr>" "wr_command sample_run = sample_command"
  "wr_model sample_run = kimi_k3_model" "wr_admissionPermit sample_run" "length (wr_candidates sample_run) = 2" "wr_estimatedTokens sample_run = 1027"
  "cq_Stream (wr_request sample_run) = False"
  by (simp_all add: sample_run_def sample_command_def plain_request_def)

definition prepared_log :: "effect list" where
  "prepared_log = [AdmissionTaken, LedgerAccepted ''req'' False, ExecutionClaimed \<lparr>cl_RequestID = ''req'', cl_ExecutionID = ''exec'', cl_Generation = 1\<rparr>, HeartbeatStarted]"

lemma sample_command_simps: "cm_RequestID sample_command = ''req''" "cm_IdempotencyKey sample_command = None" "cm_UserID sample_command = ''user''"
  "cm_KeyID sample_command = ''key''" "length (cm_RequestDigest sample_command) = 32" "\<not> cm_AcceptedSink sample_command" "\<not> cm_ResultSink sample_command"
  "\<not> cq_Stream (cm_Request sample_command)"
  by (simp_all add: sample_command_def plain_request_def)

lemma kimi_ID: "md_ID kimi_k3_model = ''m''"
  by (simp add: kimi_k3_model_def)

lemma sample_prepared: "run_state (prepare (sample_env answers refusal) sample_command) (w, []) = (Inr sample_run, w, prepared_log)"
  using sample_context
  by (auto simp: prepare_def prepare_accept_def prepare_execution_def accounting_AcceptRequest_def usage_AcceptRequest_def Let_def
      sample_valid sample_tokens sample_command_simps kimi_ID uuid_nil_def sample_run_def prepared_log_def)

definition sample_upstream :: "uuid \<Rightarrow> Upstream" where
  "sample_upstream i = zero_upstream\<lparr>up_ID := i\<rparr>"

definition sample_pick :: "CandidateID list \<Rightarrow> CandidateID option" where
  "sample_pick excluded = (case Select (\<lambda>_. 0) \<lparr>rq_ModelID = ''m'', rq_ResourcePoolID = ''pool'', rq_Capabilities = [''chat''],
       rq_ExcludedCandidates = excluded, rq_At = 1000\<rparr>
     (map (\<lambda>i. \<lparr>ca_ID = i, ca_ModelID = ''m'', ca_ResourcePoolID = ''pool'', ca_ModelPublished = True, ca_CredentialAuthorized = True, ca_CredentialActive = True,
        ca_Capabilities = [''chat''], ca_CooldownUntil = 0, ca_Priority = 0, ca_Weight = 0\<rparr>) [''a'', ''b''])
     of Inl _ \<Rightarrow> None | Inr d \<Rightarrow> Some (de_SelectedCandidateID d))"

lemma sample_picks: "sample_pick [] = Some ''a''" "sample_pick [''a''] = Some ''b''"
  by code_simp+

lemma sample_selection:
  assumes "sample_pick excluded = Some i" and "i \<in> {''a'', ''b''}"
  shows "run_state (selectCandidate (sample_env answers refusal) sample_run excluded) (w, l) = (Inr (sample_upstream i), w, l)"
  using assms
  by (auto simp: selectCandidate_def sample_pick_def route_requirements_def route_candidate_def requiredCapabilities_def sample_run_def
      sample_command_simps sample_command_def plain_request_def kimi_ID zero_upstream_def timeOrZero_def upstream_by_id_def sample_upstream_def split: sum.splits)

lemma sample_decision:
  assumes "sample_pick excluded = Some i" and "i \<in> {''a'', ''b''}"
  shows "run_state (attemptDecision (Suc n) (sample_env answers refusal) sample_run excluded None False) (w, l) =
    (Some (excluded, Inr ((sample_upstream i)\<lparr>up_HealthGeneration := 1\<rparr>, i)), w, l @ [HealthPermitAsked i True, LeaseTaken i i])"
  using assms(2) by (simp add: sample_selection [OF assms] acquire_lease_def leaseRequest_def sample_upstream_def)

lemma sample_refused:
  "\<exists>u v. run_state (chat_attempt (sample_env [busy, fine] retryable_refusal) flow_config sample_run ((sample_upstream i)\<lparr>up_HealthGeneration := 1\<rparr>) n (Some i)) (0, l) =
     ((False, Inl retryable_refusal), Suc 0, l @ [AttemptCreated i i n, AttemptUpdated i u None, UpstreamCalled i, UpstreamRefused 429 retryable_refusal,
       AttemptUpdated i v None, LeaseReleased i])"
  by (simp add: chat_attempt_def nonStreamAttempt_def with_lease_def non_stream_body_def update_attempt_def call_upstream_def classify_error_def failAttempt_def
      buildUpstream_def busy_def readResponse_def flow_config_def sample_upstream_def)

lemma sample_answered:
  "\<exists>u v usage result. run_state (chat_attempt (sample_env [busy, fine] retryable_refusal) flow_config sample_run ((sample_upstream i)\<lparr>up_HealthGeneration := 1\<rparr>) n (Some i)) (Suc 0, l) =
     ((False, Inr result), Suc (Suc 0), l @ [AttemptCreated i i n, AttemptUpdated i u None, UpstreamCalled i, AttemptUpdated i v None,
       LedgerCompleted ''req'' usage None, LeaseReleased i])"
proof -
  have usage: "responseUsage (wr_request sample_run) sample_response = \<lparr>us_InputTokens = 3, us_OutputTokens = 0, us_Source = UsageEstimated\<rparr>"
    by (simp add: responseUsage_def sample_response_def sample_run_def sample_command_def plain_request_def EstimateInputTokens_def user_message_def
        TextContent_def message_bytes_def go_div_def go_mod_def)
  show ?thesis
    by (simp add: chat_attempt_def nonStreamAttempt_def with_lease_def non_stream_body_def update_attempt_def call_upstream_def complete_non_stream_def
        buildUpstream_def fine_def readResponse_def flow_config_def sample_upstream_def accounting_Complete_def usage_Complete_def usage
        reconcileLease_def Let_def validKnownUsage_def Valid_def uuid_nil_def sample_run_simps sample_command_simps)
qed

lemma sample_bound: "attempt_bound flow_policy sample_run = Suc (Suc (Suc (Suc 0)))"
  by (simp add: attempt_bound_def flow_policy_def sample_run_simps)

text \<open>The first candidate is busy, the second answers.\<close>

lemma sample_retried:
  "\<exists>pre mid post result. run_state (Chat (sample_env [busy, fine] retryable_refusal) flow_config flow_policy sample_command) (0, []) =
     (Some (Inr result), Suc (Suc 0), pre @ UpstreamCalled ''a'' # mid @ UpstreamCalled ''b'' # post) \<and> ''req'' \<in> accepts pre"
proof -
  let ?env = "sample_env [busy, fine] retryable_refusal"
  let ?l1 = "prepared_log @ [HealthPermitAsked ''a'' True, LeaseTaken ''a'' ''a'']"
  obtain u v where a: "run_state (chat_attempt ?env flow_config sample_run ((sample_upstream ''a'')\<lparr>up_HealthGeneration := 1\<rparr>) 1 (Some ''a'')) (0, ?l1) =
    ((False, Inl retryable_refusal), Suc 0, ?l1 @ [AttemptCreated ''a'' ''a'' 1, AttemptUpdated ''a'' u None, UpstreamCalled ''a'',
       UpstreamRefused 429 retryable_refusal, AttemptUpdated ''a'' v None, LeaseReleased ''a''])"
    using sample_refused by metis
  have pick: "''b'' \<in> {''a'', ''b''}" "''a'' \<in> {''a'', ''b''}" by simp_all
  let ?l2 = "?l1 @ [AttemptCreated ''a'' ''a'' 1, AttemptUpdated ''a'' u None, UpstreamCalled ''a'',
       UpstreamRefused 429 retryable_refusal, AttemptUpdated ''a'' v None, LeaseReleased ''a'', AttemptObserved KindKimi ''failed'' ''rate_limit'',
       HealthPermitAsked ''b'' True, LeaseTaken ''b'' ''b'']"
  obtain u' v' usage result where b: "run_state (chat_attempt ?env flow_config sample_run ((sample_upstream ''b'')\<lparr>up_HealthGeneration := 1\<rparr>) 2 (Some ''b'')) (Suc 0, ?l2) =
    ((False, Inr result), Suc (Suc 0), ?l2 @ [AttemptCreated ''b'' ''b'' 2, AttemptUpdated ''b'' u' None, UpstreamCalled ''b'', AttemptUpdated ''b'' v' None,
       LedgerCompleted ''req'' usage None, LeaseReleased ''b''])"
    using sample_answered by metis
  have kind: "md_ProviderKind kimi_k3_model = KindKimi" "ce_Kind retryable_refusal = ErrorRateLimit" "shouldTryNextCandidate retryable_refusal"
    "kind_string ErrorRateLimit = ''rate_limit''" "up_ID (sample_upstream i) = i" for i
    by (simp_all add: kimi_k3_model_def retryable_refusal_def shouldTryNextCandidate_def kind_string_def sample_upstream_def)
  have "run_state (Chat ?env flow_config flow_policy sample_command) (0, []) =
     (Some (Inr result), Suc (Suc 0), ?l2 @ [AttemptCreated ''b'' ''b'' 2, AttemptUpdated ''b'' u' None, UpstreamCalled ''b'', AttemptUpdated ''b'' v' None,
       LedgerCompleted ''req'' usage None, LeaseReleased ''b'', AttemptObserved KindKimi ''succeeded'' ''none'', HeartbeatStopped, AdmissionReleased])"
    using a b
    by (simp add: Chat_def sample_prepared run_execution_def sample_run_simps sample_bound sample_decision [OF sample_picks(1) pick(2)]
        sample_decision [OF sample_picks(2) pick(1)] observeAttempt_def chat_final_def kind release_admission_def numeral_3_eq_3 del: attemptDecision.simps)
  also have "?l2 @ [AttemptCreated ''b'' ''b'' 2, AttemptUpdated ''b'' u' None, UpstreamCalled ''b'', AttemptUpdated ''b'' v' None,
       LedgerCompleted ''req'' usage None, LeaseReleased ''b'', AttemptObserved KindKimi ''succeeded'' ''none'', HeartbeatStopped, AdmissionReleased] =
    (?l1 @ [AttemptCreated ''a'' ''a'' 1, AttemptUpdated ''a'' u None]) @ UpstreamCalled ''a'' #
      [UpstreamRefused 429 retryable_refusal, AttemptUpdated ''a'' v None, LeaseReleased ''a'', AttemptObserved KindKimi ''failed'' ''rate_limit'',
       HealthPermitAsked ''b'' True, LeaseTaken ''b'' ''b'', AttemptCreated ''b'' ''b'' 2, AttemptUpdated ''b'' u' None] @ UpstreamCalled ''b'' #
      [AttemptUpdated ''b'' v' None, LedgerCompleted ''req'' usage None, LeaseReleased ''b'', AttemptObserved KindKimi ''succeeded'' ''none'',
       HeartbeatStopped, AdmissionReleased]"
    by simp
  moreover have "''req'' \<in> accepts (?l1 @ [AttemptCreated ''a'' ''a'' 1, AttemptUpdated ''a'' u None])" by (simp add: prepared_log_def accepts_def)
  ultimately show ?thesis by (metis (no_types))
qed

subsection \<open>Guarantees\<close>

lemma watch_send_None [simp]: "foldl watch_send None l = None"
  by (induction l) auto

lemma watch_send_executing:
  assumes "\<And>status e. UpstreamRefused status e \<in> set l \<Longrightarrow> \<not> rejection status e"
  shows "foldl watch_send (Some True) l \<in> {Some True, None}"
  using assms
proof (induction l)
  case (Cons x l)
  then show ?case by (cases x) auto
qed simp

lemma sending_split:
  assumes "sending (pre @ UpstreamCalled a # mid @ UpstreamCalled b # post) \<noteq> None"
  shows "\<exists>status e. UpstreamRefused status e \<in> set mid \<and> rejection status e"
proof (rule ccontr)
  assume "\<not> ?thesis"
  then have "foldl watch_send (Some True) mid \<in> {Some True, None}"
    by (intro watch_send_executing) blast
  moreover have "watch_send (sending pre) (UpstreamCalled a) \<in> {Some True, None}"
    by (cases "sending pre") auto
  ultimately have "foldl watch_send (watch_send (foldl watch_send (watch_send (sending pre) (UpstreamCalled a)) mid) (UpstreamCalled b)) post = None"
    by auto
  then show False using assms by simp
qed

text \<open>
  C1. The workflow calls the upstream again only after a rejection: in every run of \<open>Chat\<close> or \<open>Stream\<close>, in any environment, between two
  calls of the upstream there is an answer outside 2xx, read in full, that is below 500 or that the adapter knows to be safe to
  replay. A call without an answer, with a 5xx answer that may have been executed, with an answer that could not be read or
  parsed, or with a 2xx answer is never followed by another one, whatever the retry policy and the storage say.
\<close>

theorem resend_only_after_rejection:
  assumes "run_state (Chat env config retry command) (w, []) = (result, w', pre @ UpstreamCalled a # mid @ UpstreamCalled b # post) \<or>
    run_state (Stream env config retry command sink) (w, []) = (streamed, w', pre @ UpstreamCalled a # mid @ UpstreamCalled b # post)"
  shows "\<exists>status e. UpstreamRefused status e \<in> set mid \<and> rejection status e"
proof (rule sending_split)
  show "sending (pre @ UpstreamCalled a # mid @ UpstreamCalled b # post) \<noteq> None"
    using assms by (auto dest!: always_run [OF Chat_ok] always_run [OF Stream_ok] simp: flow_post_def)
qed

theorem resend_only_after_rejection_witness:
  "\<exists>pre mid post result. run_state (Chat (sample_env [busy, fine] retryable_refusal) flow_config flow_policy sample_command) (0, []) =
     (Some (Inr result), Suc (Suc 0), pre @ UpstreamCalled ''a'' # mid @ UpstreamCalled ''b'' # post) \<and>
   (\<exists>status e. UpstreamRefused status e \<in> set mid \<and> rejection status e)"
proof -
  obtain pre mid post result where run: "run_state (Chat (sample_env [busy, fine] retryable_refusal) flow_config flow_policy sample_command) (0, []) =
     (Some (Inr result), Suc (Suc 0), pre @ UpstreamCalled ''a'' # mid @ UpstreamCalled ''b'' # post)"
    using sample_retried by blast
  then show ?thesis using resend_only_after_rejection [OF disjI1, OF run] by blast
qed

lemma attempts_left_bound: "k \<le> n \<Longrightarrow> int (attempts_left budget k 1 0) < max 1 budget + max 1 (int n)"
  by (auto simp: attempts_left_def)

lemma flow_post_bound:
  assumes "flow_post env budget final result l" and "\<And>k. listed env k \<Longrightarrow> k \<le> n"
  shows "result \<noteq> None \<and> int (calls l) < max 1 budget + max 1 (int n)"
proof -
  consider "calls l = 0" | k where "listed env k" "calls l \<le> attempts_left budget k 1 0"
    using assms(1) by (auto simp: flow_post_def)
  then have "int (calls l) < max 1 budget + max 1 (int n)"
  proof cases
    case (2 k)
    then show ?thesis using attempts_left_bound [OF assms(2), of k budget] by linarith
  qed simp
  then show ?thesis using assms(1) by (cases result) (auto simp: flow_post_def)
qed

text \<open>
  C2. Every request ends: whatever the environment answers, \<open>Chat\<close> and \<open>Stream\<close> return (the bounds on the rounds of the three nested
  loops are never reached), and with at most \<open>n\<close> candidates listed they call the upstream fewer than \<open>MaxAttempts + n\<close> times.
\<close>

theorem attempts_bounded:
  assumes "\<And>k. listed env k \<Longrightarrow> k \<le> n"
  shows "(\<forall>w result w' l. run_state (Chat env config retry command) (w, []) = (result, w', l) \<longrightarrow>
      result \<noteq> None \<and> int (calls l) < max 1 (rc_MaxAttempts (rp_config retry)) + max 1 (int n)) \<and>
    (\<forall>w streamed w' l. run_state (Stream env config retry command sink) (w, []) = (streamed, w', l) \<longrightarrow>
      streamed \<noteq> None \<and> int (calls l) < max 1 (rc_MaxAttempts (rp_config retry)) + max 1 (int n))"
proof (intro conjI allI impI, goal_cases)
  case (1 w result w' l)
  from flow_post_bound [OF always_run [OF Chat_ok 1] assms] show ?case by (rule conjunct1)
next
  case (2 w result w' l)
  from flow_post_bound [OF always_run [OF Chat_ok 2] assms] show ?case by (rule conjunct2)
next
  case (3 w result w' l)
  from flow_post_bound [OF always_run [OF Stream_ok 3] assms] show ?case by (rule conjunct1)
next
  case (4 w result w' l)
  from flow_post_bound [OF always_run [OF Stream_ok 4] assms] show ?case by (rule conjunct2)
qed

lemma sample_listed: "listed (sample_env answers refusal) k \<longleftrightarrow> k = 2"
  by (auto simp: listed_def)

theorem attempts_bounded_witness:
  "\<exists>result w' l. run_state (Chat (sample_env [busy, fine] retryable_refusal) flow_config flow_policy sample_command) (0, []) = (result, w', l) \<and>
     result \<noteq> None \<and> int (calls l) < max 1 2 + max 1 (int 2)"
proof -
  have "\<And>k. listed (sample_env [busy, fine] retryable_refusal) k \<Longrightarrow> k \<le> 2" by (simp add: sample_listed)
  note bounded = conjunct1 [OF attempts_bounded [OF this, where retry = flow_policy]]
  obtain result w' l where run: "run_state (Chat (sample_env [busy, fine] retryable_refusal) flow_config flow_policy sample_command) (0, []) = (result, w', l)"
    by (metis surj_pair)
  moreover have "rc_MaxAttempts (rp_config flow_policy) = 2" by (simp add: flow_policy_def)
  ultimately show ?thesis using bounded by metis
qed

text \<open>
  C3. Nothing is leaked: at the end of every run of \<open>Chat\<close> or \<open>Stream\<close>, in any environment and on every path, the admission permit and each
  capacity lease have been given back exactly as often as they were taken, and the heartbeat of the execution is stopped.
\<close>

theorem workflow_gives_back:
  "run_state (Chat env config retry command) (w, []) = (result, w', l) \<or> run_state (Stream env config retry command sink) (w, []) = (streamed, w', l) \<Longrightarrow>
   held r l = 0"
  by (auto dest!: always_run [OF Chat_ok] always_run [OF Stream_ok] simp: flow_post_def)

theorem workflow_gives_back_witness:
  "\<exists>pre mid post result. run_state (Chat (sample_env [busy, fine] retryable_refusal) flow_config flow_policy sample_command) (0, []) =
     (Some (Inr result), Suc (Suc 0), pre @ UpstreamCalled ''a'' # mid @ UpstreamCalled ''b'' # post) \<and>
   held (TheLease ''a'') (pre @ UpstreamCalled ''a'' # mid @ UpstreamCalled ''b'' # post) = 0"
proof -
  obtain pre mid post result where run: "run_state (Chat (sample_env [busy, fine] retryable_refusal) flow_config flow_policy sample_command) (0, []) =
     (Some (Inr result), Suc (Suc 0), pre @ UpstreamCalled ''a'' # mid @ UpstreamCalled ''b'' # post)"
    using sample_retried by blast
  then show ?thesis using workflow_gives_back [OF disjI1, OF run] by blast
qed

lemma flow_post_ends:
  assumes "flow_post env budget final (Some result) l" and "adapter_contract env" and "claim_contract env" and "i \<in> accepts l" and "i \<noteq> uuid_nil"
    and "\<And>e. result = Inl e \<Longrightarrow> recordable (ce_Code e) (ce_Message e)"
  shows "ended i l \<or> (\<exists>e committed. result = Inl e \<and> ce_Kind e = ErrorStorageUnavailable \<and> final committed e)"
  using assms by (auto simp: flow_post_def)


lemma sample_contracts: "plain_kind refusal \<Longrightarrow> adapter_contract (sample_env answers refusal)" "claim_contract (sample_env answers refusal)"
  by (simp add: adapter_contract_def)
    (auto simp: claim_contract_def Valid_def)


lemma TrimSpace_Nil: "TrimSpace [] = []"
proof -
  have "drop_one es [] = None" for es
    by (induction es) auto
  then show ?thesis by (simp add: TrimSpace_def trim_left.simps)
qed


end
