(* ===== verification/LedgerFlow.thy ===== *)
theory LedgerFlow
  imports LedgerGuarantees FlowGuarantees
begin

text \<open>
  The workflow on the ledger: the environment in which the repositories of the workflow are those of the store. The state of the environment is the
  database and a driver that gives each call its time, the fate of its transaction, a new identifier and the rows that others have locked.
\<close>

subsection \<open>The store as an environment\<close>

record driver =
  dr_times :: "nat \<Rightarrow> gotime"
  dr_fates :: "nat \<Rightarrow> fate"
  dr_ids :: "nat \<Rightarrow> uuid"
  dr_locked :: "nat \<Rightarrow> uuid \<Rightarrow> bool"
  dr_count :: nat

type_synonym world = "pg \<times> driver"

definition store_call :: "nat \<Rightarrow> (gotime \<Rightarrow> (nat \<Rightarrow> fate) \<Rightarrow> uuid \<Rightarrow> (uuid \<Rightarrow> bool) \<Rightarrow> pg \<Rightarrow> 'a \<times> pg) \<Rightarrow> world \<Rightarrow> 'a \<times> world" where
  "store_call used f w = (case w of (db, d) \<Rightarrow>
     let n = dr_count d in
     case f (dr_times d n) (\<lambda>k. dr_fates d (n + k)) (dr_ids d n) (dr_locked d n) db of (r, db') \<Rightarrow> (r, (db', d\<lparr>dr_count := n + used\<rparr>)))"

definition error_of :: "'e + 'a \<Rightarrow> 'e option" where
  "error_of r = (case r of Inl e \<Rightarrow> Some e | Inr _ \<Rightarrow> None)"

definition failing :: "('e + 'a) \<times> pg \<Rightarrow> 'e option \<times> pg" where
  "failing r = (error_of (fst r), snd r)"

definition store_env :: "world env \<Rightarrow> world env" where
  "store_env base = base\<lparr>
     ev_ResolveModel := (\<lambda>keyID name w. (ResolveAvailableModel keyID name (fst w), w)),
     ev_RepoAccept := (\<lambda>input. store_call requestTransactionAttempts (\<lambda>now fates _ _ db. map_prod (map_sum id (\<lambda>(r, replayed).
       \<lparr>rs_RequestID = q_ID r, rs_ResourcePoolID = q_ResourcePoolID r, rs_Replayed = replayed\<rparr>)) id (AcceptRequest now fates input db))),
     ev_RepoComplete := (\<lambda>i claim u. store_call 1 (\<lambda>now fates _ _ db. failing (Complete now (fates 0) i claim u db))),
     ev_RepoFail := (\<lambda>i claim kind detail. store_call 1 (\<lambda>now fates _ _ db. failing (Fail now (fates 0) i claim kind detail db))),
     ev_RepoFailAccepted := (\<lambda>i kind detail. store_call 1 (\<lambda>now fates _ _ db. failing (FailAccepted now (fates 0) i kind detail db))),
     ev_RepoFailWithUsage := (\<lambda>i claim u kind detail. store_call 1 (\<lambda>now fates _ _ db. failing (FailWithUsage now (fates 0) i claim u kind detail db))),
     ev_ListCandidates := (\<lambda>poolID modelID. store_call 1 (\<lambda>now _ _ _ db. (Inr (ListCandidates now poolID modelID db), db))),
     ev_ClaimExecution := (\<lambda>i e. store_call 1 (\<lambda>now fates _ _ db. ClaimExecution now (fates 0) i e db)),
     ev_HealthPermit := (\<lambda>i. store_call 1 (\<lambda>now fates _ _ db. AcquireHealthPermit now (fates 0) i db)),
     ev_CreateAttempt := (\<lambda>claim i sequence. store_call 1 (\<lambda>now fates newID _ db. CreateAttemptFor now (fates 0) newID claim i sequence db)),
     ev_UpdateAttempt := (\<lambda>claim a update. store_call 1 (\<lambda>now fates _ _ db. failing (UpdateAttemptBy (fates 0) claim a update db))),
     ev_MarkStreaming := (\<lambda>claim a update. store_call 1 (\<lambda>now fates _ _ db. failing (MarkExecutionStreaming now (fates 0) claim a update db))),
     ev_MarkUncertain := (\<lambda>claim a update kind detail. store_call 1 (\<lambda>now fates _ _ db. failing (MarkExecutionUncertain now (fates 0) claim a update kind detail db))),
     ev_ListCompletions := (\<lambda>before batch w. (ListRecoverableCompletions before batch (fst w), w)),
     ev_ListQueued := (\<lambda>before batch w. (ListStaleQueued before batch (fst w), w)),
     ev_RecoverStale := (\<lambda>before batch. store_call 1 (\<lambda>now fates _ locked db. map_prod (\<lambda>r. (case r of Inl _ \<Rightarrow> 0 | Inr n \<Rightarrow> n, error_of r)) id
       (RecoverStaleExecutions now (fates 0) locked before batch db)))\<rparr>"

lemma store_env_recovery:
  "ev_ListCompletions (store_env base) before batch w = (ListRecoverableCompletions before batch (fst w), w)"
  "ev_ListQueued (store_env base) before batch w = (ListStaleQueued before batch (fst w), w)"
  "ev_RecoverStale (store_env base) before batch = store_call 1 (\<lambda>now fates _ locked db. map_prod (\<lambda>r. (case r of Inl _ \<Rightarrow> 0 | Inr n \<Rightarrow> n, error_of r)) id
     (RecoverStaleExecutions now (fates 0) locked before batch db))"
  by (simp_all add: store_env_def)

text \<open>The repository of the store keeps the contract that the workflow relies on.\<close>

lemma store_claims: "claim_contract (store_env base)"
  by (auto simp: claim_contract_def store_env_def store_call_def Let_def split: prod.splits dest: claim_row)

subsection \<open>The requests as a map\<close>

definition rows :: "pg \<Rightarrow> uuid \<rightharpoonup> request_row" where
  "rows db = map_of (map (\<lambda>r. (q_ID r, r)) (pg_requests db))"

lemma rows_Some: "ledger_ok db \<Longrightarrow> rows db i = Some r \<longleftrightarrow> r \<in> set (pg_requests db) \<and> q_ID r = i"
  by (auto simp: rows_def ledger_ok_def map_of_eq_Some_iff comp_def)

lemma rows_update:
  assumes "ledger_ok db" and "rows db i = Some r" and "\<And>q. q \<in> set (pg_requests db) \<Longrightarrow> p q \<longleftrightarrow> q = r" and "q_ID (f r) = i"
  shows "rows (db\<lparr>pg_requests := sql_update p f (pg_requests db)\<rparr>) = (rows db)(i \<mapsto> f r)"
proof -
  have r: "r \<in> set (pg_requests db)" "q_ID r = i" using rows_Some assms(1,2) by auto
  have unique: "q_ID q = i \<longleftrightarrow> q = r" if "q \<in> set (pg_requests db)" for q using unique_row [OF assms(1) that r(1)] r(2) by metis
  have "(\<lambda>q. (q_ID q, q)) (if p q then f q else q) = (q_ID q, if q_ID q = i then f r else q)" if "q \<in> set (pg_requests db)" for q
    using assms(4) r(2) unfolding assms(3) [OF that] unique [OF that] by simp
  then have rows: "map (\<lambda>q. (q_ID q, q)) (sql_update p f (pg_requests db)) = map (\<lambda>q. (q_ID q, if q_ID q = i then f r else q)) (pg_requests db)"
    unfolding sql_update_def map_map comp_def by (rule map_cong [OF refl])
  have "map_of (map (\<lambda>q. (q_ID q, if q_ID q = i then f r else q)) qs) j = (if j = i \<and> (\<exists>q \<in> set qs. q_ID q = i) then Some (f r) else map_of (map (\<lambda>q. (q_ID q, q)) qs) j)" for qs j
    by (induction qs) auto
  then show ?thesis using r by (auto simp: rows_def rows fun_eq_iff)
qed

text \<open>A statement that one row satisfies replaces it.\<close>

lemma update_request_one:
  assumes "ledger_ok db" and "rows db i = Some r" and "p r" and "\<And>q. p q \<Longrightarrow> q_ID q = i" and "q_ID (f r) = i"
  shows "\<exists>db'. update_request p f db = (Inr (f r), db') \<and> rows db' = (rows db)(i \<mapsto> f r) \<and> pg_attempts db' = pg_attempts db"
proof -
  have r: "r \<in> set (pg_requests db)" "q_ID r = i" using rows_Some assms(1,2) by auto
  have only: "p q \<longleftrightarrow> q = r" if "q \<in> set (pg_requests db)" for q
    using assms(3) assms(4) [of q] unique_row [OF assms(1) that r(1)] r(2) by metis
  have "sql_one (filter p (pg_requests db)) = Inr r"
    by (rule sql_one_unique) (use r only in auto)
  then have "sql_one (map f (filter p (pg_requests db))) = Inr (f r)"
    by (auto simp: sql_one_def split: list.splits)
  then show ?thesis using rows_update [where p = p and f = f, OF assms(1,2) only assms(5)] by (simp add: update_request_def)
qed

lemma get_row: "ledger_ok db \<Longrightarrow> rows db i = Some r \<Longrightarrow> GetRequestForUpdate i db = Inr r"
  unfolding GetRequestForUpdate_def rows_Some by (rule sql_one_unique) (auto dest: unique_row)

text \<open>What ends a request: the new row, with the rest of the ledger as it was.\<close>

definition replaced :: "pg \<Rightarrow> uuid \<Rightarrow> request_row \<Rightarrow> pg \<Rightarrow> bool" where
  "replaced db i r db' = (rows db' = (rows db)(i \<mapsto> r) \<and> pg_attempts db' = pg_attempts db \<and> ledger_ok db')"

lemma Complete_row:
  assumes "ledger_ok db" and "rows db (cl_RequestID claim) = Some r" and "Valid claim" and "executed_by (cl_RequestID claim) (Some (cl_ExecutionID claim)) (cl_Generation claim) r"
    and "us_Source u \<noteq> UsageUnset"
  shows "\<exists>r' db'. Complete now Runs (cl_RequestID claim) claim u db = (Inr r', db') \<and> replaced db (cl_RequestID claim) r' db' \<and> q_Status r' = RqCompleted \<and>
    q_InputTokens r' = Some (us_InputTokens u) \<and> q_OutputTokens r' = Some (us_OutputTokens u) \<and> q_UsageSource r' = us_Source u"
proof -
  let ?f = "\<lambda>r. r\<lparr>q_Status := RqCompleted, q_InputTokens := Some (us_InputTokens u), q_OutputTokens := Some (us_OutputTokens u), q_UsageSource := us_Source u,
     q_ErrorKind := None, q_ErrorDetail := None, q_CompletedAt := Some now, q_UpdatedAt := now\<rparr>"
  have r: "q_ID r = cl_RequestID claim" using assms(1,2) rows_Some by blast
  have "\<exists>db'. update_request (executed_by (cl_RequestID claim) (Some (cl_ExecutionID claim)) (cl_Generation claim)) ?f db = (Inr (?f r), db') \<and>
      rows db' = (rows db)(cl_RequestID claim \<mapsto> ?f r) \<and> pg_attempts db' = pg_attempts db"
    by (rule update_request_one [OF assms(1,2)]) (use r assms(4) in \<open>auto simp: executed_by_def\<close>)
  then obtain db' where db': "update_request (executed_by (cl_RequestID claim) (Some (cl_ExecutionID claim)) (cl_Generation claim)) ?f db = (Inr (?f r), db')"
    "rows db' = (rows db)(cl_RequestID claim \<mapsto> ?f r)" "pg_attempts db' = pg_attempts db" by blast
  have fence: "validateRequestFence r (Some claim) = None"
    using assms(3,4) r by (auto simp: validateRequestFence_def executed_by_def running_def)
  have "Complete now Runs (cl_RequestID claim) claim u db = (Inr (?f r), db')"
    using db'(1) assms(5) by (simp add: Complete_def resolve_def transact_def get_row [OF assms(1,2)] fence CompleteRequest_def query_def)
  moreover from this have "ledger_ok db'"
    using advances_resolve assms(1) unfolding Complete_def advances_def by (metis snd_conv)
  ultimately show ?thesis using db' by (auto simp: replaced_def)
qed

lemma FailAccepted_row:
  assumes "ledger_ok db" and "rows db i = Some r" and "q_Status r = RqQueued"
  shows "\<exists>r' db'. FailAccepted now Runs i kind detail db = (Inr r', db') \<and> replaced db i r' db' \<and> q_Status r' = RqFailed \<and> q_ErrorKind r' = Some kind"
proof -
  let ?f = "\<lambda>r. r\<lparr>q_Status := RqFailed, q_ErrorKind := Some kind, q_ErrorDetail := optionalString detail, q_CompletedAt := Some now, q_UpdatedAt := now\<rparr>"
  have r: "q_ID r = i" "r \<in> set (pg_requests db)" using assms(1,2) rows_Some by blast+
  then have free: "q_ExecutionID r = None" "q_ExecutionGeneration r = 0"
    using assms(1,3) by (auto simp: ledger_ok_def row_ok_def)
  have "\<exists>db'. update_request (failable i None 0) ?f db = (Inr (?f r), db') \<and> rows db' = (rows db)(i \<mapsto> ?f r) \<and> pg_attempts db' = pg_attempts db"
    by (rule update_request_one [OF assms(1,2)]) (use r free assms(3) in \<open>auto simp: failable_def\<close>)
  then obtain db' where db': "update_request (failable i None 0) ?f db = (Inr (?f r), db')" "rows db' = (rows db)(i \<mapsto> ?f r)" "pg_attempts db' = pg_attempts db" by blast
  have fence: "validateRequestFence r None = None"
    using free assms(3) by (simp add: validateRequestFence_def)
  have "FailAccepted now Runs i kind detail db = (Inr (?f r), db')"
    using db'(1) by (simp add: FailAccepted_def resolve_def transact_def get_row [OF assms(1,2)] fence FailRequest_def query_def)
  moreover from this have "ledger_ok db'"
    using advances_resolve assms(1) unfolding FailAccepted_def advances_def by (metis snd_conv)
  ultimately show ?thesis using db' by (auto simp: replaced_def)
qed

subsection \<open>Recovery\<close>

text \<open>A time without failures and without other writers.\<close>

definition calm :: "driver \<Rightarrow> bool" where
  "calm d = ((\<forall>n. dr_fates d n = Runs) \<and> (\<forall>n i. \<not> dr_locked d n i))"

lemma calm_count [simp]: "calm (d\<lparr>dr_count := n\<rparr>) = calm d"
  by (simp add: calm_def)

definition completed_with :: "Usage \<Rightarrow> request_row \<Rightarrow> bool" where
  "completed_with u r = (q_Status r = RqCompleted \<and> q_InputTokens r = Some (us_InputTokens u) \<and> q_OutputTokens r = Some (us_OutputTokens u) \<and> q_UsageSource r = us_Source u)"

text \<open>The state of a run of recovery: the requests outside \<open>ids\<close> and the attempts are untouched.\<close>

definition touches :: "uuid set \<Rightarrow> world \<Rightarrow> world \<Rightarrow> bool" where
  "touches ids w w' = (ledger_ok (fst w') \<and> calm (snd w') \<and> pg_attempts (fst w') = pg_attempts (fst w) \<and> (\<forall>i. i \<notin> ids \<longrightarrow> rows (fst w') i = rows (fst w) i))"

lemma touches_step:
  assumes "replaced db i r db1" and "calm d" and "touches ids (db1, d\<lparr>dr_count := n\<rparr>) w'"
  shows "touches (insert i ids) (db, d) w'"
  using assms by (auto simp: touches_def replaced_def)

lemma complete_call:
  assumes "ledger_ok db" and "calm d" and "rows db (cl_RequestID claim) = Some r" and "Valid claim"
    and "executed_by (cl_RequestID claim) (Some (cl_ExecutionID claim)) (cl_Generation claim) r" and "validKnownUsage u"
  shows "\<exists>r' db1 l1. run_state (accounting_Complete (store_env base) claim u) ((db, d), l) = (None, (db1, d\<lparr>dr_count := Suc (dr_count d)\<rparr>), l1) \<and>
    replaced db (cl_RequestID claim) r' db1 \<and> completed_with u r'"
proof -
  have source: "us_Source u \<noteq> UsageUnset" "us_Source u \<noteq> UsageUnknown" using assms(6) by (auto simp: validKnownUsage_def)
  from Complete_row [OF assms(1,3,4,5) source(1)] obtain r' db1 where
    "Complete (dr_times d (dr_count d)) Runs (cl_RequestID claim) claim u db = (Inr r', db1)" "replaced db (cl_RequestID claim) r' db1" "completed_with u r'"
    unfolding completed_with_def by blast
  moreover have "dr_fates d k = Runs" for k using assms(2) by (simp add: calm_def)
  ultimately show ?thesis using assms(4,6) source
    by (auto simp: accounting_Complete_def usage_Complete_def store_env_def store_call_def Let_def failing_def error_of_def Valid_def)
qed

lemma recover_completions_run:
  assumes "ledger_ok db" and "calm d" and "distinct (map (\<lambda>c. cl_RequestID (rv_Claim c)) cs)"
    and "\<And>c. c \<in> set cs \<Longrightarrow> Valid (rv_Claim c) \<and> validKnownUsage (rv_Usage c) \<and>
      (\<exists>r. rows db (cl_RequestID (rv_Claim c)) = Some r \<and> executed_by (cl_RequestID (rv_Claim c)) (Some (cl_ExecutionID (rv_Claim c))) (cl_Generation (rv_Claim c)) r)"
  shows "\<exists>w' l'. run_state (recover_completions (store_env base) cs n errs) ((db, d), l) = ((n + int (length cs), errs), w', l') \<and>
    touches (cl_RequestID ` rv_Claim ` set cs) (db, d) w' \<and> (\<forall>c \<in> set cs. \<exists>r. rows (fst w') (cl_RequestID (rv_Claim c)) = Some r \<and> completed_with (rv_Usage c) r)"
  using assms
proof (induction cs arbitrary: db d n l)
  case Nil
  then show ?case by (auto simp: touches_def)
next
  case (Cons c cs)
  let ?i = "cl_RequestID (rv_Claim c)"
  from Cons.prems(4) [of c] obtain r where "rows db ?i = Some r" "Valid (rv_Claim c)" "validKnownUsage (rv_Usage c)"
    "executed_by ?i (Some (cl_ExecutionID (rv_Claim c))) (cl_Generation (rv_Claim c)) r" by auto
  from complete_call [OF Cons.prems(1,2) this(1,2,4,3)] obtain r' db1 l1 where
    call: "run_state (accounting_Complete (store_env base) (rv_Claim c) (rv_Usage c)) ((db, d), l) = (None, (db1, d\<lparr>dr_count := Suc (dr_count d)\<rparr>), l1)"
    and r': "replaced db ?i r' db1" "completed_with (rv_Usage c) r'" by blast
  have "cl_RequestID (rv_Claim c') \<noteq> ?i" if "c' \<in> set cs" for c'
    using Cons.prems(3) image_eqI [OF refl that, of "\<lambda>c. cl_RequestID (rv_Claim c)"] by auto
  then have other: "rows db1 (cl_RequestID (rv_Claim c')) = rows db (cl_RequestID (rv_Claim c'))" if "c' \<in> set cs" for c'
    using r'(1) that by (simp add: replaced_def)
  from Cons.IH [of db1 "d\<lparr>dr_count := Suc (dr_count d)\<rparr>" "n + 1" l1] obtain w' l' where
    rest: "run_state (recover_completions (store_env base) cs (n + 1) errs) ((db1, d\<lparr>dr_count := Suc (dr_count d)\<rparr>), l1) = ((n + 1 + int (length cs), errs), w', l')"
    "touches (cl_RequestID ` rv_Claim ` set cs) (db1, d\<lparr>dr_count := Suc (dr_count d)\<rparr>) w'"
    "\<forall>c \<in> set cs. \<exists>r. rows (fst w') (cl_RequestID (rv_Claim c)) = Some r \<and> completed_with (rv_Usage c) r"
    using r'(1) Cons.prems other by (auto simp: replaced_def)
  have "rows (fst w') ?i = Some r'"
    using rest(2) r'(1) Cons.prems(3) by (force simp: touches_def replaced_def)
  then show ?case using call rest r' touches_step [OF r'(1) Cons.prems(2) rest(2)] by auto
qed

lemma recordable_abandoned: "recordable ''execution_abandoned'' ''request was accepted but no execution claimed it''"
  by (rule recordableI [of "CHR ''e''"]) simp_all

lemma abandon_call:
  assumes "ledger_ok db" and "calm d" and "rows db i = Some r" and "q_Status r = RqQueued" and "i \<noteq> uuid_nil"
  shows "\<exists>r' db1 l1. run_state (accounting_FailAccepted (store_env base) i ''execution_abandoned'' ''request was accepted but no execution claimed it'') ((db, d), l) =
      (None, (db1, d\<lparr>dr_count := Suc (dr_count d)\<rparr>), l1) \<and> replaced db i r' db1 \<and> q_Status r' = RqFailed"
proof -
  obtain kind detail where normal: "normalizeFailure ''execution_abandoned'' ''request was accepted but no execution claimed it'' = (kind, detail)" by fastforce
  then have "kind \<noteq> []" using recordable_abandoned by (simp add: recordable_def)
  from FailAccepted_row [OF assms(1,3,4)] obtain r' db1 where
    "FailAccepted (dr_times d (dr_count d)) Runs i kind detail db = (Inr r', db1)" "replaced db i r' db1" "q_Status r' = RqFailed" by blast
  moreover have "dr_fates d k = Runs" for k using assms(2) by (simp add: calm_def)
  ultimately show ?thesis using assms(5) normal \<open>kind \<noteq> []\<close>
    by (auto simp: accounting_FailAccepted_def usage_FailAccepted_def store_env_def store_call_def Let_def failing_def error_of_def)
qed

lemma recover_queued_run:
  assumes "ledger_ok db" and "calm d" and "distinct ids" and "\<And>i. i \<in> set ids \<Longrightarrow> i \<noteq> uuid_nil \<and> (\<exists>r. rows db i = Some r \<and> q_Status r = RqQueued)"
  shows "\<exists>w' l'. run_state (recover_queued (store_env base) ids n errs) ((db, d), l) = ((n + int (length ids), errs), w', l') \<and>
    touches (set ids) (db, d) w' \<and> (\<forall>i \<in> set ids. \<exists>r. rows (fst w') i = Some r \<and> q_Status r = RqFailed)"
  using assms
proof (induction ids arbitrary: db d n l)
  case Nil
  then show ?case by (auto simp: touches_def)
next
  case (Cons i ids)
  from Cons.prems(4) [of i] obtain r where "rows db i = Some r" "q_Status r = RqQueued" "i \<noteq> uuid_nil" by auto
  from abandon_call [OF Cons.prems(1,2) this] obtain r' db1 l1 where
    call: "run_state (accounting_FailAccepted (store_env base) i ''execution_abandoned'' ''request was accepted but no execution claimed it'') ((db, d), l) =
      (None, (db1, d\<lparr>dr_count := Suc (dr_count d)\<rparr>), l1)"
    and r': "replaced db i r' db1" "q_Status r' = RqFailed" by blast
  have other: "rows db1 j = rows db j" if "j \<in> set ids" for j
    using r'(1) Cons.prems(3) that by (auto simp: replaced_def)
  from Cons.IH [of db1 "d\<lparr>dr_count := Suc (dr_count d)\<rparr>" "n + 1" l1] obtain w' l' where
    rest: "run_state (recover_queued (store_env base) ids (n + 1) errs) ((db1, d\<lparr>dr_count := Suc (dr_count d)\<rparr>), l1) = ((n + 1 + int (length ids), errs), w', l')"
    "touches (set ids) (db1, d\<lparr>dr_count := Suc (dr_count d)\<rparr>) w'" "\<forall>i \<in> set ids. \<exists>r. rows (fst w') i = Some r \<and> q_Status r = RqFailed"
    using r'(1) Cons.prems other by (auto simp: replaced_def)
  have "rows (fst w') i = Some r'"
    using rest(2) r'(1) Cons.prems(3) by (auto simp: touches_def replaced_def)
  then show ?case using call rest r' touches_step [OF r'(1) Cons.prems(2) rest(2)] by auto
qed

lemma settling_attempt_Some:
  assumes "settling_attempt db r = Some a"
  shows "a \<in> set (pg_attempts db) \<and> settles r a"
proof (cases "rev (sort_key atm_Sequence (filter (settles r) (pg_attempts db)))")
  case (Cons b bs)
  then have "b = a" using assms by (simp add: settling_attempt_def)
  then have "a \<in> set (rev (sort_key atm_Sequence (filter (settles r) (pg_attempts db))))" unfolding Cons by simp
  then show ?thesis by simp
qed (use assms in \<open>simp add: settling_attempt_def\<close>)

lemma settling_attempt_None: "settling_attempt db r = None \<longleftrightarrow> (\<forall>a \<in> set (pg_attempts db). \<not> settles r a)"
proof (cases "rev (sort_key atm_Sequence (filter (settles r) (pg_attempts db)))")
  case Nil
  then have "set (rev (sort_key atm_Sequence (filter (settles r) (pg_attempts db)))) = {}" by (simp only: list.set)
  then have "set (filter (settles r) (pg_attempts db)) = {}" unfolding set_rev set_sort .
  then show ?thesis using Nil by (auto simp: settling_attempt_def)
next
  case (Cons b bs)
  then have "b \<in> set (rev (sort_key atm_Sequence (filter (settles r) (pg_attempts db))))" unfolding Cons by simp
  then have "b \<in> set (filter (settles r) (pg_attempts db))" unfolding set_rev set_sort .
  then show ?thesis using Cons by (auto simp: settling_attempt_def)
qed

definition usage_of :: "attempt_row \<Rightarrow> Usage" where
  "usage_of a = \<lparr>us_InputTokens = the (atm_InputTokens a), us_OutputTokens = the (atm_OutputTokens a), us_Source = atm_UsageSource a\<rparr>"

definition claim_of :: "request_row \<Rightarrow> Claim" where
  "claim_of r = \<lparr>cl_RequestID = q_ID r, cl_ExecutionID = the (q_ExecutionID r), cl_Generation = q_ExecutionGeneration r\<rparr>"

definition recoverable :: "gotime \<Rightarrow> pg \<Rightarrow> request_row list" where
  "recoverable before db = filter (\<lambda>r. settling_attempt db r \<noteq> None)
     (sort_key heartbeat_order (filter (\<lambda>r. running (q_Status r) \<and> q_ExecutionID r \<noteq> None \<and> stale before r) (pg_requests db)))"

lemma concat_option: "concat (map (\<lambda>x. case g x of None \<Rightarrow> [] | Some y \<Rightarrow> [(x, y)]) xs) = map (\<lambda>x. (x, the (g x))) (filter (\<lambda>x. g x \<noteq> None) xs)"
  by (induction xs) (auto split: option.splits)

lemma distinct_ids: "ledger_ok db \<Longrightarrow> distinct (map q_ID (sort_key k (filter P (pg_requests db))))"
  by (auto simp: ledger_ok_def distinct_map inj_on_def)

lemma recoverable_rows:
  "set (recoverable before db) = {r \<in> set (pg_requests db). running (q_Status r) \<and> q_ExecutionID r \<noteq> None \<and> stale before r \<and> settling_attempt db r \<noteq> None}"
  "ledger_ok db \<Longrightarrow> distinct (map q_ID (recoverable before db))"
  unfolding recoverable_def using distinct_ids [of db] by (auto simp: distinct_map inj_on_def)

lemma completions_listed:
  assumes "ledger_ok db" and "staleBefore \<noteq> 0" and "1 \<le> batchSize" and "batchSize \<le> 1000" and "length (pg_requests db) \<le> nat batchSize"
  shows "ListRecoverableCompletions staleBefore batchSize db =
    Inr (map (\<lambda>r. \<lparr>rv_Claim = claim_of r, rv_Usage = usage_of (the (settling_attempt db r))\<rparr>) (recoverable (pg_time staleBefore) db))"
proof -
  let ?pairs = "map (\<lambda>r. (r, the (settling_attempt db r))) (recoverable (pg_time staleBefore) db)"
  have "length (recoverable (pg_time staleBefore) db) \<le> length (pg_requests db)"
    unfolding recoverable_def by (rule le_trans [OF length_filter_le]) simp
  then have listed: "ListRecoverableRequestCompletions (pg_time staleBefore) batchSize db = ?pairs"
    using assms(5) unfolding ListRecoverableRequestCompletions_def concat_option recoverable_def by simp
  have "q_ExecutionID r \<noteq> None \<and> atm_InputTokens a \<noteq> None \<and> atm_OutputTokens a \<noteq> None \<and> 1 \<le> q_ExecutionGeneration r" if "(r, a) \<in> set ?pairs" for r a
  proof -
    from that have r: "r \<in> set (recoverable (pg_time staleBefore) db)" "a = the (settling_attempt db r)" by auto
    then obtain "q_ExecutionID r \<noteq> None" "settling_attempt db r = Some a" "r \<in> set (pg_requests db)" by (auto simp: recoverable_rows)
    then show ?thesis using settling_attempt_Some [of db r a] assms(1) by (auto simp: settles_def ledger_ok_def row_ok_def)
  qed
  then have "find (\<lambda>(r, a). q_ExecutionID r = None \<or> atm_InputTokens a = None \<or> atm_OutputTokens a = None \<or> q_ExecutionGeneration r < 1) ?pairs = None"
    unfolding find_None_iff by fastforce
  then show ?thesis using assms(2-4) by (simp add: ListRecoverableCompletions_def listed claim_of_def usage_of_def comp_def)
qed

definition abandoned :: "gotime \<Rightarrow> request_row \<Rightarrow> bool" where
  "abandoned before r = (q_Status r = RqQueued \<and> q_UpdatedAt r < before)"

lemma queued_listed:
  assumes "ledger_ok db" and "staleBefore \<noteq> 0" and "1 \<le> batchSize" and "batchSize \<le> 1000" and "length (pg_requests db) \<le> nat batchSize"
  shows "\<exists>ids. ListStaleQueued staleBefore batchSize db = Inr ids \<and> distinct ids \<and> set ids = {i. \<exists>r. rows db i = Some r \<and> abandoned (pg_time staleBefore) r}"
proof -
  let ?old = "filter (\<lambda>r. q_Status r = RqQueued \<and> q_ExecutionID r = None \<and> q_ExecutionGeneration r = 0 \<and> q_UpdatedAt r < pg_time staleBefore) (pg_requests db)"
  let ?ids = "map q_ID (sort_key (\<lambda>r. (q_UpdatedAt r, q_ID r)) ?old)"
  have "length ?ids \<le> nat batchSize" using le_trans [OF length_filter_le assms(5)] by simp
  then have "ListStaleQueued staleBefore batchSize db = Inr ?ids"
    using assms(2-4) by (simp add: ListStaleQueued_def ListStaleQueuedRequests_def)
  moreover have "abandoned (pg_time staleBefore) r \<longleftrightarrow> q_Status r = RqQueued \<and> q_ExecutionID r = None \<and> q_ExecutionGeneration r = 0 \<and> q_UpdatedAt r < pg_time staleBefore"
    if "r \<in> set (pg_requests db)" for r
    using assms(1) that by (auto simp: ledger_ok_def row_ok_def abandoned_def)
  then have "set ?ids = {i. \<exists>r. rows db i = Some r \<and> abandoned (pg_time staleBefore) r}"
    using rows_Some [OF assms(1)] by auto
  ultimately show ?thesis using distinct_ids [OF assms(1)] by blast
qed

text \<open>\<open>RecoverStaleExecutions\<close> with room for every row: exactly the stale executions that no attempt settles become uncertain.\<close>

definition lost_execution :: "gotime \<Rightarrow> pg \<Rightarrow> request_row \<Rightarrow> bool" where
  "lost_execution before db r = (running (q_Status r) \<and> stale before r \<and> settling_attempt db r = None)"

lemma rows_map:
  assumes "\<And>r. q_ID (g r) = q_ID r" and "pg_requests db' = map g (pg_requests db)"
  shows "rows db' i = map_option g (rows db i)"
proof -
  have "map_of (map (\<lambda>r. (q_ID r, r)) (map g rs)) i = map_option g (map_of (map (\<lambda>r. (q_ID r, r)) rs) i)" for rs
    by (induction rs) (auto simp: assms(1))
  then show ?thesis by (simp add: rows_def assms(2))
qed

lemma stale_rows:
  assumes "ledger_ok db" and "staleBefore \<noteq> 0" and "1 \<le> batchSize" and "batchSize \<le> 1000" and "length (pg_requests db) \<le> nat batchSize"
  shows "\<exists>n db'. RecoverStaleExecutions now Runs (\<lambda>_. False) staleBefore batchSize db = (Inr n, db') \<and>
    (\<forall>i. rows db' i = map_option (\<lambda>q. if lost_execution (pg_time staleBefore) db q then q\<lparr>q_Status := RqUncertain, q_ErrorKind := Some ''uncertain'',
       q_ErrorDetail := Some ''request execution heartbeat expired; upstream outcome requires recovery'', q_CompletedAt := Some now, q_UpdatedAt := now\<rparr> else q) (rows db i))"
proof -
  let ?before = "pg_time staleBefore"
  let ?f = "\<lambda>q. q\<lparr>q_Status := RqUncertain, q_ErrorKind := Some ''uncertain'',
       q_ErrorDetail := Some ''request execution heartbeat expired; upstream outcome requires recovery'', q_CompletedAt := Some now, q_UpdatedAt := now\<rparr>"
  let ?stale = "stale_executions (\<lambda>_. False) ?before batchSize db"
  have "length (filter (\<lambda>r. running (q_Status r) \<and> stale ?before r \<and> (\<forall>a \<in> set (pg_attempts db). \<not> settles r a)) (pg_requests db)) \<le> nat batchSize"
    by (rule le_trans [OF length_filter_le assms(5)])
  then have stale: "set ?stale = {r \<in> set (pg_requests db). lost_execution ?before db r}"
    by (auto simp: stale_executions_def lost_execution_def settling_attempt_None)
  have lost: "(\<exists>r \<in> set ?stale. q_ID q = q_ID r \<and> sql_eq (q_ExecutionID q) (q_ExecutionID r) \<and> q_ExecutionGeneration q = q_ExecutionGeneration r \<and> running (q_Status q)) \<longleftrightarrow>
      lost_execution ?before db q" if q: "q \<in> set (pg_requests db)" for q
  proof
    assume "lost_execution ?before db q"
    moreover from this have "q_ExecutionID q \<noteq> None" using assms(1) q by (auto simp: ledger_ok_def row_ok_def lost_execution_def)
    ultimately show "\<exists>r \<in> set ?stale. q_ID q = q_ID r \<and> sql_eq (q_ExecutionID q) (q_ExecutionID r) \<and> q_ExecutionGeneration q = q_ExecutionGeneration r \<and> running (q_Status q)"
      using q unfolding stale by (intro bexI [of _ q]) (auto simp: sql_eq_def lost_execution_def)
  qed (use unique_row [OF assms(1) q] stale in auto)
  define db' where "db' = snd (RecoverStaleRequestExecutions now (\<lambda>_. False) ?before batchSize db)"
  have "pg_requests db' = map (\<lambda>q. if lost_execution ?before db q then ?f q else q) (pg_requests db)"
    unfolding db'_def RecoverStaleRequestExecutions_def Let_def sql_update_def by (simp add: lost)
  from rows_map [OF _ this] have "rows db' i = map_option (\<lambda>q. if lost_execution ?before db q then ?f q else q) (rows db i)" for i by simp
  moreover have "\<exists>n. RecoverStaleExecutions now Runs (\<lambda>_. False) staleBefore batchSize db = (Inr n, db')"
    using assms(2-4) by (simp add: RecoverStaleExecutions_def transact_def query_def db'_def RecoverStaleRequestExecutions_def Let_def)
  ultimately show ?thesis by blast
qed

lemma length_rows:
  assumes "ledger_ok db"
  shows "length (pg_requests db) = card (dom (rows db))"
proof -
  have "dom (rows db) = set (map q_ID (pg_requests db))" by (simp add: rows_def dom_map_of_conv_image_fst image_image)
  moreover have "distinct (map q_ID (pg_requests db))" using assms by (simp add: ledger_ok_def)
  ultimately show ?thesis using distinct_card by fastforce
qed

text \<open>A phase of recovery: what it makes of each request.\<close>

definition phase :: "(request_row \<Rightarrow> request_row \<Rightarrow> bool) \<Rightarrow> pg \<Rightarrow> pg \<Rightarrow> bool" where
  "phase P db db' = (ledger_ok db' \<and> pg_attempts db' = pg_attempts db \<and> length (pg_requests db') = length (pg_requests db) \<and>
     (\<forall>i r. rows db i = Some r \<longrightarrow> (\<exists>r'. rows db' i = Some r' \<and> P r r')))"

lemma touches_phase:
  assumes "ledger_ok db" and "touches ids (db, d) (db', d')" and "\<And>i r. rows db i = Some r \<Longrightarrow> i \<in> ids \<Longrightarrow> \<exists>r'. rows db' i = Some r' \<and> P r r'"
    and "\<And>i. i \<in> ids \<Longrightarrow> rows db i \<noteq> None" and "\<And>i r. rows db i = Some r \<Longrightarrow> i \<notin> ids \<Longrightarrow> P r r"
  shows "phase P db db'"
proof -
  have same: "rows db' i = rows db i" if "i \<notin> ids" for i using assms(2) that by (simp add: touches_def)
  have "rows db' i = None \<longleftrightarrow> rows db i = None" for i
    using assms(3) assms(4) [of i] same [of i] by (cases "i \<in> ids") fastforce+
  then have "dom (rows db') = dom (rows db)" by (auto simp: dom_def)
  moreover have "ledger_ok db'" "pg_attempts db' = pg_attempts db" using assms(2) by (simp_all add: touches_def)
  ultimately show ?thesis using assms(1,3,5) same length_rows unfolding phase_def by metis
qed

definition completes :: "gotime \<Rightarrow> pg \<Rightarrow> request_row \<Rightarrow> request_row \<Rightarrow> bool" where
  "completes before db r r' = (if running (q_Status r) \<and> stale before r \<and> settling_attempt db r \<noteq> None then completed_with (usage_of (the (settling_attempt db r))) r' else r' = r)"

lemma completion_phase:
  assumes "ledger_ok db" and "calm d"
    and ids: "\<forall>r \<in> set (pg_requests db). q_ID r \<noteq> uuid_nil \<and> q_ExecutionID r \<noteq> Some uuid_nil"
    and usage: "\<forall>r \<in> set (pg_requests db). \<forall>a. settling_attempt db r = Some a \<longrightarrow> validKnownUsage (usage_of a)"
  shows "\<exists>n db' d' l'. run_state (recover_completions (store_env base)
      (map (\<lambda>r. \<lparr>rv_Claim = claim_of r, rv_Usage = usage_of (the (settling_attempt db r))\<rparr>) (recoverable before db)) 0 []) ((db, d), l) = ((n, []), (db', d'), l') \<and>
    calm d' \<and> phase (completes before db) db db'"
proof -
  let ?cs = "map (\<lambda>r. \<lparr>rv_Claim = claim_of r, rv_Usage = usage_of (the (settling_attempt db r))\<rparr>) (recoverable before db)"
  have claims: "Valid (rv_Claim c) \<and> validKnownUsage (rv_Usage c) \<and> (\<exists>r. rows db (cl_RequestID (rv_Claim c)) = Some r \<and>
      executed_by (cl_RequestID (rv_Claim c)) (Some (cl_ExecutionID (rv_Claim c))) (cl_Generation (rv_Claim c)) r)" if "c \<in> set ?cs" for c
  proof -
    from that obtain r where r: "r \<in> set (recoverable before db)" "c = \<lparr>rv_Claim = claim_of r, rv_Usage = usage_of (the (settling_attempt db r))\<rparr>" by auto
    then have "r \<in> set (pg_requests db)" "running (q_Status r)" "q_ExecutionID r \<noteq> None" "settling_attempt db r \<noteq> None" by (auto simp: recoverable_rows)
    moreover from this have "q_ExecutionGeneration r = 1" "q_ID r \<noteq> uuid_nil" "q_ExecutionID r \<noteq> Some uuid_nil" using assms(1) ids by (auto simp: ledger_ok_def row_ok_def)
    ultimately show ?thesis using usage rows_Some [OF assms(1)] by (auto simp: r(2) claim_of_def Valid_def executed_by_def intro!: exI [of _ r])
  qed
  have same_ids: "map (\<lambda>c. cl_RequestID (rv_Claim c)) ?cs = map q_ID (recoverable before db)" by (simp add: claim_of_def)
  have "distinct (map (\<lambda>c. cl_RequestID (rv_Claim c)) ?cs)" unfolding same_ids by (rule recoverable_rows(2) [OF assms(1)])
  from recover_completions_run [OF assms(1,2) this claims, of base 0 "[]" l] obtain db' d' l' where
    run: "run_state (recover_completions (store_env base) ?cs 0 []) ((db, d), l) = ((int (length ?cs), []), (db', d'), l')"
    and touched: "touches (cl_RequestID ` rv_Claim ` set ?cs) (db, d) (db', d')"
    and done': "\<forall>c \<in> set ?cs. \<exists>r. rows db' (cl_RequestID (rv_Claim c)) = Some r \<and> completed_with (rv_Usage c) r" by auto
  have "cl_RequestID ` rv_Claim ` set ?cs = q_ID ` set (recoverable before db)" by (simp add: image_image claim_of_def)
  note touched = touched [unfolded this]
  have member: "i \<in> q_ID ` set (recoverable before db) \<longleftrightarrow> running (q_Status r) \<and> stale before r \<and> settling_attempt db r \<noteq> None" if "rows db i = Some r" for i r
  proof -
    have r: "r \<in> set (pg_requests db)" "q_ID r = i" using rows_Some [OF assms(1)] that by auto
    have "i \<in> q_ID ` set (recoverable before db) \<longleftrightarrow> r \<in> set (recoverable before db)"
    proof
      assume "i \<in> q_ID ` set (recoverable before db)"
      then obtain q where q: "q \<in> set (recoverable before db)" "q_ID q = i" by blast
      moreover have "q \<in> set (pg_requests db)" using q(1) by (simp add: recoverable_rows)
      then have "q = r" using unique_row [OF assms(1), of q r] r q(2) by simp
      ultimately show "r \<in> set (recoverable before db)" by simp
    qed (use r(2) in blast)
    moreover have "running (q_Status r) \<Longrightarrow> q_ExecutionID r \<noteq> None" using assms(1) r(1) by (auto simp: ledger_ok_def row_ok_def)
    ultimately show ?thesis using r(1) by (auto simp: recoverable_rows)
  qed
  have "\<exists>r'. rows db' i = Some r' \<and> completes before db r r'" if r: "rows db i = Some r" "i \<in> q_ID ` set (recoverable before db)" for i r
  proof -
    obtain q where q: "q \<in> set (recoverable before db)" "i = q_ID q" using r(2) by auto
    then have "q = r" using unique_row [OF assms(1), of q r] rows_Some [OF assms(1)] r(1) by (auto simp: recoverable_rows)
    then show ?thesis using done' q member [OF r(1)] r(2) by (auto simp: completes_def claim_of_def)
  qed
  moreover have "i \<in> q_ID ` set (recoverable before db) \<Longrightarrow> rows db i \<noteq> None" for i
    using rows_Some [OF assms(1)] by (auto simp: recoverable_rows)
  moreover have "rows db i = Some r \<Longrightarrow> i \<notin> q_ID ` set (recoverable before db) \<Longrightarrow> completes before db r r" for i r
    using member [of i r] by (auto simp: completes_def)
  ultimately have "phase (completes before db) db db'" by (rule touches_phase [OF assms(1) touched])
  moreover have "calm d'" using touched by (simp add: touches_def)
  ultimately show ?thesis using run by blast
qed

definition abandons :: "gotime \<Rightarrow> request_row \<Rightarrow> request_row \<Rightarrow> bool" where
  "abandons before r r' = (if abandoned before r then q_Status r' = RqFailed else r' = r)"

lemma abandon_phase:
  assumes "ledger_ok db" and "calm d" and "rows db uuid_nil = None"
    and "distinct ids" and "set ids = {i. \<exists>r. rows db i = Some r \<and> abandoned before r}"
  shows "\<exists>n db' d' l'. run_state (recover_queued (store_env base) ids 0 []) ((db, d), l) = ((n, []), (db', d'), l') \<and> calm d' \<and> phase (abandons before) db db'"
proof -
  have "i \<noteq> uuid_nil \<and> (\<exists>r. rows db i = Some r \<and> q_Status r = RqQueued)" if "i \<in> set ids" for i
    using that assms(3,5) by (auto simp: abandoned_def)
  from recover_queued_run [OF assms(1,2,4) this, of base 0 "[]" l] obtain db' d' l' where
    run: "run_state (recover_queued (store_env base) ids 0 []) ((db, d), l) = ((int (length ids), []), (db', d'), l')"
    and touched: "touches (set ids) (db, d) (db', d')" and failed: "\<forall>i \<in> set ids. \<exists>r. rows db' i = Some r \<and> q_Status r = RqFailed" by auto
  have "phase (abandons before) db db'"
    by (rule touches_phase [OF assms(1) touched]) (use failed assms(5) in \<open>auto simp: abandons_def\<close>)
  then show ?thesis using run touched by (auto simp: touches_def)
qed

definition recovered :: "gotime \<Rightarrow> pg \<Rightarrow> request_row \<Rightarrow> request_row \<Rightarrow> bool" where
  "recovered before db r r' =
    (if running (q_Status r) \<and> stale before r then (case settling_attempt db r of Some a \<Rightarrow> completed_with (usage_of a) r' | None \<Rightarrow> q_Status r' = RqUncertain)
     else if abandoned before r then q_Status r' = RqFailed else r' = r)"

lemma recovered_chain:
  assumes "completes before db r r1" and "abandons before r1 r2" and "r3 = (if lost_execution before db' r2 then f r2 else r2)"
    and "pg_attempts db' = pg_attempts db" and "q_Status (f r2) = RqUncertain"
  shows "recovered before db r r3"
proof -
  have same: "settling_attempt db' q = settling_attempt db q" for q by (simp add: settling_attempt_def assms(4))
  consider "running (q_Status r) \<and> stale before r \<and> settling_attempt db r \<noteq> None" | "running (q_Status r) \<and> stale before r \<and> settling_attempt db r = None" |
    "\<not> (running (q_Status r) \<and> stale before r)" by argo
  then show ?thesis
  proof cases
    case 1
    then have "completed_with (usage_of (the (settling_attempt db r))) r1" using assms(1) by (simp add: completes_def)
    moreover from this have "r2 = r1" "r3 = r2" using assms(2,3) by (auto simp: completed_with_def abandons_def abandoned_def lost_execution_def)
    ultimately show ?thesis using 1 by (auto simp: recovered_def)
  next
    case 2
    then have "r1 = r" "r2 = r" using assms(1,2) by (auto simp: completes_def abandons_def abandoned_def running_def)
    then show ?thesis using 2 assms(3,5) same by (simp add: recovered_def lost_execution_def)
  next
    case 3
    then have "r1 = r" using assms(1) by (auto simp: completes_def)
    then show ?thesis using 3 assms(2,3) same by (auto simp: recovered_def abandons_def lost_execution_def split: if_splits)
  qed
qed


definition calm_driver :: driver where
  "calm_driver = \<lparr>dr_times = (\<lambda>n. 9000000 + int n), dr_fates = (\<lambda>_. Runs), dr_ids = (\<lambda>_. ''new''), dr_locked = (\<lambda>_ _. False), dr_count = 0\<rparr>"


end
