(* ===== verification/CredentialHealth.thy ===== *)
theory CredentialHealth
  imports LedgerFlow
begin

text \<open>
  The shared health of credentials. A credential that failed cools down; the first permit after the cooldown turns it into a probe of a new generation, and only an
  observation of that generation takes it out of the probe. The theory shows that there is at most one probe at a time, and what becomes of a
  probe whose attempt never starts.
\<close>

subsection \<open>A probe stays until it is observed\<close>

definition probing_at :: "uuid \<Rightarrow> int \<Rightarrow> pg \<Rightarrow> bool" where
  "probing_at i g db = (\<forall>c \<in> set (pg_credentials db). pc_ID c = i \<longrightarrow> pc_HealthStatus c = HealthProbing \<and> pc_HealthGeneration c = g)"

definition stays_probing :: "uuid \<Rightarrow> int \<Rightarrow> pg \<Rightarrow> pg \<Rightarrow> bool" where
  "stays_probing i g db db' = (probing_at i g db \<longrightarrow> probing_at i g db')"

interpretation probe: database_relation "stays_probing i g" for i g
  by unfold_locales (auto simp: stays_probing_def)

definition same_credentials :: "pg \<Rightarrow> pg \<Rightarrow> bool" where
  "same_credentials db db' = (pg_credentials db' = pg_credentials db)"

interpretation cred: database_relation same_credentials
  by unfold_locales (auto simp: same_credentials_def)

lemma same_stays: "same_credentials db db' \<Longrightarrow> stays_probing i g db db'"
  by (simp add: same_credentials_def stays_probing_def probing_at_def)

text \<open>An operation that records an observation of the credential \<open>i\<close> in the generation \<open>g\<close>. Recording an uncertain outcome is not one: the statement drops the observation.\<close>

definition observation_of :: "uuid \<Rightarrow> int \<Rightarrow> uuid \<Rightarrow> AttemptUpdate \<Rightarrow> pg \<Rightarrow> bool" where
  "observation_of i g attemptID update db = (has (\<lambda>ob. co_HealthGeneration ob = g) (au_Credential update) \<and>
     (\<exists>a \<in> set (pg_attempts db). atm_ID a = attemptID \<and> atm_CredentialID a = i))"

fun observes :: "uuid \<Rightarrow> int \<Rightarrow> ledger_op \<Rightarrow> pg \<Rightarrow> bool" where
  "observes i g (OpUpdateAttempt fate claim attemptID update) db = observation_of i g attemptID update db"
| "observes i g (OpStreaming fate claim attemptID update) db = observation_of i g attemptID update db"
| "observes i g op db = False"

inductive unobserved_reach :: "uuid \<Rightarrow> int \<Rightarrow> pg \<Rightarrow> pg \<Rightarrow> bool" for i g start where
  here: "unobserved_reach i g start start"
| step: "unobserved_reach i g start db \<Longrightarrow> \<not> observes i g op db \<Longrightarrow> unobserved_reach i g start (ledger_step now op db)"

subsection \<open>Statements and credentials\<close>

lemma transact_db: "snd (transact fate failure body db) = db \<or> snd (transact fate failure body db) = snd (body db)"
  by (cases fate) (auto simp: transact_def split: prod.splits sum.splits)

lemma same_statements:
  "same_credentials db (snd (ClaimRequestExecution now e i db))" "same_credentials db (snd (HeartbeatRequestExecution now i e g db))"
  "same_credentials db (snd (MarkRequestExecutionStreaming now i e g db))" "same_credentials db (snd (MarkRequestExecutionUncertain now i e g kind detail db))"
  "same_credentials db (snd (UpdateAttempt arg db))"
  by (auto simp: same_credentials_def ClaimRequestExecution_def HeartbeatRequestExecution_def MarkRequestExecutionStreaming_def MarkRequestExecutionUncertain_def
      UpdateAttempt_def update_request_def Let_def split: option.split list.split)

lemma same_more:
  "same_credentials db (snd (CreateRequest now i key requestDigest userID keyID modelID subscriptionID poolID status stream db))"
  "same_credentials db (snd (CreateAttempt now newID requestID executionID generation credentialID sequence astatus db))"
  "same_credentials db (snd (CompleteRequest now input output source i e g db))" "same_credentials db (snd (FailRequest now kind detail i e g db))"
  "same_credentials db (snd (FailRequestWithUsage now input output source kind detail i e g db))"
  "same_credentials db (snd (RecoverStaleRequestExecutions now locked before batch db))"
  by (auto simp: same_credentials_def CreateRequest_def CreateAttempt_def CompleteRequest_def FailRequest_def FailRequestWithUsage_def RecoverStaleRequestExecutions_def
      update_request_def Let_def split: list.split)

lemma same_resolve: "same_credentials db (snd (resolve now fate command db))"
  unfolding resolve_def Let_def by (auto intro!: cred.rel_rules same_more split: sum.split option.split resolutionKind.split)

lemma same_accept_once: "same_credentials db (snd (acceptRequestOnce now fate input db))"
  unfolding acceptRequestOnce_def accept_new_def replayAcceptedRequest_def Let_def
  by (rule cred.rel_transact) (auto intro!: cred.rel_rules same_more split: sum.split option.split)

lemma same_accept: "same_credentials db (snd (accept_attempts now input fates e db))"
proof (induction fates arbitrary: e db)
  case (Cons fate fates)
  then show ?case using same_accept_once [of db now fate input]
    by (auto split: sum.split prod.split intro: cred.rel_trans)
qed (simp add: cred.rel_refl)

lemma same_claim: "same_credentials db (snd (ClaimExecution now fate i e db))"
proof -
  have "same_credentials db (snd (transact fate plain (\<lambda>db. query (ClaimRequestExecution now (Some e) i db)
      (\<lambda>e. if e = PgNoRows then ErrNotClaimable else plain e) (\<lambda>row db. (Inr row, db))) db))"
    by (intro cred.rel_rules same_statements) (simp add: cred.rel_refl)
  then show ?thesis by (auto simp: ClaimExecution_def cred.rel_refl split: sum.split prod.split)
qed

lemma permit_stays: "stays_probing i g db (snd (AcquireHealthPermit now fate j db))"
  unfolding AcquireHealthPermit_def
  by (intro probe.rel_rules) (auto simp: AcquireCredentialHealthPermit_def stays_probing_def probing_at_def set_sql_update usable_def Let_def split: list.split)

lemma observation_stays:
  assumes "\<not> (credentialID = i \<and> has (\<lambda>ob. co_HealthGeneration ob = g) observation)"
  shows "stays_probing i g db (snd (recordCredentialObservation credentialID observation db))"
  using assms
  by (auto simp: recordCredentialObservation_def RecordCredentialRuntimeSuccess_def RecordCredentialRuntimeFailure_def observed_def stays_probing_def probing_at_def
      set_sql_update has_def split: option.split CredentialObservationKind.split)

lemma UpdateAttempt_row:
  assumes "UpdateAttempt arg db = (Inr a, db')"
  shows "\<exists>a0 \<in> set (pg_attempts db). atm_ID a0 = ua_ID arg \<and> atm_CredentialID a0 = atm_CredentialID a"
proof -
  obtain status where status: "ua_Status arg = Some status" using assms by (cases "ua_Status arg") (simp_all add: UpdateAttempt_def)
  show ?thesis
  proof (cases "filter (updatable db arg status) (pg_attempts db)")
    case (Cons z zs)
    then have "z \<in> set (filter (updatable db arg status) (pg_attempts db))" by simp
    then have "z \<in> set (pg_attempts db)" "atm_ID z = ua_ID arg" by (auto simp: updatable_def)
    moreover have "atm_CredentialID z = atm_CredentialID a"
      using assms status Cons by (auto simp: UpdateAttempt_def Let_def split: if_splits)
    ultimately show ?thesis by blast
  qed (use assms status in \<open>auto simp: UpdateAttempt_def Let_def split: if_splits\<close>)
qed

lemma update_stays:
  assumes "\<not> observation_of i g attemptID update db" and "ua_ID arg = attemptID" and "\<And>db. stays_probing i g db (snd (rest db))"
  shows "stays_probing i g db (snd (transact fate failure (\<lambda>db. query (UpdateAttempt arg db) failure' (\<lambda>a. observing (atm_CredentialID a) (au_Credential update) rest)) db))"
proof -
  have "stays_probing i g db (snd (query (UpdateAttempt arg db) failure' (\<lambda>a. observing (atm_CredentialID a) (au_Credential update) rest)))"
  proof (cases "UpdateAttempt arg db")
    case (Pair r db')
    then have "stays_probing i g db db'" using same_stays [OF same_statements(5), of i g db arg] by simp
    moreover have "stays_probing i g db' (snd (observing (atm_CredentialID a) (au_Credential update) rest db'))" if "r = Inr a" for a
      using UpdateAttempt_row [of arg db a db'] Pair that assms by (intro probe.rel_observing observation_stays) (auto simp: observation_of_def)
    ultimately show ?thesis using Pair by (auto simp: query_def split: sum.split intro: probe.rel_trans)
  qed
  then show ?thesis using transact_db [of fate failure "\<lambda>db. query (UpdateAttempt arg db) failure' (\<lambda>a. observing (atm_CredentialID a) (au_Credential update) rest)" db]
    probe.rel_refl [of i g db] by metis
qed

lemma step_stays:
  assumes "\<not> observes i g op db"
  shows "stays_probing i g db (ledger_step now op db)"
proof (cases op)
  case (OpAccept fates input)
  then show ?thesis using same_stays [OF same_accept] by (simp add: AcceptRequest_def)
next
  case (OpUpdateAttempt fate claim a update)
  then show ?thesis using assms
    by (auto simp: UpdateAttemptBy_def attemptUpdateParams_def probe.rel_refl intro!: update_stays)
next
  case (OpStreaming fate claim a update)
  then show ?thesis using assms
    by (auto simp: MarkExecutionStreaming_def attemptUpdateParams_def probe.rel_refl intro!: update_stays probe.rel_query same_stays [OF same_statements(3)])
next
  case (OpPermit fate j)
  then show ?thesis using permit_stays by simp
next
  case (OpClaim fate j e)
  then show ?thesis using same_stays [OF same_claim] by simp
next
  case (OpResolve fate command)
  then show ?thesis using same_stays [OF same_resolve] by simp
qed (auto simp: HeartbeatExecution_def CreateAttemptFor_def MarkExecutionUncertain_def RecoverStaleExecutions_def
    intro!: same_stays cred.rel_rules same_statements same_more)

lemma reach_stays: "unobserved_reach i g a b \<Longrightarrow> probing_at i g a \<Longrightarrow> probing_at i g b"
proof (induction rule: unobserved_reach.induct)
  case (step db op now)
  then show ?case using step_stays [OF step.hyps(2)] by (simp add: stays_probing_def)
qed

lemma probing_unavailable:
  assumes "probing_at i g db"
  shows "isl (fst (AcquireHealthPermit now fate i db))" and "i \<notin> up_ID ` set (ListCandidates now poolID modelID db)"
proof -
  have none: "\<not> (pc_ID c = i \<and> usable now c)" if "c \<in> set (pg_credentials db)" for c
    using assms that by (auto simp: probing_at_def usable_def)
  then have "filter (\<lambda>c. pc_ID c = i \<and> pc_Status c = CredentialActive \<and> usable now c) (pg_credentials db) = []" by (auto simp: filter_empty_conv)
  then show "isl (fst (AcquireHealthPermit now fate i db))"
    by (cases fate) (simp_all add: AcquireHealthPermit_def AcquireCredentialHealthPermit_def transact_def query_def)
  show "i \<notin> up_ID ` set (ListCandidates now poolID modelID db)"
    using none by (auto simp: ListCandidates_def ListResourcePoolCandidates_def candidate_of_def)
qed

subsection \<open>One probe at a time\<close>

definition distinct_credentials :: "pg \<Rightarrow> bool" where
  "distinct_credentials db = distinct (map pc_ID (pg_credentials db))"

definition starts_probe :: "credential_row \<Rightarrow> credential_row \<Rightarrow> bool" where
  "starts_probe c c' = (pc_HealthStatus c = HealthCooling \<and>
     (\<exists>t. c' = c\<lparr>pc_HealthStatus := HealthProbing, pc_HealthGeneration := pc_HealthGeneration c + 1, pc_UpdatedAt := t\<rparr>))"

text \<open>What permits do to a credential: those in the first set that were cooling are probes now, others are unchanged or probes too (when the answer to a commit was lost).\<close>

definition permitted :: "uuid set \<Rightarrow> credential_row \<Rightarrow> credential_row \<Rightarrow> bool" where
  "permitted granted c c' = (starts_probe c c' \<or> c' = c \<and> (pc_ID c \<in> granted \<longrightarrow> pc_HealthStatus c \<noteq> HealthCooling))"

definition permits :: "uuid set \<Rightarrow> pg \<Rightarrow> pg \<Rightarrow> bool" where
  "permits granted db db' = list_all2 (permitted granted) (pg_credentials db) (pg_credentials db')"

lemma starts_probe_columns:
  assumes "starts_probe c c'"
  shows "pc_HealthStatus c = HealthCooling" "pc_HealthStatus c' = HealthProbing" "pc_ID c' = pc_ID c" "pc_HealthGeneration c' = pc_HealthGeneration c + 1"
  using assms by (auto simp: starts_probe_def)

lemma permitted_trans: "permitted S a b \<Longrightarrow> permitted T b c \<Longrightarrow> permitted (S \<union> T) a c"
  using starts_probe_columns(1) [of b c] starts_probe_columns(2,3) [of a b] by (auto simp: permitted_def)

lemma permits_trans: "permits S a b \<Longrightarrow> permits T b c \<Longrightarrow> permits (S \<union> T) a c"
  unfolding permits_def by (rule list_all2_trans [OF permitted_trans])

lemma permits_refl: "permits {} db db"
  by (simp add: permits_def permitted_def list_all2_refl)

lemma permits_distinct: "permits S db db' \<Longrightarrow> distinct_credentials db' = distinct_credentials db"
proof -
  assume "permits S db db'"
  then have "list_all2 (\<lambda>c c'. pc_ID c = pc_ID c') (pg_credentials db) (pg_credentials db')"
    unfolding permits_def by (rule list_all2_mono) (auto simp: permitted_def starts_probe_columns(3))
  then have "map pc_ID (pg_credentials db) = map pc_ID (pg_credentials db')"
    by (induction rule: list_all2_induct) auto
  then show ?thesis by (simp add: distinct_credentials_def)
qed

lemma permits_probing:
  assumes "permits S db db'" and "distinct_credentials db" and "c \<in> set (pg_credentials db)" and "pc_HealthStatus c = HealthCooling" and "pc_ID c \<in> S"
  shows "probing_at (pc_ID c) (pc_HealthGeneration c + 1) db'"
  unfolding probing_at_def
proof (intro ballI impI)
  fix c' assume c': "c' \<in> set (pg_credentials db')" "pc_ID c' = pc_ID c"
  then obtain c0 where c0: "c0 \<in> set (pg_credentials db)" "permitted S c0 c'"
    using assms(1) unfolding permits_def by (metis list_all2_conv_all_nth in_set_conv_nth)
  then have "pc_ID c0 = pc_ID c" using c'(2) starts_probe_columns(3) [of c0 c'] by (auto simp: permitted_def)
  then have "c0 = c" using assms(2,3) c0(1) by (auto simp: distinct_credentials_def distinct_map dest: inj_onD)
  then show "pc_HealthStatus c' = HealthProbing \<and> pc_HealthGeneration c' = pc_HealthGeneration c + 1"
    using c0(2) assms(4,5) starts_probe_columns(2,4) [of c0 c'] by (auto simp: permitted_def)
qed

lemma permit_permits:
  assumes "distinct_credentials db" and "AcquireHealthPermit now fate i db = (r, db')"
  shows "permits (case r of Inl _ \<Rightarrow> {} | Inr _ \<Rightarrow> {i}) db db'"
proof -
  let ?p = "\<lambda>c. pc_ID c = i \<and> pc_Status c = CredentialActive \<and> usable now c"
  let ?f = "\<lambda>c. if pc_HealthStatus c = HealthCooling
      then c\<lparr>pc_HealthStatus := HealthProbing, pc_HealthGeneration := pc_HealthGeneration c + 1, pc_UpdatedAt := now\<rparr> else c"
  show ?thesis
  proof (cases "filter ?p (pg_credentials db)")
    case Nil
    then have "isl r" "db' = db"
      using assms(2) by (cases fate; auto simp: AcquireHealthPermit_def AcquireCredentialHealthPermit_def transact_def query_def)+
    then show ?thesis by (auto simp: permits_refl isl_def)
  next
    case (Cons z zs)
    then have "z \<in> set (filter ?p (pg_credentials db))" by simp
    then have z: "z \<in> set (pg_credentials db)" "?p z" by auto
    have updated: "permits {i} db (db\<lparr>pg_credentials := sql_update ?p ?f (pg_credentials db)\<rparr>)"
      unfolding permits_def sql_update_def
    proof (simp, rule list_all2_all_nthI)
      fix n assume n: "n < length (pg_credentials db)"
      have "pg_credentials db ! n = z" if "pc_ID (pg_credentials db ! n) = i"
        using assms(1) z nth_mem [OF n] that by (auto simp: distinct_credentials_def distinct_map dest: inj_onD)
      then show "permitted {i} (pg_credentials db ! n) (map (\<lambda>c. if ?p c then ?f c else c) (pg_credentials db) ! n)"
        using z(2) n by (auto simp: permitted_def starts_probe_def)
    qed simp
    moreover from this have "permits {} db (db\<lparr>pg_credentials := sql_update ?p ?f (pg_credentials db)\<rparr>)"
      unfolding permits_def by (rule list_all2_mono) (auto simp: permitted_def)
    moreover have "db' = db \<and> isl r \<or> db' = db\<lparr>pg_credentials := sql_update ?p ?f (pg_credentials db)\<rparr>"
      using assms(2) Cons by (cases fate) (auto simp: AcquireHealthPermit_def AcquireCredentialHealthPermit_def transact_def query_def Let_def split: if_splits)
    ultimately show ?thesis using permits_refl by (auto simp: isl_def split: sum.split)
  qed
qed

text \<open>
  C12. At most one probe per cooldown: after a permit has turned a cooling credential into a probe, no operation of any gateway instance, in any order, with any
  arguments and failures, makes the credential available again before an observation of that probe is recorded. Until then no permit is granted and no
  listing of candidates contains it.
\<close>

theorem one_probe_at_a_time:
  assumes "distinct_credentials db" and "c \<in> set (pg_credentials db)" and "pc_HealthStatus c = HealthCooling"
    and "AcquireHealthPermit now fate (pc_ID c) db = (Inr g, db1)" and "unobserved_reach (pc_ID c) (pc_HealthGeneration c + 1) db1 db2"
  shows "isl (fst (AcquireHealthPermit now' fate' (pc_ID c) db2)) \<and> pc_ID c \<notin> up_ID ` set (ListCandidates now' poolID modelID db2)"
proof -
  have "permits {pc_ID c} db db1" using permit_permits [OF assms(1,4)] by simp
  from permits_probing [OF this assms(1-3)] have "probing_at (pc_ID c) (pc_HealthGeneration c + 1) db1" by simp
  from probing_unavailable [OF reach_stays [OF assms(5) this]] show ?thesis by blast
qed

definition sample_credential :: credential_row where
  "sample_credential = hd (pg_credentials claimed_pg)"

definition probed_pg :: pg where
  "probed_pg = snd (AcquireHealthPermit 6000 Runs ''cred'' claimed_pg)"

lemma sample_cooling:
  "pg_credentials claimed_pg = [sample_credential]" "pc_ID sample_credential = ''cred''" "pc_HealthStatus sample_credential = HealthCooling"
  "pc_HealthGeneration sample_credential = 4" "fst (AcquireHealthPermit 6000 Runs ''cred'' claimed_pg) = Inr 5"
  "isl (fst (AcquireHealthPermit 4999 Runs ''cred'' claimed_pg))" "pg_attempts probed_pg = []"
  by code_simp+

lemma sample_distinct: "distinct_credentials claimed_pg"
  by (simp add: distinct_credentials_def sample_cooling(1))

text \<open>The probe's attempt is created and ends uncertain, with an observation that the statement drops; then somebody else asks for a permit.\<close>

definition failed_probe :: AttemptUpdate where
  "failed_probe = (attempt_update ''uncertain'')\<lparr>au_Credential := Some \<lparr>co_Kind = CredentialFailed, co_HealthGeneration = 5, co_ObservedAt = 7000,
     co_ErrorKind = ''uncertain'', co_CooldownUntil = Some 17000\<rparr>\<rparr>"

definition later_pg :: pg where
  "later_pg = ledger_step 20000 (OpPermit Runs ''cred'') (ledger_step 7000 (OpUncertain Runs sample_claim ''attempt'' failed_probe ''uncertain'' ''lost'')
     (ledger_step 6500 (OpCreateAttempt Runs ''attempt'' sample_claim ''cred'' 1) probed_pg))"

lemma later_outcome: "map atm_Status (pg_attempts later_pg) = [AtUncertain]" "map q_Status (pg_requests later_pg) = [RqUncertain]"
  by code_simp+

lemma sample_unobserved: "unobserved_reach ''cred'' 5 probed_pg later_pg"
  unfolding later_pg_def by (intro unobserved_reach.step unobserved_reach.here) simp_all

theorem one_probe_at_a_time_witness:
  "isl (fst (AcquireHealthPermit 30000 Runs ''cred'' later_pg)) \<and> ''cred'' \<notin> up_ID ` set (ListCandidates 30000 ''pool'' ''model'' later_pg)"
proof -
  have "AcquireHealthPermit 6000 Runs (pc_ID sample_credential) claimed_pg = (Inr 5, probed_pg)"
    unfolding probed_pg_def sample_cooling(2) using sample_cooling(5) by (metis prod.collapse)
  from one_probe_at_a_time [OF sample_distinct _ sample_cooling(3) this, of later_pg] show ?thesis
    using sample_unobserved by (simp add: sample_cooling)
qed

subsection \<open>A probe that never starts\<close>

text \<open>A relation between the states of a workflow that its parts compose to.\<close>

locale flow_relation =
  fixes R :: "'w \<times> 'e list \<Rightarrow> 'w \<times> 'e list \<Rightarrow> bool"
  assumes flow_refl: "R s s" and flow_trans: "R a b \<Longrightarrow> R b c \<Longrightarrow> R a c"
begin

definition follows :: "('w, 'e, 'a) flow \<Rightarrow> bool" where
  "follows m = (\<forall>s. R s (snd (run_state m s)))"

lemma follows_ret: "follows (ret a)"
  by (simp add: follows_def flow_refl)

lemma follows_bind:
  assumes "follows m" and "\<And>a. follows (f a)"
  shows "follows (State_Monad.bind m f)"
  unfolding follows_def
proof
  fix s
  obtain a s' where first: "run_state m s = (a, s')" by (cases "run_state m s")
  then have "R s s'" using assms(1) unfolding follows_def by (metis snd_conv)
  moreover have "R s' (snd (run_state (f a) s'))" using assms(2) unfolding follows_def by blast
  ultimately show "R s (snd (run_state (State_Monad.bind m f) s))" using first flow_trans [of s s'] by simp
qed

lemma follows_ask: "(\<And>w l. R (w, l) (snd (call w), l @ effects (fst (call w)))) \<Longrightarrow> follows (ask call effects)"
  by (simp add: follows_def ask_def split: prod.splits) (metis fst_conv snd_conv)

lemmas follows_rules = follows_ret follows_bind follows_ask

end

definition asked :: "effect list \<Rightarrow> uuid set" where
  "asked l = {i. HealthPermitAsked i True \<in> set l}"

definition decides :: "world \<times> effect list \<Rightarrow> world \<times> effect list \<Rightarrow> bool" where
  "decides s s' = (distinct_credentials (fst (fst s)) \<longrightarrow> (\<exists>k. snd s' = snd s @ k \<and> permits (asked k) (fst (fst s)) (fst (fst s'))))"

lemma asked_append: "asked (k @ k') = asked k \<union> asked k'"
  by (auto simp: asked_def)

lemma decides_trans:
  assumes "decides a b" and "decides b c"
  shows "decides a c"
  unfolding decides_def
proof
  assume distinct: "distinct_credentials (fst (fst a))"
  then obtain k where k: "snd b = snd a @ k" "permits (asked k) (fst (fst a)) (fst (fst b))" using assms(1) by (auto simp: decides_def)
  then have "distinct_credentials (fst (fst b))" using permits_distinct distinct by simp
  then obtain k' where "snd c = snd b @ k'" "permits (asked k') (fst (fst b)) (fst (fst c))" using assms(2) by (auto simp: decides_def)
  then show "\<exists>k. snd c = snd a @ k \<and> permits (asked k) (fst (fst a)) (fst (fst c))"
    using k permits_trans by (intro exI [of _ "k @ k'"]) (simp add: asked_append)
qed

interpretation deciding: flow_relation decides
proof
  have "asked [] = {}" by (simp add: asked_def)
  then show "decides s s" for s by (auto simp: decides_def permits_refl intro!: exI [of _ "[]"])
qed (rule decides_trans)

text \<open>The clock, the random numbers and the coordinator do not write the database.\<close>

definition quiet :: "world env \<Rightarrow> bool" where
  "quiet base = (\<forall>w. fst (snd (ev_Now base w)) = fst w \<and> fst (snd (ev_Intn base w)) = fst w \<and> (\<forall>rq. fst (snd (ev_AcquireLease base rq w)) = fst w))"

lemma decides_quiet:
  assumes "fst (snd (call w)) = fst w" and "\<And>i. HealthPermitAsked i True \<notin> set (effects (fst (call w)))"
  shows "decides (w, l) (snd (call w), l @ effects (fst (call w)))"
  using assms by (auto simp: decides_def asked_def permits_refl)

lemma decides_permit:
  "decides (w, l) (snd (ev_HealthPermit (store_env base) i w), l @ [HealthPermitAsked i (\<not> isl (fst (ev_HealthPermit (store_env base) i w)))])"
proof -
  obtain db d where w: "w = (db, d)" by (cases w)
  obtain r db' where permit: "AcquireHealthPermit (dr_times d (dr_count d)) (dr_fates d (dr_count d)) i db = (r, db')" by fastforce
  have "asked [HealthPermitAsked i (\<not> isl r)] = (case r of Inl _ \<Rightarrow> {} | Inr _ \<Rightarrow> {i})" by (cases r) (auto simp: asked_def)
  then show ?thesis using permit permit_permits [OF _ permit] by (simp add: decides_def w store_env_def store_call_def Let_def)
qed

lemma candidateDecision_follows:
  assumes "quiet base"
  shows "deciding.follows (candidateDecision rounds (store_env base) run selectionExcluded excluded earliest flagged)"
proof (induction rounds arbitrary: selectionExcluded excluded earliest flagged)
  case (Suc rounds)
  have base: "ev_Now (store_env base) = ev_Now base" "ev_Intn (store_env base) = ev_Intn base" by (simp_all add: store_env_def)
  have quiet_calls: "deciding.follows (silent (ev_Now base))" "deciding.follows (silent (ev_Intn base))"
    using assms by (auto simp: quiet_def intro!: deciding.follows_ask decides_quiet)
  have "deciding.follows (selectCandidate (store_env base) run excluded)" for excluded
    unfolding selectCandidate_def base by (intro deciding.follows_rules quiet_calls)
  then show ?case
    by (auto simp: base intro!: deciding.follows_bind deciding.follows_ret quiet_calls deciding.follows_ask decides_permit Suc split: sum.split)
qed (simp add: deciding.follows_ret)

lemma attemptDecision_follows:
  assumes "quiet base"
  shows "deciding.follows (attemptDecision rounds (store_env base) run excluded earliest flagged)"
proof (induction rounds arbitrary: excluded earliest flagged)
  case (Suc rounds)
  have base: "ev_Now (store_env base) = ev_Now base" "ev_AcquireLease (store_env base) = ev_AcquireLease base" by (simp_all add: store_env_def)
  have quiet_call: "deciding.follows (silent (ev_Now base))"
    using assms by (auto simp: quiet_def intro!: deciding.follows_ask decides_quiet)
  have "deciding.follows (acquire_lease (store_env base) run candidate)" for candidate
    unfolding acquire_lease_def base using assms
    by (intro deciding.follows_ask decides_quiet) (auto simp: quiet_def split: sum.splits)
  then show ?case
    by (auto simp: base simp del: candidateDecision.simps
        intro!: deciding.follows_bind deciding.follows_ret quiet_call candidateDecision_follows [OF assms] Suc split: sum.split option.split)
qed (simp add: deciding.follows_ret)


definition refusing_env :: "world env" where
  "refusing_env = \<lparr>
     ev_Now = (\<lambda>w. (6000, w)), ev_Canceled = (\<lambda>w. (False, w)), ev_Wait = (\<lambda>_ w. (False, w)), ev_NewUUID = (\<lambda>w. (''exec'', w)),
     ev_Intn = (\<lambda>w. (\<lambda>_. 0, w)), ev_Jitter = (\<lambda>w. (\<lambda>_. 0, w)),
     ev_ResolveModel = (\<lambda>_ _ w. (Inr kimi_k3_model, w)), ev_Admit = (\<lambda>_ w. (Inr True, w)),
     ev_RepoAccept = (\<lambda>_ w. (Inl UsageConflict, w)), ev_RepoComplete = (\<lambda>_ _ _ w. (None, w)), ev_RepoFail = (\<lambda>_ _ _ _ w. (None, w)),
     ev_RepoFailAccepted = (\<lambda>_ _ _ w. (None, w)), ev_RepoFailWithUsage = (\<lambda>_ _ _ _ _ w. (None, w)), ev_ListCandidates = (\<lambda>_ _ w. (Inr [], w)),
     ev_AcceptedSink = (\<lambda>_ w. (None, w)), ev_ClaimExecution = (\<lambda>_ _ w. (Inl ErrNotClaimable, w)), ev_HealthPermit = (\<lambda>_ w. (Inr 1, w)),
     ev_AcquireLease = (\<lambda>_ w. (Inl (CapacityError 9000), w)), ev_ReconcileLease = (\<lambda>_ _ w. (None, w)), ev_ReleaseLease = (\<lambda>_ w. (None, w)),
     ev_CreateAttempt = (\<lambda>_ _ _ w. (Inl ErrFenced, w)), ev_UpdateAttempt = (\<lambda>_ _ _ w. (None, w)), ev_MarkStreaming = (\<lambda>_ _ _ w. (None, w)),
     ev_MarkUncertain = (\<lambda>_ _ _ _ _ w. (None, w)), ev_Adapter = (\<lambda>_ w. (None, w)), ev_Secret = (\<lambda>_ w. (Inr ''secret'', w)),
     ev_BuildRequest = (\<lambda>_ _ w. (Inr ''POST'', w)), ev_Client = (\<lambda>w. (None, w)), ev_Do = (\<lambda>_ w. (Inl (CallFailed ''down''), w)),
     ev_ClassifyError = (\<lambda>_ _ _ w. (codeless_refusal, w)), ev_ParseResponse = (\<lambda>_ _ _ w. (Inr sample_response, w)),
     ev_Feed = (\<lambda>_ w. (Inr [], w)), ev_CloseParser = (\<lambda>w. (Inr [], w)), ev_ResultSink = (\<lambda>_ w. (None, w)), ev_Sink = (\<lambda>_ _ w. (None, w)),
     ev_ListCompletions = (\<lambda>_ _ w. (Inr [], w)), ev_ListQueued = (\<lambda>_ _ w. (Inr [], w)), ev_RecoverStale = (\<lambda>_ _ w. ((0, None), w))\<rparr>"

definition probe_run :: workflowRun where
  "probe_run = sample_run\<lparr>wr_candidates := ListCandidates 6000 ''pool'' ''model'' claimed_pg\<rparr>"

lemma probe_refused:
  "case run_state (attemptDecision 2 (store_env refusing_env) probe_run [] None False) ((claimed_pg, calm_driver), []) of
     (Some (_, Inl e), w, k) \<Rightarrow> ce_Kind e = ErrorRateLimit \<and> k = [HealthPermitAsked ''cred'' True] | _ \<Rightarrow> False"
  by code_simp


end
