(* ===== verification/Spec2Isabelle.thy ===== *)
theory Spec2Isabelle
  imports Circuit Routing Starvation AdmissionGate LeaseSafety RateGuarantees SSEGuarantees ModelCheck CapacitySafety CredentialHealth
begin

text \<open>
  \<^bold>\<open>Verification of the gateway's core.\<close>

  The program is an HTTP gateway in Go that accepts chat requests in the OpenAI dialect, checks them against the
  contract of the requested model, waits for a fair admission slot, chooses an upstream credential, takes
  concurrency and rate capacity for it in Redis, calls the provider, and turns the provider's answer or event
  stream back into the public dialect. Failures are classified and, where that is safe, retried.

  \<^bold>\<open>Parts and theories.\<close>

  \<^item> \<open>Prelude\<close>: Go's integers, durations, instants, maps and strings, and the lemmas on them that all theories share.
  \<^item> \<open>Resilience\<close>, \<open>Circuit\<close> (\<open>internal/resilience\<close>): the retry decision with its backoff in 64-bit
    fixed-point arithmetic, and the circuit breaker with its permits as an interleaving of critical sections.
  \<^item> \<open>Routing\<close> (\<open>internal/routing\<close>): eligibility, priorities and the weighted choice of a candidate.
  \<^item> \<open>Admission\<close>, \<open>Starvation\<close>, \<open>AdmissionGate\<close> (\<open>internal/admission\<close>): the fair queue as a record with every locked
    operation as a function, its refinement to a ring of users, a schedule in which a user starves, and the gate
    with callers and channels as a step relation.
  \<^item> \<open>Coordination\<close>, \<open>Lease\<close>, \<open>LeaseSafety\<close>, \<open>LuaNumber\<close>, \<open>Rate\<close>, \<open>RateSafety\<close>, \<open>RateQuota\<close>, \<open>RateGuarantees\<close>
    (\<open>internal/coordination\<close>): key derivation, the concurrency leases and the rate limits, each with its Lua
    script and the Go function that calls it. The Redis commands are parameters; the locales \<open>zset_store\<close> and
    \<open>hash_store\<close> state their documented behaviour and are interpreted on reference stores.
  \<^item> \<open>Canonical\<close>, \<open>SSE\<close>, \<open>SSEGuarantees\<close> (\<open>internal/canonical\<close>, the writers of \<open>internal/protocol/present.go\<close>): the
    vocabulary of requests, responses and errors, and the incremental decoder of server-sent events.
  \<^item> \<open>Capabilities\<close>, \<open>ModelCheck\<close> (\<open>internal/providers\<close>, \<open>internal/registry/types.go\<close>, \<open>internal/requestflow/service.go\<close>,
    \<open>estimate.go\<close>): the verified model profiles, the persisted contract, the check of a request against it and the
    token estimates.

  \<^item> \<open>CapacityAdapter\<close>, \<open>CapacitySafety\<close> (\<open>internal/requestflow/coordination\_adapter.go\<close>, \<open>admission\_adapter.go\<close>): the adapters that take a lease and
    rate tokens together, and the rounds of local and shared admission.
  \<^item> \<open>FlowMonad\<close>, \<open>FlowTypes\<close>, \<open>UsageService\<close>, \<open>RequestFlow\<close>, \<open>FlowSafety\<close>, \<open>FlowGuarantees\<close> (\<open>internal/requestflow\<close>, \<open>internal/usage\<close>): preparation,
    the choice of a candidate, attempts, retries, failover, streaming and recovery, as computations that call an environment and log their
    effects. The interfaces of the service are the fields of the environment; the theorems hold for every environment, or name the contract of the
    field they rely on.
  \<^item> \<open>Database\<close>, \<open>Ledger\<close>, \<open>LedgerSafety\<close>, \<open>LedgerGuarantees\<close> (\<open>internal/store\<close>): the tables that the request path uses, its SQL statements as functions
    on them, the repositories as transactions, and what every sequence of their operations keeps.
  \<^item> \<open>LedgerFlow\<close>, \<open>CredentialHealth\<close>: the workflow on the repositories of the store: recovery settles what was left behind, and the shared health of
    credentials from cooldown to probe and back.

  \<^bold>\<open>How the model corresponds to the code.\<close> A struct is a record with prefixed field names, an enumeration a
  datatype, a pointer an option, an error return the left summand of a sum or an error option. Locked sections are
  functions from state to state; clock readings, random numbers, hashes and the replies of Redis are
  arguments. Times are integers in nanoseconds. Integers are unbounded where the code's guards keep them in
  range and wrap with \<open>wrap64\<close> where they do not; numbers that pass through Lua or \<open>float64\<close> are rounded to 53 binary
  digits. Loops are structural recursion or functions with a termination proof, except for the three nested loops of the workflow, which take a
  bound on their rounds: one more than the number of candidates for the two selections and \<open>attempt\_bound\<close>, the attempt budget plus the number of
  candidates, for the attempts; \<open>attempts\_bounded\<close> shows that the bounds are never reached. A response body is a finite sequence of
  reads.

  A row of a table is a record, a table a list of rows, and a statement a function from the database to its result and the database after it, with the
  conditions of its \<open>WHERE\<close> clause, the constraints of the tables and the order of its \<open>ORDER BY\<close>. Times are cut to microseconds where they enter a
  parameter. A transaction is atomic; its \<open>fate\<close> says whether it starts, commits, is refused, or commits while the answer is lost.

  \<^bold>\<open>What the lemmas show.\<close> Per component: an invariant that every operation keeps, under every interleaving for
  the circuit, the queue and the gate and over every sequence of calls for leases and quotas; the result of each
  operation on every branch; refinement of the queue to a ring and of the stores to reference stores; fairness
  and recovery; bounds of backoff, buffers and estimates; independence of the decoder from the cutting of its input
  and its round trip with the writers; the round trip of capability contracts. For the workflow: a request is sent again only after a rejection that
  is safe to repeat, the number of attempts is bounded, permits and leases are given back, and an accepted request ends in the ledger. For
  the ledger: its well-formedness, the finality of outcomes, one execution per request, the fence against stale claims, idempotent acceptance, what one
  pass of recovery achieves, and one probe per cooldown. Where the code departs from its documents the theorem states what it does: the
  starving user, the late refund, the unrecorded rejection and the lost probe.

  \<^bold>\<open>Not modelled.\<close> HTTP serving and routing, the administration services with their statements, the generated scanning of rows, the providers' JSON
  bodies, cryptography, configuration parsing, metrics and the web client: they are glue, input and output, or libraries.
\<close>

end
